(* ===== verification/Prelude.thy ===== *)
theory Prelude
  imports Main "HOL-Library.Word"
begin

text \<open>
  Shared vocabulary of the development: error results as sums, Go's
  string helpers on byte strings, membership of a name in a list, and the collections of
  simplification rules the component theories add to.

  Strings are byte strings (\<^typ>\<open>string\<close>). The case and white space helpers
  are given on ASCII; a byte outside ASCII is left as it is.
\<close>

named_theorems list_helpers \<open>facts about the list and string helpers\<close>
named_theorems gate_simps \<open>unfolding rules for guards and early returns\<close>

section \<open>Error results\<close>

text \<open>A Go function returning a value and an error: \<open>Inl\<close> is the error.\<close>

fun ebind :: "'e + 'a \<Rightarrow> ('a \<Rightarrow> 'e + 'b) \<Rightarrow> 'e + 'b" where
  "ebind (Inl e) f = Inl e"
| "ebind (Inr x) f = f x"

lemma ebind_Inr_iff [gate_simps]:
  "ebind r f = Inr y \<longleftrightarrow> (\<exists>x. r = Inr x \<and> f x = Inr y)"
  by (cases r) auto

lemma ebind_Inl_iff [gate_simps]:
  "ebind r f = Inl e \<longleftrightarrow> r = Inl e \<or> (\<exists>x. r = Inr x \<and> f x = Inl e)"
  by (cases r) auto

definition guard_err :: "bool \<Rightarrow> 'e \<Rightarrow> 'e + unit" where
  "guard_err b e = (if b then Inl e else Inr ())"

lemma guard_err_Inr [simp, gate_simps]: "guard_err b e = Inr u \<longleftrightarrow> \<not> b"
  by (simp add: guard_err_def)

lemma guard_err_Inl [simp, gate_simps]: "guard_err b e = Inl e' \<longleftrightarrow> b \<and> e' = e"
  by (auto simp add: guard_err_def)

section \<open>Integers of 64 bits\<close>

text \<open>
  Arithmetic on \<open>int64\<close> wraps, that of \<open>time.Duration\<close> (nanoseconds) and of the seconds inside a
  \<open>time.Time\<close> included.
\<close>

definition wrap64 :: "int \<Rightarrow> int" where
  "wrap64 x = (x + 2 ^ 63) mod 2 ^ 64 - 2 ^ 63"

lemma wrap64_small: "0 \<le> x \<Longrightarrow> x < 2 ^ 63 \<Longrightarrow> wrap64 x = x"
  by (simp add: wrap64_def)

lemma wrap64_range: "- (2 ^ 63) \<le> wrap64 x \<and> wrap64 x < 2 ^ 63"
proof -
  have "0 \<le> (x + 2 ^ 63) mod 2 ^ 64" "(x + 2 ^ 63) mod 2 ^ 64 < (2::int) ^ 64" by simp_all
  then show ?thesis by (simp add: wrap64_def)
qed

section \<open>Strings\<close>

text \<open>\<open>strings.HasPrefix\<close>, \<open>strings.CutPrefix\<close>, \<open>strings.TrimSuffix\<close>.\<close>

fun has_prefix :: "string \<Rightarrow> string \<Rightarrow> bool" where
  "has_prefix s [] = True"
| "has_prefix [] (p # ps) = False"
| "has_prefix (c # cs) (p # ps) = (c = p \<and> has_prefix cs ps)"

fun cut_prefix :: "string \<Rightarrow> string \<Rightarrow> string option" where
  "cut_prefix s [] = Some s"
| "cut_prefix [] (p # ps) = None"
| "cut_prefix (c # cs) (p # ps) = (if c = p then cut_prefix cs ps else None)"

definition trim_suffix :: "string \<Rightarrow> string \<Rightarrow> string" where
  "trim_suffix s x =
     (case cut_prefix (rev s) (rev x) of None \<Rightarrow> s | Some r \<Rightarrow> rev r)"

text \<open>\<open>strings.Cut\<close> around the first occurrence of one byte.\<close>

fun cut_byte :: "char \<Rightarrow> string \<Rightarrow> (string \<times> string) option" where
  "cut_byte c [] = None"
| "cut_byte c (x # xs) =
     (if x = c then Some ([], xs)
      else map_option (\<lambda>(a, b). (x # a, b)) (cut_byte c xs))"

definition last_cut_byte :: "char \<Rightarrow> string \<Rightarrow> string option" where
  "last_cut_byte c s = map_option (\<lambda>(a, b). rev b) (cut_byte c (rev s))"

definition replace_byte :: "char \<Rightarrow> char \<Rightarrow> string \<Rightarrow> string" where
  "replace_byte a b s = map (\<lambda>c. if c = a then b else c) s"

text \<open>\<open>strings.ToUpper\<close> and \<open>strings.TrimSpace\<close> on ASCII.\<close>

definition upper_char :: "char \<Rightarrow> char" where
  "upper_char c =
     (let n = (of_char c :: nat) in if 97 \<le> n \<and> n \<le> 122 then char_of (n - 32) else c)"

definition to_upper :: "string \<Rightarrow> string" where
  "to_upper s = map upper_char s"

definition is_space :: "char \<Rightarrow> bool" where
  "is_space c = (let n = (of_char c :: nat) in n = 32 \<or> (9 \<le> n \<and> n \<le> 13))"

definition trim_space :: "string \<Rightarrow> string" where
  "trim_space s = rev (dropWhile is_space (rev (dropWhile is_space s)))"

text \<open>\<open>strings.Contains\<close>.\<close>

fun str_contains :: "string \<Rightarrow> string \<Rightarrow> bool" where
  "str_contains [] x = (x = [])"
| "str_contains (c # cs) x = (has_prefix (c # cs) x \<or> str_contains cs x)"

lemma has_prefix_append [simp, list_helpers]: "has_prefix (p @ s) p"
  by (induction p) auto

lemma has_prefix_conv: "has_prefix s p \<longleftrightarrow> (\<exists>r. s = p @ r)"
  by (induction s p rule: has_prefix.induct) auto

lemma cut_prefix_conv [list_helpers]: "cut_prefix s p = Some r \<longleftrightarrow> s = p @ r"
  by (induction s p rule: cut_prefix.induct) auto

lemma cut_prefix_None: "cut_prefix s p = None \<longleftrightarrow> \<not> has_prefix s p"
  by (induction s p rule: cut_prefix.induct) auto

lemma trim_suffix_append [simp, list_helpers]: "trim_suffix (s @ x) x = s"
proof -
  have "cut_prefix (rev (s @ x)) (rev x) = Some (rev s)"
    by (simp add: cut_prefix_conv)
  then show ?thesis by (simp add: trim_suffix_def)
qed

lemma cut_byte_Some: "cut_byte c s = Some (a, b) \<Longrightarrow> s = a @ c # b \<and> c \<notin> set a"
  by (induction s arbitrary: a) (auto split: if_splits)

lemma cut_byte_None: "cut_byte c s = None \<longleftrightarrow> c \<notin> set s"
  by (induction s) auto

lemma cut_byte_append: "c \<notin> set a \<Longrightarrow> cut_byte c (a @ c # b) = Some (a, b)"
  by (induction a) auto

lemma last_cut_byte_append [list_helpers]:
  "c \<notin> set b \<Longrightarrow> last_cut_byte c (a @ c # b) = Some a"
  by (simp add: last_cut_byte_def cut_byte_append)

text \<open>\<open>%d\<close> and \<open>strconv.Itoa\<close> of a natural number.\<close>

fun dec :: "nat \<Rightarrow> string" where
  "dec n = (if n < 10 then [char_of (48 + n)] else dec (n div 10) @ [char_of (48 + n mod 10)])"

declare dec.simps [simp del]

lemma dec_nonempty [simp]: "dec n \<noteq> []"
  by (subst dec.simps) simp

section \<open>Lists of names\<close>

text \<open>The double loop shared by scopes and set intersections.\<close>

fun contains_string :: "string list \<Rightarrow> string \<Rightarrow> bool" where
  "contains_string [] s = False"
| "contains_string (v # vs) s = (v = s \<or> contains_string vs s)"

lemma contains_string_iff [simp, list_helpers]: "contains_string ss s \<longleftrightarrow> s \<in> set ss"
  by (induction ss) auto

text \<open>A Go slice whose nil and empty values differ is an \<open>option\<close> of a list.\<close>

definition or_nil :: "'a list option \<Rightarrow> 'a list" where
  "or_nil xs = (case xs of None \<Rightarrow> [] | Some ys \<Rightarrow> ys)"

lemma or_nil_simps [simp]: "or_nil None = []" "or_nil (Some ys) = ys"
  by (simp_all add: or_nil_def)

text \<open>First element satisfying a test, as every \<open>for range\<close> with an early return.\<close>

lemma find_Some_set: "List.find P xs = Some x \<Longrightarrow> x \<in> set xs \<and> P x"
  by (induction xs) (auto split: if_splits)

lemma find_None_all: "List.find P xs = None \<Longrightarrow> x \<in> set xs \<Longrightarrow> \<not> P x"
  by (induction xs) (auto split: if_splits)

lemma map_of_in_set: "map_of xs k = Some v \<Longrightarrow> (k, v) \<in> set xs"
  by (rule map_of_SomeD)

end
