(* ===== verification/Proto.thy ===== *)
theory Proto
  imports Prelude
begin

text \<open>
  Protobuf descriptors and message values, as \<open>protoreflect\<close> shows them to the program.

  A descriptor is an index into a pool, so descriptor identity (what the plan cache and the card
  cache are keyed on) and the full name (what the card walk recognises) stay two different things.
  A message is its descriptor with its \<^emph>\<open>populated\<close> fields in declaration order: a field is in the
  list exactly when \<open>Has\<close> answers true, so an empty list or an unset scalar is absent and reads as
  its default. A loop over \<open>Descriptor().Fields()\<close> that skips every field \<open>Has\<close> is false for is a
  walk over that list.
\<close>

section \<open>Descriptors\<close>

type_synonym md = nat

datatype kind =
    BoolKind | EnumKind | Int32Kind | Sint32Kind | Uint32Kind | Int64Kind | Sint64Kind
  | Uint64Kind | Sfixed32Kind | Fixed32Kind | FloatKind | Sfixed64Kind | Fixed64Kind
  | DoubleKind | StringKind | BytesKind | MessageKind | GroupKind

record vtype =
  vt_Kind :: kind
  vt_Message :: "md option"
  vt_Enum :: "string list"

datatype fshape = FSingle | FList | FMap vtype

record fdesc =
  fd_Name :: string
  fd_FullName :: string
  fd_Number :: nat
  fd_Type :: vtype
  fd_Shape :: fshape
  fd_HasPresence :: bool

definition fd_Kind :: "fdesc \<Rightarrow> kind" where "fd_Kind fd = vt_Kind (fd_Type fd)"
definition fd_Message :: "fdesc \<Rightarrow> md option" where "fd_Message fd = vt_Message (fd_Type fd)"
definition is_list :: "fdesc \<Rightarrow> bool" where "is_list fd = (fd_Shape fd = FList)"
definition is_map :: "fdesc \<Rightarrow> bool" where
  "is_map fd = (case fd_Shape fd of FMap _ \<Rightarrow> True | _ \<Rightarrow> False)"

lemma is_map_not_list [simp]: "is_map fd \<Longrightarrow> \<not> is_list fd"
  by (auto simp: is_map_def is_list_def split: fshape.splits)

record mdesc =
  md_FullName :: string
  md_Fields :: "fdesc list"

type_synonym pool = "mdesc list"

definition md_of :: "pool \<Rightarrow> md \<Rightarrow> mdesc" where
  "md_of P i = (if i < length P then P ! i else \<lparr>md_FullName = [], md_Fields = []\<rparr>)"

abbreviation full_name :: "pool \<Rightarrow> md \<Rightarrow> string" where
  "full_name P i \<equiv> md_FullName (md_of P i)"

abbreviation fields_of :: "pool \<Rightarrow> md \<Rightarrow> fdesc list" where
  "fields_of P i \<equiv> md_Fields (md_of P i)"

definition by_name :: "pool \<Rightarrow> md \<Rightarrow> string \<Rightarrow> fdesc option" where
  "by_name P i n = List.find (\<lambda>fd. fd_Name fd = n) (fields_of P i)"

definition by_number :: "pool \<Rightarrow> md \<Rightarrow> nat \<Rightarrow> fdesc option" where
  "by_number P i n = List.find (\<lambda>fd. fd_Number fd = n) (fields_of P i)"

lemma by_name_Some: "by_name P i n = Some fd \<Longrightarrow> fd \<in> set (fields_of P i) \<and> fd_Name fd = n"
  unfolding by_name_def by (rule find_Some_set)

section \<open>Messages\<close>

datatype pmsg = Msg (pm_desc: md) (pm_fields: "pfield list")
  and pfield = Fld (pf_desc: fdesc) (pf_val: pval)
  and pval =
    VBool bool | VInt int | VFloat int int | VEnum int | VStr string | VBytes string
  | VMsg pmsg | VList "pval list" | VMap "pentry list"
  and pentry = Ent string pval

text \<open>\<open>Has\<close> and \<open>Get\<close> of a field, found by its descriptor's name within the message.\<close>

definition get_in :: "pfield list \<Rightarrow> string \<Rightarrow> pval option" where
  "get_in fs n = map_option pf_val (List.find (\<lambda>f. fd_Name (pf_desc f) = n) fs)"

definition get_fd :: "pmsg \<Rightarrow> fdesc \<Rightarrow> pval option" where
  "get_fd m fd = get_in (pm_fields m) (fd_Name fd)"

definition has_fd :: "pmsg \<Rightarrow> fdesc \<Rightarrow> bool" where
  "has_fd m fd = (get_fd m fd \<noteq> None)"

text \<open>
  \<open>Mutable\<close> followed by a write: the field's value is replaced, or the field appears at its
  declared position.
\<close>

definition declared_at :: "pool \<Rightarrow> md \<Rightarrow> string \<Rightarrow> nat" where
  "declared_at P i n = length (takeWhile (\<lambda>fd. fd_Name fd \<noteq> n) (fields_of P i))"

definition put_fd :: "pool \<Rightarrow> pmsg \<Rightarrow> fdesc \<Rightarrow> pval \<Rightarrow> pmsg" where
  "put_fd P m fd v =
     (let before = (\<lambda>f. declared_at P (pm_desc m) (fd_Name (pf_desc f))
                        < declared_at P (pm_desc m) (fd_Name fd));
          others = filter (\<lambda>f. fd_Name (pf_desc f) \<noteq> fd_Name fd) (pm_fields m)
      in Msg (pm_desc m) (takeWhile before others @ Fld fd v # dropWhile before others))"

lemma put_fd_fields: "set (pm_fields (put_fd P m fd v)) \<subseteq> insert (Fld fd v) (set (pm_fields m))"
  by (auto simp: put_fd_def Let_def dest: set_takeWhileD set_dropWhileD)

lemma put_fd_desc [simp]: "pm_desc (put_fd P m fd v) = pm_desc m"
  by (simp add: put_fd_def Let_def)

text \<open>The message a singular message value holds; anything else reads as no message.\<close>

fun as_msg :: "pval \<Rightarrow> pmsg option" where
  "as_msg (VMsg m) = Some m"
| "as_msg _ = None"

fun as_list :: "pval \<Rightarrow> pval list" where
  "as_list (VList vs) = vs"
| "as_list _ = []"

fun as_map :: "pval \<Rightarrow> pentry list" where
  "as_map (VMap es) = es"
| "as_map _ = []"

fun as_str :: "pval \<Rightarrow> string" where
  "as_str (VStr s) = s"
| "as_str _ = []"

fun as_enum :: "pval \<Rightarrow> int" where
  "as_enum (VEnum n) = n"
| "as_enum _ = 0"

lemma as_msg_Some: "as_msg v = Some m \<longleftrightarrow> v = VMsg m"
  by (cases v) auto

fun ent_val :: "pentry \<Rightarrow> pval" where
  "ent_val (Ent k v) = v"

end
