(* ===== verification/Tool.thy ===== *)
theory Tool
  imports Proto
begin

text \<open>
  \<open>internal/tool/tool.go\<close>: the in-memory form of a tool declaration, the service its route names,
  and the audience rule the listing applies.

  Protobuf enums are open, so an enum value is its number (an \<^typ>\<open>int\<close>); the named values are the
  ones the program compares with. A duration is a number of nanoseconds.
\<close>

type_synonym clearance = int
type_synonym verb = int
type_synonym principal_kind = int
type_synonym approval_mode = int
type_synonym audit_level = int

abbreviation CLEARANCE_UNSPECIFIED :: clearance where "CLEARANCE_UNSPECIFIED \<equiv> 0"
abbreviation CLEARANCE_PUBLIC :: clearance where "CLEARANCE_PUBLIC \<equiv> 10"
abbreviation CLEARANCE_INTERNAL :: clearance where "CLEARANCE_INTERNAL \<equiv> 20"
abbreviation CLEARANCE_CONFIDENTIAL :: clearance where "CLEARANCE_CONFIDENTIAL \<equiv> 30"
abbreviation CLEARANCE_RESTRICTED :: clearance where "CLEARANCE_RESTRICTED \<equiv> 40"
abbreviation VERB_UNSPECIFIED :: verb where "VERB_UNSPECIFIED \<equiv> 0"
abbreviation VERB_READ :: verb where "VERB_READ \<equiv> 1"
abbreviation VERB_WRITE :: verb where "VERB_WRITE \<equiv> 2"
abbreviation VERB_DESTRUCTIVE :: verb where "VERB_DESTRUCTIVE \<equiv> 3"
abbreviation MODE_UNSPECIFIED :: approval_mode where "MODE_UNSPECIFIED \<equiv> 0"
abbreviation MODE_NONE :: approval_mode where "MODE_NONE \<equiv> 1"
abbreviation MODE_NOTIFY :: approval_mode where "MODE_NOTIFY \<equiv> 2"
abbreviation MODE_GRANT :: approval_mode where "MODE_GRANT \<equiv> 3"
abbreviation LEVEL_UNSPECIFIED :: audit_level where "LEVEL_UNSPECIFIED \<equiv> 0"
abbreviation LEVEL_LEDGER :: audit_level where "LEVEL_LEDGER \<equiv> 1"
abbreviation LEVEL_AUDIT :: audit_level where "LEVEL_AUDIT \<equiv> 2"

record tooldef =
  t_FullMethod :: string
  t_FQN :: string
  t_Name :: string
  t_ClientName :: string
  t_Title :: string
  t_Description :: string
  t_Verb :: verb
  t_MinClearance :: clearance
  t_Compartments :: "string list"
  t_Sets :: "string list"
  t_Audience :: "string list"
  t_Input :: "md option"
  t_Output :: "md option"
  t_ApprovalMode :: approval_mode
  t_ApproverMinClearance :: clearance
  t_ApproverCompartments :: "string list"
  t_MaxGrantAge :: int
  t_MaterialFields :: "string list"
  t_AuditLevel :: audit_level
  t_AuditRecordRequest :: bool
  t_AuditRecordResponse :: bool
  t_AuditRetainDays :: nat
  t_AuditFailClosed :: bool
  t_HasAuthorization :: bool
  t_Idempotent :: bool
  t_Reversibility :: int
  t_External :: bool
  t_WhenToUse :: string
  t_WhenNotToUse :: string
  t_OnError :: string
  t_FieldDocs :: "(string \<times> string) list"

text \<open>The zero value of the struct.\<close>

definition zero_tool :: tooldef where
  "zero_tool = \<lparr>t_FullMethod = [], t_FQN = [], t_Name = [], t_ClientName = [], t_Title = [],
     t_Description = [], t_Verb = 0, t_MinClearance = 0, t_Compartments = [], t_Sets = [],
     t_Audience = [], t_Input = None, t_Output = None, t_ApprovalMode = 0,
     t_ApproverMinClearance = 0, t_ApproverCompartments = [], t_MaxGrantAge = 0,
     t_MaterialFields = [], t_AuditLevel = 0, t_AuditRecordRequest = False,
     t_AuditRecordResponse = False, t_AuditRetainDays = 0, t_AuditFailClosed = False,
     t_HasAuthorization = False, t_Idempotent = False, t_Reversibility = 0, t_External = False,
     t_WhenToUse = [], t_WhenNotToUse = [], t_OnError = [], t_FieldDocs = []\<rparr>"

section \<open>The service a route names\<close>

definition service_of_route :: "string \<Rightarrow> string" where
  "service_of_route r =
     (case cut_prefix r ''/'' of
        None \<Rightarrow> []
      | Some rest \<Rightarrow>
          (case cut_byte (CHR ''/'') rest of None \<Rightarrow> [] | Some (svc, _) \<Rightarrow> svc))"

definition Service :: "tooldef \<Rightarrow> string" where
  "Service d = service_of_route (t_FullMethod d)"

lemma service_of_route_wf:
  assumes "CHR ''/'' \<notin> set svc"
  shows "service_of_route (CHR ''/'' # svc @ CHR ''/'' # meth) = svc"
  using assms by (simp add: service_of_route_def cut_byte_append)

lemma service_of_route_no_slash: "CHR ''/'' \<notin> set (service_of_route r)"
proof (cases "cut_prefix r ''/''")
  case (Some rest)
  then show ?thesis
    by (cases "cut_byte (CHR ''/'') rest") (auto simp: service_of_route_def dest: cut_byte_Some)
qed (simp add: service_of_route_def)

lemma service_of_route_Cons:
  "service_of_route r = s \<Longrightarrow> s \<noteq> [] \<Longrightarrow> \<exists>m. r = CHR ''/'' # s @ CHR ''/'' # m"
  by (auto simp: service_of_route_def cut_prefix_conv dest!: cut_byte_Some split: option.splits)

section \<open>Audiences\<close>

definition AudiencePerson :: string where "AudiencePerson = ''PERSON''"
definition AudienceAgent :: string where "AudienceAgent = ''AGENT''"
definition AudienceRunner :: string where "AudienceRunner = ''RUNNER''"
definition AudienceUnspecified :: string where "AudienceUnspecified = ''UNSPECIFIED''"

lemmas audience_defs = AudiencePerson_def AudienceAgent_def AudienceRunner_def
  AudienceUnspecified_def

definition normalise_audience :: "string \<Rightarrow> string option" where
  "normalise_audience s =
     (let name = to_upper (trim_space s);
          name = (case cut_prefix name ''AUDIENCE_'' of
                    Some rest \<Rightarrow> if rest \<noteq> [] then rest else name
                  | None \<Rightarrow> name)
      in if name \<in> {AudiencePerson, AudienceAgent, AudienceRunner} then Some name
         else if name = [] \<or> name = AudienceUnspecified then Some AudienceUnspecified
         else None)"

fun audience_loop :: "string list \<Rightarrow> string \<Rightarrow> bool" where
  "audience_loop [] want = False"
| "audience_loop (d # ds) want =
     (if d = want then True
      else if d = AudienceUnspecified \<and> want = AudienceAgent then True
      else audience_loop ds want)"

definition audience_admits :: "string list \<Rightarrow> string \<Rightarrow> bool" where
  "audience_admits declared want =
     (let want = (if want = [] \<or> want = AudienceUnspecified then AudienceAgent else want)
      in if declared = [] then want = AudienceAgent else audience_loop declared want)"

lemma audience_loop_iff:
  "audience_loop ds want \<longleftrightarrow>
     want \<in> set ds \<or> (want = AudienceAgent \<and> AudienceUnspecified \<in> set ds)"
  by (induction ds) auto

text \<open>What the rule says: an absent or unspecified audience reads as AGENT on both sides.\<close>

definition audience_reads :: "string list \<Rightarrow> string set" where
  "audience_reads ds =
     (if ds = [] then {AudienceAgent}
      else (\<lambda>d. if d = AudienceUnspecified then AudienceAgent else d) ` set ds)"

lemma audience_admits_iff:
  "audience_admits ds want \<longleftrightarrow>
     (if want = [] \<or> want = AudienceUnspecified then AudienceAgent else want) \<in> audience_reads ds"
  by (auto simp: audience_admits_def audience_reads_def audience_loop_iff image_iff audience_defs)

lemma normalise_audience_range:
  "normalise_audience s = Some a \<Longrightarrow>
     a \<in> {AudiencePerson, AudienceAgent, AudienceRunner, AudienceUnspecified}"
  by (auto simp: normalise_audience_def Let_def split: if_splits option.splits)

lemma normalise_audience_idem:
  assumes "normalise_audience s = Some a"
  shows "normalise_audience a = Some a"
proof -
  have "\<forall>a \<in> {AudiencePerson, AudienceAgent, AudienceRunner, AudienceUnspecified}.
          normalise_audience a = Some a"
    by (simp add: normalise_audience_def audience_defs to_upper_def upper_char_def trim_space_def
        is_space_def Let_def)
  with normalise_audience_range[OF assms] show ?thesis by blast
qed

end
