(* ===== verification/Principal.thy ===== *)
theory Principal
  imports Tool
begin

unbundle bit_operations_syntax

text \<open>
  \<open>internal/toolplane/principal.go\<close>: verb sets and principals; and the interface of the library
  package \<open>contracts/policy\<close>, whose code is not part of this repository. Its functions are the
  fields of the record \<open>policy_pkg\<close>; what the program relies on is stated by the predicates
  \<open>allows_order\<close> and \<open>covers_order\<close>.
\<close>

section \<open>The policy package\<close>

type_synonym comp_set = nat

record registry =
  rg_Set :: "string list \<Rightarrow> string + comp_set"
  rg_SetLenient :: "string list \<Rightarrow> comp_set \<times> string list"
  rg_Names :: "comp_set \<Rightarrow> string list"

record policy_action =
  a_Name :: string
  a_Path :: "nat list"
  a_Read :: clearance
  a_Write :: clearance
  a_Need :: comp_set
  a_IsSubtree :: bool

record plan =
  pl_Desc :: md
  pl_Actions :: "policy_action list"

record resolved =
  rs_Hash :: string
  rs_Disclosed :: "string list"

record decl =
  dc_Name :: string
  dc_Title :: string

record policy_pkg =
  pk_Allows :: "clearance \<Rightarrow> clearance \<Rightarrow> bool"
  pk_Covers :: "comp_set \<Rightarrow> comp_set \<Rightarrow> bool"
  pk_NewRegistry :: "decl list \<Rightarrow> string + registry"
  pk_Compile :: "md \<Rightarrow> registry \<Rightarrow> string + plan"
  pk_Resolve :: "plan \<Rightarrow> clearance \<Rightarrow> comp_set \<Rightarrow> resolved"
  pk_Sanitize :: "pmsg \<Rightarrow> resolved \<Rightarrow> string \<Rightarrow> string \<Rightarrow> pmsg \<times> string list"
  pk_DefaultPolicy :: "md \<Rightarrow> (clearance \<times> string list) option"

text \<open>
  \<open>Allows have need\<close> is a comparison of two clearances and \<open>Covers have need\<close> an inclusion of two
  compartment sets. Only their reflexivity and transitivity are ever used.
\<close>

definition allows_order :: "(clearance \<Rightarrow> clearance \<Rightarrow> bool) \<Rightarrow> bool" where
  "allows_order A \<longleftrightarrow> (\<forall>a. A a a) \<and> (\<forall>a b c. A a b \<longrightarrow> A b c \<longrightarrow> A a c)"

definition covers_order :: "(comp_set \<Rightarrow> comp_set \<Rightarrow> bool) \<Rightarrow> bool" where
  "covers_order C \<longleftrightarrow> (\<forall>a. C a a) \<and> (\<forall>a b c. C a b \<longrightarrow> C b c \<longrightarrow> C a c)"

text \<open>One concrete package satisfying them, for evaluation: enum order and bitset inclusion.\<close>

definition num_allows :: "clearance \<Rightarrow> clearance \<Rightarrow> bool" where
  "num_allows have need = (need \<le> have)"

definition bit_covers :: "comp_set \<Rightarrow> comp_set \<Rightarrow> bool" where
  "bit_covers have need = ((have AND need) = need)"

lemma num_allows_order: "allows_order num_allows"
  by (auto simp: allows_order_def num_allows_def)

lemma bit_covers_order: "covers_order bit_covers"
proof -
  have "(a AND c) = c" if ab: "(a AND b) = b" and bc: "(b AND c) = c" for a b c :: nat
  proof -
    have "a AND c = a AND (b AND c)" using bc by simp
    also have "\<dots> = (a AND b) AND c" by (simp add: and.assoc)
    also have "\<dots> = c" using ab bc by simp
    finally show ?thesis .
  qed
  then show ?thesis by (auto simp: covers_order_def bit_covers_def)
qed

section \<open>Verb sets\<close>

type_synonym verb_set = "8 word"

text \<open>
  \<open>1 << uint(v)\<close> at width 8: a number past the width shifts the bit out, and a negative verb
  becomes a number past every width.
\<close>

definition verb_bit :: "verb \<Rightarrow> verb_set" where
  "verb_bit v = (if v < 0 then 0 else push_bit (nat v) 1)"

fun verb_set_add :: "verb_set \<Rightarrow> verb list \<Rightarrow> verb_set" where
  "verb_set_add out [] = out"
| "verb_set_add out (v # vs) =
     (if v = VERB_UNSPECIFIED then verb_set_add out vs
      else verb_set_add (out OR verb_bit v) vs)"

definition NewVerbSet :: "verb list \<Rightarrow> verb_set" where
  "NewVerbSet vs = verb_set_add 0 vs"

definition Has :: "verb_set \<Rightarrow> verb \<Rightarrow> bool" where
  "Has s v = (if v = VERB_UNSPECIFIED then False else (s AND verb_bit v) \<noteq> 0)"

definition Intersect :: "verb_set \<Rightarrow> verb_set \<Rightarrow> verb_set" where
  "Intersect s u = (s AND u)"

lemma and_bit_nonzero: "0 \<le> v \<Longrightarrow> (s AND verb_bit v) \<noteq> 0 \<longleftrightarrow> bit s (nat v)"
  by (simp add: verb_bit_def push_bit_of_1 and_exp_eq_0_iff_not_bit)

lemma Has_iff: "Has s v \<longleftrightarrow> 0 < v \<and> bit s (nat v)"
proof (cases "v < 0")
  case True
  then show ?thesis by (simp add: Has_def verb_bit_def)
next
  case False
  then show ?thesis using and_bit_nonzero[of v s] by (auto simp: Has_def)
qed

lemma bit_word8: "bit (s :: 8 word) n \<Longrightarrow> n < 8"
  using bit_imp_le_length[of s n] by simp

lemma bit_verb_bit: "bit (verb_bit v) n \<longleftrightarrow> 0 \<le> v \<and> n = nat v \<and> n < 8"
  by (auto simp: verb_bit_def push_bit_of_1 bit_exp_iff possible_bit_word)

lemma bit_verb_set_add:
  "bit (verb_set_add out vs) n \<longleftrightarrow>
     bit out n \<or> (\<exists>v \<in> set vs. 0 < v \<and> n = nat v \<and> n < 8)"
  by (induction out vs rule: verb_set_add.induct) (auto simp: bit_or_iff bit_verb_bit)

lemma Has_NewVerbSet: "Has (NewVerbSet vs) v \<longleftrightarrow> v \<in> set vs \<and> 0 < v \<and> v < 8"
  by (auto simp: Has_iff NewVerbSet_def bit_verb_set_add) (metis int_nat_eq less_imp_le)

lemma Has_Intersect [simp]: "Has (Intersect s u) v \<longleftrightarrow> Has s v \<and> Has u v"
  by (auto simp: Has_iff Intersect_def bit_and_iff)

lemma Has_zero [simp]: "\<not> Has 0 v"
  by (simp add: Has_def)

section \<open>Principals\<close>

record chain_entry =
  ce_Subject :: string
  ce_Kind :: principal_kind

record principal =
  p_Subject :: string
  p_Actor :: string
  p_Kind :: principal_kind
  p_Chain :: "chain_entry list"
  p_Tenant :: string
  p_Clearance :: clearance
  p_Compartments :: comp_set
  p_Verbs :: verb_set
  p_TokenID :: string
  p_Execution :: string
  p_ToolSets :: "string list option"

text \<open>\<open>Shape\<close>: the only two parts of a principal the plan cache is keyed on.\<close>

definition Shape :: "principal \<Rightarrow> clearance \<times> comp_set" where
  "Shape p = (p_Clearance p, p_Compartments p)"

end
