(* ===== verification/Errors.thy ===== *)
theory Errors
  imports Prelude
begin

text \<open>
  \<open>internal/toolplane/errors.go\<close>, with the sentinels of the other packages: Go's error values as a
  tree, \<open>errors.Is\<close> and \<open>errors.As\<close> as searches of that tree, the codes a refusal carries, and the
  scrub that keeps an error's text off the wire.

  \<open>connect.CodeOf\<close> is library code: it is the parameter \<open>codeOf\<close>, and \<open>codeOf_spec\<close> is its documented
  behaviour.
\<close>

section \<open>Error values\<close>

datatype sentinel =
    SNotFound | SPermissionDenied | SUnauthenticated | SUnimplemented | SInternal
  | SInvalidArgument | SUnavailable
  | SGrantRequired | SGrantRefused | SGrantUnavailable
  | SNoSuchKey | SAlreadySpent | SUnreachable | SIncompleteRound | STooLarge
  | SForeign string

datatype ccode =
    CodeCanceled | CodeUnknown | CodeInvalidArgument | CodeDeadlineExceeded | CodeNotFound
  | CodeAlreadyExists | CodePermissionDenied | CodeResourceExhausted | CodeFailedPrecondition
  | CodeAborted | CodeOutOfRange | CodeUnimplemented | CodeInternal | CodeUnavailable
  | CodeDataLoss | CodeUnauthenticated

datatype err_detail = InfoDetail string | OtherDetail string | BadDetail

text \<open>A violation as a caller may see it (\<open>violations.go\<close>).\<close>

record violation =
  vl_Field :: string
  vl_Rule :: string
  vl_Message :: string

text \<open>
  \<open>Plain\<close> is an error with a text and no type of interest, \<open>Wrapped\<close> one built with \<open>%w\<close> verbs,
  \<open>ConnectErr\<close> is \<open>*connect.Error\<close>, \<open>CodedError\<close> is \<open>*transport.CodedError\<close>.
\<close>

datatype go_err =
    Sentinel sentinel
  | ToolRefusal string
  | ValidationRefusal "violation list"
  | CodedError string string
  | ConnectErr ccode go_err "err_detail list"
  | Plain string
  | Wrapped string "go_err list"

text \<open>The tree in the order \<open>errors.Is\<close> and \<open>errors.As\<close> visit it.\<close>

fun err_tree :: "go_err \<Rightarrow> go_err list" where
  "err_tree (ValidationRefusal vs) = [ValidationRefusal vs, Sentinel SInvalidArgument]"
| "err_tree (ConnectErr c e ds) = ConnectErr c e ds # err_tree e"
| "err_tree (Wrapped t es) = Wrapped t es # concat (map err_tree es)"
| "err_tree e = [e]"

definition err_is :: "go_err \<Rightarrow> sentinel \<Rightarrow> bool" where
  "err_is e s = (Sentinel s \<in> set (err_tree e))"

fun pick_first :: "('a \<Rightarrow> 'b option) \<Rightarrow> 'a list \<Rightarrow> 'b option" where
  "pick_first f [] = None"
| "pick_first f (x # xs) = (case f x of Some y \<Rightarrow> Some y | None \<Rightarrow> pick_first f xs)"

fun is_coded :: "go_err \<Rightarrow> (string \<times> string) option" where
  "is_coded (CodedError c m) = Some (c, m)"
| "is_coded _ = None"

fun is_refusal :: "go_err \<Rightarrow> string option" where
  "is_refusal (ToolRefusal c) = Some c"
| "is_refusal _ = None"

fun is_validation :: "go_err \<Rightarrow> violation list option" where
  "is_validation (ValidationRefusal vs) = Some vs"
| "is_validation _ = None"

fun is_connect :: "go_err \<Rightarrow> (ccode \<times> err_detail list) option" where
  "is_connect (ConnectErr c e ds) = Some (c, ds)"
| "is_connect _ = None"

definition as_coded :: "go_err \<Rightarrow> (string \<times> string) option" where
  "as_coded e = pick_first is_coded (err_tree e)"
definition as_refusal :: "go_err \<Rightarrow> string option" where
  "as_refusal e = pick_first is_refusal (err_tree e)"
definition as_validation :: "go_err \<Rightarrow> violation list option" where
  "as_validation e = pick_first is_validation (err_tree e)"
definition as_connect :: "go_err \<Rightarrow> (ccode \<times> err_detail list) option" where
  "as_connect e = pick_first is_connect (err_tree e)"

text \<open>The text of the sentinels: \<open>Error()\<close> of the values the chain declares.\<close>

fun sentinel_text :: "sentinel \<Rightarrow> string" where
  "sentinel_text SNotFound = ''not found''"
| "sentinel_text SPermissionDenied = ''permission denied''"
| "sentinel_text SUnauthenticated = ''unauthenticated''"
| "sentinel_text SUnimplemented = ''unimplemented''"
| "sentinel_text SInternal = ''internal error''"
| "sentinel_text SInvalidArgument = ''invalid argument''"
| "sentinel_text SUnavailable = ''unavailable''"
| "sentinel_text SGrantRequired = ''a human grant is required''"
| "sentinel_text SGrantRefused = ''the approval presented is not valid for this call''"
| "sentinel_text SGrantUnavailable = ''the approval could not be checked''"
| "sentinel_text SNoSuchKey = ''no such key in the key set''"
| "sentinel_text SAlreadySpent = ''already spent''"
| "sentinel_text SUnreachable = ''no service is serving this tool''"
| "sentinel_text SIncompleteRound = ''discovery round was incomplete''"
| "sentinel_text STooLarge = ''larger than the catalogue ceiling''"
| "sentinel_text (SForeign t) = t"

section \<open>A tool's own refusals\<close>

definition toolRefusals :: "(string \<times> ccode \<times> string) list" where
  "toolRefusals =
    [(''400'', CodeInvalidArgument, ''the tool rejected the request as malformed''),
     (''403'', CodePermissionDenied, ''the tool refused this request''),
     (''404'', CodeNotFound, ''the tool found nothing for this request''),
     (''409'', CodeAborted, ''the tool reports a conflict with its current state''),
     (''415'', CodeInvalidArgument, ''the tool does not accept the media type it was given''),
     (''422'', CodeInvalidArgument, ''the tool could not process the request as given''),
     (''429'', CodeResourceExhausted, ''the tool is limiting its rate; retry later''),
     (''502'', CodeUnavailable, ''the tool's upstream answered with an error''),
     (''504'', CodeDeadlineExceeded, ''the tool's upstream did not answer in time'')]"

definition refusal_message :: "string \<Rightarrow> string" where
  "refusal_message c = (case map_of toolRefusals c of Some (_, m) \<Rightarrow> m | None \<Rightarrow> [])"

definition toolRefusalOf :: "go_err \<Rightarrow> (string \<times> string) option" where
  "toolRefusalOf e =
     (case as_coded e of
        None \<Rightarrow> None
      | Some (code, msg) \<Rightarrow>
          (case map_of toolRefusals code of None \<Rightarrow> None | Some _ \<Rightarrow> Some (code, msg)))"

definition ErrorKindToolRefused :: string where "ErrorKindToolRefused = ''tool_refused''"
definition ErrorKindCardInvalid :: string where "ErrorKindCardInvalid = ''card_invalid''"

section \<open>Codes\<close>

definition codeFor :: "go_err \<Rightarrow> ccode option" where
  "codeFor e =
     (case as_refusal e of
        Some c \<Rightarrow> (case map_of toolRefusals c of Some (k, _) \<Rightarrow> Some k | None \<Rightarrow> Some CodeInternal)
      | None \<Rightarrow>
          if err_is e SNotFound then Some CodeNotFound
          else if err_is e SPermissionDenied then Some CodePermissionDenied
          else if err_is e SUnauthenticated then Some CodeUnauthenticated
          else if err_is e SUnimplemented then Some CodeUnimplemented
          else if err_is e SInternal then Some CodeInternal
          else if err_is e SInvalidArgument then Some CodeInvalidArgument
          else if err_is e SUnavailable then Some CodeUnavailable
          else None)"

text \<open>\<open>connect.CodeOf\<close>, as documented: the code of the first \<open>*connect.Error\<close>, else unknown.\<close>

definition codeOf_spec :: "(go_err \<Rightarrow> ccode) \<Rightarrow> bool" where
  "codeOf_spec codeOf \<longleftrightarrow>
     (\<forall>e. codeOf e = (case as_connect e of Some (c, _) \<Rightarrow> c | None \<Rightarrow> CodeUnknown))"

definition asConnectError :: "go_err option \<Rightarrow> go_err option" where
  "asConnectError r =
     (case r of
        None \<Rightarrow> None
      | Some e \<Rightarrow> (case codeFor e of Some c \<Rightarrow> Some (ConnectErr c e []) | None \<Rightarrow> Some e))"

definition CodeOf :: "(go_err \<Rightarrow> ccode) \<Rightarrow> go_err \<Rightarrow> ccode" where
  "CodeOf codeOf e = (case asConnectError (Some e) of Some e' \<Rightarrow> codeOf e' | None \<Rightarrow> CodeUnknown)"

definition staticMessages :: "(ccode \<times> string) list" where
  "staticMessages =
    [(CodeNotFound, ''not found''),
     (CodePermissionDenied, ''permission denied''),
     (CodeInvalidArgument, ''invalid argument''),
     (CodeInternal, ''internal error''),
     (CodeUnavailable, ''unavailable''),
     (CodeUnauthenticated, ''unauthenticated''),
     (CodeUnimplemented, ''unimplemented''),
     (CodeAborted, ''aborted''),
     (CodeResourceExhausted, ''resource exhausted''),
     (CodeDeadlineExceeded, ''deadline exceeded'')]"

definition static_message :: "ccode \<Rightarrow> string" where
  "static_message c = (case map_of staticMessages c of Some m \<Rightarrow> m | None \<Rightarrow> ''request failed'')"

fun is_info :: "err_detail \<Rightarrow> bool" where
  "is_info (InfoDetail _) = True"
| "is_info _ = False"

definition ScrubError :: "(go_err \<Rightarrow> ccode) \<Rightarrow> go_err option \<Rightarrow> go_err option" where
  "ScrubError codeOf r =
     (case r of
        None \<Rightarrow> None
      | Some e \<Rightarrow>
          (let code = codeOf e;
               kept = (case as_connect e of Some (_, ds) \<Rightarrow> filter is_info ds | None \<Rightarrow> [])
           in Some (ConnectErr code (Plain (static_message code)) kept)))"

section \<open>Lemmas\<close>

lemma err_tree_self: "e \<in> set (err_tree e)"
  by (cases e) auto

lemma err_is_Sentinel [simp]: "err_is (Sentinel s) s' \<longleftrightarrow> s = s'"
  by (auto simp: err_is_def)

lemma err_is_ToolRefusal [simp]: "\<not> err_is (ToolRefusal c) s"
  by (simp add: err_is_def)

lemma err_is_Plain [simp]: "\<not> err_is (Plain c) s"
  by (simp add: err_is_def)

lemma err_is_Validation [simp]: "err_is (ValidationRefusal vs) s \<longleftrightarrow> s = SInvalidArgument"
  by (auto simp: err_is_def)

lemma err_is_Coded [simp]: "\<not> err_is (CodedError c m) s"
  by (simp add: err_is_def)

lemma err_is_Wrapped [simp]: "err_is (Wrapped t es) s \<longleftrightarrow> (\<exists>e \<in> set es. err_is e s)"
  by (auto simp: err_is_def)

lemma err_is_Connect [simp]: "err_is (ConnectErr c e ds) s \<longleftrightarrow> err_is e s"
  by (auto simp: err_is_def)

lemma pick_first_append:
  "pick_first f (xs @ ys) = (case pick_first f xs of Some y \<Rightarrow> Some y | None \<Rightarrow> pick_first f ys)"
  by (induction xs) (auto split: option.splits)

lemma as_simps [simp]:
  "as_refusal (Sentinel s) = None" "as_refusal (ToolRefusal c) = Some c"
  "as_refusal (ValidationRefusal vs) = None" "as_refusal (CodedError c m) = None"
  "as_refusal (Plain t) = None"
  "as_connect (ConnectErr k e ds) = Some (k, ds)" "as_connect (Sentinel s) = None"
  "as_coded (CodedError c m) = Some (c, m)" "as_coded (Sentinel s) = None"
  "as_validation (ValidationRefusal vs) = Some vs" "as_validation (Sentinel s) = None"
  by (simp_all add: as_refusal_def as_connect_def as_coded_def as_validation_def)

lemma toolRefusalOf_Some:
  "toolRefusalOf e = Some (c, m) \<Longrightarrow> as_coded e = Some (c, m) \<and> map_of toolRefusals c \<noteq> None"
  by (auto simp: toolRefusalOf_def split: option.splits prod.splits)

lemma codeFor_sentinels [simp]:
  "codeFor (Sentinel SNotFound) = Some CodeNotFound"
  "codeFor (Sentinel SPermissionDenied) = Some CodePermissionDenied"
  "codeFor (Sentinel SUnauthenticated) = Some CodeUnauthenticated"
  "codeFor (Sentinel SUnimplemented) = Some CodeUnimplemented"
  "codeFor (Sentinel SInternal) = Some CodeInternal"
  "codeFor (Sentinel SInvalidArgument) = Some CodeInvalidArgument"
  "codeFor (Sentinel SUnavailable) = Some CodeUnavailable"
  "codeFor (ValidationRefusal vs) = Some CodeInvalidArgument"
  by (simp_all add: codeFor_def)

lemma CodeOf_chain:
  "codeOf_spec codeOf \<Longrightarrow> codeFor e = Some c \<Longrightarrow> CodeOf codeOf e = c"
  by (simp add: CodeOf_def asConnectError_def codeOf_spec_def)

lemma CodeOf_foreign:
  "codeOf_spec codeOf \<Longrightarrow> codeFor e = None \<Longrightarrow> CodeOf codeOf e = codeOf e"
  by (simp add: CodeOf_def asConnectError_def)

end
