(* ===== verification/Plugins.thy ===== *)
theory Plugins
  imports Principal Errors
begin

text \<open>
  The ledger row of a call, what the chain does to the outside world, and the interfaces whose
  implementations are supplied by the deployment (\<open>FGAChecker\<close>, \<open>GrantVerifier\<close>, \<open>Notifier\<close>,
  \<open>AvailabilitySource\<close>, \<open>ledger.Recorder\<close>, \<open>audit.Sink\<close>, the validator and the resolvers).

  An implementation is a function of its arguments and of everything the chain has done so far
  (\<open>hist\<close>, newest first), so it may answer differently every time it is asked. It may return or
  panic.
\<close>

section \<open>JSON values\<close>

text \<open>\<open>JNum m k\<close> is the decimal literal m / 10^k.\<close>

datatype json =
    JNull | JBool bool | JNum int nat | JStr string | JArr "json list"
  | JObj "(string \<times> json) list"

section \<open>Raw violations\<close>

text \<open>\<open>validate.FieldPathElement\<close> with its subscript, and \<open>protovalidate.Violation\<close>.\<close>

datatype subscript =
  NoSub | IndexSub nat | BoolKey bool | IntKey int | UintKey nat | StringKey string

record path_elem =
  pe_FieldName :: string
  pe_FieldNumber :: nat
  pe_Sub :: subscript

record raw_violation =
  rv_Field :: "path_elem list"
  rv_Rule :: "path_elem list"
  rv_RuleId :: string
  rv_Message :: string
  rv_FieldValue :: "pval option"

text \<open>The validator's answer: no error, violations (with the text of the error), or another error.\<close>

datatype vresult = VOk | VInvalid string "raw_violation option list" | VFailed string

section \<open>The ledger row\<close>

datatype outcome = OutcomeDenied | OutcomeOK | OutcomeError | OutcomeIntent

datatype detail =
    DNone
  | DNoPrincipal string
  | DInvisible string bool bool bool
  | DNotProto
  | DNoPlanUnknown string md
  | DNoPlanRequest md
  | DInputSets string clearance clearance
  | DNoValidator
  | DValidation string
  | DFgaPre go_err
  | DGrant go_err
  | DToolDown string string
  | DAuditAhead go_err
  | DToolRefused string string
  | DErr go_err
  | DFgaPostErr go_err
  | DFgaPostNil
  | DFgaPostReplaced
  | DNoPlanResponse md
  | DCardInvalid string
  | DCardWithheld
  | DResolverPanicked string
  | DAborted
  | DUnauthenticated string "go_err option"

record event =
  ev_App :: string
  ev_ID :: string
  ev_Time :: int
  ev_Tool :: string
  ev_Outcome :: outcome
  ev_Tenant :: string
  ev_PrincipalSubject :: string
  ev_PrincipalKind :: string
  ev_PrincipalActor :: string
  ev_ChainDepth :: nat
  ev_ClearanceEffective :: string
  ev_CompartmentsEffective :: "string list"
  ev_ExecutionSubject :: string
  ev_ErrorKind :: string
  ev_ErrorDetail :: detail
  ev_Tags :: "(string \<times> string) list"
  ev_RedactionPlan :: string
  ev_RedactionCount :: nat
  ev_DisclosedCount :: nat

section \<open>What crosses to the other side of the resolver\<close>

record act =
  ac_Subject :: string
  ac_Kind :: principal_kind

record invocation_context =
  ic_Tenant :: string
  ic_CorrelationId :: string
  ic_Subject :: string
  ic_Kind :: principal_kind
  ic_Agent :: string
  ic_CallId :: string
  ic_Act :: "act list"

text \<open>
  The request context, as far as the program reads it: is an event-id destination seeded, is a
  redactions record seeded, the invocation context already present, and the presented grant.
\<close>

record gctx =
  x_EventID :: bool
  x_Redactions :: bool
  x_Invocation :: "invocation_context option"
  x_Grant :: string

section \<open>Effects\<close>

datatype effect =
    EFgaPre string pmsg
  | EGrantVerify string pmsg
  | EAvailability string
  | EAuditIntent event
  | EResolve string pmsg invocation_context
  | EFgaPost pmsg
  | ESanitize pmsg
  | ERecord event
  | ENotify event
  | EAuditOutcome event
  | ELog detail

type_synonym hist = "effect list"

datatype panic = AbortHandler | PanicWith string

datatype 'a call = Returns 'a | Panics panic

section \<open>The seams\<close>

datatype fga_post = PostErr go_err | PostNil | PostSame pmsg | PostOther pmsg

datatype ranswer = RErr go_err | RNil | RMsg pmsg

record fga_checker =
  fga_Pre :: "hist \<Rightarrow> principal \<Rightarrow> tooldef \<Rightarrow> pmsg \<Rightarrow> go_err option call"
  fga_Post :: "hist \<Rightarrow> principal \<Rightarrow> tooldef \<Rightarrow> pmsg \<Rightarrow> fga_post call"

text \<open>A verifier's answer carries the task id it noted on the binding (empty when none).\<close>

record grant_verifier =
  gv_Verify :: "hist \<Rightarrow> gctx \<Rightarrow> principal \<Rightarrow> tooldef \<Rightarrow> pmsg \<Rightarrow> (string \<times> go_err option) call"

record notifier =
  nf_Notify :: "hist \<Rightarrow> event \<Rightarrow> unit call"

record availability =
  av_Availability :: "hist \<Rightarrow> string \<Rightarrow> (bool \<times> string) call"

record recorder =
  rc_Record :: "hist \<Rightarrow> event \<Rightarrow> unit call"

record audit_sink =
  as_Write :: "hist \<Rightarrow> event \<Rightarrow> go_err option call"
  as_Retention :: int

type_synonym resolver = "hist \<Rightarrow> invocation_context \<Rightarrow> pmsg \<Rightarrow> ranswer call"

record registration =
  rg_newReq :: "pmsg option"
  rg_fn :: "resolver option"

text \<open>The process around the chain: ids, clocks, generated enum names, the library functions.\<close>

record env =
  en_Pool :: pool
  en_Policy :: policy_pkg
  en_NewEventID :: "hist \<Rightarrow> string"
  en_Now :: "hist \<Rightarrow> int"
  en_NewCorrelationID :: "hist \<Rightarrow> string"
  en_KindString :: "principal_kind \<Rightarrow> string"
  en_ClearanceString :: "clearance \<Rightarrow> string"

end
