(* ===== verification/CardReach.thy ===== *)
theory CardReach
  imports Proto
begin

text \<open>
  The descriptor half of \<open>internal/toolplane/sanitise.go\<close>: which message is the card, which
  field carries an access label, whether the vocabulary matches the pinned numbers, and whether a
  card is reachable from a message type.

  \<open>reachesCard\<close> is a depth-first search with a shared set of visited full names. It is written with
  fuel; \<open>containsCard\<close> supplies one unit more than the pool has messages, and
  \<open>reaches_card_enough\<close> shows that is always enough.
\<close>

definition cardMessageName :: string where "cardMessageName = ''garm.card.v1.Card''"
definition labelMessageName :: string where "labelMessageName = ''garm.card.v1.Label''"
definition sectionMessageName :: string where "sectionMessageName = ''garm.card.v1.Section''"

definition pinnedAccessNumbers :: "(string \<times> nat) list" where
  "pinnedAccessNumbers =
    [(''garm.card.v1.Card'', 10), (''garm.card.v1.Element'', 10),
     (''garm.card.v1.Fact'', 4), (''garm.card.v1.Choice'', 3)]"

definition accessFieldName :: string where "accessFieldName = ''access''"

definition is_card_message :: "pool \<Rightarrow> md \<Rightarrow> bool" where
  "is_card_message P i = (full_name P i = cardMessageName)"

definition access_field_of :: "pool \<Rightarrow> md \<Rightarrow> fdesc option" where
  "access_field_of P i =
     (case by_name P i accessFieldName of
        None \<Rightarrow> None
      | Some fd \<Rightarrow>
          if fd_Kind fd \<noteq> MessageKind \<or> is_list fd \<or> is_map fd then None
          else (case fd_Message fd of
                  None \<Rightarrow> None
                | Some j \<Rightarrow> if full_name P j \<noteq> labelMessageName then None else Some fd))"

datatype pin_violation = NoAccessLabel string | AccessFieldMoved string nat nat

definition pin_violation_of :: "pool \<Rightarrow> md \<Rightarrow> pin_violation option" where
  "pin_violation_of P i =
     (case access_field_of P i of
        None \<Rightarrow> if is_card_message P i then Some (NoAccessLabel (full_name P i)) else None
      | Some fd \<Rightarrow>
          (case map_of pinnedAccessNumbers (full_name P i) of
             Some want \<Rightarrow>
               if fd_Number fd \<noteq> want
               then Some (AccessFieldMoved (full_name P i) (fd_Number fd) want) else None
           | None \<Rightarrow> None))"

definition card_child_of :: "pool \<Rightarrow> fdesc \<Rightarrow> md option" where
  "card_child_of P fd =
     (if fd_Kind fd \<noteq> MessageKind then None
      else
        (case (case fd_Shape fd of
                 FMap v \<Rightarrow> if vt_Kind v \<noteq> MessageKind then None else vt_Message v
               | _ \<Rightarrow> fd_Message fd) of
           None \<Rightarrow> None
         | Some j \<Rightarrow> if has_prefix (full_name P j) ''google.protobuf.'' then None else Some j))"

function reaches_card :: "nat \<Rightarrow> pool \<Rightarrow> md \<Rightarrow> string list \<Rightarrow> (bool \<times> string list) option"
  and reaches_fields :: "nat \<Rightarrow> pool \<Rightarrow> fdesc list \<Rightarrow> string list \<Rightarrow> (bool \<times> string list) option"
where
  "reaches_card 0 P i seen = None"
| "reaches_card (Suc n) P i seen =
     (if full_name P i \<in> set seen then Some (False, seen)
      else if is_card_message P i then Some (True, seen)
      else reaches_fields n P (fields_of P i) (full_name P i # seen))"
| "reaches_fields n P [] seen = Some (False, seen)"
| "reaches_fields n P (fd # fds) seen =
     (case card_child_of P fd of
        None \<Rightarrow> reaches_fields n P fds seen
      | Some j \<Rightarrow>
          (case reaches_card n P j seen of
             None \<Rightarrow> None
           | Some (True, seen') \<Rightarrow> Some (True, seen')
           | Some (False, seen') \<Rightarrow> reaches_fields n P fds seen'))"
  by pat_completeness auto

termination
  by (relation "measures
        [case_sum (\<lambda>(n, P, i, s). 2 * n) (\<lambda>(n, P, fds, s). 2 * n + 1),
         case_sum (\<lambda>(n, P, i, s). 0) (\<lambda>(n, P, fds, s). length fds)]") auto

definition contains_card :: "pool \<Rightarrow> md \<Rightarrow> bool" where
  "contains_card P i =
     (case reaches_card (Suc (length P)) P i [] of Some (b, _) \<Rightarrow> b | None \<Rightarrow> False)"

section \<open>The search decides reachability\<close>

text \<open>The edges the search follows, and what a well-formed pool is.\<close>

definition card_edges :: "pool \<Rightarrow> (md \<times> md) set" where
  "card_edges P = {(i, j). \<exists>fd \<in> set (fields_of P i). card_child_of P fd = Some j}"

definition wf_pool :: "pool \<Rightarrow> bool" where
  "wf_pool P \<longleftrightarrow>
     distinct (map md_FullName P) \<and> [] \<notin> set (map md_FullName P) \<and>
     (\<forall>i < length P. \<forall>fd \<in> set (fields_of P i). \<forall>j. card_child_of P fd = Some j \<longrightarrow> j < length P)"

definition unseen :: "pool \<Rightarrow> string list \<Rightarrow> nat" where
  "unseen P seen = card {i. i < length P \<and> full_name P i \<notin> set seen}"

lemma unseen_le: "unseen P seen \<le> length P"
proof -
  have "card {i. i < length P \<and> full_name P i \<notin> set seen} \<le> card {i. i < length P}"
    by (rule card_mono) auto
  then show ?thesis by (simp add: unseen_def)
qed

lemma unseen_Cons:
  assumes "i < length P" "full_name P i \<notin> set seen"
  shows "unseen P (full_name P i # seen) < unseen P seen"
  unfolding unseen_def by (rule psubset_card_mono) (use assms in auto)

lemma unseen_mono: "set seen \<subseteq> set seen' \<Longrightarrow> unseen P seen' \<le> unseen P seen"
  unfolding unseen_def by (rule card_mono) auto

lemma reaches_card_enough:
  "wf_pool P \<Longrightarrow> i < length P \<Longrightarrow> unseen P seen < n \<Longrightarrow>
     \<exists>b seen'. reaches_card n P i seen = Some (b, seen') \<and> set seen \<subseteq> set seen'"
  "wf_pool P \<Longrightarrow> \<forall>fd \<in> set fds. \<forall>j. card_child_of P fd = Some j \<longrightarrow> j < length P \<Longrightarrow>
     unseen P seen < n \<Longrightarrow>
     \<exists>b seen'. reaches_fields n P fds seen = Some (b, seen') \<and> set seen \<subseteq> set seen'"
proof (induction n P i seen and n P fds seen rule: reaches_card_reaches_fields.induct)
  case (2 n P i seen)
  show ?case
  proof (cases "full_name P i \<in> set seen \<or> is_card_message P i")
    case False
    have "unseen P (full_name P i # seen) < n"
      using unseen_Cons[of i P seen] 2(3,4) False by simp
    moreover have "\<forall>fd \<in> set (fields_of P i). \<forall>j. card_child_of P fd = Some j \<longrightarrow> j < length P"
      using 2(2,3) by (auto simp: wf_pool_def)
    ultimately have "\<exists>b seen'. reaches_fields n P (fields_of P i) (full_name P i # seen) = Some (b, seen')
        \<and> set (full_name P i # seen) \<subseteq> set seen'"
      using 2(1) 2(2) False by blast
    then show ?thesis using False by auto
  qed auto
next
  case (4 n P fd fds seen)
  show ?case
  proof (cases "card_child_of P fd")
    case None
    then show ?thesis using 4(1)[OF None] 4(4-6) by simp
  next
    case (Some j)
    then obtain b s where s: "reaches_card n P j seen = Some (b, s)" "set seen \<subseteq> set s"
      using 4(2)[OF Some] 4(4-6) by auto
    show ?thesis
    proof (cases b)
      case False
      have "unseen P s < n" using unseen_mono[OF s(2), of P] 4(6) by simp
      then obtain b' s' where "reaches_fields n P fds s = Some (b', s')" "set s \<subseteq> set s'"
        using 4(3)[OF Some s(1), of False s] False 4(4,5) by auto
      then show ?thesis using Some s False by auto
    qed (use Some s in auto)
  qed
qed auto

lemma reaches_card_sound:
  "reaches_card n P i seen = Some (True, s) \<Longrightarrow>
     \<exists>c. (i, c) \<in> (card_edges P)\<^sup>* \<and> is_card_message P c"
  "reaches_fields n P fds seen = Some (True, s) \<Longrightarrow>
     \<exists>fd \<in> set fds. \<exists>j c. card_child_of P fd = Some j \<and> (j, c) \<in> (card_edges P)\<^sup>* \<and> is_card_message P c"
proof (induction n P i seen and n P fds seen arbitrary: s and s
    rule: reaches_card_reaches_fields.induct)
  case (2 n P i seen)
  show ?case
  proof (cases "is_card_message P i")
    case False
    then have "reaches_fields n P (fields_of P i) (full_name P i # seen) = Some (True, s)"
      "full_name P i \<notin> set seen"
      using 2(2) by (auto split: if_splits)
    then obtain fd j c where "fd \<in> set (fields_of P i)" "card_child_of P fd = Some j"
      "(j, c) \<in> (card_edges P)\<^sup>*" "is_card_message P c"
      using 2(1) False by blast
    moreover from this have "(i, j) \<in> card_edges P" by (auto simp: card_edges_def)
    ultimately show ?thesis by (meson converse_rtrancl_into_rtrancl)
  qed auto
next
  case (4 n P fd fds seen)
  show ?case
  proof (cases "card_child_of P fd")
    case None
    then show ?thesis using 4(1)[OF None] 4(4) by auto
  next
    case (Some j)
    then obtain b s1 where s1: "reaches_card n P j seen = Some (b, s1)"
      using 4(4) by (auto split: option.splits)
    show ?thesis
    proof (cases b)
      case True
      then show ?thesis using 4(2)[OF Some] s1 Some by auto
    next
      case False
      then show ?thesis using 4(3)[OF Some s1 refl] 4(4) s1 Some by auto
    qed
  qed
qed auto

lemma reaches_card_closed:
  "reaches_card n P i seen = Some (False, s) \<Longrightarrow>
     full_name P i \<in> set s \<and> set seen \<subseteq> set s \<and>
     (\<forall>x \<in> set s - set seen. \<exists>k. full_name P k = x \<and> \<not> is_card_message P k \<and>
        (\<forall>j. (k, j) \<in> card_edges P \<longrightarrow> full_name P j \<in> set s))"
  "reaches_fields n P fds seen = Some (False, s) \<Longrightarrow>
     (\<forall>fd \<in> set fds. \<forall>j. card_child_of P fd = Some j \<longrightarrow> full_name P j \<in> set s) \<and>
     set seen \<subseteq> set s \<and>
     (\<forall>x \<in> set s - set seen. \<exists>k. full_name P k = x \<and> \<not> is_card_message P k \<and>
        (\<forall>j. (k, j) \<in> card_edges P \<longrightarrow> full_name P j \<in> set s))"
proof (induction n P i seen and n P fds seen arbitrary: s and s
    rule: reaches_card_reaches_fields.induct)
  case (2 n P i seen)
  show ?case
  proof (cases "full_name P i \<in> set seen")
    case False
    then have nc: "\<not> is_card_message P i"
      and r: "reaches_fields n P (fields_of P i) (full_name P i # seen) = Some (False, s)"
      using 2(2) by (auto split: if_splits)
    note ih = 2(1)[OF False nc r]
    have "\<forall>j. (i, j) \<in> card_edges P \<longrightarrow> full_name P j \<in> set s"
      using ih by (auto simp: card_edges_def)
    then show ?thesis using ih nc by auto
  qed (use 2(2) in auto)
next
  case (4 n P fd fds seen)
  show ?case
  proof (cases "card_child_of P fd")
    case None
    then show ?thesis using 4(1)[OF None] 4(4) by auto
  next
    case (Some j)
    then obtain s1 where s1: "reaches_card n P j seen = Some (False, s1)"
      "reaches_fields n P fds s1 = Some (False, s)"
      using 4(4) by (auto split: option.splits prod.splits bool.splits)
    note a = 4(2)[OF Some s1(1)]
    note b = 4(3)[OF Some s1(1) refl refl s1(2)]
    have "set seen \<subseteq> set s" "set s1 \<subseteq> set s" using a b by auto
    moreover have "\<exists>k. full_name P k = x \<and> \<not> is_card_message P k \<and>
        (\<forall>j. (k, j) \<in> card_edges P \<longrightarrow> full_name P j \<in> set s)" if "x \<in> set s - set seen" for x
    proof (cases "x \<in> set s1")
      case True
      then show ?thesis using a that \<open>set s1 \<subseteq> set s\<close> by (meson DiffD2 DiffI subsetD)
    qed (use b that in blast)
    moreover have "full_name P j \<in> set s" using a \<open>set s1 \<subseteq> set s\<close> by blast
    ultimately show ?thesis using b Some by auto
  qed
qed auto

lemma wf_pool_name_eq:
  assumes "wf_pool P" "i < length P" "full_name P k = full_name P i"
  shows "k = i"
proof -
  have "full_name P i \<in> set (map md_FullName P)" using assms(2) by (simp add: md_of_def)
  then have "full_name P i \<noteq> []" using assms(1) by (metis wf_pool_def)
  then have "k < length P" using assms(3) by (auto simp: md_of_def split: if_splits)
  then show ?thesis
    using assms by (auto simp: wf_pool_def md_of_def distinct_conv_nth)
qed

lemma card_edges_range:
  "wf_pool P \<Longrightarrow> (i, j) \<in> card_edges P \<Longrightarrow> j < length P"
  by (cases "i < length P") (auto simp: card_edges_def wf_pool_def md_of_def)

text \<open>A closed set of visited names without a card contains everything reachable.\<close>

lemma closed_no_card:
  assumes wf: "wf_pool P"
    and reach: "(i, c) \<in> (card_edges P)\<^sup>*" and i: "i < length P" and seen: "full_name P i \<in> set s"
    and closed: "\<forall>x \<in> set s. \<exists>k. full_name P k = x \<and> \<not> is_card_message P k \<and>
        (\<forall>j. (k, j) \<in> card_edges P \<longrightarrow> full_name P j \<in> set s)"
  shows "c < length P \<and> full_name P c \<in> set s \<and> \<not> is_card_message P c"
  using reach
proof (induction rule: rtrancl_induct)
  case base
  then show ?case using i seen closed wf_pool_name_eq[OF wf i] by metis
next
  case (step k j)
  then obtain k' where k': "full_name P k' = full_name P k"
    "\<forall>j. (k', j) \<in> card_edges P \<longrightarrow> full_name P j \<in> set s"
    using closed by blast
  moreover have "k' = k" using wf_pool_name_eq[OF wf _ k'(1)] step by blast
  ultimately have *: "full_name P j \<in> set s" using step by blast
  moreover have j: "j < length P" using card_edges_range[OF wf step(2)] .
  moreover have "\<not> is_card_message P j"
    using closed * wf_pool_name_eq[OF wf j] by metis
  ultimately show ?case by simp
qed

lemma contains_card_iff_reachable:
  assumes wf: "wf_pool P" and i: "i < length P"
  shows "contains_card P i \<longleftrightarrow> (\<exists>c. (i, c) \<in> (card_edges P)\<^sup>* \<and> is_card_message P c)"
proof -
  have "unseen P [] < Suc (length P)" using unseen_le[of P "[]"] by simp
  then obtain b s where r: "reaches_card (Suc (length P)) P i [] = Some (b, s)"
    using reaches_card_enough(1)[OF wf i] by blast
  show ?thesis
  proof (cases b)
    case True
    have "reaches_card (Suc (length P)) P i [] = Some (True, s)" using r by (simp only: True)
    from this reaches_card_sound(1)[OF this] show ?thesis
      by (simp only: contains_card_def option.case prod.case simp_thms)
  next
    case False
    have r': "reaches_card (Suc (length P)) P i [] = Some (False, s)" using r by (simp only: False)
    note c = reaches_card_closed(1)[OF r']
    have "\<not> is_card_message P x" if "(i, x) \<in> (card_edges P)\<^sup>*" for x
      using closed_no_card[OF wf that i, of s] c by auto
    then show ?thesis
      using r' by (simp only: contains_card_def option.case prod.case simp_thms) blast
  qed
qed

lemma reach_step:
  assumes "wf_pool P" "i < length P" "fd \<in> set (fields_of P i)" "card_child_of P fd = Some j"
    and "contains_card P j"
  shows "contains_card P i"
proof -
  have j: "j < length P" using assms(1-4) unfolding wf_pool_def by blast
  have e: "(i, j) \<in> card_edges P" using assms(3,4) by (auto simp: card_edges_def)
  obtain c where "(j, c) \<in> (card_edges P)\<^sup>*" "is_card_message P c"
    using contains_card_iff_reachable[OF assms(1) j] assms(5) by blast
  then show ?thesis
    using contains_card_iff_reachable[OF assms(1,2)] converse_rtrancl_into_rtrancl[OF e] by blast
qed

end
