(* ===== verification/Core.thy ===== *)
theory Core
  imports Plugins CardReach "HOL-Library.AList"
begin

text \<open>
  \<open>internal/toolplane/core.go\<close> (construction, mounting and visibility), \<open>tooldef.go\<close> (governance a
  core cannot honour, agreement of two declarations) and \<open>resolver.go\<close> (the resolver registry).

  The lock of the Go struct is not modelled: each operation is one step on the state. The tools
  are an association list keyed by route, in mounting order.
\<close>

section \<open>State\<close>

type_synonym schema_key = "md \<times> (clearance \<times> comp_set) \<times> bool"

record core =
  c_hashKey :: string
  c_reg :: registry
  c_recorder :: recorder
  c_audit :: "audit_sink option"
  c_fga :: "fga_checker option"
  c_grants :: "grant_verifier option"
  c_notifier :: "notifier option"
  c_plans :: "md \<rightharpoonup> plan"
  c_cards :: "md \<rightharpoonup> bool"
  c_need :: "string \<rightharpoonup> comp_set"
  c_tools :: "(string \<times> tooldef) list"
  c_resolvers :: "(string \<times> registration) list"
  c_validator :: "(pmsg \<Rightarrow> vresult) option"
  c_schemas :: "(schema_key \<times> json) list"
  c_availability :: "availability option"

record core_config =
  cfg_HashKey :: string
  cfg_Compartments :: "decl list"
  cfg_Recorder :: "recorder option"
  cfg_Audit :: "audit_sink option"
  cfg_FGA :: "fga_checker option"
  cfg_Grants :: "grant_verifier option"
  cfg_Notifier :: "notifier option"

datatype new_err = NoHashKey | NoRecorder | RegistryErr string | ValidatorErr string

definition NewCore :: "env \<Rightarrow> string + (pmsg \<Rightarrow> vresult) \<Rightarrow> core_config \<Rightarrow> new_err + core" where
  "NewCore E newValidator cfg =
     (if cfg_HashKey cfg = [] then Inl NoHashKey
      else (case cfg_Recorder cfg of
         None \<Rightarrow> Inl NoRecorder
       | Some rec \<Rightarrow>
      (case pk_NewRegistry (en_Policy E) (cfg_Compartments cfg) of
         Inl e \<Rightarrow> Inl (RegistryErr e)
       | Inr reg \<Rightarrow>
      (case newValidator of
         Inl e \<Rightarrow> Inl (ValidatorErr e)
       | Inr v \<Rightarrow>
          Inr \<lparr>c_hashKey = cfg_HashKey cfg, c_reg = reg, c_recorder = rec,
               c_audit = cfg_Audit cfg, c_fga = cfg_FGA cfg, c_grants = cfg_Grants cfg,
               c_notifier = cfg_Notifier cfg, c_plans = Map.empty, c_cards = Map.empty,
               c_need = Map.empty, c_tools = [], c_resolvers = [], c_validator = Some v,
               c_schemas = [], c_availability = None\<rparr>))))"

section \<open>Governance a core cannot honour\<close>

datatype missing =
    MissNotifier | MissGrantVerifier | UnknownMode int
  | MissSinkForLevel | UnknownLevel int
  | FailClosedWithoutLevel | FailClosedWithoutSink
  | RetainWithoutSink nat | RetainTooShort nat int int
  | RecordPayload | MissFGA

definition day_ns :: int where "day_ns = 24 * 3600 * 1000000000"

definition approval_missing :: "core \<Rightarrow> tooldef \<Rightarrow> missing list" where
  "approval_missing c t =
     (if t_ApprovalMode t = MODE_UNSPECIFIED \<or> t_ApprovalMode t = MODE_NONE then []
      else if t_ApprovalMode t = MODE_NOTIFY then
        (if c_notifier c = None then [MissNotifier] else [])
      else if t_ApprovalMode t = MODE_GRANT then
        (if c_grants c = None then [MissGrantVerifier] else [])
      else [UnknownMode (t_ApprovalMode t)])"

definition level_missing :: "core \<Rightarrow> tooldef \<Rightarrow> missing list" where
  "level_missing c t =
     (if t_AuditLevel t = LEVEL_UNSPECIFIED \<or> t_AuditLevel t = LEVEL_LEDGER then []
      else if t_AuditLevel t = LEVEL_AUDIT then
        (if c_audit c = None then [MissSinkForLevel] else [])
      else [UnknownLevel (t_AuditLevel t)])"

definition fail_closed_missing :: "core \<Rightarrow> tooldef \<Rightarrow> missing list" where
  "fail_closed_missing c t =
     (if \<not> t_AuditFailClosed t then []
      else if t_AuditLevel t \<noteq> LEVEL_AUDIT then [FailClosedWithoutLevel]
      else if c_audit c = None then [FailClosedWithoutSink]
      else [])"

definition retain_missing :: "core \<Rightarrow> tooldef \<Rightarrow> missing list" where
  "retain_missing c t =
     (if t_AuditRetainDays t = 0 then []
      else
        let want = wrap64 (int (t_AuditRetainDays t) * day_ns)
        in case c_audit c of
             None \<Rightarrow> [RetainWithoutSink (t_AuditRetainDays t)]
           | Some a \<Rightarrow>
               if as_Retention a \<noteq> 0 \<and> as_Retention a < want
               then [RetainTooShort (t_AuditRetainDays t) want (as_Retention a)] else [])"

definition unimplementedGovernance :: "core \<Rightarrow> tooldef \<Rightarrow> missing list" where
  "unimplementedGovernance c t =
     approval_missing c t @ level_missing c t @ fail_closed_missing c t @ retain_missing c t @
     (if t_AuditRecordRequest t \<or> t_AuditRecordResponse t then [RecordPayload] else []) @
     (if t_HasAuthorization t \<and> c_fga c = None then [MissFGA] else [])"

section \<open>Agreement of declarations\<close>

text \<open>\<open>maps.Equal\<close> on the field prose, and the full name a descriptor declares.\<close>

definition maps_equal :: "(string \<times> string) list \<Rightarrow> (string \<times> string) list \<Rightarrow> bool" where
  "maps_equal a b \<longleftrightarrow>
     set (map fst a) = set (map fst b) \<and> (\<forall>k \<in> set (map fst a). map_of a k = map_of b k)"

definition md_name :: "pool \<Rightarrow> md option \<Rightarrow> string" where
  "md_name P d = (case d of None \<Rightarrow> [] | Some i \<Rightarrow> full_name P i)"

definition sameDeclarationAs :: "pool \<Rightarrow> tooldef \<Rightarrow> tooldef \<Rightarrow> bool" where
  "sameDeclarationAs P t u \<longleftrightarrow>
     t_FullMethod t = t_FullMethod u \<and>
     t_Name t = t_Name u \<and>
     t_FQN t = t_FQN u \<and>
     t_Title t = t_Title u \<and>
     t_Description t = t_Description u \<and>
     t_Verb t = t_Verb u \<and>
     t_MinClearance t = t_MinClearance u \<and>
     t_Compartments t = t_Compartments u \<and>
     t_Sets t = t_Sets u \<and>
     t_Audience t = t_Audience u \<and>
     md_name P (t_Input t) = md_name P (t_Input u) \<and>
     md_name P (t_Output t) = md_name P (t_Output u) \<and>
     t_ApprovalMode t = t_ApprovalMode u \<and>
     t_ApproverMinClearance t = t_ApproverMinClearance u \<and>
     t_ApproverCompartments t = t_ApproverCompartments u \<and>
     t_MaxGrantAge t = t_MaxGrantAge u \<and>
     t_MaterialFields t = t_MaterialFields u \<and>
     t_AuditLevel t = t_AuditLevel u \<and>
     t_AuditRecordRequest t = t_AuditRecordRequest u \<and>
     t_AuditRecordResponse t = t_AuditRecordResponse u \<and>
     t_AuditRetainDays t = t_AuditRetainDays u \<and>
     t_AuditFailClosed t = t_AuditFailClosed u \<and>
     t_HasAuthorization t = t_HasAuthorization u \<and>
     t_Idempotent t = t_Idempotent u \<and>
     t_Reversibility t = t_Reversibility u \<and>
     t_External t = t_External u \<and>
     t_WhenToUse t = t_WhenToUse u \<and>
     t_WhenNotToUse t = t_WhenNotToUse u \<and>
     t_OnError t = t_OnError u \<and>
     maps_equal (t_FieldDocs t) (t_FieldDocs u)"

lemma maps_equal_refl [simp]: "maps_equal a a"
  by (simp add: maps_equal_def)

lemma maps_equal_trans: "maps_equal a b \<Longrightarrow> maps_equal b c \<Longrightarrow> maps_equal a c"
  unfolding maps_equal_def by metis

lemma same_decl_refl [simp]: "sameDeclarationAs P t t"
  by (simp add: sameDeclarationAs_def)

lemma same_decl_trans:
  "sameDeclarationAs P t u \<Longrightarrow> sameDeclarationAs P u v \<Longrightarrow> sameDeclarationAs P t v"
  unfolding sameDeclarationAs_def
  by (elim conjE, simp only: simp_thms) (erule maps_equal_trans)

section \<open>Mounting\<close>

datatype add_err =
    Ungoverned string "missing list"
  | Conflict string string string
  | NilDescriptor string
  | CompileFailed string string
  | BadCompartments string string

text \<open>The inner loop, over the tool's input and output descriptors.\<close>

fun add_messages :: "env \<Rightarrow> string \<Rightarrow> md option list \<Rightarrow> core \<Rightarrow> add_err option \<times> core" where
  "add_messages E name [] c = (None, c)"
| "add_messages E name (None # ds) c = (Some (NilDescriptor name), c)"
| "add_messages E name (Some d # ds) c =
     (if c_plans c d \<noteq> None then add_messages E name ds c
      else (case pk_Compile (en_Policy E) d (c_reg c) of
         Inl e \<Rightarrow> (Some (CompileFailed name e), c)
       | Inr plan \<Rightarrow>
           add_messages E name ds
             (c\<lparr>c_plans := (c_plans c)(d \<mapsto> plan),
                c_cards := (c_cards c)(d \<mapsto> contains_card (en_Pool E) d)\<rparr>)))"

definition conflicting :: "pool \<Rightarrow> core \<Rightarrow> tooldef \<Rightarrow> bool" where
  "conflicting P c t =
     (case map_of (c_tools c) (t_FullMethod t) of
        Some prev \<Rightarrow> \<not> sameDeclarationAs P prev t
      | None \<Rightarrow> False)"

definition add_tool :: "env \<Rightarrow> tooldef \<Rightarrow> core \<Rightarrow> add_err option \<times> core" where
  "add_tool E t c =
     (if unimplementedGovernance c t \<noteq> [] then
        (Some (Ungoverned (t_Name t) (unimplementedGovernance c t)), c)
      else
        (if conflicting (en_Pool E) c t
         then (Some (Conflict (t_Name t) (t_FullMethod t)
                 (t_Name (the (map_of (c_tools c) (t_FullMethod t))))), c)
         else
           (case add_messages E (t_Name t) [t_Input t, t_Output t] c of
              (Some e, c') \<Rightarrow> (Some e, c')
            | (None, c') \<Rightarrow>
                (case rg_Set (c_reg c') (t_Compartments t) of
                   Inl e \<Rightarrow> (Some (BadCompartments (t_Name t) e), c')
                 | Inr need \<Rightarrow>
                     (None, c'\<lparr>c_need := (c_need c')(t_FullMethod t \<mapsto> need),
                               c_tools := AList.update (t_FullMethod t) t (c_tools c')\<rparr>)))))"

fun AddTools :: "env \<Rightarrow> core \<Rightarrow> tooldef list \<Rightarrow> add_err option \<times> core" where
  "AddTools E c [] = (None, c)"
| "AddTools E c (t # ts) =
     (case add_tool E t c of
        (Some e, c') \<Rightarrow> (Some e, c')
      | (None, c') \<Rightarrow> AddTools E c' ts)"

section \<open>Readers\<close>

definition SetAvailability :: "core \<Rightarrow> availability option \<Rightarrow> core" where
  "SetAvailability c src = c\<lparr>c_availability := src\<rparr>"

definition PlanFor :: "core \<Rightarrow> md \<Rightarrow> plan option" where
  "PlanFor c d = c_plans c d"

definition lookup_tool :: "core \<Rightarrow> string \<Rightarrow> tooldef option" where
  "lookup_tool c procedure = map_of (c_tools c) procedure"

definition MountedTools :: "core \<Rightarrow> nat" where
  "MountedTools c = length (c_tools c)"

definition Registry :: "core \<Rightarrow> registry" where
  "Registry c = c_reg c"

text \<open>A Go map read of an absent key is the zero set.\<close>

definition need_of :: "core \<Rightarrow> string \<Rightarrow> comp_set" where
  "need_of c route = (case c_need c route of Some n \<Rightarrow> n | None \<Rightarrow> 0)"

fun scope_meets :: "string list \<Rightarrow> string list \<Rightarrow> bool" where
  "scope_meets [] sets = False"
| "scope_meets (s # ss) sets = (contains_string sets s \<or> scope_meets ss sets)"

lemma scope_meets_iff: "scope_meets ss sets \<longleftrightarrow> (\<exists>s \<in> set ss. s \<in> set sets)"
  by (induction ss) auto

definition inScope :: "string list option \<Rightarrow> string list \<Rightarrow> bool" where
  "inScope scope sets = (case scope of None \<Rightarrow> True | Some ss \<Rightarrow> scope_meets ss sets)"

definition visibleLocked :: "env \<Rightarrow> core \<Rightarrow> principal option \<Rightarrow> tooldef \<Rightarrow> bool" where
  "visibleLocked E c po t =
     (case po of
        None \<Rightarrow> False
      | Some p \<Rightarrow>
          Has (p_Verbs p) (t_Verb t) \<and>
          pk_Allows (en_Policy E) (p_Clearance p) (t_MinClearance t) \<and>
          pk_Covers (en_Policy E) (p_Compartments p) (need_of c (t_FullMethod t)) \<and>
          inScope (p_ToolSets p) (t_Sets t))"

definition Visible :: "env \<Rightarrow> core \<Rightarrow> principal option \<Rightarrow> tooldef \<Rightarrow> bool" where
  "Visible E c po t = visibleLocked E c po t"

section \<open>Resolvers\<close>

datatype register_err = NoProcedure | NoFactory string | NilResolver string | DupResolver string

definition Register ::
  "core \<Rightarrow> string \<Rightarrow> pmsg option \<Rightarrow> resolver option \<Rightarrow> register_err option \<times> core" where
  "Register c procedure newReq fn =
     (if procedure = [] then (Some NoProcedure, c)
      else if newReq = None then (Some (NoFactory procedure), c)
      else if fn = None then (Some (NilResolver procedure), c)
      else if map_of (c_resolvers c) procedure \<noteq> None then (Some (DupResolver procedure), c)
      else (None, c\<lparr>c_resolvers :=
              AList.update procedure \<lparr>rg_newReq = newReq, rg_fn = fn\<rparr> (c_resolvers c)\<rparr>))"

definition NewRequestFor :: "core \<Rightarrow> string \<Rightarrow> pmsg option" where
  "NewRequestFor c procedure =
     (case map_of (c_resolvers c) procedure of None \<Rightarrow> None | Some reg \<Rightarrow> rg_newReq reg)"

definition resolverFor :: "core \<Rightarrow> string \<Rightarrow> resolver option" where
  "resolverFor c procedure =
     (case map_of (c_resolvers c) procedure of None \<Rightarrow> None | Some reg \<Rightarrow> rg_fn reg)"

end
