(* ===== verification/Sample.thy ===== *)
theory Sample
  imports Core
begin

text \<open>
  Concrete instances the witnesses evaluate on: a policy package that satisfies the hypotheses on
  it, a registry, an environment, and a small core with one tool.
\<close>

definition sample_names :: "string list" where
  "sample_names = [''finance'', ''hr'']"

fun sample_set :: "string list \<Rightarrow> string + comp_set" where
  "sample_set [] = Inr 0"
| "sample_set (n # ns) =
     (case sample_set ns of
        Inl e \<Rightarrow> Inl e
      | Inr b \<Rightarrow>
          if n = ''finance'' then Inr (b OR 1)
          else if n = ''hr'' then Inr (b OR 2)
          else Inl n)"

fun sample_lenient :: "string list \<Rightarrow> comp_set \<times> string list" where
  "sample_lenient [] = (0, [])"
| "sample_lenient (n # ns) =
     (case sample_lenient ns of (b, dropped) \<Rightarrow>
        if n = ''finance'' then (b OR 1, dropped)
        else if n = ''hr'' then (b OR 2, dropped)
        else (b, n # dropped))"

definition sample_registry :: registry where
  "sample_registry = \<lparr>rg_Set = sample_set, rg_SetLenient = sample_lenient,
     rg_Names = \<lambda>b. filter (\<lambda>n. (b AND (if n = ''finance'' then 1 else 2)) \<noteq> 0) sample_names\<rparr>"

definition sample_plan :: "md \<Rightarrow> plan" where
  "sample_plan d = \<lparr>pl_Desc = d, pl_Actions =
     [\<lparr>a_Name = ''secret'', a_Path = [2], a_Read = CLEARANCE_RESTRICTED,
       a_Write = CLEARANCE_RESTRICTED, a_Need = 0, a_IsSubtree = False\<rparr>]\<rparr>"

definition sample_policy :: policy_pkg where
  "sample_policy = \<lparr>pk_Allows = num_allows, pk_Covers = bit_covers,
     pk_NewRegistry = \<lambda>ds. Inr sample_registry, pk_Compile = \<lambda>d r. Inr (sample_plan d),
     pk_Resolve = \<lambda>pl cl cs. \<lparr>rs_Hash = ''h'', rs_Disclosed = []\<rparr>,
     pk_Sanitize = \<lambda>m r k t. (m, []), pk_DefaultPolicy = \<lambda>d. None\<rparr>"

definition sample_string_field :: "string \<Rightarrow> nat \<Rightarrow> fdesc" where
  "sample_string_field n k = \<lparr>fd_Name = n, fd_FullName = ''p.M.'' @ n, fd_Number = k,
     fd_Type = \<lparr>vt_Kind = StringKind, vt_Message = None, vt_Enum = []\<rparr>,
     fd_Shape = FSingle, fd_HasPresence = False\<rparr>"

definition sample_pool :: pool where
  "sample_pool = [\<lparr>md_FullName = ''p.M'',
     md_Fields = [sample_string_field ''name'' 1, sample_string_field ''secret'' 2]\<rparr>]"

definition sample_env :: env where
  "sample_env = \<lparr>en_Pool = sample_pool, en_Policy = sample_policy,
     en_NewEventID = \<lambda>h. ''ev'', en_Now = \<lambda>h. 0, en_NewCorrelationID = \<lambda>h. ''corr'',
     en_KindString = \<lambda>k. ''KIND'', en_ClearanceString = \<lambda>k. ''CLEARANCE''\<rparr>"

definition sample_recorder :: recorder where
  "sample_recorder = \<lparr>rc_Record = \<lambda>h e. Returns ()\<rparr>"

definition sample_sink :: "int \<Rightarrow> audit_sink" where
  "sample_sink r = \<lparr>as_Write = \<lambda>h e. Returns None, as_Retention = r\<rparr>"

definition sample_config :: core_config where
  "sample_config = \<lparr>cfg_HashKey = ''k'', cfg_Compartments = [], cfg_Recorder = Some sample_recorder,
     cfg_Audit = Some (sample_sink 0), cfg_FGA = None, cfg_Grants = None, cfg_Notifier = None\<rparr>"

definition sample_core :: core where
  "sample_core = \<lparr>c_hashKey = ''k'', c_reg = sample_registry, c_recorder = sample_recorder,
     c_audit = Some (sample_sink 0), c_fga = None, c_grants = None, c_notifier = None,
     c_plans = Map.empty, c_cards = Map.empty, c_need = Map.empty, c_tools = [], c_resolvers = [],
     c_validator = Some (\<lambda>m. VOk), c_schemas = [], c_availability = None\<rparr>"

definition sample_tool :: tooldef where
  "sample_tool = zero_tool\<lparr>t_FullMethod := ''/p.S/Get'', t_FQN := ''p.get'', t_Name := ''get'',
     t_Verb := VERB_READ, t_MinClearance := CLEARANCE_INTERNAL, t_Compartments := [''finance''],
     t_Sets := [''books''], t_Input := Some 0, t_Output := Some 0, t_AuditLevel := LEVEL_AUDIT,
     t_AuditFailClosed := True\<rparr>"

definition sample_principal :: principal where
  "sample_principal = \<lparr>p_Subject = ''ada'', p_Actor = [], p_Kind = 1,
     p_Chain = [\<lparr>ce_Subject = ''ada'', ce_Kind = 1\<rparr>], p_Tenant = ''acme'',
     p_Clearance = CLEARANCE_CONFIDENTIAL, p_Compartments = 3, p_Verbs = 2, p_TokenID = ''t1'',
     p_Execution = [], p_ToolSets = None\<rparr>"

lemma sample_NewCore: "NewCore sample_env (Inr (\<lambda>m. VOk)) sample_config = Inr sample_core"
  by (simp add: NewCore_def sample_env_def sample_policy_def sample_config_def sample_core_def)

lemma sample_pool_wf: "wf_pool sample_pool"
  by (auto simp: wf_pool_def sample_pool_def md_of_def card_child_of_def sample_string_field_def
      fd_Kind_def)

lemma sample_tool_sel [simp]:
  "t_FullMethod sample_tool = ''/p.S/Get''" "t_FQN sample_tool = ''p.get''"
  "t_Name sample_tool = ''get''" "t_Verb sample_tool = VERB_READ"
  "t_MinClearance sample_tool = CLEARANCE_INTERNAL" "t_Compartments sample_tool = [''finance'']"
  "t_Sets sample_tool = [''books'']" "t_Input sample_tool = Some 0" "t_Output sample_tool = Some 0"
  "t_AuditLevel sample_tool = LEVEL_AUDIT" "t_AuditFailClosed sample_tool"
  "t_ApprovalMode sample_tool = 0" "t_AuditRetainDays sample_tool = 0"
  "\<not> t_AuditRecordRequest sample_tool" "\<not> t_AuditRecordResponse sample_tool"
  "\<not> t_HasAuthorization sample_tool" "t_Audience sample_tool = []"
  by (simp_all add: sample_tool_def zero_tool_def)

definition sample_mounted :: core where
  "sample_mounted = sample_core\<lparr>c_plans := [0 \<mapsto> sample_plan 0], c_cards := [0 \<mapsto> False],
     c_need := [''/p.S/Get'' \<mapsto> 1], c_tools := [(''/p.S/Get'', sample_tool)]\<rparr>"

lemma sample_contains_card: "\<not> contains_card sample_pool 0"
  by code_simp

lemma sample_AddTools: "AddTools sample_env sample_core [sample_tool] = (None, sample_mounted)"
proof -
  have "unimplementedGovernance sample_core sample_tool = []"
    by (simp add: unimplementedGovernance_def approval_missing_def level_missing_def
        fail_closed_missing_def retain_missing_def sample_core_def)
  moreover have "\<not> conflicting (en_Pool sample_env) sample_core sample_tool"
    by (simp add: conflicting_def sample_core_def)
  ultimately show ?thesis
    using sample_contains_card
    by (simp add: add_tool_def sample_core_def sample_env_def sample_policy_def sample_registry_def
        sample_mounted_def)
qed

section \<open>A card\<close>

definition sample_field :: "string \<Rightarrow> nat \<Rightarrow> kind \<Rightarrow> md option \<Rightarrow> fshape \<Rightarrow> fdesc" where
  "sample_field n k kd m sh = \<lparr>fd_Name = n, fd_FullName = n, fd_Number = k,
     fd_Type = \<lparr>vt_Kind = kd, vt_Message = m, vt_Enum = []\<rparr>, fd_Shape = sh, fd_HasPresence = False\<rparr>"

definition fd_clearance where "fd_clearance = sample_field ''clearance'' 1 EnumKind None FSingle"
definition fd_compartments where
  "fd_compartments = sample_field ''compartments'' 2 StringKind None FList"
definition fd_withheld where "fd_withheld = sample_field ''withheld_fields'' 1 StringKind None FList"
definition fd_access where "fd_access = sample_field ''access'' 10 MessageKind (Some 0) FSingle"
definition fd_body where "fd_body = sample_field ''body'' 5 MessageKind (Some 2) FList"
definition fd_disclosure where
  "fd_disclosure = sample_field ''disclosure'' 7 MessageKind (Some 1) FSingle"

lemmas card_field_defs = fd_clearance_def fd_compartments_def fd_withheld_def fd_access_def
  fd_body_def fd_disclosure_def sample_field_def

definition card_pool :: pool where
  "card_pool =
    [\<lparr>md_FullName = ''garm.card.v1.Label'', md_Fields = [fd_clearance, fd_compartments]\<rparr>,
     \<lparr>md_FullName = ''garm.card.v1.Disclosure'', md_Fields = [fd_withheld]\<rparr>,
     \<lparr>md_FullName = ''garm.card.v1.Element'', md_Fields = [fd_access]\<rparr>,
     \<lparr>md_FullName = ''garm.card.v1.Card'', md_Fields = [fd_body, fd_disclosure, fd_access]\<rparr>]"

definition card_env :: env where
  "card_env = sample_env\<lparr>en_Pool := card_pool\<rparr>"

definition label_field :: "clearance \<Rightarrow> pfield" where
  "label_field cl = Fld fd_access (VMsg (Msg 0 [Fld fd_clearance (VEnum cl)]))"

definition sample_card :: pmsg where
  "sample_card = Msg 3
     [Fld fd_body (VList [VMsg (Msg 2 [label_field CLEARANCE_CONFIDENTIAL]),
                          VMsg (Msg 2 [label_field CLEARANCE_RESTRICTED])]),
      label_field CLEARANCE_INTERNAL]"

definition sample_card_shown :: pmsg where
  "sample_card_shown = Msg 3
     [Fld fd_body (VList [VMsg (Msg 2 [label_field CLEARANCE_CONFIDENTIAL])]),
      Fld fd_disclosure (VMsg (Msg 1 [Fld fd_withheld (VList [VStr ''body[1]''])])),
      label_field CLEARANCE_INTERNAL]"

definition card_tool :: tooldef where
  "card_tool = zero_tool\<lparr>t_FullMethod := ''/p.S/Card'', t_FQN := ''p.card'', t_Name := ''card'',
     t_Verb := VERB_READ, t_MinClearance := CLEARANCE_INTERNAL, t_Input := Some 3,
     t_Output := Some 3\<rparr>"

end
