(* ===== verification/Mount.thy ===== *)
theory Mount
  imports Core Sample
begin

text \<open>
  What mounting guarantees: the invariant \<open>core_ok\<close> of a core and its preservation by every
  operation, what a successful and a refused \<open>AddTools\<close> leave behind, that a declaration in force
  is never replaced by a different one, and that governance a core cannot honour never mounts.
\<close>

definition planned :: "(md \<rightharpoonup> plan) \<Rightarrow> md option \<Rightarrow> bool" where
  "planned pls d = (case d of None \<Rightarrow> False | Some i \<Rightarrow> pls i \<noteq> None)"

definition entry_ok :: "core \<Rightarrow> string \<Rightarrow> tooldef \<Rightarrow> bool" where
  "entry_ok c r t \<longleftrightarrow>
     r = t_FullMethod t \<and> unimplementedGovernance c t = [] \<and>
     rg_Set (c_reg c) (t_Compartments t) = Inr (need_of c r) \<and>
     planned (c_plans c) (t_Input t) \<and> planned (c_plans c) (t_Output t)"

definition core_ok :: "env \<Rightarrow> core \<Rightarrow> bool" where
  "core_ok E c \<longleftrightarrow>
     distinct (map fst (c_tools c)) \<and>
     distinct (map fst (c_resolvers c)) \<and>
     (\<forall>(r, t) \<in> set (c_tools c). entry_ok c r t) \<and>
     (\<forall>d pl. c_plans c d = Some pl \<longrightarrow> pk_Compile (en_Policy E) d (c_reg c) = Inr pl) \<and>
     (\<forall>d b. c_cards c d = Some b \<longrightarrow> b = contains_card (en_Pool E) d) \<and>
     c_validator c \<noteq> None"

text \<open>What no operation after construction changes.\<close>

definition same_wiring :: "core \<Rightarrow> core \<Rightarrow> bool" where
  "same_wiring c d \<longleftrightarrow>
     c_hashKey c = c_hashKey d \<and> c_reg c = c_reg d \<and> c_recorder c = c_recorder d \<and>
     c_audit c = c_audit d \<and> c_fga c = c_fga d \<and> c_grants c = c_grants d \<and>
     c_notifier c = c_notifier d \<and> c_validator c = c_validator d"

lemma same_wiring_refl [simp]: "same_wiring c c"
  by (simp add: same_wiring_def)

lemma same_wiring_trans: "same_wiring a b \<Longrightarrow> same_wiring b c \<Longrightarrow> same_wiring a c"
  by (simp add: same_wiring_def)

lemma governance_cong:
  "same_wiring c d \<Longrightarrow> unimplementedGovernance c t = unimplementedGovernance d t"
  by (simp add: same_wiring_def unimplementedGovernance_def approval_missing_def level_missing_def
      fail_closed_missing_def retain_missing_def)

lemma NewCore_ok: "NewCore E v cfg = Inr c \<Longrightarrow> core_ok E c"
  by (auto simp: NewCore_def core_ok_def split: if_splits option.splits sum.splits)

section \<open>The inner loop\<close>

lemma add_messages_frame:
  "add_messages E name ds c = (r, c') \<Longrightarrow>
     same_wiring c c' \<and> c_tools c' = c_tools c \<and> c_need c' = c_need c \<and>
     c_resolvers c' = c_resolvers c \<and> c_schemas c' = c_schemas c \<and>
     c_availability c' = c_availability c \<and> c_plans c \<subseteq>\<^sub>m c_plans c'"
proof (induction E name ds c rule: add_messages.induct)
  case (3 E name d ds c)
  show ?case
  proof (cases "c_plans c d \<noteq> None \<or> isl (pk_Compile (en_Policy E) d (c_reg c))")
    case True
    then show ?thesis using 3(1,3) by (auto split: sum.splits if_splits)
  next
    case False
    then obtain pl where pl: "c_plans c d = None" "pk_Compile (en_Policy E) d (c_reg c) = Inr pl"
      by (cases "pk_Compile (en_Policy E) d (c_reg c)") auto
    let ?c = "c\<lparr>c_plans := (c_plans c)(d \<mapsto> pl),
                c_cards := (c_cards c)(d \<mapsto> contains_card (en_Pool E) d)\<rparr>"
    have "add_messages E name ds ?c = (r, c')" using 3(3) pl by simp
    then have "same_wiring ?c c' \<and> c_tools c' = c_tools ?c \<and> c_need c' = c_need ?c \<and>
     c_resolvers c' = c_resolvers ?c \<and> c_schemas c' = c_schemas ?c \<and>
     c_availability c' = c_availability ?c \<and> c_plans ?c \<subseteq>\<^sub>m c_plans c'"
      using 3(2) pl by blast
    moreover have "c_plans c \<subseteq>\<^sub>m c_plans ?c" using pl by (auto simp: map_le_def)
    ultimately show ?thesis by (auto simp: same_wiring_def intro: map_le_trans)
  qed
qed auto

lemma planned_mono: "p \<subseteq>\<^sub>m q \<Longrightarrow> planned p d \<Longrightarrow> planned q d"
  by (auto simp: planned_def map_le_def dom_def split: option.splits)

lemma entry_ok_mono:
  assumes "same_wiring c d" "c_plans c \<subseteq>\<^sub>m c_plans d" "need_of d r = need_of c r" "entry_ok c r t"
  shows "entry_ok d r t"
proof -
  have "c_reg d = c_reg c" using assms(1) by (simp add: same_wiring_def)
  then show ?thesis
    using assms(3,4) governance_cong[OF assms(1)] planned_mono[OF assms(2)]
    by (simp add: entry_ok_def)
qed

lemma core_ok_compile:
  assumes ok: "core_ok E c" and new: "c_plans c d = None"
    and pl: "pk_Compile (en_Policy E) d (c_reg c) = Inr pl"
  shows "core_ok E (c\<lparr>c_plans := (c_plans c)(d \<mapsto> pl),
                      c_cards := (c_cards c)(d \<mapsto> contains_card (en_Pool E) d)\<rparr>)"
    (is "core_ok E ?c")
proof -
  have "same_wiring c ?c" by (simp add: same_wiring_def)
  moreover have "c_plans c \<subseteq>\<^sub>m c_plans ?c" using new by (auto simp: map_le_def)
  ultimately have "entry_ok ?c r t" if "entry_ok c r t" for r t
    using entry_ok_mono[of c ?c r t] that by (simp add: need_of_def)
  then show ?thesis using ok pl by (auto simp: core_ok_def)
qed

lemma add_messages_ok:
  "add_messages E name ds c = (r, c') \<Longrightarrow> core_ok E c \<Longrightarrow> core_ok E c'"
proof (induction E name ds c rule: add_messages.induct)
  case (3 E name d ds c)
  show ?case
  proof (cases "c_plans c d \<noteq> None \<or> isl (pk_Compile (en_Policy E) d (c_reg c))")
    case True
    then show ?thesis using 3(1,3,4) by (auto split: sum.splits if_splits)
  next
    case False
    then obtain pl where pl: "c_plans c d = None" "pk_Compile (en_Policy E) d (c_reg c) = Inr pl"
      by (cases "pk_Compile (en_Policy E) d (c_reg c)") auto
    let ?c = "c\<lparr>c_plans := (c_plans c)(d \<mapsto> pl),
                c_cards := (c_cards c)(d \<mapsto> contains_card (en_Pool E) d)\<rparr>"
    have "core_ok E ?c" by (rule core_ok_compile[OF 3(4) pl])
    then show ?thesis using 3(2,3) pl by auto
  qed
qed auto

lemma add_messages_plans:
  "add_messages E name ds c = (None, c') \<Longrightarrow>
     \<forall>d \<in> set ds. planned (c_plans c') d"
proof (induction E name ds c rule: add_messages.induct)
  case (3 E name d ds c)
  show ?case
  proof (cases "c_plans c d = None")
    case True
    then obtain pl where pl: "pk_Compile (en_Policy E) d (c_reg c) = Inr pl"
      using 3(3) by (auto split: sum.splits)
    let ?c = "c\<lparr>c_plans := (c_plans c)(d \<mapsto> pl),
                c_cards := (c_cards c)(d \<mapsto> contains_card (en_Pool E) d)\<rparr>"
    have run: "add_messages E name ds ?c = (None, c')" using 3(3) pl True by simp
    then have "c_plans ?c \<subseteq>\<^sub>m c_plans c'" using add_messages_frame by blast
    then have "planned (c_plans c') (Some d)"
      using planned_mono[of "c_plans ?c" "c_plans c'" "Some d"] by (simp add: planned_def)
    then show ?thesis using 3(2) True pl run by auto
  next
    case False
    then have "add_messages E name ds c = (None, c')" using 3(3) by simp
    moreover from this have "planned (c_plans c') (Some d)"
      using add_messages_frame False planned_mono[of "c_plans c" "c_plans c'" "Some d"]
      by (simp add: planned_def)
    ultimately show ?thesis using 3(1) False by auto
  qed
qed auto

section \<open>One tool\<close>

lemma add_tool_cases:
  assumes add: "add_tool E t c = (r, c')"
  obtains
    (untouched) e where "r = Some e" "c' = c"
  | (messages) r1 where "r \<noteq> None" "add_messages E (t_Name t) [t_Input t, t_Output t] c = (r1, c')"
  | (mounted) c1 need where "r = None" "unimplementedGovernance c t = []"
      "\<not> conflicting (en_Pool E) c t"
      "add_messages E (t_Name t) [t_Input t, t_Output t] c = (None, c1)"
      "rg_Set (c_reg c1) (t_Compartments t) = Inr need"
      "c' = c1\<lparr>c_need := (c_need c1)(t_FullMethod t \<mapsto> need),
              c_tools := AList.update (t_FullMethod t) t (c_tools c1)\<rparr>"
proof -
  obtain r1 c1 where m: "add_messages E (t_Name t) [t_Input t, t_Output t] c = (r1, c1)"
    by (rule prod.exhaust)
  show thesis
  proof (cases "unimplementedGovernance c t \<noteq> [] \<or> conflicting (en_Pool E) c t")
    case True
    then show thesis using add untouched by (auto simp: add_tool_def split: if_split_asm)
  next
    case False
    show thesis
    proof (cases r1)
      case None
      have run: "(r, c') = (case rg_Set (c_reg c1) (t_Compartments t) of
           Inl e \<Rightarrow> (Some (BadCompartments (t_Name t) e), c1)
         | Inr need \<Rightarrow>
             (None, c1\<lparr>c_need := (c_need c1)(t_FullMethod t \<mapsto> need),
                       c_tools := AList.update (t_FullMethod t) t (c_tools c1)\<rparr>))"
        using add m None False unfolding add_tool_def by (simp only: if_False if_True simp_thms de_Morgan_disj prod.case option.case)
      show thesis
      proof (cases "rg_Set (c_reg c1) (t_Compartments t)")
        case (Inl e)
        then have "r \<noteq> None" "c' = c1" using run False by auto
        then show thesis using messages m by blast
      next
        case (Inr need)
        then have "r = None" "c' = c1\<lparr>c_need := (c_need c1)(t_FullMethod t \<mapsto> need),
              c_tools := AList.update (t_FullMethod t) t (c_tools c1)\<rparr>"
          using run False by auto
        then show thesis using mounted m None Inr False by blast
      qed
    next
      case (Some e)
      then have "(r, c') = (Some e, c1)"
        using add m False unfolding add_tool_def
        by (simp only: if_False if_True simp_thms de_Morgan_disj prod.case option.case)
      then show thesis using messages m by simp
    qed
  qed
qed

lemma add_tool_frame:
  assumes add: "add_tool E t c = (r, c')"
  shows "same_wiring c c' \<and> c_resolvers c' = c_resolvers c \<and> c_schemas c' = c_schemas c \<and>
     c_availability c' = c_availability c \<and> c_plans c \<subseteq>\<^sub>m c_plans c' \<and>
     (r \<noteq> None \<longrightarrow> c_tools c' = c_tools c \<and> c_need c' = c_need c)"
  using add
proof (cases rule: add_tool_cases)
  case (messages r1)
  then show ?thesis using add_messages_frame[OF messages(2)] by simp
next
  case (mounted c1 need)
  then show ?thesis using add_messages_frame[OF mounted(4)] by (simp add: same_wiring_def)
qed simp

lemma in_set_update:
  "distinct (map fst xs) \<Longrightarrow> (r, t') \<in> set (AList.update k t xs) \<Longrightarrow>
     (r = k \<and> t' = t) \<or> (r \<noteq> k \<and> (r, t') \<in> set xs)"
proof -
  assume d: "distinct (map fst xs)" and m: "(r, t') \<in> set (AList.update k t xs)"
  have "map_of (AList.update k t xs) r = Some t'"
    using m d by (simp add: distinct_update)
  then show ?thesis by (auto simp: update_conv split: if_splits dest: map_of_SomeD)
qed

lemma add_tool_ok:
  assumes add: "add_tool E t c = (r, c')" and ok: "core_ok E c"
  shows "core_ok E c'"
  using add
proof (cases rule: add_tool_cases)
  case (messages r1)
  then show ?thesis using add_messages_ok ok by blast
next
  case c1: (mounted c1 need)
  have ok1: "core_ok E c1" using add_messages_ok c1(4) ok by blast
  have sw: "same_wiring c1 c'" using c1(6) by (simp add: same_wiring_def)
  have gov: "unimplementedGovernance c' t = []"
    using c1(2) governance_cong add_messages_frame[OF c1(4)] governance_cong[OF sw] by metis
  have new: "entry_ok c' (t_FullMethod t) t"
    using gov c1(5,6) add_messages_plans[OF c1(4)] by (simp add: entry_ok_def need_of_def)
  have old: "entry_ok c' k u" if "k \<noteq> t_FullMethod t" "(k, u) \<in> set (c_tools c1)" for k u
  proof (rule entry_ok_mono[OF sw])
    show "entry_ok c1 k u" using ok1 that(2) by (auto simp: core_ok_def)
  qed (use c1(6) that(1) in \<open>simp_all add: need_of_def\<close>)
  have "entry_ok c' k u" if "(k, u) \<in> set (c_tools c')" for k u
  proof -
    have "(k = t_FullMethod t \<and> u = t) \<or> (k \<noteq> t_FullMethod t \<and> (k, u) \<in> set (c_tools c1))"
      using that ok1 c1(6) by (intro in_set_update) (simp_all add: core_ok_def)
    then show ?thesis using new old by blast
  qed
  then have "\<forall>(k, u) \<in> set (c_tools c'). entry_ok c' k u" by blast
  then show ?thesis using ok1 c1(6) by (simp add: core_ok_def distinct_update)
qed (use ok in simp)

section \<open>A list of tools\<close>

lemma AddTools_ok: "AddTools E c ts = (r, c') \<Longrightarrow> core_ok E c \<Longrightarrow> core_ok E c'"
proof (induction ts arbitrary: c)
  case (Cons t ts)
  obtain r1 c1 where "add_tool E t c = (r1, c1)" by (rule prod.exhaust)
  then show ?case
    using Cons add_tool_ok[of E t c r1 c1] by (cases r1) auto
qed simp

lemma AddTools_wiring: "AddTools E c ts = (r, c') \<Longrightarrow> same_wiring c c'"
proof (induction ts arbitrary: c)
  case (Cons t ts)
  obtain r1 c1 where "add_tool E t c = (r1, c1)" by (rule prod.exhaust)
  then show ?case
    using Cons add_tool_frame[of E t c r1 c1] same_wiring_trans by (cases r1) fastforce+
qed simp

lemma conflicting_iff:
  "conflicting P c t \<longleftrightarrow>
     (\<exists>prev. lookup_tool c (t_FullMethod t) = Some prev \<and> \<not> sameDeclarationAs P prev t)"
  by (simp add: conflicting_def lookup_tool_def split: option.split)

lemma add_tool_keeps:
  assumes add: "add_tool E t c = (r, c')" and look: "lookup_tool c m = Some u"
  shows "\<exists>v. lookup_tool c' m = Some v \<and> sameDeclarationAs (en_Pool E) u v"
  using add
proof (cases rule: add_tool_cases)
  case (messages r1)
  then show ?thesis using look add_messages_frame[OF messages(2)] by (simp add: lookup_tool_def)
next
  case (mounted c1 need)
  have "c_tools c1 = c_tools c" using add_messages_frame[OF mounted(4)] by simp
  then show ?thesis
    using mounted(3,6) look by (auto simp: lookup_tool_def update_conv conflicting_iff)
qed (use look in simp)

lemma add_tool_mounts:
  assumes "add_tool E t c = (None, c')"
  shows "lookup_tool c' (t_FullMethod t) = Some t"
  using assms by (cases rule: add_tool_cases) (simp_all add: lookup_tool_def update_conv)

lemma AddTools_keeps:
  "AddTools E c ts = (r, c') \<Longrightarrow> lookup_tool c m = Some u \<Longrightarrow>
     \<exists>v. lookup_tool c' m = Some v \<and> sameDeclarationAs (en_Pool E) u v"
proof (induction ts arbitrary: c u)
  case (Cons t ts)
  obtain r1 c1 where a: "add_tool E t c = (r1, c1)" by (rule prod.exhaust)
  obtain v where v: "lookup_tool c1 m = Some v" "sameDeclarationAs (en_Pool E) u v"
    using add_tool_keeps[OF a Cons(3)] by blast
  show ?case
  proof (cases r1)
    case None
    then obtain w where "lookup_tool c' m = Some w" "sameDeclarationAs (en_Pool E) v w"
      using Cons(1)[of c1 v] Cons(2) a v by auto
    then show ?thesis using v same_decl_trans by blast
  qed (use Cons(2) a v in auto)
qed auto

lemma AddTools_mounts_all:
  "AddTools E c ts = (None, c') \<Longrightarrow> t \<in> set ts \<Longrightarrow>
     \<exists>v. lookup_tool c' (t_FullMethod t) = Some v \<and> sameDeclarationAs (en_Pool E) t v"
proof (induction ts arbitrary: c)
  case (Cons u ts)
  obtain r1 c1 where a: "add_tool E u c = (r1, c1)" by (rule prod.exhaust)
  have r1: "r1 = None" using Cons(2) a by (cases r1) auto
  have rest: "AddTools E c1 ts = (None, c')" using Cons(2) a r1 by simp
  show ?case
  proof (cases "t = u")
    case True
    then show ?thesis
      using AddTools_keeps[OF rest] add_tool_mounts a r1 by blast
  qed (use Cons(1)[OF rest] Cons(3) in simp)
qed simp

lemma core_ok_lookup:
  "core_ok E c \<Longrightarrow> lookup_tool c m = Some t \<Longrightarrow> entry_ok c m t"
  by (auto simp: core_ok_def lookup_tool_def dest: map_of_SomeD)

section \<open>Resolvers and availability\<close>

lemma Register_ok: "core_ok E c \<Longrightarrow> Register c m q f = (r, c') \<Longrightarrow> core_ok E c'"
proof -
  assume ok: "core_ok E c" and reg: "Register c m q f = (r, c')"
  show ?thesis
  proof (cases "c' = c")
    case False
    then have c': "c' = c\<lparr>c_resolvers := AList.update m \<lparr>rg_newReq = q, rg_fn = f\<rparr> (c_resolvers c)\<rparr>"
      using reg by (auto simp: Register_def split: if_splits)
    have "entry_ok c' k t \<longleftrightarrow> entry_ok c k t" for k t
      using governance_cong[of c c' t] c' by (simp add: entry_ok_def need_of_def same_wiring_def)
    then show ?thesis using ok c' by (simp add: core_ok_def distinct_update)
  qed (use ok in simp)
qed

lemma SetAvailability_ok: "core_ok E c \<Longrightarrow> core_ok E (SetAvailability c src)"
proof -
  assume ok: "core_ok E c"
  have "entry_ok (SetAvailability c src) k t \<longleftrightarrow> entry_ok c k t" for k t
    using governance_cong[of c "SetAvailability c src" t]
    by (simp add: SetAvailability_def entry_ok_def need_of_def same_wiring_def)
  then show ?thesis using ok by (simp add: core_ok_def SetAvailability_def)
qed

lemma Register_keeps:
  "Register c m q f = (r, c') \<Longrightarrow> resolverFor c k = Some g \<Longrightarrow> resolverFor c' k = Some g"
  by (auto simp: Register_def resolverFor_def update_conv split: if_splits option.splits)

section \<open>Governance\<close>

text \<open>
  What a tool may declare on a core, said once: every promise has something to keep it. How long a
  record is kept is apart, because the code compares it on 64 bits.
\<close>

definition supervised :: "core \<Rightarrow> tooldef \<Rightarrow> bool" where
  "supervised c t \<longleftrightarrow>
     (t_ApprovalMode t \<in> {MODE_UNSPECIFIED, MODE_NONE} \<or>
      t_ApprovalMode t = MODE_NOTIFY \<and> c_notifier c \<noteq> None \<or>
      t_ApprovalMode t = MODE_GRANT \<and> c_grants c \<noteq> None) \<and>
     (t_AuditLevel t \<in> {LEVEL_UNSPECIFIED, LEVEL_LEDGER} \<or>
      t_AuditLevel t = LEVEL_AUDIT \<and> c_audit c \<noteq> None) \<and>
     (t_AuditFailClosed t \<longrightarrow> t_AuditLevel t = LEVEL_AUDIT \<and> c_audit c \<noteq> None) \<and>
     (0 < t_AuditRetainDays t \<longrightarrow> c_audit c \<noteq> None) \<and>
     \<not> t_AuditRecordRequest t \<and> \<not> t_AuditRecordResponse t \<and>
     (t_HasAuthorization t \<longrightarrow> c_fga c \<noteq> None)"

definition retained :: "core \<Rightarrow> tooldef \<Rightarrow> bool" where
  "retained c t \<longleftrightarrow>
     (0 < t_AuditRetainDays t \<longrightarrow>
        (\<exists>a. c_audit c = Some a \<and>
             (as_Retention a = 0 \<or> int (t_AuditRetainDays t) * day_ns \<le> as_Retention a)))"

lemma governance_parts:
  "approval_missing c t = [] \<longleftrightarrow>
     t_ApprovalMode t \<in> {MODE_UNSPECIFIED, MODE_NONE} \<or>
     t_ApprovalMode t = MODE_NOTIFY \<and> c_notifier c \<noteq> None \<or>
     t_ApprovalMode t = MODE_GRANT \<and> c_grants c \<noteq> None"
  "level_missing c t = [] \<longleftrightarrow>
     t_AuditLevel t \<in> {LEVEL_UNSPECIFIED, LEVEL_LEDGER} \<or>
     t_AuditLevel t = LEVEL_AUDIT \<and> c_audit c \<noteq> None"
  "fail_closed_missing c t = [] \<longleftrightarrow>
     (t_AuditFailClosed t \<longrightarrow> t_AuditLevel t = LEVEL_AUDIT \<and> c_audit c \<noteq> None)"
  by (auto simp: approval_missing_def level_missing_def fail_closed_missing_def)

lemma retain_part:
  assumes "t_AuditRetainDays t \<le> 106751"
  shows "retain_missing c t = [] \<longleftrightarrow> retained c t"
proof -
  have "int (t_AuditRetainDays t) * day_ns \<le> 106751 * day_ns"
    using assms by (simp add: day_ns_def)
  then have "wrap64 (int (t_AuditRetainDays t) * day_ns) = int (t_AuditRetainDays t) * day_ns"
    by (intro wrap64_small) (simp_all add: day_ns_def)
  then show ?thesis by (auto simp: retained_def retain_missing_def Let_def split: option.splits)
qed

lemma retain_needs_sink: "retain_missing c t = [] \<Longrightarrow> 0 < t_AuditRetainDays t \<Longrightarrow> c_audit c \<noteq> None"
  by (auto simp: retain_missing_def Let_def split: option.splits)

lemma governance_supervised:
  "unimplementedGovernance c t = [] \<longleftrightarrow> supervised c t \<and> retain_missing c t = []"
  unfolding unimplementedGovernance_def supervised_def
  using retain_needs_sink[of c t] by (auto simp: governance_parts)

lemma governance_iff_supervised:
  assumes "t_AuditRetainDays t \<le> 106751"
  shows "unimplementedGovernance c t = [] \<longleftrightarrow> supervised c t \<and> retained c t"
  by (simp add: governance_supervised retain_part[OF assms])

section \<open>Properties\<close>

text \<open>
  C24: Mounting is the refusal it claims to be. \<open>AddTools\<close> keeps the invariant of a core on every
  path, and when it succeeds every declaration of the list is in force (or an identical one is) and
  every promise that declaration makes (approval mode, audit level, blocking audit, payload recording,
  instance authorization, an audit sink for a record that is kept) has a configured step behind it. The
  sink keeps a record as long as is promised for every promise of at most 106751 days, the range of
  the duration type; a longer one is compared after the product has wrapped.
\<close>

theorem mount_governed:
  assumes "core_ok E c" "AddTools E c ts = (r, c')"
  shows "core_ok E c' \<and>
     (r = None \<longrightarrow>
        (\<forall>t \<in> set ts. \<exists>u. lookup_tool c' (t_FullMethod t) = Some u \<and>
            sameDeclarationAs (en_Pool E) t u \<and>
            supervised c' u \<and> (t_AuditRetainDays u \<le> 106751 \<longrightarrow> retained c' u)))"
proof (intro conjI impI ballI)
  show ok: "core_ok E c'" using AddTools_ok assms by blast
  fix t assume "r = None" "t \<in> set ts"
  then obtain u where u: "lookup_tool c' (t_FullMethod t) = Some u" "sameDeclarationAs (en_Pool E) t u"
    using AddTools_mounts_all assms(2) by blast
  moreover have "unimplementedGovernance c' u = []"
    using core_ok_lookup[OF ok u(1)] by (simp add: entry_ok_def)
  ultimately show "\<exists>u. lookup_tool c' (t_FullMethod t) = Some u \<and>
            sameDeclarationAs (en_Pool E) t u \<and>
            supervised c' u \<and> (t_AuditRetainDays u \<le> 106751 \<longrightarrow> retained c' u)"
    using governance_supervised governance_iff_supervised by blast
qed

lemma mount_governed_witness:
  "core_ok sample_env sample_mounted \<and>
   (\<exists>u. lookup_tool sample_mounted ''/p.S/Get'' = Some u \<and>
        sameDeclarationAs (en_Pool sample_env) sample_tool u)"
proof -
  have "core_ok sample_env sample_core" using NewCore_ok sample_NewCore by blast
  from mount_governed[OF this sample_AddTools] show ?thesis by auto
qed

text \<open>
  One method has one policy. Whatever list is mounted, and whether or not mounting succeeds, a
  declaration in force stays in force: the route answers with the same declaration in every compared
  field, so a second, different declaration can never replace the first.
\<close>

theorem declaration_never_replaced:
  assumes "AddTools E c ts = (r, c')" "lookup_tool c m = Some u"
  shows "\<exists>v. lookup_tool c' m = Some v \<and> sameDeclarationAs (en_Pool E) u v"
  using AddTools_keeps assms by blast

lemma declaration_never_replaced_witness:
  "\<exists>r c' v. AddTools sample_env sample_mounted [sample_tool\<lparr>t_MinClearance := CLEARANCE_PUBLIC\<rparr>] = (r, c') \<and>
     lookup_tool c' ''/p.S/Get'' = Some v \<and> t_MinClearance v = CLEARANCE_INTERNAL"
proof -
  have l: "lookup_tool sample_mounted ''/p.S/Get'' = Some sample_tool"
    by (simp add: lookup_tool_def sample_mounted_def)
  obtain r c' where a: "AddTools sample_env sample_mounted
      [sample_tool\<lparr>t_MinClearance := CLEARANCE_PUBLIC\<rparr>] = (r, c')"
    by (rule prod.exhaust)
  from declaration_never_replaced[OF a l] obtain v where
    "lookup_tool c' ''/p.S/Get'' = Some v" "sameDeclarationAs (en_Pool sample_env) sample_tool v"
    by blast
  then show ?thesis using a by (auto simp: sameDeclarationAs_def)
qed

text \<open>
  The retention promise is compared in nanoseconds on 64 bits, and the product wraps: a tool
  that promises 106752 days (about 292 years) mounts against a sink that keeps thirty.
\<close>

theorem retention_overflow:
  "unimplementedGovernance (sample_core\<lparr>c_audit := Some (sample_sink (30 * day_ns))\<rparr>)
     (sample_tool\<lparr>t_AuditRetainDays := 106752\<rparr>) = []"
  by (simp add: unimplementedGovernance_def approval_missing_def level_missing_def
      fail_closed_missing_def retain_missing_def sample_sink_def day_ns_def wrap64_def Let_def)

end
