(* ===== verification/Narrow.thy ===== *)
theory Narrow
  imports Core Sample
begin

text \<open>
  \<open>internal/toolplane/narrow.go\<close>: the principal a caller asks to be answered as. The property shown
  is exact: what the narrowed principal sees is what the caller sees, cut down by each dimension
  the request named, and nothing else about the caller changes.
\<close>

record shape_request =
  sr_Clearance :: clearance
  sr_HasClearance :: bool
  sr_Compartments :: "string list"
  sr_Verbs :: "verb list"
  sr_ToolSets :: "string list"

datatype narrow_err =
  NoPrincipal | ClearanceUp clearance clearance | BadNames string | CompartmentsUp | VerbUp verb

text \<open>The guards, one per dimension; each returns the value the copy gets.\<close>

definition narrow_clearance :: "env \<Rightarrow> principal \<Rightarrow> shape_request \<Rightarrow> narrow_err + clearance" where
  "narrow_clearance E p want =
     (if sr_HasClearance want \<and> sr_Clearance want \<noteq> CLEARANCE_UNSPECIFIED then
        (if \<not> pk_Allows (en_Policy E) (p_Clearance p) (sr_Clearance want)
         then Inl (ClearanceUp (sr_Clearance want) (p_Clearance p))
         else Inr (sr_Clearance want))
      else Inr (p_Clearance p))"

definition narrow_compartments ::
  "env \<Rightarrow> core \<Rightarrow> principal \<Rightarrow> shape_request \<Rightarrow> narrow_err + comp_set" where
  "narrow_compartments E c p want =
     (if sr_Compartments want \<noteq> [] then
        (case rg_Set (c_reg c) (sr_Compartments want) of
           Inl e \<Rightarrow> Inl (BadNames e)
         | Inr bits \<Rightarrow>
             if \<not> pk_Covers (en_Policy E) (p_Compartments p) bits then Inl CompartmentsUp
             else Inr bits)
      else Inr (p_Compartments p))"

definition narrow_verbs :: "principal \<Rightarrow> shape_request \<Rightarrow> narrow_err + verb_set" where
  "narrow_verbs p want =
     (if sr_Verbs want \<noteq> [] then
        (case List.find (\<lambda>v. \<not> Has (p_Verbs p) v) (sr_Verbs want) of
           Some v \<Rightarrow> Inl (VerbUp v)
         | None \<Rightarrow> Inr (NewVerbSet (sr_Verbs want)))
      else Inr (p_Verbs p))"

definition narrow_toolsets :: "principal \<Rightarrow> shape_request \<Rightarrow> string list option" where
  "narrow_toolsets p want =
     (if sr_ToolSets want \<noteq> [] then
        (case p_ToolSets p of
           None \<Rightarrow> Some (sr_ToolSets want)
         | Some held \<Rightarrow> Some (filter (contains_string held) (sr_ToolSets want)))
      else p_ToolSets p)"

definition Narrow :: "env \<Rightarrow> core \<Rightarrow> principal option \<Rightarrow> shape_request \<Rightarrow> narrow_err + principal" where
  "Narrow E c po want =
     (case po of
        None \<Rightarrow> Inl NoPrincipal
      | Some p \<Rightarrow>
          ebind (narrow_clearance E p want) (\<lambda>cl.
          ebind (narrow_compartments E c p want) (\<lambda>cs.
          ebind (narrow_verbs p want) (\<lambda>vs.
            Inr (p\<lparr>p_Clearance := cl, p_Compartments := cs, p_Verbs := vs,
                   p_ToolSets := narrow_toolsets p want\<rparr>)))))"

declare scope_meets_iff [simp]

lemma visible_iff:
  "Visible E c (Some p) t \<longleftrightarrow>
     Has (p_Verbs p) (t_Verb t) \<and>
     pk_Allows (en_Policy E) (p_Clearance p) (t_MinClearance t) \<and>
     pk_Covers (en_Policy E) (p_Compartments p) (need_of c (t_FullMethod t)) \<and>
     inScope (p_ToolSets p) (t_Sets t)"
  by (simp add: Visible_def visibleLocked_def)

lemma visible_none [simp]: "\<not> Visible E c None t"
  by (simp add: Visible_def visibleLocked_def)

lemma narrow_clearance_sees:
  assumes "allows_order (pk_Allows (en_Policy E))" "narrow_clearance E p want = Inr cl"
  shows "pk_Allows (en_Policy E) cl m \<longleftrightarrow>
     pk_Allows (en_Policy E) (p_Clearance p) m \<and>
     (sr_HasClearance want \<and> sr_Clearance want \<noteq> CLEARANCE_UNSPECIFIED \<longrightarrow>
        pk_Allows (en_Policy E) (sr_Clearance want) m)"
  using assms by (auto simp: narrow_clearance_def allows_order_def split: if_splits)

lemma narrow_compartments_sees:
  assumes "covers_order (pk_Covers (en_Policy E))" "narrow_compartments E c p want = Inr cs"
  shows "pk_Covers (en_Policy E) cs m \<longleftrightarrow>
     pk_Covers (en_Policy E) (p_Compartments p) m \<and>
     (sr_Compartments want \<noteq> [] \<longrightarrow>
        (\<exists>bits. rg_Set (c_reg c) (sr_Compartments want) = Inr bits \<and> pk_Covers (en_Policy E) bits m))"
  using assms
  by (auto simp: narrow_compartments_def covers_order_def split: if_splits sum.splits)

lemma narrow_verbs_sees:
  assumes "narrow_verbs p want = Inr vs"
  shows "Has vs v \<longleftrightarrow> Has (p_Verbs p) v \<and> (sr_Verbs want \<noteq> [] \<longrightarrow> v \<in> set (sr_Verbs want))"
proof (cases "sr_Verbs want = []")
  case False
  then have f: "List.find (\<lambda>v. \<not> Has (p_Verbs p) v) (sr_Verbs want) = None"
    "vs = NewVerbSet (sr_Verbs want)"
    using assms by (auto simp: narrow_verbs_def split: option.splits)
  have held: "Has (p_Verbs p) w" if "w \<in> set (sr_Verbs want)" for w
    using find_None_all[OF f(1) that] by simp
  moreover have "0 < w \<and> w < 8" if "w \<in> set (sr_Verbs want)" for w
  proof -
    have "0 < w" "bit (p_Verbs p) (nat w)" using held[OF that] by (simp_all add: Has_iff)
    then show ?thesis using bit_word8[of "p_Verbs p" "nat w"] by simp
  qed
  ultimately show ?thesis using f(2) False by (auto simp: Has_NewVerbSet)
qed (use assms in \<open>simp add: narrow_verbs_def\<close>)

lemma narrow_toolsets_sees:
  "inScope (narrow_toolsets p want) sets \<longleftrightarrow>
     inScope (p_ToolSets p) sets \<and>
     (sr_ToolSets want \<noteq> [] \<longrightarrow>
        (\<exists>s \<in> set (sr_ToolSets want). s \<in> set sets \<and>
            (\<forall>held. p_ToolSets p = Some held \<longrightarrow> s \<in> set held)))"
  by (auto simp: narrow_toolsets_def inScope_def split: option.splits)

lemma Narrow_Inr:
  assumes "Narrow E c po want = Inr q"
  obtains p cl cs vs where "po = Some p" "narrow_clearance E p want = Inr cl"
    "narrow_compartments E c p want = Inr cs" "narrow_verbs p want = Inr vs"
    "q = p\<lparr>p_Clearance := cl, p_Compartments := cs, p_Verbs := vs,
           p_ToolSets := narrow_toolsets p want\<rparr>"
  using assms by (auto simp: Narrow_def ebind_Inr_iff split: option.splits)

text \<open>
  Narrowing is exact and only goes down. Whenever a preview principal is granted, a tool is
  visible to it precisely when it is visible to the caller AND passes every dimension the request
  named (clearance, compartments, verbs, tool sets within the caller's own scope); so no request
  can make a tool visible that the caller does not already see.
\<close>

theorem narrow_exact:
  assumes "allows_order (pk_Allows (en_Policy E))" "covers_order (pk_Covers (en_Policy E))"
    and "Narrow E c (Some p) want = Inr q"
  shows "Visible E c (Some q) t \<longleftrightarrow>
     Visible E c (Some p) t \<and>
     (sr_HasClearance want \<and> sr_Clearance want \<noteq> CLEARANCE_UNSPECIFIED \<longrightarrow>
        pk_Allows (en_Policy E) (sr_Clearance want) (t_MinClearance t)) \<and>
     (sr_Compartments want \<noteq> [] \<longrightarrow>
        (\<exists>bits. rg_Set (c_reg c) (sr_Compartments want) = Inr bits \<and>
                pk_Covers (en_Policy E) bits (need_of c (t_FullMethod t)))) \<and>
     (sr_Verbs want \<noteq> [] \<longrightarrow> t_Verb t \<in> set (sr_Verbs want)) \<and>
     (sr_ToolSets want \<noteq> [] \<longrightarrow>
        (\<exists>s \<in> set (sr_ToolSets want). s \<in> set (t_Sets t) \<and>
            (\<forall>held. p_ToolSets p = Some held \<longrightarrow> s \<in> set held)))"
proof -
  obtain cl cs vs where n: "narrow_clearance E p want = Inr cl"
    "narrow_compartments E c p want = Inr cs" "narrow_verbs p want = Inr vs"
    and q: "q = p\<lparr>p_Clearance := cl, p_Compartments := cs, p_Verbs := vs,
                  p_ToolSets := narrow_toolsets p want\<rparr>"
    using Narrow_Inr[OF assms(3)] by blast
  show ?thesis
    unfolding visible_iff q
    by (simp add: narrow_clearance_sees[OF assms(1) n(1)] narrow_compartments_sees[OF assms(2) n(2)]
        narrow_verbs_sees[OF n(3)] narrow_toolsets_sees) blast
qed

definition sample_shape :: shape_request where
  "sample_shape = \<lparr>sr_Clearance = CLEARANCE_PUBLIC, sr_HasClearance = True, sr_Compartments = [],
     sr_Verbs = [VERB_READ], sr_ToolSets = [''books'']\<rparr>"

lemma sample_visible: "Visible sample_env sample_mounted (Some sample_principal) sample_tool"
  by code_simp

lemma narrow_exact_witness:
  "\<exists>q. Narrow sample_env sample_mounted (Some sample_principal) sample_shape = Inr q \<and>
       Visible sample_env sample_mounted (Some sample_principal) sample_tool \<and>
       \<not> Visible sample_env sample_mounted (Some q) sample_tool"
proof -
  have vis: "Visible sample_env sample_mounted (Some sample_principal) sample_tool"
    by (rule sample_visible)
  have al: "pk_Allows (en_Policy sample_env) = num_allows"
    and co: "pk_Covers (en_Policy sample_env) = bit_covers"
    by (simp_all add: sample_env_def sample_policy_def)
  have "\<not> isl (Narrow sample_env sample_mounted (Some sample_principal) sample_shape)"
    by code_simp
  then obtain q where q: "Narrow sample_env sample_mounted (Some sample_principal) sample_shape = Inr q"
    by (cases "Narrow sample_env sample_mounted (Some sample_principal) sample_shape") auto
  have "\<not> num_allows CLEARANCE_PUBLIC CLEARANCE_INTERNAL" by (simp add: num_allows_def)
  then have "\<not> Visible sample_env sample_mounted (Some q) sample_tool"
    using narrow_exact[of sample_env sample_mounted sample_principal sample_shape q sample_tool]
      num_allows_order bit_covers_order q al co
    by (simp add: sample_shape_def)
  with vis q show ?thesis by blast
qed

end
