(* ===== verification/Catalog.thy ===== *)
theory Catalog
  imports Mount Narrow "HOL-Library.List_Lexorder" "HOL-Library.Char_ord" "HOL-Library.Multiset"
begin

text \<open>
  \<open>internal/toolplane/catalog.go\<close>: the listing of the tools a principal may see, and the lookup of
  one by its fully qualified name.

  A Go map is ranged over in no particular order. The listing is therefore given the entries in the
  order the range happens to visit them (\<open>ord\<close>), and the properties hold for every such order.
  Strings are compared byte by byte, which is the lexicographic order of the library theories.
\<close>

record catalog_filter =
  f_NamePrefix :: string
  f_Verb :: verb
  f_Service :: string
  f_Set :: string
  f_Audience :: string
  f_MaxApprovalMode :: approval_mode

definition no_filter :: catalog_filter where
  "no_filter = \<lparr>f_NamePrefix = [], f_Verb = 0, f_Service = [], f_Set = [], f_Audience = [],
     f_MaxApprovalMode = 0\<rparr>"

definition matches :: "catalog_filter \<Rightarrow> tooldef \<Rightarrow> bool" where
  "matches f t =
     (if f_NamePrefix f \<noteq> [] \<and> \<not> has_prefix (t_Name t) (f_NamePrefix f) then False
      else if f_Verb f \<noteq> VERB_UNSPECIFIED \<and> t_Verb t \<noteq> f_Verb f then False
      else if f_Service f \<noteq> [] \<and> Service t \<noteq> f_Service f then False
      else if f_Set f \<noteq> [] \<and> \<not> contains_string (t_Sets t) (f_Set f) then False
      else if \<not> audience_admits (t_Audience t) (f_Audience f) then False
      else if f_MaxApprovalMode f \<noteq> MODE_UNSPECIFIED \<and> t_ApprovalMode t > f_MaxApprovalMode f
        then False
      else True)"

definition catalog_in ::
  "env \<Rightarrow> core \<Rightarrow> tooldef list \<Rightarrow> principal option \<Rightarrow> catalog_filter \<Rightarrow> tooldef list" where
  "catalog_in E c ord po f =
     (case po of
        None \<Rightarrow> []
      | Some p \<Rightarrow>
          sort_key t_FQN (filter (\<lambda>t. \<not> (\<not> visibleLocked E c (Some p) t \<or> \<not> matches f t)) ord))"

abbreviation mounted :: "core \<Rightarrow> tooldef list" where
  "mounted c \<equiv> map snd (c_tools c)"

definition Catalog :: "env \<Rightarrow> core \<Rightarrow> principal option \<Rightarrow> catalog_filter \<Rightarrow> tooldef list" where
  "Catalog E c po f = catalog_in E c (mounted c) po f"

fun find_fqn :: "env \<Rightarrow> core \<Rightarrow> principal \<Rightarrow> string \<Rightarrow> tooldef list \<Rightarrow> tooldef option" where
  "find_fqn E c p fqn [] = None"
| "find_fqn E c p fqn (t # ts) =
     (if t_FQN t = fqn then (if \<not> visibleLocked E c (Some p) t then None else Some t)
      else find_fqn E c p fqn ts)"

definition ToolByFQN :: "env \<Rightarrow> core \<Rightarrow> tooldef list \<Rightarrow> principal option \<Rightarrow> string \<Rightarrow> tooldef option" where
  "ToolByFQN E c ord po fqn =
     (case po of
        None \<Rightarrow> None
      | Some p \<Rightarrow> if fqn = [] then None else find_fqn E c p fqn ord)"

lemma matches_iff:
  "matches f t \<longleftrightarrow>
     (f_NamePrefix f = [] \<or> has_prefix (t_Name t) (f_NamePrefix f)) \<and>
     (f_Verb f = VERB_UNSPECIFIED \<or> t_Verb t = f_Verb f) \<and>
     (f_Service f = [] \<or> Service t = f_Service f) \<and>
     (f_Set f = [] \<or> f_Set f \<in> set (t_Sets t)) \<and>
     audience_admits (t_Audience t) (f_Audience f) \<and>
     (f_MaxApprovalMode f = MODE_UNSPECIFIED \<or> t_ApprovalMode t \<le> f_MaxApprovalMode f)"
  by (auto simp: matches_def)

lemma catalog_in_set:
  "set (catalog_in E c ord po f) = {t \<in> set ord. Visible E c po t \<and> matches f t}"
  by (auto simp: catalog_in_def Visible_def visibleLocked_def split: option.splits)

lemma catalog_in_sorted: "sorted (map t_FQN (catalog_in E c ord po f))"
  by (simp add: catalog_in_def split: option.split)

text \<open>Two sorted listings of the same tools by distinct names are the same list.\<close>

lemma sort_key_perm:
  assumes "mset xs = mset ys" "distinct (map k xs)"
  shows "sort_key k xs = sort_key k ys"
proof -
  let ?l = "sort_key k xs" and ?r = "sort_key k ys"
  have "sort (map k ys) = map k ?l"
    by (rule properties_for_sort) (use assms(1) in \<open>simp_all add: mset_map\<close>)
  moreover have "sort (map k ys) = map k ?r"
    by (rule properties_for_sort) (simp_all add: mset_map)
  ultimately have "map k ?l = map k ?r" by simp
  moreover have "set xs = set ys" using assms(1) by (rule mset_eq_setD)
  then have "inj_on k (set ?l \<union> set ?r)" using assms(2) by (simp add: distinct_map)
  ultimately show ?thesis by (rule map_inj_on)
qed

lemma find_fqn_distinct:
  "distinct (map t_FQN ts) \<Longrightarrow>
     find_fqn E c p fqn ts = Some t \<longleftrightarrow>
       t \<in> set ts \<and> t_FQN t = fqn \<and> Visible E c (Some p) t"
  by (induction ts) (auto simp: Visible_def)

text \<open>
  C20: Discovery and enforcement agree. Whatever order the map is ranged over, a listing holds
  exactly the mounted tools that are visible to the principal by step 2's own predicate and that
  match the filter; it is sorted by fully qualified name, and where those names are distinct the
  listing does not depend on the order at all.
\<close>

theorem catalog_exact:
  assumes "mset ord = mset (mounted c)"
  shows "set (catalog_in E c ord po f) =
           {t. (\<exists>r. (r, t) \<in> set (c_tools c)) \<and> Visible E c po t \<and> matches f t} \<and>
         sorted (map t_FQN (catalog_in E c ord po f)) \<and>
         (distinct (map t_FQN (mounted c)) \<longrightarrow> catalog_in E c ord po f = Catalog E c po f)"
proof (intro conjI impI)
  have "set ord = set (mounted c)" using assms by (rule mset_eq_setD)
  then show "set (catalog_in E c ord po f) =
           {t. (\<exists>r. (r, t) \<in> set (c_tools c)) \<and> Visible E c po t \<and> matches f t}"
    by (auto simp: catalog_in_set image_iff) force
  show "sorted (map t_FQN (catalog_in E c ord po f))" by (rule catalog_in_sorted)
  assume d: "distinct (map t_FQN (mounted c))"
  have "mset (map t_FQN ord) = mset (map t_FQN (mounted c))" using assms by (metis mset_map)
  then have "distinct (map t_FQN ord)" using d by (metis mset_eq_imp_distinct_iff)
  then have "distinct (map t_FQN (filter P ord))" for P by (rule distinct_map_filter)
  moreover have "mset (filter P ord) = mset (filter P (mounted c))" for P
    using assms by (metis mset_filter)
  ultimately have "sort_key t_FQN (filter P ord) = sort_key t_FQN (filter P (mounted c))" for P
    using sort_key_perm by blast
  then show "catalog_in E c ord po f = Catalog E c po f"
    by (simp add: catalog_in_def Catalog_def split: option.split)
qed

lemma catalog_exact_witness:
  "Catalog sample_env sample_mounted (Some sample_principal) no_filter = [sample_tool] \<and>
   set (catalog_in sample_env sample_mounted [sample_tool] (Some sample_principal) no_filter)
     = {sample_tool}"
proof
  have v: "Visible sample_env sample_mounted (Some sample_principal) sample_tool"
    by (rule sample_visible)
  have m: "matches no_filter sample_tool"
    by (simp add: matches_iff no_filter_def audience_admits_def)
  have t: "c_tools sample_mounted = [(''/p.S/Get'', sample_tool)]" by (simp add: sample_mounted_def)
  show "Catalog sample_env sample_mounted (Some sample_principal) no_filter = [sample_tool]"
    using v m t by (simp add: Catalog_def catalog_in_def Visible_def)
  have ms: "mset [sample_tool] = mset (mounted sample_mounted)" by (simp add: t)
  have "{u. (\<exists>r. (r, u) \<in> set (c_tools sample_mounted)) \<and>
          Visible sample_env sample_mounted (Some sample_principal) u \<and> matches no_filter u}
        = {sample_tool}"
    unfolding t using v m by auto
  then show "set (catalog_in sample_env sample_mounted [sample_tool] (Some sample_principal) no_filter)
     = {sample_tool}"
    using conjunct1[OF catalog_exact[OF ms, of sample_env "Some sample_principal" no_filter]]
    by (rule trans[rotated])
qed

text \<open>
  A lookup by name cannot be used to enumerate what the listing withholds. With distinct names
  it returns exactly the mounted tool of that name if the caller may see it; for a tool the caller
  may not see the answer is the one for a tool that does not exist.
\<close>

theorem tool_by_fqn_exact:
  assumes "distinct (map t_FQN ord)" "fqn \<noteq> []"
  shows "(ToolByFQN E c ord po fqn = Some t \<longleftrightarrow>
            t \<in> set ord \<and> t_FQN t = fqn \<and> Visible E c po t) \<and>
         ((\<forall>t \<in> set ord. t_FQN t = fqn \<longrightarrow> \<not> Visible E c po t) \<longrightarrow> ToolByFQN E c ord po fqn = None)"
proof (cases po)
  case (Some p)
  have "ToolByFQN E c ord po fqn = find_fqn E c p fqn ord"
    using assms(2) Some by (simp add: ToolByFQN_def)
  then show ?thesis
    using find_fqn_distinct[OF assms(1), of E c p fqn] Some by (metis option.exhaust)
qed (simp add: ToolByFQN_def)

lemma tool_by_fqn_exact_witness:
  "ToolByFQN sample_env sample_mounted [sample_tool] (Some sample_principal) ''p.get''
     = Some sample_tool"
  using tool_by_fqn_exact[of "[sample_tool]" "''p.get''" sample_env sample_mounted
      "Some sample_principal" sample_tool] sample_visible
  by simp

end
