(* ===== verification/Cards.thy ===== *)
theory Cards
  imports Mount
begin

text \<open>
  The value half of \<open>internal/toolplane/sanitise.go\<close>: the card walk, step 8's second half. The
  validation of the labels, the projection of a card for one viewer, and what is recorded as
  withheld.

  The Go walk mutates the message and appends to \<open>w.withheld\<close>; here each function returns the new
  value and the entries it added, so truncating back to a mark is dropping the inner entries. A field
  whose every element was dropped is no longer populated.
\<close>

section \<open>Labels and floors\<close>

record label =
  lb_Clearance :: clearance
  lb_Compartments :: "string list"

datatype below = LabelBelowEndpoint | LabelBelowSection | LabelBelowElement

record card_floor =
  fl_Clearance :: clearance
  fl_Compartments :: "string list"
  fl_Check :: below

definition covers_names :: "string list \<Rightarrow> string list \<Rightarrow> bool" where
  "covers_names have need = list_all (contains_string have) need"

fun join_names :: "string list \<Rightarrow> string list \<Rightarrow> string list" where
  "join_names out [] = out"
| "join_names out (n # ns) =
     (if contains_string out n then join_names out ns else join_names (out @ [n]) ns)"

definition floor_under :: "card_floor \<Rightarrow> label \<Rightarrow> bool \<Rightarrow> card_floor" where
  "floor_under f l isSection =
     \<lparr>fl_Clearance = (if lb_Clearance l > fl_Clearance f then lb_Clearance l else fl_Clearance f),
      fl_Compartments = join_names (fl_Compartments f) (lb_Compartments l),
      fl_Check = (if isSection then LabelBelowSection else LabelBelowElement)\<rparr>"

definition floor_admits :: "card_floor \<Rightarrow> label \<Rightarrow> bool" where
  "floor_admits f l =
     (lb_Clearance l \<ge> fl_Clearance f \<and> covers_names (lb_Compartments l) (fl_Compartments f))"

definition holds_a_section :: "pool \<Rightarrow> pmsg \<Rightarrow> bool" where
  "holds_a_section P m =
     list_ex (\<lambda>f. fd_Kind (pf_desc f) = MessageKind \<and> \<not> is_list (pf_desc f) \<and> \<not> is_map (pf_desc f) \<and>
                  (case fd_Message (pf_desc f) of
                     Some j \<Rightarrow> full_name P j = sectionMessageName | None \<Rightarrow> False))
       (pm_fields m)"

definition floor_for :: "env \<Rightarrow> tooldef \<Rightarrow> md \<Rightarrow> card_floor" where
  "floor_for E t d =
     (let f = \<lparr>fl_Clearance = t_MinClearance t, fl_Compartments = t_Compartments t,
               fl_Check = LabelBelowEndpoint\<rparr>
      in case pk_DefaultPolicy (en_Policy E) d of
           None \<Rightarrow> f
         | Some (rd, cs) \<Rightarrow>
             f\<lparr>fl_Clearance := (if rd > fl_Clearance f then rd else fl_Clearance f),
               fl_Compartments := join_names (fl_Compartments f) cs\<rparr>)"

text \<open>\<open>readLabel\<close>: by name, with the numbers checked against the pin.\<close>

definition read_label :: "pool \<Rightarrow> pmsg \<Rightarrow> label option" where
  "read_label P m =
     (case by_name P (pm_desc m) ''clearance'' of
        None \<Rightarrow> None
      | Some cl \<Rightarrow>
          if fd_Kind cl \<noteq> EnumKind \<or> fd_Number cl \<noteq> 1 then None
          else (case by_name P (pm_desc m) ''compartments'' of
             None \<Rightarrow> None
           | Some cm \<Rightarrow>
               if \<not> is_list cm \<or> fd_Kind cm \<noteq> StringKind \<or> fd_Number cm \<noteq> 2 then None
               else Some
                 \<lparr>lb_Clearance = (case get_fd m cl of Some v \<Rightarrow> as_enum v | None \<Rightarrow> 0),
                  lb_Compartments =
                    (case get_fd m cm of Some v \<Rightarrow> map as_str (as_list v) | None \<Rightarrow> [])\<rparr>))"

text \<open>The node's own label: none, present but unreadable, or read.\<close>

definition own_label :: "pool \<Rightarrow> pmsg \<Rightarrow> label option option" where
  "own_label P m =
     (case access_field_of P (pm_desc m) of
        None \<Rightarrow> None
      | Some fd \<Rightarrow>
          (case get_fd m fd of
             None \<Rightarrow> None
           | Some v \<Rightarrow> Some (case as_msg v of Some l \<Rightarrow> read_label P l | None \<Rightarrow> None)))"

section \<open>Paths\<close>

definition name_path :: "string \<Rightarrow> string \<Rightarrow> string" where
  "name_path path n = (if path = [] then n else path @ ''.'' @ n)"

definition index_path :: "string \<Rightarrow> string \<Rightarrow> nat \<Rightarrow> string" where
  "index_path path n i = name_path path n @ ''['' @ dec i @ '']''"

definition or_root :: "string \<Rightarrow> string" where
  "or_root path = (if trim_space path = [] then ''(card)'' else path)"

section \<open>Validation\<close>

datatype invalid = InvPin pin_violation | InvUnreadable string | InvBelow below string

fun pin_text :: "pin_violation \<Rightarrow> string" where
  "pin_text (NoAccessLabel n) =
     ''no_access_label: '' @ n @ '' carries no `access` of type '' @ labelMessageName @
     '', so this build cannot project it''"
| "pin_text (AccessFieldMoved n got want) =
     ''access_field_moved: '' @ n @ ''.access is field '' @ dec got @ '', want '' @ dec want"

fun below_text :: "below \<Rightarrow> string" where
  "below_text LabelBelowEndpoint = ''label_below_endpoint''"
| "below_text LabelBelowSection = ''label_below_section''"
| "below_text LabelBelowElement = ''label_below_element''"

fun invalid_text :: "invalid \<Rightarrow> string" where
  "invalid_text (InvPin v) = pin_text v"
| "invalid_text (InvUnreadable path) = ''unreadable_label: '' @ path"
| "invalid_text (InvBelow b path) = below_text b @ '': '' @ path"

text \<open>Which fields the walk descends into: not maps, and not the node's own label.\<close>

definition walk_child :: "pool \<Rightarrow> fdesc \<Rightarrow> md option" where
  "walk_child P fd =
     (case card_child_of P fd of
        None \<Rightarrow> None
      | Some j \<Rightarrow>
          if is_map fd then None
          else if (case fd_Message fd of Some k \<Rightarrow> full_name P k = labelMessageName | None \<Rightarrow> False)
          then None else Some j)"

definition labelled :: "pool \<Rightarrow> md \<Rightarrow> bool" where
  "labelled P j = (access_field_of P j \<noteq> None)"

function (sequential) validate_msg :: "pool \<Rightarrow> pmsg \<Rightarrow> string \<Rightarrow> card_floor \<Rightarrow> invalid option"
  and validate_fields :: "pool \<Rightarrow> pfield list \<Rightarrow> string \<Rightarrow> card_floor \<Rightarrow> invalid option"
  and validate_val :: "pool \<Rightarrow> fdesc \<Rightarrow> bool \<Rightarrow> pval \<Rightarrow> string \<Rightarrow> card_floor \<Rightarrow> invalid option"
  and validate_elems ::
    "pool \<Rightarrow> fdesc \<Rightarrow> bool \<Rightarrow> pval list \<Rightarrow> nat \<Rightarrow> string \<Rightarrow> card_floor \<Rightarrow> invalid option"
where
  "validate_msg P (Msg d fs) path fl =
     (case pin_violation_of P d of
        Some v \<Rightarrow> Some (InvPin v)
      | None \<Rightarrow>
          (case own_label P (Msg d fs) of
             None \<Rightarrow> validate_fields P fs path fl
           | Some None \<Rightarrow> Some (InvUnreadable (or_root path))
           | Some (Some l) \<Rightarrow>
               if \<not> floor_admits fl l then Some (InvBelow (fl_Check fl) (or_root path))
               else validate_fields P fs path (floor_under fl l (holds_a_section P (Msg d fs)))))"
| "validate_fields P [] path fl = None"
| "validate_fields P (Fld fd v # fs) path fl =
     (case (case walk_child P fd of
              None \<Rightarrow> None
            | Some j \<Rightarrow> validate_val P fd (labelled P j) v path fl) of
        Some e \<Rightarrow> Some e
      | None \<Rightarrow> validate_fields P fs path fl)"
| "validate_val P fd lab (VMsg m) path fl =
     validate_msg P m (if lab then name_path path (fd_Name fd) else path) fl"
| "validate_val P fd lab (VList vs) path fl = validate_elems P fd lab vs 0 path fl"
| "validate_val P fd lab _ path fl = None"
| "validate_elems P fd lab [] i path fl = None"
| "validate_elems P fd lab (VMsg m # vs) i path fl =
     (case validate_msg P m (if lab then index_path path (fd_Name fd) i else path) fl of
        Some e \<Rightarrow> Some e
      | None \<Rightarrow> validate_elems P fd lab vs (Suc i) path fl)"
| "validate_elems P fd lab (_ # vs) i path fl = validate_elems P fd lab vs (Suc i) path fl"
  by pat_completeness auto

termination
  by (relation "measure (case_sum
        (case_sum (\<lambda>(P, m, path, fl). size m) (\<lambda>(P, fs, path, fl). size_list size fs))
        (case_sum (\<lambda>(P, fd, lab, v, path, fl). size v)
                  (\<lambda>(P, fd, lab, vs, i, path, fl). size_list size vs)))") auto

section \<open>Reach\<close>

definition reaches :: "env \<Rightarrow> core \<Rightarrow> principal \<Rightarrow> pmsg \<Rightarrow> card_floor \<Rightarrow> bool" where
  "reaches E c p m fl =
     (case (case own_label (en_Pool E) m of
              None \<Rightarrow> Some \<lparr>lb_Clearance = fl_Clearance fl, lb_Compartments = fl_Compartments fl\<rparr>
            | Some r \<Rightarrow> r) of
        None \<Rightarrow> False
      | Some l \<Rightarrow>
          if \<not> pk_Allows (en_Policy E) (p_Clearance p) (lb_Clearance l) then False
          else (case rg_Set (c_reg c) (lb_Compartments l) of
             Inl e \<Rightarrow> False
           | Inr need \<Rightarrow> pk_Covers (en_Policy E) (p_Compartments p) need))"

section \<open>What is recorded\<close>

definition withheld_name :: "pool \<Rightarrow> pmsg \<Rightarrow> string \<Rightarrow> string" where
  "withheld_name P m path =
     (case by_name P (pm_desc m) ''field'' of
        None \<Rightarrow> or_root path
      | Some fd \<Rightarrow>
          if fd_Kind fd = StringKind \<and> \<not> is_list fd then
            (case get_fd m fd of
               Some v \<Rightarrow> if as_str v \<noteq> [] then as_str v else or_root path
             | None \<Rightarrow> or_root path)
          else or_root path)"

text \<open>
  \<open>card.Mutable(disclosure)\<close>: the disclosure already there, or an empty one; and the names appended
  to its list.
\<close>

definition disclosure_of :: "pmsg \<Rightarrow> fdesc \<Rightarrow> md \<Rightarrow> pmsg" where
  "disclosure_of m fd j =
     (case get_fd m fd of
        Some v \<Rightarrow> (case as_msg v of Some x \<Rightarrow> x | None \<Rightarrow> Msg j [])
      | None \<Rightarrow> Msg j [])"

definition append_withheld :: "pool \<Rightarrow> pmsg \<Rightarrow> string list \<Rightarrow> pmsg" where
  "append_withheld P d withheld =
     (case by_name P (pm_desc d) ''withheld_fields'' of
        None \<Rightarrow> d
      | Some wfd \<Rightarrow>
          if \<not> is_list wfd \<or> fd_Kind wfd \<noteq> StringKind then d
          else put_fd P d wfd
                 (VList ((case get_fd d wfd of Some v \<Rightarrow> as_list v | None \<Rightarrow> []) @ map VStr withheld)))"

text \<open>
  \<open>recordDisclosure\<close>. A field of that name that is a map, on which the source's \<open>Mutable\<close> panics, is no
  card of the pinned vocabulary (\<open>card_vocab\<close>); the panic is not modelled and the field is overwritten.
\<close>

definition record_disclosure :: "pool \<Rightarrow> pmsg \<Rightarrow> string list \<Rightarrow> pmsg" where
  "record_disclosure P m withheld =
     (if withheld = [] then m
      else (case by_name P (pm_desc m) ''disclosure'' of
         None \<Rightarrow> m
       | Some fd \<Rightarrow>
           if fd_Kind fd \<noteq> MessageKind \<or> is_list fd then m
           else (case fd_Message fd of
              None \<Rightarrow> m
            | Some j \<Rightarrow> put_fd P m fd (VMsg (append_withheld P (disclosure_of m fd j) withheld)))))"

section \<open>Projection\<close>

definition floor_inside :: "pool \<Rightarrow> pmsg \<Rightarrow> card_floor \<Rightarrow> card_floor" where
  "floor_inside P m fl =
     (case own_label P m of
        Some (Some l) \<Rightarrow> floor_under fl l (holds_a_section P m)
      | _ \<Rightarrow> fl)"

text \<open>A list field after filtering: absent when every element was dropped.\<close>

definition kept_list :: "pval list \<Rightarrow> pval list \<Rightarrow> pval option" where
  "kept_list before after = (if after = [] \<and> before \<noteq> [] then None else Some (VList after))"

function (sequential) project_node ::
    "pool \<Rightarrow> (pmsg \<Rightarrow> card_floor \<Rightarrow> bool) \<Rightarrow> pmsg \<Rightarrow> string \<Rightarrow> card_floor \<Rightarrow>
       pmsg option \<times> string list"
  and project_fields ::
    "pool \<Rightarrow> (pmsg \<Rightarrow> card_floor \<Rightarrow> bool) \<Rightarrow> pfield list \<Rightarrow> string \<Rightarrow> card_floor \<Rightarrow>
       pfield list \<times> nat \<times> nat \<times> string list"
  and project_val ::
    "pool \<Rightarrow> (pmsg \<Rightarrow> card_floor \<Rightarrow> bool) \<Rightarrow> fdesc \<Rightarrow> bool \<Rightarrow> pval \<Rightarrow> string \<Rightarrow> card_floor \<Rightarrow>
       pval option \<times> nat \<times> nat \<times> string list"
  and project_elems ::
    "pool \<Rightarrow> (pmsg \<Rightarrow> card_floor \<Rightarrow> bool) \<Rightarrow> fdesc \<Rightarrow> bool \<Rightarrow> pval list \<Rightarrow> nat \<Rightarrow> string \<Rightarrow>
       card_floor \<Rightarrow> pval list \<times> nat \<times> nat \<times> string list"
where
  "project_node P R (Msg d fs) path fl =
     (if \<not> R (Msg d fs) fl then (None, [withheld_name P (Msg d fs) path])
      else
        (case project_fields P R fs path (floor_inside P (Msg d fs) fl) of
           (fs', kept, tot, withheld) \<Rightarrow>
             if tot > 0 \<and> kept = 0 then (None, [withheld_name P (Msg d fs') path])
             else (Some (Msg d fs'), withheld)))"
| "project_fields P R [] path fl = ([], 0, 0, [])"
| "project_fields P R (Fld fd v # fs) path fl =
     (case (case walk_child P fd of
              None \<Rightarrow> (Some v, 0, 0, [])
            | Some j \<Rightarrow> project_val P R fd (labelled P j) v path fl) of
        (v', k, t, w) \<Rightarrow>
          (case project_fields P R fs path fl of
             (fs', k', t', w') \<Rightarrow>
               ((case v' of None \<Rightarrow> fs' | Some x \<Rightarrow> Fld fd x # fs'), k + k', t + t', w @ w')))"
| "project_val P R fd lab (VMsg (Msg d fs)) path fl =
     (if lab then
        (case project_node P R (Msg d fs) (name_path path (fd_Name fd)) fl of
           (Some m', w) \<Rightarrow> (Some (VMsg m'), 1, 1, w)
         | (None, w) \<Rightarrow> (None, 0, 1, w))
      else
        (case project_fields P R fs path fl of
           (fs', k, t, w) \<Rightarrow> (Some (VMsg (Msg d fs')), k, t, w)))"
| "project_val P R fd lab (VList vs) path fl =
     (case project_elems P R fd lab vs 0 path fl of
        (vs', k, t, w) \<Rightarrow> (kept_list vs vs', k, t, w))"
| "project_val P R fd lab v path fl = (Some v, 0, 0, [])"
| "project_elems P R fd lab [] i path fl = ([], 0, 0, [])"
| "project_elems P R fd lab (VMsg (Msg d fs) # vs) i path fl =
     (if lab then
        (case project_node P R (Msg d fs) (index_path path (fd_Name fd) i) fl of
           (r, w) \<Rightarrow>
             (case project_elems P R fd lab vs (Suc i) path fl of
                (vs', k, t, w') \<Rightarrow>
                  ((case r of None \<Rightarrow> vs' | Some m' \<Rightarrow> VMsg m' # vs'),
                   (case r of None \<Rightarrow> k | Some m' \<Rightarrow> Suc k), Suc t, w @ w')))
      else
        (case project_fields P R fs path fl of
           (fs', k, t, w) \<Rightarrow>
             (case project_elems P R fd lab vs (Suc i) path fl of
                (vs', k', t', w') \<Rightarrow> (VMsg (Msg d fs') # vs', k + k', t + t', w @ w'))))"
| "project_elems P R fd lab (v # vs) i path fl =
     (case project_elems P R fd lab vs (Suc i) path fl of
        (vs', k, t, w) \<Rightarrow> (v # vs', k, t, w))"
  by pat_completeness auto

termination
  by (relation "measure (case_sum
        (case_sum (\<lambda>(P, R, m, path, fl). size m) (\<lambda>(P, R, fs, path, fl). size_list size fs))
        (case_sum (\<lambda>(P, R, fd, lab, v, path, fl). size v)
                  (\<lambda>(P, R, fd, lab, vs, i, path, fl). size_list size vs)))") auto

definition project_card ::
  "pool \<Rightarrow> (pmsg \<Rightarrow> card_floor \<Rightarrow> bool) \<Rightarrow> pmsg \<Rightarrow> string \<Rightarrow> card_floor \<Rightarrow>
     pmsg option \<times> string list" where
  "project_card P R m path fl =
     (if \<not> R m fl then (None, [withheld_name P m path])
      else
        (case project_fields P R (pm_fields m) [] (floor_inside P m fl) of
           (fs', kept, tot, w) \<Rightarrow> (Some (record_disclosure P (Msg (pm_desc m) fs') w), w)))"

section \<open>Every card of a response\<close>

text \<open>
  \<open>forEachCard\<close>: the message may itself be a card (\<open>None\<close> is then the whole answer withheld), hold
  one in a field, or hold a list of them. A map field is passed over.
\<close>

function (sequential) each_card ::
    "pool \<Rightarrow> (pmsg \<Rightarrow> card_floor \<Rightarrow> bool) \<Rightarrow> card_floor \<Rightarrow> pmsg \<Rightarrow> string \<Rightarrow>
       pmsg option \<times> string list"
  and each_fields ::
    "pool \<Rightarrow> (pmsg \<Rightarrow> card_floor \<Rightarrow> bool) \<Rightarrow> card_floor \<Rightarrow> pfield list \<Rightarrow> string \<Rightarrow>
       pfield list \<times> string list"
  and each_val ::
    "pool \<Rightarrow> (pmsg \<Rightarrow> card_floor \<Rightarrow> bool) \<Rightarrow> card_floor \<Rightarrow> fdesc \<Rightarrow> pval \<Rightarrow> string \<Rightarrow>
       pval option \<times> string list"
  and each_elems ::
    "pool \<Rightarrow> (pmsg \<Rightarrow> card_floor \<Rightarrow> bool) \<Rightarrow> card_floor \<Rightarrow> fdesc \<Rightarrow> pval list \<Rightarrow> nat \<Rightarrow> string \<Rightarrow>
       pval list \<times> string list"
where
  "each_card P R fl (Msg d fs) path =
     (if is_card_message P d then project_card P R (Msg d fs) path fl
      else (case each_fields P R fl fs path of (fs', w) \<Rightarrow> (Some (Msg d fs'), w)))"
| "each_fields P R fl [] path = ([], [])"
| "each_fields P R fl (Fld fd v # fs) path =
     (case (case card_child_of P fd of
              None \<Rightarrow> (Some v, [])
            | Some j \<Rightarrow>
                if \<not> contains_card P j \<or> is_map fd then (Some v, [])
                else each_val P R fl fd v path) of
        (v', w) \<Rightarrow>
          (case each_fields P R fl fs path of
             (fs', w') \<Rightarrow> ((case v' of None \<Rightarrow> fs' | Some x \<Rightarrow> Fld fd x # fs'), w @ w')))"
| "each_val P R fl fd (VMsg m) path =
     (case each_card P R fl m (name_path path (fd_Name fd)) of
        (r, w) \<Rightarrow> (map_option VMsg r, w))"
| "each_val P R fl fd (VList vs) path =
     (case each_elems P R fl fd vs 0 path of (vs', w) \<Rightarrow> (kept_list vs vs', w))"
| "each_val P R fl fd v path = (Some v, [])"
| "each_elems P R fl fd [] i path = ([], [])"
| "each_elems P R fl fd (VMsg m # vs) i path =
     (case each_card P R fl m (index_path path (fd_Name fd) i) of
        (r, w) \<Rightarrow>
          (case each_elems P R fl fd vs (Suc i) path of
             (vs', w') \<Rightarrow> ((case r of None \<Rightarrow> vs' | Some m' \<Rightarrow> VMsg m' # vs'), w @ w')))"
| "each_elems P R fl fd (v # vs) i path =
     (case each_elems P R fl fd vs (Suc i) path of (vs', w) \<Rightarrow> (v # vs', w))"
  by pat_completeness auto

termination
  by (relation "measure (case_sum
        (case_sum (\<lambda>(P, R, fl, m, path). size m) (\<lambda>(P, R, fl, fs, path). size_list size fs))
        (case_sum (\<lambda>(P, R, fl, fd, v, path). size v)
                  (\<lambda>(P, R, fl, fd, vs, i, path). size_list size vs)))") auto

record card_result =
  cr_withheld :: "string list"
  cr_invalid :: "invalid option"
  cr_gone :: bool

definition projectCards ::
  "env \<Rightarrow> core \<Rightarrow> principal \<Rightarrow> tooldef \<Rightarrow> pmsg \<Rightarrow> card_result \<times> pmsg" where
  "projectCards E c p t resp =
     (let P = en_Pool E; fl = floor_for E t (pm_desc resp)
      in case validate_msg P resp [] fl of
           Some v \<Rightarrow> (\<lparr>cr_withheld = [], cr_invalid = Some v, cr_gone = False\<rparr>, resp)
         | None \<Rightarrow>
             (case each_card P (reaches E c p) fl resp [] of
                (None, w) \<Rightarrow> (\<lparr>cr_withheld = w, cr_invalid = None, cr_gone = True\<rparr>, resp)
              | (Some m, w) \<Rightarrow> (\<lparr>cr_withheld = w, cr_invalid = None, cr_gone = False\<rparr>, m)))"

end
