(* ===== verification/CardProps.thy ===== *)
theory CardProps
  imports Cards
begin

text \<open>
  What the card walk guarantees. \<open>node_ok\<close> says of a card that its viewer reaches every node the
  walk visits; projection establishes it, leaves a card that already satisfies it alone, and
  withholds nothing without naming it. The laws of the reach predicate the proofs use are the
  locale \<open>card_viewer\<close>, interpreted on the chain's own \<open>reaches\<close>.
\<close>

section \<open>Well-formed messages\<close>

text \<open>What the protobuf runtime guarantees of a message of a given descriptor.\<close>

function (sequential) wf_msg :: "pool \<Rightarrow> pmsg \<Rightarrow> bool"
  and wf_fields :: "pool \<Rightarrow> md \<Rightarrow> pfield list \<Rightarrow> bool"
  and wf_val :: "pool \<Rightarrow> fdesc \<Rightarrow> pval \<Rightarrow> bool"
  and wf_elems :: "pool \<Rightarrow> fdesc \<Rightarrow> pval list \<Rightarrow> bool"
where
  "wf_msg P (Msg d fs) = wf_fields P d fs"
| "wf_fields P d [] = True"
| "wf_fields P d (Fld fd v # fs) =
     (by_name P d (fd_Name fd) = Some fd \<and> wf_val P fd v \<and> wf_fields P d fs)"
| "wf_val P fd (VMsg m) =
     (fd_Kind fd = MessageKind \<and> fd_Shape fd = FSingle \<and> fd_Message fd = Some (pm_desc m) \<and>
      wf_msg P m)"
| "wf_val P fd (VList vs) = (is_list fd \<and> vs \<noteq> [] \<and> wf_elems P fd vs)"
| "wf_val P fd (VMap es) = is_map fd"
| "wf_val P fd v = (fd_Kind fd \<noteq> MessageKind \<and> fd_Shape fd = FSingle)"
| "wf_elems P fd [] = True"
| "wf_elems P fd (VMsg m # vs) =
     (fd_Kind fd = MessageKind \<and> fd_Message fd = Some (pm_desc m) \<and> wf_msg P m \<and> wf_elems P fd vs)"
| "wf_elems P fd (v # vs) = (fd_Kind fd \<noteq> MessageKind \<and> wf_elems P fd vs)"
  by pat_completeness auto

termination
  by (relation "measure (case_sum
        (case_sum (\<lambda>(P, m). size m) (\<lambda>(P, d, fs). size_list size fs))
        (case_sum (\<lambda>(P, fd, v). size v) (\<lambda>(P, fd, vs). size_list size vs)))") auto

lemma wf_fields_in:
  "wf_fields P d fs \<longleftrightarrow>
     (\<forall>f \<in> set fs. by_name P d (fd_Name (pf_desc f)) = Some (pf_desc f) \<and>
                    wf_val P (pf_desc f) (pf_val f))"
proof (induction fs)
  case (Cons f fs)
  then show ?case by (cases f) auto
qed simp

section \<open>Every visited node is reached\<close>

function (sequential) node_ok :: "pool \<Rightarrow> (pmsg \<Rightarrow> card_floor \<Rightarrow> bool) \<Rightarrow> pmsg \<Rightarrow> card_floor \<Rightarrow> bool"
  and fields_ok :: "pool \<Rightarrow> (pmsg \<Rightarrow> card_floor \<Rightarrow> bool) \<Rightarrow> pfield list \<Rightarrow> card_floor \<Rightarrow> bool"
  and val_ok :: "pool \<Rightarrow> (pmsg \<Rightarrow> card_floor \<Rightarrow> bool) \<Rightarrow> bool \<Rightarrow> pval \<Rightarrow> card_floor \<Rightarrow> bool"
  and elems_ok :: "pool \<Rightarrow> (pmsg \<Rightarrow> card_floor \<Rightarrow> bool) \<Rightarrow> bool \<Rightarrow> pval list \<Rightarrow> card_floor \<Rightarrow> bool"
where
  "node_ok P R (Msg d fs) fl =
     (R (Msg d fs) fl \<and> fields_ok P R fs (floor_inside P (Msg d fs) fl))"
| "fields_ok P R [] fl = True"
| "fields_ok P R (Fld fd v # fs) fl =
     ((case walk_child P fd of None \<Rightarrow> True | Some j \<Rightarrow> val_ok P R (labelled P j) v fl) \<and>
      fields_ok P R fs fl)"
| "val_ok P R lab (VMsg (Msg d fs)) fl =
     (if lab then node_ok P R (Msg d fs) fl else fields_ok P R fs fl)"
| "val_ok P R lab (VList vs) fl = elems_ok P R lab vs fl"
| "val_ok P R lab v fl = True"
| "elems_ok P R lab [] fl = True"
| "elems_ok P R lab (VMsg (Msg d fs) # vs) fl =
     ((if lab then node_ok P R (Msg d fs) fl else fields_ok P R fs fl) \<and> elems_ok P R lab vs fl)"
| "elems_ok P R lab (v # vs) fl = elems_ok P R lab vs fl"
  by pat_completeness auto

termination
  by (relation "measure (case_sum
        (case_sum (\<lambda>(P, R, m, fl). size m) (\<lambda>(P, R, fs, fl). size_list size fs))
        (case_sum (\<lambda>(P, R, lab, v, fl). size v) (\<lambda>(P, R, lab, vs, fl). size_list size vs)))") auto

lemma fields_ok_in:
  "fields_ok P R fs fl \<longleftrightarrow>
     (\<forall>f \<in> set fs. case walk_child P (pf_desc f) of
        None \<Rightarrow> True | Some j \<Rightarrow> val_ok P R (labelled P j) (pf_val f) fl)"
proof (induction fs)
  case (Cons f fs)
  then show ?case by (cases f) (auto split: option.splits)
qed simp

lemma ok_VMsg [simp]:
  "val_ok P R lab (VMsg m) fl =
     (if lab then node_ok P R m fl else fields_ok P R (pm_fields m) fl)"
  "elems_ok P R lab (VMsg m # vs) fl =
     ((if lab then node_ok P R m fl else fields_ok P R (pm_fields m) fl) \<and> elems_ok P R lab vs fl)"
  by (cases m, simp)+

lemma wf_msg_fields: "wf_msg P m = wf_fields P (pm_desc m) (pm_fields m)"
  by (cases m) simp

section \<open>Floors that read alike\<close>

definition floor_eq :: "card_floor \<Rightarrow> card_floor \<Rightarrow> bool" where
  "floor_eq f g \<longleftrightarrow> fl_Clearance f = fl_Clearance g \<and> fl_Compartments f = fl_Compartments g"

lemma floor_eq_refl [simp]: "floor_eq f f"
  by (simp add: floor_eq_def)

lemma floor_under_eq: "floor_eq f g \<Longrightarrow> floor_eq (floor_under f l a) (floor_under g l b)"
  by (simp add: floor_eq_def floor_under_def)

lemma floor_inside_eq:
  "floor_eq f g \<Longrightarrow> own_label P m = own_label P m' \<Longrightarrow> floor_eq (floor_inside P m f) (floor_inside P m' g)"
  by (auto simp: floor_inside_def floor_under_eq split: option.splits)

lemma get_in_project:
  "\<forall>f \<in> set fs. fd_Name (pf_desc f) = n \<longrightarrow> walk_child P (pf_desc f) = None \<Longrightarrow>
     project_fields P R fs path fl = (fs', k, t, w) \<Longrightarrow> get_in fs' n = get_in fs n"
proof (induction fs arbitrary: fs' k t w)
  case (Cons f fs)
  obtain fd v where f: "f = Fld fd v" by (cases f)
  obtain fs1 k1 t1 w1 where r: "project_fields P R fs path fl = (fs1, k1, t1, w1)"
    by (metis surj_pair)
  have ih: "get_in fs1 n = get_in fs n" using Cons r by simp
  show ?case
  proof (cases "fd_Name fd = n")
    case True
    then have "walk_child P fd = None" using Cons(2) f by simp
    then have "fs' = Fld fd v # fs1" using Cons(3) f r by simp
    then show ?thesis using f True by (simp add: get_in_def)
  next
    case False
    have "fs' = fs1 \<or> (\<exists>x. fs' = Fld fd x # fs1)"
      using Cons(3) f r by (auto split: option.splits prod.splits)
    then show ?thesis using ih f False by (auto simp: get_in_def)
  qed
qed (simp add: get_in_def)

text \<open>The field that carries the label is never walked into.\<close>

lemma access_not_walked:
  assumes "access_field_of P d = Some fd"
  shows "walk_child P fd = None"
  using assms
  by (auto simp: access_field_of_def walk_child_def split: option.splits if_splits)

lemma access_field_name: "access_field_of P d = Some fd \<Longrightarrow> by_name P d accessFieldName = Some fd"
  by (auto simp: access_field_of_def split: option.splits if_splits)

lemma own_label_project:
  assumes wf: "wf_fields P d fs" and r: "project_fields P R fs path fl = (fs', k, t, w)"
  shows "own_label P (Msg d fs') = own_label P (Msg d fs)"
proof (cases "access_field_of P d")
  case (Some fd)
  have "by_name P d accessFieldName = Some fd" by (rule access_field_name[OF Some])
  then have n: "fd_Name fd = accessFieldName" using by_name_Some by blast
  have "\<forall>f \<in> set fs. fd_Name (pf_desc f) = fd_Name fd \<longrightarrow> walk_child P (pf_desc f) = None"
  proof (intro ballI impI)
    fix f assume "f \<in> set fs" "fd_Name (pf_desc f) = fd_Name fd"
    then have "pf_desc f = fd"
      using wf n access_field_name[OF Some] unfolding wf_fields_in by (metis option.inject)
    then show "walk_child P (pf_desc f) = None" using access_not_walked[OF Some] by simp
  qed
  then have "get_in fs' (fd_Name fd) = get_in fs (fd_Name fd)" using get_in_project r by blast
  then show ?thesis using Some by (simp add: own_label_def get_fd_def)
qed (simp add: own_label_def)

section \<open>A viewer\<close>

locale card_viewer =
  fixes P :: pool and R :: "pmsg \<Rightarrow> card_floor \<Rightarrow> bool"
  assumes R_floor: "floor_eq fl fl' \<Longrightarrow> R m fl = R m fl'"
    and R_label: "own_label P m = own_label P m' \<Longrightarrow> R m fl = R m' fl"
begin

lemma ok_floor_gen:
  "P' = P \<Longrightarrow> R' = R \<Longrightarrow> floor_eq fl fl' \<Longrightarrow> node_ok P' R' m fl = node_ok P' R' m fl'"
  "P' = P \<Longrightarrow> R' = R \<Longrightarrow> floor_eq fl fl' \<Longrightarrow> fields_ok P' R' fs fl = fields_ok P' R' fs fl'"
  "P' = P \<Longrightarrow> R' = R \<Longrightarrow> floor_eq fl fl' \<Longrightarrow> val_ok P' R' lab v fl = val_ok P' R' lab v fl'"
  "P' = P \<Longrightarrow> R' = R \<Longrightarrow> floor_eq fl fl' \<Longrightarrow> elems_ok P' R' lab vs fl = elems_ok P' R' lab vs fl'"
proof (induction P' R' m fl and P' R' fs fl and P' R' lab v fl and P' R' lab vs fl
    arbitrary: fl' and fl' and fl' and fl' rule: node_ok_fields_ok_val_ok_elems_ok.induct)
  case (1 P' R' d fs fl)
  have "floor_eq (floor_inside P' (Msg d fs) fl) (floor_inside P' (Msg d fs) fl')"
    using 1(4) by (simp add: floor_inside_eq)
  then show ?case using 1(1)[OF 1(2,3)] R_floor[OF 1(4)] 1(3) by simp
next
  case (3 P' R' fd v fs fl)
  then show ?case by (simp split: option.split)
qed auto

lemmas ok_floor = ok_floor_gen[OF refl refl]

lemma reached_again:
  assumes "own_label P (Msg d fs') = own_label P (Msg d fs)" "R (Msg d fs) fl"
    and "fields_ok P R fs' (floor_inside P (Msg d fs) fl)"
  shows "node_ok P R (Msg d fs') fl"
proof -
  have "R (Msg d fs') fl" using assms(1,2) R_label by metis
  moreover have "floor_eq (floor_inside P (Msg d fs) fl) (floor_inside P (Msg d fs') fl)"
    using assms(1) by (simp add: floor_inside_eq)
  ultimately show ?thesis using assms(3) ok_floor(2) by simp
qed

text \<open>Projection keeps well-formedness and leaves only what is reached.\<close>

lemma project_sound_gen:
  "P' = P \<Longrightarrow> R' = R \<Longrightarrow> wf_msg P' m \<Longrightarrow> project_node P' R' m path fl = (Some m', w) \<Longrightarrow>
     node_ok P' R' m' fl \<and> wf_msg P' m' \<and> pm_desc m' = pm_desc m"
  "P' = P \<Longrightarrow> R' = R \<Longrightarrow> wf_fields P' d fs \<Longrightarrow> project_fields P' R' fs path fl = (fs', k, t, w) \<Longrightarrow>
     fields_ok P' R' fs' fl \<and> wf_fields P' d fs'"
  "P' = P \<Longrightarrow> R' = R \<Longrightarrow> wf_val P' fd v \<Longrightarrow> project_val P' R' fd lab v path fl = (Some v', k, t, w) \<Longrightarrow>
     val_ok P' R' lab v' fl \<and> wf_val P' fd v'"
  "P' = P \<Longrightarrow> R' = R \<Longrightarrow> wf_elems P' fd vs \<Longrightarrow> project_elems P' R' fd lab vs i path fl = (vs', k, t, w) \<Longrightarrow>
     elems_ok P' R' lab vs' fl \<and> wf_elems P' fd vs'"
proof (induction P' R' m path fl and P' R' fs path fl and P' R' fd lab v path fl
    and P' R' fd lab vs i path fl
    arbitrary: m' w and d fs' k t w and v' k t w and vs' k t w
    rule: project_node_project_fields_project_val_project_elems.induct)
  case (1 P' R' d fs path fl)
  obtain fs1 k1 t1 w1 where r: "project_fields P' R' fs path (floor_inside P' (Msg d fs) fl) = (fs1, k1, t1, w1)"
    by (metis surj_pair)
  have reached: "R' (Msg d fs) fl" and m': "m' = Msg d fs1"
    using 1(5) r by (auto split: if_splits)
  have wf: "wf_fields P' d fs" using 1(4) by simp
  have ih: "fields_ok P' R' fs1 (floor_inside P' (Msg d fs) fl) \<and> wf_fields P' d fs1"
    using 1(1)[OF _ 1(2,3) wf r] reached by simp
  have "own_label P' (Msg d fs1) = own_label P' (Msg d fs)" by (rule own_label_project[OF wf r])
  then have "node_ok P' R' (Msg d fs1) fl" using reached_again ih reached 1(2,3) by simp
  then show ?case using ih m' by simp
next
  case (3 P' R' fd v fs path fl)
  obtain v1 k1 t1 w1 where r1: "(case walk_child P' fd of None \<Rightarrow> (Some v, 0, 0, [])
            | Some j \<Rightarrow> project_val P' R' fd (labelled P' j) v path fl) = (v1, k1, t1, w1)"
    by (metis surj_pair)
  obtain fs1 k2 t2 w2 where r2: "project_fields P' R' fs path fl = (fs1, k2, t2, w2)"
    by (metis surj_pair)
  have ih2: "fields_ok P' R' fs1 fl \<and> wf_fields P' d fs1"
    using 3(5) by (intro 3(2)[OF r1[symmetric] refl refl 3(3,4) _ r2]) simp
  have fs': "fs' = (case v1 of None \<Rightarrow> fs1 | Some x \<Rightarrow> Fld fd x # fs1)" using 3(6) r1 r2 by simp
  show ?case
  proof (cases v1)
    case (Some x)
    have "(case walk_child P' fd of None \<Rightarrow> True | Some j \<Rightarrow> val_ok P' R' (labelled P' j) x fl) \<and>
        wf_val P' fd x"
    proof (cases "walk_child P' fd")
      case None
      then show ?thesis using r1 Some 3(5) by simp
    next
      case (Some j)
      then show ?thesis using 3(1)[OF Some 3(3,4), of x k1 t1 w1] r1 \<open>v1 = Some x\<close> 3(5) by simp
    qed
    then show ?thesis using fs' Some ih2 3(5) by simp
  qed (use fs' ih2 in simp)
next
  case (5 P' R' fd lab vs path fl)
  obtain vs1 k1 t1 w1 where r: "project_elems P' R' fd lab vs 0 path fl = (vs1, k1, t1, w1)"
    by (metis surj_pair)
  then show ?case using 5 by (auto simp: kept_list_def split: if_splits)
qed (auto split: if_splits prod.splits option.splits)

lemmas project_sound = project_sound_gen[OF refl refl]

text \<open>A card all of whose visited nodes are reached is left alone, and nothing is withheld.\<close>

lemma project_complete:
  "wf_msg P' m \<Longrightarrow> node_ok P' R' m fl \<Longrightarrow> project_node P' R' m path fl = (Some m, [])"
  "\<exists>d. wf_fields P' d fs \<Longrightarrow> fields_ok P' R' fs fl \<Longrightarrow>
     \<exists>k. project_fields P' R' fs path fl = (fs, k, k, [])"
  "wf_val P' fd v \<Longrightarrow> val_ok P' R' lab v fl \<Longrightarrow>
     \<exists>k. project_val P' R' fd lab v path fl = (Some v, k, k, [])"
  "wf_elems P' fd vs \<Longrightarrow> elems_ok P' R' lab vs fl \<Longrightarrow>
     \<exists>k. project_elems P' R' fd lab vs i path fl = (vs, k, k, [])"
proof (induction P' R' m path fl and P' R' fs path fl and P' R' fd lab v path fl
    and P' R' fd lab vs i path fl
    rule: project_node_project_fields_project_val_project_elems.induct)
  case (1 P' R' d fs path fl)
  have "R' (Msg d fs) fl" using 1(3) by simp
  moreover from this obtain k where
    "project_fields P' R' fs path (floor_inside P' (Msg d fs) fl) = (fs, k, k, [])"
    using 1 by auto
  ultimately show ?case by auto
next
  case (3 P' R' fd v fs path fl)
  obtain k1 where r1: "(case walk_child P' fd of None \<Rightarrow> (Some v, 0, 0, [])
            | Some j \<Rightarrow> project_val P' R' fd (labelled P' j) v path fl) = (Some v, k1, k1, [])"
  proof (cases "walk_child P' fd")
    case (Some j)
    then obtain k where "project_val P' R' fd (labelled P' j) v path fl = (Some v, k, k, [])"
      using 3(1)[OF Some] 3(3,4) by auto
    then show thesis using that Some by simp
  qed (use that in simp)
  obtain k2 where "project_fields P' R' fs path fl = (fs, k2, k2, [])"
    using 3(2)[OF r1[symmetric] refl refl] 3(3,4) by auto
  then show ?case using r1 by simp
next
  case (5 P' R' fd lab vs path fl)
  then obtain k where "project_elems P' R' fd lab vs 0 path fl = (vs, k, k, [])" by auto
  then show ?case using 5(2) by (simp add: kept_list_def)
qed (fastforce split: if_splits prod.splits option.splits)+

end

text \<open>Nothing disappears without being named.\<close>

lemma project_silent:
  "project_node P' R' m path fl = (Some m', []) \<Longrightarrow> m' = m"
  "project_fields P' R' fs path fl = (fs', k, t, []) \<Longrightarrow> fs' = fs"
  "project_val P' R' fd lab v path fl = (v', k, t, []) \<Longrightarrow> v' = Some v"
  "project_elems P' R' fd lab vs i path fl = (vs', k, t, []) \<Longrightarrow> vs' = vs"
proof (induction P' R' m path fl and P' R' fs path fl and P' R' fd lab v path fl
    and P' R' fd lab vs i path fl
    arbitrary: m' and fs' k t and v' k t and vs' k t
    rule: project_node_project_fields_project_val_project_elems.induct)
  case (3 P' R' fd v fs path fl)
  obtain v1 k1 t1 w1 where r1: "(case walk_child P' fd of None \<Rightarrow> (Some v, 0, 0, [])
            | Some j \<Rightarrow> project_val P' R' fd (labelled P' j) v path fl) = (v1, k1, t1, w1)"
    by (metis surj_pair)
  obtain fs1 k2 t2 w2 where r2: "project_fields P' R' fs path fl = (fs1, k2, t2, w2)"
    by (metis surj_pair)
  have w: "w1 = []" "w2 = []" using 3(3) r1 r2 by auto
  have "v1 = Some v"
    using 3(1) r1 w(1) by (cases "walk_child P' fd") auto
  moreover have "fs1 = fs" using 3(2)[OF r1[symmetric] refl refl] r2 w(2) by blast
  ultimately show ?case using 3(3) r1 r2 by simp
next
  case (5 P' R' fd lab vs path fl)
  obtain vs1 k1 t1 w1 where r: "project_elems P' R' fd lab vs 0 path fl = (vs1, k1, t1, w1)"
    by (metis surj_pair)
  then show ?case using 5 by (auto simp: kept_list_def)
qed (auto split: if_splits prod.splits option.splits)

section \<open>One card\<close>

text \<open>
  The vocabulary's own shape: a card's disclosure is a singular field whose type carries no access
  label.
\<close>

definition card_vocab :: "pool \<Rightarrow> bool" where
  "card_vocab P \<longleftrightarrow>
     (\<forall>d fd j. is_card_message P d \<longrightarrow> by_name P d ''disclosure'' = Some fd \<longrightarrow>
        fd_Message fd = Some j \<longrightarrow> fd_Shape fd = FSingle \<and> \<not> labelled P j)"

lemma get_in_put:
  assumes "fd_Name fd \<noteq> n"
  shows "get_in (pm_fields (put_fd P m fd v)) n = get_in (pm_fields m) n"
proof -
  let ?o = "filter (\<lambda>f. fd_Name (pf_desc f) \<noteq> fd_Name fd) (pm_fields m)"
  have drop: "List.find (\<lambda>f. fd_Name (pf_desc f) = n) ?o = List.find (\<lambda>f. fd_Name (pf_desc f) = n) fs"
    if "?o = filter (\<lambda>f. fd_Name (pf_desc f) \<noteq> fd_Name fd) fs" for fs
    unfolding that using assms by (induction fs) auto
  have ins: "List.find Q (xs @ Fld fd v # ys) = List.find Q (xs @ ys)" if "\<not> Q (Fld fd v)" for Q xs ys
    using that by (induction xs) auto
  show ?thesis
    using assms drop[OF refl] by (simp add: put_fd_def Let_def get_in_def ins)
qed

lemma own_label_put:
  assumes "fd_Name fd \<noteq> accessFieldName"
  shows "own_label P (put_fd P m fd v) = own_label P m"
proof (cases "access_field_of P (pm_desc m)")
  case (Some a)
  then have "fd_Name a = accessFieldName" using access_field_name by_name_Some by blast
  then show ?thesis using assms Some by (simp add: own_label_def get_fd_def get_in_put)
qed (simp add: own_label_def)

lemma get_in_mem: "get_in fs n = Some v \<Longrightarrow> \<exists>f \<in> set fs. fd_Name (pf_desc f) = n \<and> pf_val f = v"
  by (auto simp: get_in_def dest!: find_Some_set)

lemma string_field_not_walked: "fd_Kind fd = StringKind \<Longrightarrow> walk_child P fd = None"
  by (simp add: walk_child_def card_child_of_def)

lemma append_withheld_fields:
  "f \<in> set (pm_fields (append_withheld P d w)) \<Longrightarrow> f \<in> set (pm_fields d) \<or> fd_Kind (pf_desc f) = StringKind"
  using put_fd_fields by (fastforce simp: append_withheld_def split: option.splits if_splits)

lemma record_disclosure_cases:
  obtains (same) "record_disclosure P m w = m"
  | (put) fd j where "by_name P (pm_desc m) ''disclosure'' = Some fd" "fd_Message fd = Some j"
      "fd_Kind fd = MessageKind" "w \<noteq> []"
      "record_disclosure P m w = put_fd P m fd (VMsg (append_withheld P (disclosure_of m fd j) w))"
proof -
  have "record_disclosure P m w = m \<or>
      (\<exists>fd j. by_name P (pm_desc m) ''disclosure'' = Some fd \<and> fd_Message fd = Some j \<and>
        fd_Kind fd = MessageKind \<and> w \<noteq> [] \<and>
        record_disclosure P m w = put_fd P m fd (VMsg (append_withheld P (disclosure_of m fd j) w)))"
    by (simp add: record_disclosure_def split: option.split)
  then show thesis using same put by blast
qed

lemma own_label_disclosure: "own_label P (record_disclosure P m w) = own_label P m"
proof (cases rule: record_disclosure_cases[of P m w])
  case (put fd j)
  have "fd_Name fd = ''disclosure''" using by_name_Some[OF put(1)] by simp
  then show ?thesis using put(5) own_label_put by (simp add: accessFieldName_def)
qed simp

lemma pm_desc_disclosure [simp]: "pm_desc (record_disclosure P m w) = pm_desc m"
  by (cases rule: record_disclosure_cases[of P m w]) simp_all

lemma fields_ok_disclosure:
  assumes wf: "wf_msg P m" and ok: "fields_ok P R (pm_fields m) fl"
    and card: "is_card_message P (pm_desc m)" and vocab: "card_vocab P"
  shows "fields_ok P R (pm_fields (record_disclosure P m w)) fl"
proof (cases rule: record_disclosure_cases[of P m w])
  case (put fd j)
  let ?d = "disclosure_of m fd j"
  have n: "fd_Name fd = ''disclosure''" using by_name_Some[OF put(1)] by simp
  have nl: "\<not> labelled P j" using vocab card put(1,2) by (auto simp: card_vocab_def)
  have d: "fields_ok P R (pm_fields ?d) fl" if w: "walk_child P fd = Some i" for i
  proof (cases "get_fd m fd")
    case None
    then show ?thesis by (simp add: disclosure_of_def)
  next
    case (Some v)
    then obtain f where f: "f \<in> set (pm_fields m)" "fd_Name (pf_desc f) = fd_Name fd" "pf_val f = v"
      using get_in_mem[of "pm_fields m" "fd_Name fd" v] by (auto simp: get_fd_def)
    then have fd: "pf_desc f = fd"
      using wf put(1) n by (auto simp: wf_msg_fields wf_fields_in)
    have "i = j" using w put(2)
      by (auto simp: walk_child_def card_child_of_def is_map_def split: option.splits if_splits fshape.splits)
    then have vo: "val_ok P R False v fl"
      using ok f fd w nl by (fastforce simp: fields_ok_in)
    show ?thesis
    proof (cases "as_msg v")
      case (Some x)
      then have "v = VMsg x" by (simp add: as_msg_Some)
      then show ?thesis using vo \<open>get_fd m fd = Some v\<close> by (simp add: disclosure_of_def)
    qed (use \<open>get_fd m fd = Some v\<close> in \<open>simp add: disclosure_of_def\<close>)
  qed
  have app: "fields_ok P R (pm_fields (append_withheld P ?d w)) fl" if "walk_child P fd = Some i" for i
    using d[OF that] append_withheld_fields[of _ P ?d w] string_field_not_walked
    unfolding fields_ok_in by fastforce
  have new: "case walk_child P fd of None \<Rightarrow> True
      | Some i \<Rightarrow> val_ok P R (labelled P i) (VMsg (append_withheld P ?d w)) fl"
  proof (cases "walk_child P fd")
    case (Some i)
    then have "i = j" using put(2)
      by (auto simp: walk_child_def card_child_of_def is_map_def split: option.splits if_splits fshape.splits)
    then show ?thesis using Some app nl by simp
  qed simp
  show ?thesis
    unfolding put(5) fields_ok_in
  proof
    fix f assume "f \<in> set (pm_fields (put_fd P m fd (VMsg (append_withheld P ?d w))))"
    then consider "f = Fld fd (VMsg (append_withheld P ?d w))" | "f \<in> set (pm_fields m)"
      using put_fd_fields by blast
    then show "case walk_child P (pf_desc f) of None \<Rightarrow> True
        | Some j \<Rightarrow> val_ok P R (labelled P j) (pf_val f) fl"
      using new ok unfolding fields_ok_in by cases (auto split: option.splits)
  qed
qed (use ok in simp)

lemma wf_put_fd:
  "wf_msg P m \<Longrightarrow> by_name P (pm_desc m) (fd_Name fd) = Some fd \<Longrightarrow> wf_val P fd v \<Longrightarrow>
     wf_msg P (put_fd P m fd v)"
  using put_fd_fields[of P m fd v] by (fastforce simp: wf_msg_fields wf_fields_in)

lemma wf_elems_strings: "fd_Kind fd = StringKind \<Longrightarrow> wf_elems P fd (map VStr w)"
  by (induction w) simp_all

lemma wf_elems_append: "wf_elems P fd (a @ b) \<longleftrightarrow> wf_elems P fd a \<and> wf_elems P fd b"
proof (induction a)
  case (Cons v a)
  then show ?case by (cases v) auto
qed simp

lemma wf_append_withheld:
  assumes "wf_msg P d" "w \<noteq> []"
  shows "wf_msg P (append_withheld P d w) \<and> pm_desc (append_withheld P d w) = pm_desc d"
proof (cases "\<exists>wfd. by_name P (pm_desc d) ''withheld_fields'' = Some wfd \<and> is_list wfd \<and>
    fd_Kind wfd = StringKind")
  case True
  then obtain wfd where f: "by_name P (pm_desc d) ''withheld_fields'' = Some wfd" "is_list wfd"
    "fd_Kind wfd = StringKind" by blast
  have n: "fd_Name wfd = ''withheld_fields''" using by_name_Some[OF f(1)] by simp
  define old where "old = (case get_fd d wfd of Some v \<Rightarrow> as_list v | None \<Rightarrow> [])"
  have "wf_elems P wfd old"
  proof (cases "get_fd d wfd")
    case (Some v)
    then obtain g where g: "g \<in> set (pm_fields d)" "fd_Name (pf_desc g) = fd_Name wfd" "pf_val g = v"
      using get_in_mem[of "pm_fields d" "fd_Name wfd" v] by (auto simp: get_fd_def)
    then have "wf_val P wfd v" using assms(1) f(1) n by (fastforce simp: wf_msg_fields wf_fields_in)
    then show ?thesis using Some by (cases v) (auto simp: old_def)
  qed (simp add: old_def)
  then have "wf_val P wfd (VList (old @ map VStr w))"
    using f assms(2) by (simp add: wf_elems_append wf_elems_strings)
  moreover have "append_withheld P d w = put_fd P d wfd (VList (old @ map VStr w))"
    using f by (simp add: append_withheld_def old_def)
  ultimately show ?thesis using wf_put_fd[OF assms(1)] f(1) n by simp
next
  case False
  then have "append_withheld P d w = d" by (auto simp: append_withheld_def split: option.splits)
  then show ?thesis using assms(1) by simp
qed

lemma wf_record_disclosure:
  assumes wf: "wf_msg P m" and card: "is_card_message P (pm_desc m)" and vocab: "card_vocab P"
  shows "wf_msg P (record_disclosure P m w)"
proof (cases rule: record_disclosure_cases[of P m w])
  case (put fd j)
  have n: "fd_Name fd = ''disclosure''" using by_name_Some[OF put(1)] by simp
  have single: "fd_Shape fd = FSingle" using vocab card put(1,2) by (auto simp: card_vocab_def)
  have "wf_msg P (disclosure_of m fd j) \<and> pm_desc (disclosure_of m fd j) = j"
  proof (cases "get_fd m fd")
    case (Some v)
    then obtain g where g: "g \<in> set (pm_fields m)" "fd_Name (pf_desc g) = fd_Name fd" "pf_val g = v"
      using get_in_mem[of "pm_fields m" "fd_Name fd" v] by (auto simp: get_fd_def)
    then have "wf_val P fd v" using wf put(1) n by (fastforce simp: wf_msg_fields wf_fields_in)
    then show ?thesis using Some put(2) by (cases v) (auto simp: disclosure_of_def)
  qed (simp add: disclosure_of_def)
  then have "wf_val P fd (VMsg (append_withheld P (disclosure_of m fd j) w))"
    using wf_append_withheld[of P "disclosure_of m fd j" w] put(2,3,4) single by simp
  then show ?thesis using wf_put_fd[OF wf] put(1,5) n by simp
qed (use wf in simp)

section \<open>Every card\<close>

function (sequential) cards_ok ::
    "pool \<Rightarrow> (pmsg \<Rightarrow> card_floor \<Rightarrow> bool) \<Rightarrow> card_floor \<Rightarrow> pmsg \<Rightarrow> bool"
  and cards_fields_ok ::
    "pool \<Rightarrow> (pmsg \<Rightarrow> card_floor \<Rightarrow> bool) \<Rightarrow> card_floor \<Rightarrow> pfield list \<Rightarrow> bool"
  and cards_val_ok ::
    "pool \<Rightarrow> (pmsg \<Rightarrow> card_floor \<Rightarrow> bool) \<Rightarrow> card_floor \<Rightarrow> pval \<Rightarrow> bool"
  and cards_elems_ok ::
    "pool \<Rightarrow> (pmsg \<Rightarrow> card_floor \<Rightarrow> bool) \<Rightarrow> card_floor \<Rightarrow> pval list \<Rightarrow> bool"
where
  "cards_ok P R fl (Msg d fs) =
     (if is_card_message P d then node_ok P R (Msg d fs) fl else cards_fields_ok P R fl fs)"
| "cards_fields_ok P R fl [] = True"
| "cards_fields_ok P R fl (Fld fd v # fs) =
     ((case card_child_of P fd of
         None \<Rightarrow> True
       | Some j \<Rightarrow> \<not> contains_card P j \<or> is_map fd \<or> cards_val_ok P R fl v) \<and>
      cards_fields_ok P R fl fs)"
| "cards_val_ok P R fl (VMsg m) = cards_ok P R fl m"
| "cards_val_ok P R fl (VList vs) = cards_elems_ok P R fl vs"
| "cards_val_ok P R fl v = True"
| "cards_elems_ok P R fl [] = True"
| "cards_elems_ok P R fl (VMsg m # vs) = (cards_ok P R fl m \<and> cards_elems_ok P R fl vs)"
| "cards_elems_ok P R fl (v # vs) = cards_elems_ok P R fl vs"
  by pat_completeness auto

termination
  by (relation "measure (case_sum
        (case_sum (\<lambda>(P, R, fl, m). size m) (\<lambda>(P, R, fl, fs). size_list size fs))
        (case_sum (\<lambda>(P, R, fl, v). size v) (\<lambda>(P, R, fl, vs). size_list size vs)))") auto

context card_viewer
begin

lemma project_card_sound:
  assumes wf: "wf_msg P m" and c: "is_card_message P (pm_desc m)" and vocab: "card_vocab P"
    and r: "project_card P R m path fl = (Some m', w)"
  shows "node_ok P R m' fl \<and> wf_msg P m' \<and> pm_desc m' = pm_desc m"
proof -
  obtain d fs where m: "m = Msg d fs" by (cases m)
  obtain fs1 k t w1 where pf: "project_fields P R fs [] (floor_inside P m fl) = (fs1, k, t, w1)"
    by (metis surj_pair)
  have reached: "R m fl" and m': "m' = record_disclosure P (Msg d fs1) w1"
    using r pf m by (auto simp: project_card_def split: if_splits)
  have wfs: "wf_fields P d fs" using wf m by simp
  have ok1: "fields_ok P R fs1 (floor_inside P m fl)" and wf1: "wf_fields P d fs1"
    using project_sound(2)[OF wfs pf] by auto
  have l1: "own_label P (Msg d fs1) = own_label P m" using own_label_project[OF wfs pf] m by simp
  have "fields_ok P R (pm_fields m') (floor_inside P m fl)"
    using fields_ok_disclosure[of P "Msg d fs1" R "floor_inside P m fl" w1] wf1 ok1 c m vocab m' by simp
  moreover obtain fs2 where m2: "m' = Msg d fs2" using m' by (metis pm_desc_disclosure pmsg.collapse pmsg.sel(1))
  ultimately have "node_ok P R m' fl"
    using reached_again[of d fs2 fs fl] l1 own_label_disclosure[of P "Msg d fs1" w1] m m' reached
    by simp
  then show ?thesis using m m' wf_record_disclosure[of P "Msg d fs1" w1] wf1 c vocab by simp
qed

lemma project_card_complete:
  assumes "wf_msg P m" "node_ok P R m fl"
  shows "project_card P R m path fl = (Some m, [])"
proof -
  obtain d fs where m: "m = Msg d fs" by (cases m)
  have "wf_fields P d fs" "R m fl" "fields_ok P R fs (floor_inside P m fl)" using assms m by auto
  then obtain k where "project_fields P R fs [] (floor_inside P m fl) = (fs, k, k, [])"
    using project_complete(2) by blast
  then show ?thesis using m \<open>R m fl\<close> by (simp add: project_card_def record_disclosure_def)
qed

lemma each_card_sound_gen:
  "P' = P \<Longrightarrow> R' = R \<Longrightarrow> card_vocab P \<Longrightarrow> wf_msg P' m \<Longrightarrow> each_card P' R' fl m path = (Some m', w) \<Longrightarrow>
     cards_ok P' R' fl m' \<and> wf_msg P' m' \<and> pm_desc m' = pm_desc m"
  "P' = P \<Longrightarrow> R' = R \<Longrightarrow> card_vocab P \<Longrightarrow> \<exists>d. wf_fields P' d fs \<Longrightarrow>
     each_fields P' R' fl fs path = (fs', w) \<Longrightarrow>
     cards_fields_ok P' R' fl fs' \<and> (\<forall>d. wf_fields P' d fs \<longrightarrow> wf_fields P' d fs')"
  "P' = P \<Longrightarrow> R' = R \<Longrightarrow> card_vocab P \<Longrightarrow> wf_val P' fd v \<Longrightarrow>
     each_val P' R' fl fd v path = (Some v', w) \<Longrightarrow> cards_val_ok P' R' fl v' \<and> wf_val P' fd v'"
  "P' = P \<Longrightarrow> R' = R \<Longrightarrow> card_vocab P \<Longrightarrow> wf_elems P' fd vs \<Longrightarrow>
     each_elems P' R' fl fd vs i path = (vs', w) \<Longrightarrow>
     cards_elems_ok P' R' fl vs' \<and> wf_elems P' fd vs'"
proof (induction P' R' fl m path and P' R' fl fs path and P' R' fl fd v path
    and P' R' fl fd vs i path
    arbitrary: m' w and fs' w and v' w and vs' w
    rule: each_card_each_fields_each_val_each_elems.induct)
  case (1 P' R' fl d fs path)
  show ?case
  proof (cases "is_card_message P' d")
    case True
    then have "project_card P R (Msg d fs) path fl = (Some m', w)" using 1(2,3,6) by simp
    from project_card_sound[OF _ _ 1(4) this]
    have "node_ok P R m' fl" "wf_msg P m'" "pm_desc m' = d"
      using 1(2,5) True by simp_all
    then show ?thesis using 1(2,3) True by (cases m') simp
  next
    case False
    obtain fs1 w1 where r: "each_fields P' R' fl fs path = (fs1, w1)" by (metis surj_pair)
    have "\<exists>d. wf_fields P' d fs" using 1(5) by auto
    then have "cards_fields_ok P' R' fl fs1 \<and> (\<forall>d. wf_fields P' d fs \<longrightarrow> wf_fields P' d fs1)"
      using 1(1)[OF False 1(2-4) _ r] by blast
    then show ?thesis using 1(5,6) r False by auto
  qed
next
  case (3 P' R' fl fd v fs path)
  obtain v1 w1 where r1: "(case card_child_of P' fd of
              None \<Rightarrow> (Some v, [])
            | Some j \<Rightarrow>
                if \<not> contains_card P' j \<or> is_map fd then (Some v, [])
                else each_val P' R' fl fd v path) = (v1, w1)"
    by (metis surj_pair)
  obtain fs1 w2 where r2: "each_fields P' R' fl fs path = (fs1, w2)" by (metis surj_pair)
  obtain d where wf: "wf_val P' fd v" "wf_fields P' d fs" using 3(6) by auto
  have ih2: "cards_fields_ok P' R' fl fs1 \<and> (\<forall>d. wf_fields P' d fs \<longrightarrow> wf_fields P' d fs1)"
    using 3(2)[OF r1[symmetric] 3(3-5) _ r2] wf by blast
  have fs': "fs' = (case v1 of None \<Rightarrow> fs1 | Some x \<Rightarrow> Fld fd x # fs1)" using 3(7) r1 r2 by simp
  show ?case
  proof (cases v1)
    case (Some x)
    have "(case card_child_of P' fd of None \<Rightarrow> True
        | Some j \<Rightarrow> \<not> contains_card P' j \<or> is_map fd \<or> cards_val_ok P' R' fl x) \<and> wf_val P' fd x"
    proof (cases "card_child_of P' fd")
      case (Some j)
      then show ?thesis using 3(1)[OF Some _ 3(3-5) wf(1), of x w1] r1 \<open>v1 = Some x\<close> wf(1)
        by (auto split: if_splits)
    qed (use r1 \<open>v1 = Some x\<close> wf(1) in simp)
    then show ?thesis using fs' Some ih2 by simp
  qed (use fs' ih2 in simp)
next
  case (5 P' R' fl fd vs path)
  obtain vs1 w1 where r: "each_elems P' R' fl fd vs 0 path = (vs1, w1)" by (metis surj_pair)
  then show ?case using 5 by (auto simp: kept_list_def split: if_splits)
qed (auto split: prod.splits option.splits)

lemmas each_card_sound = each_card_sound_gen(1)[OF refl refl]

lemma each_card_complete:
  "P' = P \<Longrightarrow> R' = R \<Longrightarrow> wf_msg P' m \<Longrightarrow> cards_ok P' R' fl m \<Longrightarrow>
     each_card P' R' fl m path = (Some m, [])"
  "P' = P \<Longrightarrow> R' = R \<Longrightarrow> \<exists>d. wf_fields P' d fs \<Longrightarrow> cards_fields_ok P' R' fl fs \<Longrightarrow>
     each_fields P' R' fl fs path = (fs, [])"
  "P' = P \<Longrightarrow> R' = R \<Longrightarrow> wf_val P' fd v \<Longrightarrow> cards_val_ok P' R' fl v \<Longrightarrow>
     each_val P' R' fl fd v path = (Some v, [])"
  "P' = P \<Longrightarrow> R' = R \<Longrightarrow> wf_elems P' fd vs \<Longrightarrow> cards_elems_ok P' R' fl vs \<Longrightarrow>
     each_elems P' R' fl fd vs i path = (vs, [])"
proof (induction P' R' fl m path and P' R' fl fs path and P' R' fl fd v path
    and P' R' fl fd vs i path
    rule: each_card_each_fields_each_val_each_elems.induct)
  case (1 P' R' fl d fs path)
  show ?case
  proof (cases "is_card_message P' d")
    case True
    then show ?thesis using project_card_complete[of "Msg d fs" fl path] 1(2-5) by simp
  next
    case False
    have "\<exists>d. wf_fields P' d fs" using 1(4) by auto
    then have "each_fields P' R' fl fs path = (fs, [])" using 1(1)[OF False 1(2,3)] 1(5) False by simp
    then show ?thesis using False by simp
  qed
next
  case (3 P' R' fl fd v fs path)
  have r1: "(case card_child_of P' fd of
              None \<Rightarrow> (Some v, [])
            | Some j \<Rightarrow>
                if \<not> contains_card P' j \<or> is_map fd then (Some v, [])
                else each_val P' R' fl fd v path) = (Some v, [])"
    using 3(1,3-6) by (auto split: option.splits)
  have "\<exists>d. wf_fields P' d fs" using 3(5) by auto
  then have "each_fields P' R' fl fs path = (fs, [])"
    using 3(2)[OF r1[symmetric] 3(3,4)] 3(6) by simp
  then show ?case using r1 by simp
qed (auto simp: kept_list_def split: prod.splits)

end

lemma project_card_silent:
  assumes "project_card P R m path fl = (r, [])"
  shows "r = Some m"
proof -
  obtain d fs where m: "m = Msg d fs" by (cases m)
  obtain fs1 k t w1 where pf: "project_fields P R fs [] (floor_inside P m fl) = (fs1, k, t, w1)"
    by (metis surj_pair)
  have "w1 = []" "r = Some (record_disclosure P (Msg d fs1) w1)"
    using assms pf m by (auto simp: project_card_def split: if_splits)
  then show ?thesis using project_silent(2)[of P R fs] pf m
    by (simp add: record_disclosure_def)
qed

lemma each_card_silent:
  "each_card P R fl m path = (r, []) \<Longrightarrow> r = Some m"
  "each_fields P R fl fs path = (fs', []) \<Longrightarrow> fs' = fs"
  "each_val P R fl fd v path = (v', []) \<Longrightarrow> v' = Some v"
  "each_elems P R fl fd vs i path = (vs', []) \<Longrightarrow> vs' = vs"
proof (induction P R fl m path and P R fl fs path and P R fl fd v path and P R fl fd vs i path
    arbitrary: r and fs' and v' and vs'
    rule: each_card_each_fields_each_val_each_elems.induct)
  case (1 P R fl d fs path)
  then show ?case
    by (auto dest: project_card_silent split: if_splits prod.splits)
next
  case (3 P R fl fd v fs path)
  obtain v1 w1 where r1: "(case card_child_of P fd of
              None \<Rightarrow> (Some v, [])
            | Some j \<Rightarrow>
                if \<not> contains_card P j \<or> is_map fd then (Some v, [])
                else each_val P R fl fd v path) = (v1, w1)"
    by (metis surj_pair)
  obtain fs1 w2 where r2: "each_fields P R fl fs path = (fs1, w2)" by (metis surj_pair)
  have w: "w1 = []" "w2 = []" using 3(3) r1 r2 by auto
  have "v1 = Some v" using 3(1) r1 w(1) by (auto split: option.splits if_splits)
  moreover have "fs1 = fs" using 3(2)[OF r1[symmetric]] r2 w(2) by simp
  ultimately show ?case using 3(3) r1 r2 by simp
next
  case (5 P R fl fd vs path)
  obtain vs1 w1 where r: "each_elems P R fl fd vs 0 path = (vs1, w1)" by (metis surj_pair)
  then show ?case using 5 by (auto simp: kept_list_def)
qed (auto split: prod.splits option.splits)

section \<open>The walk as a relation\<close>

text \<open>\<open>holds P m n\<close>: the walk descends from \<open>m\<close> into \<open>n\<close> in one step.\<close>

inductive holds :: "pool \<Rightarrow> pmsg \<Rightarrow> pmsg \<Rightarrow> bool" for P where
  holds_single: "Fld fd (VMsg n) \<in> set (pm_fields m) \<Longrightarrow> walk_child P fd \<noteq> None \<Longrightarrow> holds P m n"
| holds_element:
    "Fld fd (VList vs) \<in> set (pm_fields m) \<Longrightarrow> VMsg n \<in> set vs \<Longrightarrow> walk_child P fd \<noteq> None \<Longrightarrow>
       holds P m n"

inductive_simps holds_iff: "holds P m n"

lemma node_ok_parts:
  "node_ok P R n fl \<longleftrightarrow> R n fl \<and> fields_ok P R (pm_fields n) (floor_inside P n fl)"
  by (cases n) simp

lemma elems_ok_in:
  "elems_ok P R lab vs fl \<Longrightarrow> VMsg n \<in> set vs \<Longrightarrow>
     (if lab then node_ok P R n fl else fields_ok P R (pm_fields n) fl)"
proof (induction vs)
  case (Cons v vs)
  then show ?case by (cases v) auto
qed simp

lemma wf_elems_in:
  "wf_elems P fd vs \<Longrightarrow> VMsg n \<in> set vs \<Longrightarrow> fd_Message fd = Some (pm_desc n) \<and> wf_msg P n"
proof (induction vs)
  case (Cons v vs)
  then show ?case by (cases v) auto
qed simp

lemma walk_child_message: "walk_child P fd = Some j \<Longrightarrow> fd_Message fd = Some j"
  by (auto simp: walk_child_def card_child_of_def is_map_def
      split: option.splits if_splits fshape.splits)

lemma holds_wf:
  assumes "holds P m n" "wf_msg P m"
  obtains fd where "walk_child P fd = Some (pm_desc n)" "wf_msg P n"
    "\<exists>f \<in> set (pm_fields m). pf_desc f = fd \<and>
       (pf_val f = VMsg n \<or> (\<exists>vs. pf_val f = VList vs \<and> VMsg n \<in> set vs))"
proof -
  consider (single) fd where "Fld fd (VMsg n) \<in> set (pm_fields m)" "walk_child P fd \<noteq> None"
    | (element) fd vs where "Fld fd (VList vs) \<in> set (pm_fields m)" "VMsg n \<in> set vs"
        "walk_child P fd \<noteq> None"
    using assms(1) unfolding holds_iff by blast
  then show thesis
  proof cases
    case single
    obtain j where j: "walk_child P fd = Some j" using single by blast
    have "wf_val P fd (VMsg n)"
      using assms(2) single(1) by (fastforce simp: wf_msg_fields wf_fields_in)
    then have "j = pm_desc n" "wf_msg P n" using walk_child_message[OF j] by auto
    then show thesis using that j single(1) by force
  next
    case element
    obtain j where j: "walk_child P fd = Some j" using element by blast
    have "wf_val P fd (VList vs)"
      using assms(2) element(1) by (fastforce simp: wf_msg_fields wf_fields_in)
    then have "j = pm_desc n" "wf_msg P n"
      using walk_child_message[OF j] wf_elems_in[of P fd vs n] element(2) by auto
    then show thesis using that j element(1,2) by force
  qed
qed

lemma fields_ok_holds:
  assumes "holds P m n" "wf_msg P m" "fields_ok P R (pm_fields m) fl"
  shows "wf_msg P n \<and> (labelled P (pm_desc n) \<longrightarrow> R n fl) \<and> (\<exists>fl'. fields_ok P R (pm_fields n) fl')"
proof -
  obtain fd where fd: "walk_child P fd = Some (pm_desc n)" "wf_msg P n"
    and ex: "\<exists>f \<in> set (pm_fields m). pf_desc f = fd \<and>
       (pf_val f = VMsg n \<or> (\<exists>vs. pf_val f = VList vs \<and> VMsg n \<in> set vs))"
    by (rule holds_wf[OF assms(1,2)])
  obtain f where f: "f \<in> set (pm_fields m)" "pf_desc f = fd"
      "pf_val f = VMsg n \<or> (\<exists>vs. pf_val f = VList vs \<and> VMsg n \<in> set vs)"
    using ex by blast
  have "case walk_child P (pf_desc f) of None \<Rightarrow> True
      | Some j \<Rightarrow> val_ok P R (labelled P j) (pf_val f) fl"
    using assms(3) f(1) unfolding fields_ok_in by blast
  then have "val_ok P R (labelled P (pm_desc n)) (pf_val f) fl" using f(2) fd(1) by simp
  then have "if labelled P (pm_desc n) then node_ok P R n fl else fields_ok P R (pm_fields n) fl"
    using f(3)
  proof (elim disjE exE conjE)
    fix vs assume "val_ok P R (labelled P (pm_desc n)) (pf_val f) fl" "pf_val f = VList vs"
      "VMsg n \<in> set vs"
    then show ?thesis by (intro elems_ok_in[of P R _ vs]) simp_all
  qed simp
  then show ?thesis using fd(2) node_ok_parts[of P R n fl] by (auto split: if_split_asm)
qed

lemma node_ok_walk:
  assumes "(holds P)\<^sup>*\<^sup>* m n" "wf_msg P m" "node_ok P R m fl"
  shows "wf_msg P n \<and> (labelled P (pm_desc n) \<longrightarrow> (\<exists>fl'. R n fl')) \<and>
     (\<exists>fl'. fields_ok P R (pm_fields n) fl')"
  using assms(1)
proof (induction rule: rtranclp_induct)
  case base
  then show ?case using assms(2,3) node_ok_parts[of P R m fl] by blast
next
  case (step n n')
  then obtain fl' where "fields_ok P R (pm_fields n) fl'" "wf_msg P n" by blast
  then show ?case using fields_ok_holds[OF step.hyps(2)] by blast
qed

lemma own_label_labelled: "own_label P n = Some r \<Longrightarrow> labelled P (pm_desc n)"
  by (auto simp: own_label_def labelled_def split: option.splits)

section \<open>Validated labels\<close>

definition floor_le :: "card_floor \<Rightarrow> card_floor \<Rightarrow> bool" where
  "floor_le f g \<longleftrightarrow> fl_Clearance f \<le> fl_Clearance g \<and> set (fl_Compartments f) \<subseteq> set (fl_Compartments g)"

definition label_ge :: "label \<Rightarrow> card_floor \<Rightarrow> bool" where
  "label_ge l f \<longleftrightarrow> fl_Clearance f \<le> lb_Clearance l \<and> set (fl_Compartments f) \<subseteq> set (lb_Compartments l)"

definition label_floor :: "label \<Rightarrow> card_floor" where
  "label_floor l = \<lparr>fl_Clearance = lb_Clearance l, fl_Compartments = lb_Compartments l,
     fl_Check = LabelBelowElement\<rparr>"

lemma set_join_names [simp]: "set (join_names a b) = set a \<union> set b"
  by (induction a b rule: join_names.induct) auto

lemma floor_under_le: "floor_le f (floor_under f l b) \<and> floor_le (label_floor l) (floor_under f l b)"
  by (auto simp: floor_le_def floor_under_def label_floor_def)

lemma floor_admits_iff: "floor_admits f l \<longleftrightarrow> label_ge l f"
  by (auto simp: floor_admits_def label_ge_def covers_names_def list_all_iff)

lemma floor_le_trans: "floor_le a b \<Longrightarrow> floor_le b c \<Longrightarrow> floor_le a c"
  by (auto simp: floor_le_def)

lemma label_ge_le: "label_ge l b \<Longrightarrow> floor_le a b \<Longrightarrow> label_ge l a"
  by (auto simp: floor_le_def label_ge_def)

lemma validate_msg_None:
  assumes "validate_msg P m path fl = None"
  shows "own_label P m \<noteq> Some None \<and>
     (\<exists>fl'. floor_le fl fl' \<and> validate_fields P (pm_fields m) path fl' = None \<and>
        (\<forall>l. own_label P m = Some (Some l) \<longrightarrow> label_ge l fl \<and> floor_le (label_floor l) fl'))"
proof -
  obtain d fs where m: "m = Msg d fs" by (cases m)
  have refl: "floor_le fl fl" by (simp add: floor_le_def)
  show ?thesis
  proof (cases "own_label P m")
    case None
    then show ?thesis using assms m refl by (auto split: option.splits)
  next
    case (Some r)
    then obtain l where l: "r = Some l" "floor_admits fl l"
      "validate_fields P fs path (floor_under fl l (holds_a_section P m)) = None"
      using assms m by (auto split: option.splits if_splits)
    then show ?thesis
      using Some m floor_under_le[of fl l "holds_a_section P m"] floor_admits_iff by auto
  qed
qed

lemma validate_elems_in:
  "validate_elems P fd lab vs i path fl = None \<Longrightarrow> VMsg n \<in> set vs \<Longrightarrow>
     \<exists>path'. validate_msg P n path' fl = None"
proof (induction vs arbitrary: i)
  case (Cons v vs)
  then show ?case by (cases v) (auto split: option.splits)
qed simp

lemma validate_fields_in:
  "validate_fields P fs path fl = None \<Longrightarrow> Fld fd v \<in> set fs \<Longrightarrow> walk_child P fd = Some j \<Longrightarrow>
     validate_val P fd (labelled P j) v path fl = None"
proof (induction fs)
  case (Cons f fs)
  then show ?case by (cases f) (auto split: option.splits)
qed simp

lemma validate_holds:
  assumes "holds P m n" "validate_fields P (pm_fields m) path fl = None"
  shows "\<exists>path'. validate_msg P n path' fl = None"
proof -
  consider (single) fd where "Fld fd (VMsg n) \<in> set (pm_fields m)" "walk_child P fd \<noteq> None"
    | (element) fd vs where "Fld fd (VList vs) \<in> set (pm_fields m)" "VMsg n \<in> set vs"
        "walk_child P fd \<noteq> None"
    using assms(1) unfolding holds_iff by blast
  then show ?thesis
  proof cases
    case single
    then show ?thesis using validate_fields_in[OF assms(2)] by fastforce
  next
    case element
    then obtain j where "validate_val P fd (labelled P j) (VList vs) path fl = None"
      using validate_fields_in[OF assms(2)] by blast
    then show ?thesis using validate_elems_in element(2) by fastforce
  qed
qed

lemma validate_walk:
  assumes "(holds P)\<^sup>*\<^sup>* m n" "validate_msg P m path fl = None"
  shows "\<exists>path' fl'. validate_msg P n path' fl' = None \<and> floor_le fl fl' \<and>
     (m = n \<or> (\<forall>l. own_label P m = Some (Some l) \<longrightarrow> floor_le (label_floor l) fl'))"
  using assms(1)
proof (induction rule: rtranclp_induct)
  case base
  then show ?case using assms(2) by (metis floor_le_def order_refl)
next
  case (step n n')
  obtain path' fl' where v: "validate_msg P n path' fl' = None" "floor_le fl fl'"
    "m = n \<or> (\<forall>l. own_label P m = Some (Some l) \<longrightarrow> floor_le (label_floor l) fl')"
    using step.IH by blast
  obtain fl2 where f: "floor_le fl' fl2" "validate_fields P (pm_fields n) path' fl2 = None"
    "\<forall>l. own_label P n = Some (Some l) \<longrightarrow> label_ge l fl' \<and> floor_le (label_floor l) fl2"
    using validate_msg_None[OF v(1)] by blast
  obtain path2 where "validate_msg P n' path2 fl2 = None"
    using validate_holds[OF step.hyps(2) f(2)] by blast
  moreover have "floor_le fl fl2" using v(2) f(1) floor_le_trans by blast
  moreover have "\<forall>l. own_label P m = Some (Some l) \<longrightarrow> floor_le (label_floor l) fl2"
    using v(3) f(1,3) floor_le_trans by blast
  ultimately show ?case by blast
qed

section \<open>The chain's own viewer\<close>

definition clears :: "env \<Rightarrow> core \<Rightarrow> principal \<Rightarrow> label \<Rightarrow> bool" where
  "clears E c p l \<longleftrightarrow>
     pk_Allows (en_Policy E) (p_Clearance p) (lb_Clearance l) \<and>
     (\<exists>need. rg_Set (c_reg c) (lb_Compartments l) = Inr need \<and>
             pk_Covers (en_Policy E) (p_Compartments p) need)"

lemma reaches_label:
  "own_label (en_Pool E) m = Some r \<Longrightarrow> reaches E c p m fl \<longleftrightarrow> (\<exists>l. r = Some l \<and> clears E c p l)"
  by (auto simp: reaches_def clears_def split: option.splits sum.splits)

interpretation viewer: card_viewer "en_Pool E" "reaches E c p" for E c p
proof unfold_locales
  fix m fl fl' assume "floor_eq fl fl'"
  then show "reaches E c p m fl = reaches E c p m fl'"
    by (cases "own_label (en_Pool E) m") (simp_all add: reaches_def floor_eq_def)
qed (simp add: reaches_def)

lemma projectCards_cases:
  assumes "projectCards E c p t resp = (res, resp')"
  obtains (invalid) v where "validate_msg (en_Pool E) resp [] (floor_for E t (pm_desc resp)) = Some v"
      "res = \<lparr>cr_withheld = [], cr_invalid = Some v, cr_gone = False\<rparr>" "resp' = resp"
  | (gone) w where "validate_msg (en_Pool E) resp [] (floor_for E t (pm_desc resp)) = None"
      "each_card (en_Pool E) (reaches E c p) (floor_for E t (pm_desc resp)) resp [] = (None, w)"
      "res = \<lparr>cr_withheld = w, cr_invalid = None, cr_gone = True\<rparr>" "resp' = resp"
  | (served) w where "validate_msg (en_Pool E) resp [] (floor_for E t (pm_desc resp)) = None"
      "each_card (en_Pool E) (reaches E c p) (floor_for E t (pm_desc resp)) resp [] = (Some resp', w)"
      "res = \<lparr>cr_withheld = w, cr_invalid = None, cr_gone = False\<rparr>"
  using assms
  by (auto simp: projectCards_def Let_def split: option.splits prod.splits)

section \<open>Cards of a response\<close>

text \<open>\<open>card_at P m c\<close>: the loop over cards finds \<open>c\<close> in \<open>m\<close>.\<close>

inductive card_at :: "pool \<Rightarrow> pmsg \<Rightarrow> pmsg \<Rightarrow> bool" for P where
  card_self: "is_card_message P (pm_desc m) \<Longrightarrow> card_at P m m"
| card_field: "\<not> is_card_message P (pm_desc m) \<Longrightarrow> Fld fd (VMsg n) \<in> set (pm_fields m) \<Longrightarrow>
     card_child_of P fd = Some j \<Longrightarrow> contains_card P j \<Longrightarrow> \<not> is_map fd \<Longrightarrow> card_at P n c \<Longrightarrow>
     card_at P m c"
| card_element: "\<not> is_card_message P (pm_desc m) \<Longrightarrow> Fld fd (VList vs) \<in> set (pm_fields m) \<Longrightarrow>
     VMsg n \<in> set vs \<Longrightarrow> card_child_of P fd = Some j \<Longrightarrow> contains_card P j \<Longrightarrow> \<not> is_map fd \<Longrightarrow>
     card_at P n c \<Longrightarrow> card_at P m c"

lemma cards_fields_ok_in:
  "cards_fields_ok P R fl fs \<Longrightarrow> Fld fd v \<in> set fs \<Longrightarrow> card_child_of P fd = Some j \<Longrightarrow>
     contains_card P j \<Longrightarrow> \<not> is_map fd \<Longrightarrow> cards_val_ok P R fl v"
proof (induction fs)
  case (Cons f fs)
  then show ?case by (cases f) auto
qed simp

lemma cards_elems_ok_in: "cards_elems_ok P R fl vs \<Longrightarrow> VMsg n \<in> set vs \<Longrightarrow> cards_ok P R fl n"
proof (induction vs)
  case (Cons v vs)
  then show ?case by (cases v) auto
qed simp

lemma cards_ok_parts:
  "cards_ok P R fl m \<longleftrightarrow>
     (if is_card_message P (pm_desc m) then node_ok P R m fl else cards_fields_ok P R fl (pm_fields m))"
  by (cases m) simp

lemma cards_ok_at:
  "card_at P m c \<Longrightarrow> wf_msg P m \<Longrightarrow> cards_ok P R fl m \<Longrightarrow> wf_msg P c \<and> node_ok P R c fl"
proof (induction rule: card_at.induct)
  case (card_self m)
  then show ?case by (simp add: cards_ok_parts)
next
  case (card_field m fd n j c)
  have "cards_val_ok P R fl (VMsg n)"
    using card_field cards_fields_ok_in[of P R fl "pm_fields m" fd "VMsg n" j]
    by (simp add: cards_ok_parts)
  moreover have "wf_val P fd (VMsg n)"
    using card_field.hyps(2) card_field.prems(1) by (fastforce simp: wf_msg_fields wf_fields_in)
  ultimately show ?case using card_field.IH by simp
next
  case (card_element m fd vs n j c)
  have "cards_elems_ok P R fl vs"
    using card_element cards_fields_ok_in[of P R fl "pm_fields m" fd "VList vs" j]
    by (simp add: cards_ok_parts)
  moreover have "wf_val P fd (VList vs)"
    using card_element.hyps(2) card_element.prems(1) by (fastforce simp: wf_msg_fields wf_fields_in)
  ultimately show ?case
    using card_element.IH cards_elems_ok_in wf_elems_in[of P fd vs n] card_element.hyps(3) by auto
qed

lemma served_labels:
  assumes wf: "wf_msg (en_Pool E) resp" and vocab: "card_vocab (en_Pool E)"
    and served: "each_card (en_Pool E) (reaches E c p) (floor_for E t (pm_desc resp)) resp [] = (Some resp', w)"
    and at: "card_at (en_Pool E) resp' k" and on: "(holds (en_Pool E))\<^sup>*\<^sup>* k n"
    and lb: "own_label (en_Pool E) n = Some l"
  shows "\<exists>l'. l = Some l' \<and> clears E c p l'"
proof -
  let ?P = "en_Pool E" and ?R = "reaches E c p" and ?fl = "floor_for E t (pm_desc resp)"
  have ok: "cards_ok ?P ?R ?fl resp'" "wf_msg ?P resp'"
    using viewer.each_card_sound[OF vocab wf served] by auto
  have "wf_msg ?P k" "node_ok ?P ?R k ?fl" using cards_ok_at[OF at ok(2,1)] by auto
  then obtain fl' where "?R n fl'"
    using node_ok_walk[OF on] own_label_labelled[OF lb] by blast
  then show ?thesis using reaches_label[OF lb] by blast
qed

lemma card_at_contains:
  assumes "card_at P m k" "wf_pool P" "wf_msg P m" "pm_desc m < length P"
  shows "contains_card P (pm_desc m)"
  using assms(1)
proof cases
  case card_self
  then show ?thesis using contains_card_iff_reachable[OF assms(2,4)] by blast
next
  case (card_field fd n j)
  have "fd \<in> set (fields_of P (pm_desc m))"
    using card_field(2) assms(3) by (auto simp: wf_msg_fields wf_fields_in dest!: by_name_Some)
  then show ?thesis using reach_step[OF assms(2,4)] card_field(3,4) by blast
next
  case (card_element fd vs n j)
  have "fd \<in> set (fields_of P (pm_desc m))"
    using card_element(2) assms(3) by (auto simp: wf_msg_fields wf_fields_in dest!: by_name_Some)
  then show ?thesis using reach_step[OF assms(2,4)] card_element(4,5) by blast
qed

section \<open>Properties\<close>

text \<open>
  C3: The card walk never serves what its viewer does not reach. On a well-formed response that is
  served, every label of every node the walk visits, in every card the response still holds, is one
  the caller clears; a refused response is returned untouched, not half projected; and when no name
  was recorded as withheld, nothing was removed.
\<close>

theorem card_projection_safe:
  assumes "wf_msg (en_Pool E) resp" "card_vocab (en_Pool E)"
    and "projectCards E c p t resp = (res, resp')"
  shows "(cr_invalid res \<noteq> None \<or> cr_gone res \<longrightarrow> resp' = resp) \<and>
     (cr_invalid res = None \<and> \<not> cr_gone res \<longrightarrow>
        (\<forall>k n l. card_at (en_Pool E) resp' k \<and> (holds (en_Pool E))\<^sup>*\<^sup>* k n \<and>
           own_label (en_Pool E) n = Some l \<longrightarrow> (\<exists>l'. l = Some l' \<and> clears E c p l')) \<and>
        (cr_withheld res = [] \<longrightarrow> resp' = resp))"
  using assms(3)
proof (cases rule: projectCards_cases)
  case (served w)
  have "\<exists>l'. l = Some l' \<and> clears E c p l'"
    if "card_at (en_Pool E) resp' k" "(holds (en_Pool E))\<^sup>*\<^sup>* k n" "own_label (en_Pool E) n = Some l"
    for k n l
    using served_labels[OF assms(1,2) served(2) that] .
  moreover have "resp' = resp" if "w = []"
    using each_card_silent(1)[of "en_Pool E" "reaches E c p" "floor_for E t (pm_desc resp)" resp "[]"
        "Some resp'"] served(2) that by simp
  ultimately show ?thesis using served(3) by auto
qed simp_all

text \<open>
  The card walk takes nothing a viewer may see. If the response passes validation and its viewer
  reaches every node of every card, the response is served exactly as the tool answered it, with
  nothing recorded as withheld; so projecting twice is projecting once.
\<close>

theorem card_projection_minimal:
  assumes "wf_msg (en_Pool E) resp"
    and "validate_msg (en_Pool E) resp [] (floor_for E t (pm_desc resp)) = None"
    and "cards_ok (en_Pool E) (reaches E c p) (floor_for E t (pm_desc resp)) resp"
  shows "projectCards E c p t resp =
     (\<lparr>cr_withheld = [], cr_invalid = None, cr_gone = False\<rparr>, resp)"
  using viewer.each_card_complete(1)[OF refl refl assms(1,3)] assms(2)
  by (simp add: projectCards_def Let_def)

text \<open>
  Inside a validated card a label is never looser than the label of anything that contains it,
  and never looser than the endpoint's own policy; no label is unreadable. So whoever is shown an
  element could also be shown everything around it.
\<close>

theorem card_labels_monotone:
  assumes "validate_msg P resp [] fl = None"
    and "(holds P)\<^sup>*\<^sup>* resp m" "(holds P)\<^sup>*\<^sup>* m n" "own_label P n = Some r"
  shows "\<exists>l. r = Some l \<and> fl_Clearance fl \<le> lb_Clearance l \<and>
     set (fl_Compartments fl) \<subseteq> set (lb_Compartments l) \<and>
     (\<forall>q. own_label P m = Some (Some q) \<longrightarrow>
        lb_Clearance q \<le> lb_Clearance l \<and> set (lb_Compartments q) \<subseteq> set (lb_Compartments l))"
proof -
  obtain path1 fl1 where m: "validate_msg P m path1 fl1 = None" "floor_le fl fl1"
    using validate_walk[OF assms(2,1)] by blast
  obtain path2 fl2 where n: "validate_msg P n path2 fl2 = None" "floor_le fl1 fl2"
    "m = n \<or> (\<forall>l. own_label P m = Some (Some l) \<longrightarrow> floor_le (label_floor l) fl2)"
    using validate_walk[OF assms(3) m(1)] by blast
  obtain l where l: "r = Some l" "label_ge l fl2"
    using validate_msg_None[OF n(1)] assms(4) by (cases r) auto
  have "label_ge l fl" using l(2) n(2) m(2) label_ge_le floor_le_trans by blast
  moreover have "lb_Clearance q \<le> lb_Clearance l \<and> set (lb_Compartments q) \<subseteq> set (lb_Compartments l)"
    if "own_label P m = Some (Some q)" for q
  proof (cases "m = n")
    case True
    then show ?thesis using that assms(4) l(1) by simp
  next
    case False
    then have "floor_le (label_floor q) fl2" using n(3) that by blast
    from label_ge_le[OF l(2) this] show ?thesis by (simp add: label_ge_def label_floor_def)
  qed
  ultimately show ?thesis using l(1) by (auto simp: label_ge_def)
qed

section \<open>Witnesses\<close>

lemma sample_card_wf: "wf_msg card_pool sample_card"
  by code_simp

lemma card_pool_card: "is_card_message card_pool d \<Longrightarrow> d = 3"
  by (auto simp: is_card_message_def md_of_def card_pool_def cardMessageName_def nth_Cons
      split: if_splits nat.splits)

lemma card_pool_vocab: "card_vocab card_pool"
proof -
  have "by_name card_pool 3 ''disclosure'' = Some fd_disclosure" by code_simp
  moreover have "fd_Message fd_disclosure = Some 1" "fd_Shape fd_disclosure = FSingle"
    "\<not> labelled card_pool 1" by code_simp+
  ultimately show ?thesis unfolding card_vocab_def by (auto dest!: card_pool_card)
qed

lemma sample_projectCards:
  "projectCards card_env sample_core sample_principal card_tool sample_card =
     (\<lparr>cr_withheld = [''body[1]''], cr_invalid = None, cr_gone = False\<rparr>, sample_card_shown)"
  by code_simp

lemma card_env_pool [simp]: "en_Pool card_env = card_pool"
  by (simp add: card_env_def)

lemma card_projection_safe_witness:
  "\<exists>res resp'. projectCards card_env sample_core sample_principal card_tool sample_card = (res, resp') \<and>
     cr_withheld res = [''body[1]''] \<and>
     (\<forall>k n l. card_at card_pool resp' k \<and> (holds card_pool)\<^sup>*\<^sup>* k n \<and> own_label card_pool n = Some l \<longrightarrow>
        (\<exists>l'. l = Some l' \<and> clears card_env sample_core sample_principal l'))"
  using card_projection_safe[of card_env sample_card sample_core sample_principal card_tool,
      OF _ _ sample_projectCards] sample_card_wf card_pool_vocab sample_projectCards
  by simp

lemma card_projection_minimal_witness:
  "projectCards card_env sample_core sample_principal card_tool sample_card_shown =
     (\<lparr>cr_withheld = [], cr_invalid = None, cr_gone = False\<rparr>, sample_card_shown)"
proof (rule card_projection_minimal)
  show "wf_msg (en_Pool card_env) sample_card_shown" by code_simp
  show "validate_msg (en_Pool card_env) sample_card_shown []
      (floor_for card_env card_tool (pm_desc sample_card_shown)) = None" by code_simp
  show "cards_ok (en_Pool card_env) (reaches card_env sample_core sample_principal)
      (floor_for card_env card_tool (pm_desc sample_card_shown)) sample_card_shown" by code_simp
qed

lemma card_labels_monotone_witness:
  "\<exists>l. own_label card_pool sample_card = Some (Some l) \<and> CLEARANCE_INTERNAL \<le> lb_Clearance l"
proof -
  let ?fl = "floor_for card_env card_tool (pm_desc sample_card)"
  have v: "validate_msg card_pool sample_card [] ?fl = None" by code_simp
  have "own_label card_pool sample_card \<noteq> None" by code_simp
  then obtain r where r: "own_label card_pool sample_card = Some r" by blast
  have "fl_Clearance ?fl = CLEARANCE_INTERNAL" by code_simp
  then show ?thesis
    using card_labels_monotone[OF v rtranclp.rtrancl_refl rtranclp.rtrancl_refl r] r by auto
qed

end
