(* ===== verification/Schema.thy ===== *)
theory Schema
  imports CardProps "HOL-Library.List_Lexorder" "HOL-Library.Char_ord"
begin

text \<open>
  \<open>internal/toolplane/schema.go\<close> and \<open>schema_cache.go\<close>: the JSON schema a principal is shown,
  projected by what it may write (input) or read (output), and the cache of projections.

  A Go \<open>map[string]any\<close> is a \<open>JObj\<close> whose keys are distinct. The set \<open>seen\<close> that cuts cycles holds
  the messages the walk is inside (\<open>defer delete\<close>), so it is passed down and never returned; the walk
  ends because each level adds a name of the pool.
\<close>

definition jstr :: "string \<Rightarrow> string \<Rightarrow> string \<times> json" where
  "jstr k v = (k, JStr v)"

text \<open>\<open>scalarSchema\<close>.\<close>

definition scalarSchema :: "vtype \<Rightarrow> (string \<times> json) list" where
  "scalarSchema vt =
     (case vt_Kind vt of
        BoolKind \<Rightarrow> [jstr ''type'' ''boolean'']
      | Int32Kind \<Rightarrow> [jstr ''type'' ''integer'']
      | Sint32Kind \<Rightarrow> [jstr ''type'' ''integer'']
      | Sfixed32Kind \<Rightarrow> [jstr ''type'' ''integer'']
      | Uint32Kind \<Rightarrow> [jstr ''type'' ''integer'']
      | Fixed32Kind \<Rightarrow> [jstr ''type'' ''integer'']
      | Int64Kind \<Rightarrow> [jstr ''type'' ''string'', jstr ''format'' ''int64'']
      | Sint64Kind \<Rightarrow> [jstr ''type'' ''string'', jstr ''format'' ''int64'']
      | Sfixed64Kind \<Rightarrow> [jstr ''type'' ''string'', jstr ''format'' ''int64'']
      | Uint64Kind \<Rightarrow> [jstr ''type'' ''string'', jstr ''format'' ''int64'']
      | Fixed64Kind \<Rightarrow> [jstr ''type'' ''string'', jstr ''format'' ''int64'']
      | FloatKind \<Rightarrow> [jstr ''type'' ''number'']
      | DoubleKind \<Rightarrow> [jstr ''type'' ''number'']
      | StringKind \<Rightarrow> [jstr ''type'' ''string'']
      | BytesKind \<Rightarrow> [jstr ''type'' ''string'', jstr ''contentEncoding'' ''base64'']
      | EnumKind \<Rightarrow> [jstr ''type'' ''string'', (''enum'', JArr (map JStr (vt_Enum vt)))]
      | _ \<Rightarrow> [jstr ''type'' ''string''])"

definition underDeniedSubtree :: "string \<Rightarrow> string list \<Rightarrow> bool" where
  "underDeniedSubtree n subtrees =
     list_ex (\<lambda>s. length n > length s \<and> take (length s) n = s \<and> n ! length s = CHR ''.'') subtrees"

text \<open>The element a field's schema is about: a map's value, a list's element, the field itself.\<close>

definition elem_type :: "fdesc \<Rightarrow> vtype" where
  "elem_type fd = (case fd_Shape fd of FMap v \<Rightarrow> v | _ \<Rightarrow> fd_Type fd)"

text \<open>The message \<open>scalarOrMessage\<close> recurses into; a Timestamp is a string on the wire.\<close>

definition timestampName :: string where "timestampName = ''google.protobuf.Timestamp''"

definition recurse_into :: "pool \<Rightarrow> vtype \<Rightarrow> md option" where
  "recurse_into P vt =
     (if vt_Kind vt = MessageKind \<or> vt_Kind vt = GroupKind then
        (case vt_Message vt of
           None \<Rightarrow> None
         | Some j \<Rightarrow> if full_name P j = timestampName then None else Some j)
      else None)"

definition leaf_schema :: "pool \<Rightarrow> vtype \<Rightarrow> (string \<times> json) list" where
  "leaf_schema P vt =
     (if vt_Kind vt = MessageKind \<or> vt_Kind vt = GroupKind
      then [jstr ''type'' ''string'', jstr ''format'' ''date-time'']
      else scalarSchema vt)"

text \<open>\<open>fieldSchema\<close> around the schema of its element, with the field's prose.\<close>

definition fieldSchema :: "fdesc \<Rightarrow> (string \<times> string) list \<Rightarrow> (string \<times> json) list \<Rightarrow> json" where
  "fieldSchema fd docs inner =
     (let s = (case fd_Shape fd of
                 FMap v \<Rightarrow> [jstr ''type'' ''object'', (''additionalProperties'', JObj inner)]
               | FList \<Rightarrow> [jstr ''type'' ''array'', (''items'', JObj inner)]
               | FSingle \<Rightarrow> inner)
      in case map_of docs (fd_FullName fd) of
           Some doc \<Rightarrow> if doc \<noteq> [] then JObj (s @ [jstr ''description'' doc]) else JObj s
         | None \<Rightarrow> JObj s)"

function schema_for ::
    "pool \<Rightarrow> string list \<Rightarrow> string list \<Rightarrow> (string \<times> string) list \<Rightarrow> md \<Rightarrow> string \<Rightarrow> string list \<Rightarrow>
       (string \<times> json) list"
  and schema_props ::
    "pool \<Rightarrow> string list \<Rightarrow> string list \<Rightarrow> (string \<times> string) list \<Rightarrow> fdesc list \<Rightarrow> string \<Rightarrow>
       string list \<Rightarrow> (string \<times> json) list \<times> string list"
where
  "schema_for P den sub docs i path seen =
     (if full_name P i \<in> set seen then [jstr ''type'' ''object'']
      else if i \<ge> length P then [jstr ''type'' ''object'', (''properties'', JObj [])]
      else
        (case schema_props P den sub docs (fields_of P i) path (full_name P i # seen) of
           (props, req) \<Rightarrow>
             [jstr ''type'' ''object'', (''properties'', JObj props)] @
             (if req \<noteq> [] then [(''required'', JArr (map JStr (sort req)))] else [])))"
| "schema_props P den sub docs [] path seen = ([], [])"
| "schema_props P den sub docs (fd # fds) path seen =
     (let full = name_path path (fd_Name fd)
      in if full \<in> set den \<or> underDeniedSubtree full sub
         then schema_props P den sub docs fds path seen
         else
           (let inner = (case recurse_into P (elem_type fd) of
                           Some j \<Rightarrow> schema_for P den sub docs j full seen
                         | None \<Rightarrow> leaf_schema P (elem_type fd))
            in case schema_props P den sub docs fds path seen of
                 (props, req) \<Rightarrow>
                   ((fd_Name fd, fieldSchema fd docs inner) # props,
                    if \<not> fd_HasPresence fd \<and> \<not> is_list fd \<and> \<not> is_map fd
                    then fd_Name fd # req else req)))"
  by pat_completeness auto

termination
proof (relation "measures
    [case_sum (\<lambda>(P, den, sub, docs, i, path, seen). unseen P seen)
              (\<lambda>(P, den, sub, docs, fds, path, seen). unseen P seen),
     case_sum (\<lambda>_. 0) (\<lambda>(P, den, sub, docs, fds, path, seen). Suc (length fds))]", goal_cases)
  case (2 P den sub docs i path seen)
  then show ?case using unseen_Cons[of i P seen] by simp
qed auto

text \<open>\<open>project\<close>: the denial sets come from the plan's actions, decided on one dimension.\<close>

definition may :: "env \<Rightarrow> clearance \<times> comp_set \<Rightarrow> (policy_action \<Rightarrow> clearance) \<Rightarrow> policy_action \<Rightarrow> bool" where
  "may E s need a \<longleftrightarrow>
     pk_Allows (en_Policy E) (fst s) (need a) \<and> pk_Covers (en_Policy E) (snd s) (a_Need a)"

definition project_schema ::
  "env \<Rightarrow> plan \<Rightarrow> clearance \<times> comp_set \<Rightarrow> (string \<times> string) list \<Rightarrow> (policy_action \<Rightarrow> clearance) \<Rightarrow> json" where
  "project_schema E pl s docs need =
     (let den = filter (\<lambda>a. \<not> may E s need a) (pl_Actions pl)
      in JObj (schema_for (en_Pool E) (map a_Name den) (map a_Name (filter a_IsSubtree den)) docs
                 (pl_Desc pl) [] []))"

definition ProjectInput :: "env \<Rightarrow> plan \<Rightarrow> clearance \<times> comp_set \<Rightarrow> (string \<times> string) list \<Rightarrow> json" where
  "ProjectInput E pl s docs = project_schema E pl s docs a_Write"

definition ProjectOutput :: "env \<Rightarrow> plan \<Rightarrow> clearance \<times> comp_set \<Rightarrow> (string \<times> string) list \<Rightarrow> json" where
  "ProjectOutput E pl s docs = project_schema E pl s docs a_Read"

section \<open>The cache\<close>

definition cache_get ::
  "(schema_key \<times> json) list \<Rightarrow> schema_key \<Rightarrow> (unit \<Rightarrow> json) \<Rightarrow> json \<times> (schema_key \<times> json) list" where
  "cache_get m k build =
     (case map_of m k of
        Some s \<Rightarrow> (s, m)
      | None \<Rightarrow> (build (), (k, build ()) # m))"

datatype schema_err = SchemaNoPrincipal | SchemaNoDescriptor string | SchemaNoInput string | SchemaNoOutput string

definition SchemaFor ::
  "env \<Rightarrow> core \<Rightarrow> tooldef \<Rightarrow> principal option \<Rightarrow> (schema_err + (json \<times> json)) \<times> core" where
  "SchemaFor E c t po =
     (case po of
        None \<Rightarrow> (Inl SchemaNoPrincipal, c)
      | Some p \<Rightarrow>
          (case (t_Input t, t_Output t) of
             (Some i, Some out) \<Rightarrow>
               (case PlanFor c i of
                  None \<Rightarrow> (Inl (SchemaNoInput (t_FQN t)), c)
                | Some inPlan \<Rightarrow>
                    (case PlanFor c out of
                       None \<Rightarrow> (Inl (SchemaNoOutput (t_FQN t)), c)
                     | Some outPlan \<Rightarrow>
                         (case cache_get (c_schemas c) (i, Shape p, False)
                                 (\<lambda>u. ProjectInput E inPlan (Shape p) (t_FieldDocs t)) of
                            (sin, m1) \<Rightarrow>
                              (case cache_get m1 (out, Shape p, True)
                                      (\<lambda>u. ProjectOutput E outPlan (Shape p) (t_FieldDocs t)) of
                                 (sout, m2) \<Rightarrow> (Inr (sin, sout), c\<lparr>c_schemas := m2\<rparr>)))))
           | _ \<Rightarrow> (Inl (SchemaNoDescriptor (t_FQN t)), c)))"

end
