(* ===== verification/Violations.thy ===== *)
theory Violations
  imports Schema
begin

text \<open>
  \<open>internal/toolplane/violations.go\<close>: which of the constraints a request broke its caller may be
  told about. The CEL parser and protovalidate's lookup of the declared rules are library code: they
  are the fields of \<open>rule_pkg\<close>.
\<close>

section \<open>Reading the projection back\<close>

type_synonym jmap = "(string \<times> json) list"

fun asMap :: "json option \<Rightarrow> jmap option" where
  "asMap (Some (JObj m)) = Some m"
| "asMap _ = None"

text \<open>A lookup in a map that may be nil.\<close>

definition at_key :: "jmap option \<Rightarrow> string \<Rightarrow> json option" where
  "at_key m k = (case m of None \<Rightarrow> None | Some xs \<Rightarrow> map_of xs k)"

function look_through :: "jmap \<Rightarrow> jmap" where
  "look_through s =
     (case (if map_of s ''items'' \<noteq> None then map_of s ''items''
            else map_of s ''additionalProperties'') of
        None \<Rightarrow> s
      | Some (JObj s') \<Rightarrow> look_through s'
      | Some _ \<Rightarrow> [])"
  by pat_completeness auto

lemma map_of_size: "map_of s k = Some v \<Longrightarrow> size v < size_list (size_prod (\<lambda>x. 0) size) s"
  by (induction s) (auto split: if_splits)

termination look_through
proof (relation "measure (size_list (size_prod (\<lambda>x. 0) size))", goal_cases)
  case (2 s x s')
  then obtain k where "map_of s k = Some (JObj s')" by (auto split: if_splits)
  then have "size (JObj s') < size_list (size_prod (\<lambda>x. 0) size) s" by (rule map_of_size)
  then show ?case by simp
qed simp

declare look_through.simps [simp del]

fun admitted_from :: "jmap option \<Rightarrow> string list \<Rightarrow> bool" where
  "admitted_from cur [] = True"
| "admitted_from cur (n # ns) =
     (case asMap (at_key (asMap (at_key cur ''properties'')) n) of
        None \<Rightarrow> False
      | Some nxt \<Rightarrow> admitted_from (Some (look_through nxt)) ns)"

definition admittedPath :: "json \<Rightarrow> string list \<Rightarrow> bool" where
  "admittedPath s path = admitted_from (asMap (Some s)) path"

definition allAdmitted :: "json \<Rightarrow> string list \<Rightarrow> string list list \<Rightarrow> bool" where
  "allAdmitted s pre refs = list_all (\<lambda>r. admittedPath s (pre @ r)) refs"

definition namesOf :: "path_elem list \<Rightarrow> string list" where
  "namesOf path = map pe_FieldName path"

text \<open>How a path is spelled for the caller; a string map key is request content and is not shown.\<close>

definition dec_int :: "int \<Rightarrow> string" where
  "dec_int i = (if i < 0 then CHR ''-'' # dec (nat (- i)) else dec (nat i))"

fun subscript_text :: "subscript \<Rightarrow> string" where
  "subscript_text NoSub = []"
| "subscript_text (IndexSub n) = ''['' @ dec n @ '']''"
| "subscript_text (BoolKey b) = ''['' @ (if b then ''true'' else ''false'') @ '']''"
| "subscript_text (IntKey i) = ''['' @ dec_int i @ '']''"
| "subscript_text (UintKey n) = ''['' @ dec n @ '']''"
| "subscript_text (StringKey k) = ''[*]''"

fun path_tail :: "path_elem list \<Rightarrow> string" where
  "path_tail [] = []"
| "path_tail (e # es) = CHR ''.'' # pe_FieldName e @ subscript_text (pe_Sub e) @ path_tail es"

definition pathString :: "path_elem list \<Rightarrow> string" where
  "pathString path =
     (case path of
        [] \<Rightarrow> []
      | e # es \<Rightarrow> pe_FieldName e @ subscript_text (pe_Sub e) @ path_tail es)"

definition echoesValue :: "raw_violation \<Rightarrow> string \<Rightarrow> bool" where
  "echoesValue v msg =
     (if msg = [] then False
      else (case rv_FieldValue v of
         Some (VStr s) \<Rightarrow> s \<noteq> [] \<and> str_contains msg s
       | Some (VBytes s) \<Rightarrow> s \<noteq> [] \<and> str_contains msg s
       | _ \<Rightarrow> False))"

section \<open>CEL rules\<close>

datatype cel_expr =
  CIdent string | CSelect cel_expr string | CComprehension "cel_expr list" | COther "cel_expr list"

record cel_rule =
  ru_Id :: string
  ru_Expression :: string
  ru_Message :: string

record rule_pkg =
  rp_Parse :: "string \<Rightarrow> cel_expr option"
  rp_MessageRules :: "md \<Rightarrow> cel_rule list option"
  rp_FieldRules :: "fdesc \<Rightarrow> cel_rule list option"

fun select_chain :: "cel_expr \<Rightarrow> string list \<Rightarrow> string list \<times> string option" where
  "select_chain (CSelect e f) acc = select_chain e (f # acc)"
| "select_chain (CIdent i) acc = (acc, Some i)"
| "select_chain e acc = ([], None)"

text \<open>\<open>PreOrderVisit\<close>: every node, parents first.\<close>

fun pre_order :: "cel_expr \<Rightarrow> cel_expr list" where
  "pre_order (CIdent i) = [CIdent i]"
| "pre_order (CSelect e f) = CSelect e f # pre_order e"
| "pre_order (CComprehension es) = CComprehension es # concat (map pre_order es)"
| "pre_order (COther es) = COther es # concat (map pre_order es)"

definition bound_names :: "string list" where
  "bound_names = [''this'', ''rules'', ''rule'', ''now'']"

fun visit_cel :: "cel_expr \<Rightarrow> string list list \<times> bool \<Rightarrow> string list list \<times> bool" where
  "visit_cel (CComprehension es) (refs, ok) = (refs, False)"
| "visit_cel (CIdent i) (refs, ok) = (refs, ok \<and> i \<in> set bound_names)"
| "visit_cel (CSelect e f) (refs, ok) =
     (case select_chain (CSelect e f) [] of
        (chain, root) \<Rightarrow>
          if root = Some ''this'' then (refs @ [chain], ok)
          else if root \<in> {Some ''rules'', Some ''rule'', Some ''now''} then (refs, ok)
          else (refs, False))"
| "visit_cel (COther es) (refs, ok) = (refs, ok)"

definition celFieldRefs :: "rule_pkg \<Rightarrow> string \<Rightarrow> string list list \<times> bool" where
  "celFieldRefs K expression =
     (case rp_Parse K expression of
        None \<Rightarrow> ([], False)
      | Some e \<Rightarrow> fold visit_cel (pre_order e) ([], True))"

fun descriptorAt :: "pool \<Rightarrow> md \<Rightarrow> path_elem list \<Rightarrow> md option" where
  "descriptorAt P i [] = Some i"
| "descriptorAt P i (e # es) =
     (case by_name P i (pe_FieldName e) of
        None \<Rightarrow> None
      | Some fd \<Rightarrow>
          (case vt_Message (elem_type fd) of
             None \<Rightarrow> None
           | Some j \<Rightarrow> descriptorAt P j es))"

definition fieldAt :: "pool \<Rightarrow> md \<Rightarrow> path_elem list \<Rightarrow> fdesc option" where
  "fieldAt P i path =
     (if path = [] then None
      else (case descriptorAt P i (butlast path) of
         None \<Rightarrow> None
       | Some j \<Rightarrow> by_name P j (pe_FieldName (last path))))"

text \<open>
  \<open>celRuleFor\<close>: \<open>None\<close> is a standard rule; \<open>Some None\<close> a CEL rule whose declaration cannot be found.
\<close>

definition celRuleFor ::
  "rule_pkg \<Rightarrow> pool \<Rightarrow> md option \<Rightarrow> raw_violation \<Rightarrow> cel_rule option option" where
  "celRuleFor K P root v =
     (if rv_Rule v = [] then
        (case (case root of None \<Rightarrow> None | Some r \<Rightarrow> descriptorAt P r (rv_Field v)) of
           None \<Rightarrow> Some None
         | Some d \<Rightarrow>
             (case rp_MessageRules K d of
                None \<Rightarrow> Some None
              | Some rs \<Rightarrow>
                  (case filter (\<lambda>r. ru_Id r = rv_RuleId v) rs of
                     [r] \<Rightarrow> Some (Some r)
                   | _ \<Rightarrow> Some None)))
      else
        (let l = last (rv_Rule v)
         in case pe_Sub l of
              IndexSub idx \<Rightarrow>
                if pe_FieldName l \<noteq> ''cel'' \<or> pe_FieldNumber l \<noteq> 23 then None
                else (case (case root of None \<Rightarrow> None | Some r \<Rightarrow> fieldAt P r (rv_Field v)) of
                   None \<Rightarrow> Some None
                 | Some fd \<Rightarrow>
                     (case rp_FieldRules K fd of
                        None \<Rightarrow> Some None
                      | Some rs \<Rightarrow>
                          if idx \<ge> length rs \<or> ru_Id (rs ! idx) \<noteq> rv_RuleId v then Some None
                          else Some (Some (rs ! idx))))
            | _ \<Rightarrow> None))"

section \<open>The violations a caller may see\<close>

definition admit_one :: "rule_pkg \<Rightarrow> pool \<Rightarrow> md option \<Rightarrow> json \<Rightarrow> raw_violation \<Rightarrow> violation option" where
  "admit_one K P root sin v =
     (if \<not> admittedPath sin (namesOf (rv_Field v)) then None
      else
        (case celRuleFor K P root v of
           Some None \<Rightarrow> None
         | Some (Some rule) \<Rightarrow>
             (case celFieldRefs K (ru_Expression rule) of
                (refs, ok) \<Rightarrow>
                  if \<not> ok \<or> \<not> allAdmitted sin (namesOf (rv_Field v)) refs then None
                  else Some \<lparr>vl_Field = pathString (rv_Field v), vl_Rule = rv_RuleId v,
                             vl_Message =
                               (if ru_Message rule \<noteq> [] \<and> ru_Message rule = rv_Message v
                                then ru_Message rule else [])\<rparr>)
         | None \<Rightarrow>
             Some \<lparr>vl_Field = pathString (rv_Field v), vl_Rule = rv_RuleId v,
                   vl_Message = (if echoesValue v (rv_Message v) then [] else rv_Message v)\<rparr>))"

definition admittedViolations ::
  "env \<Rightarrow> rule_pkg \<Rightarrow> core \<Rightarrow> tooldef \<Rightarrow> principal \<Rightarrow> raw_violation option list \<Rightarrow> violation list \<times> core" where
  "admittedViolations E K c t p raws =
     (case SchemaFor E c t (Some p) of
        (Inl e, c') \<Rightarrow> ([], c')
      | (Inr (sin, sout), c') \<Rightarrow>
          (List.map_filter
             (\<lambda>r. case r of None \<Rightarrow> None | Some v \<Rightarrow> admit_one K (en_Pool E) (t_Input t) sin v) raws, c'))"

section \<open>What an admitted path is\<close>

text \<open>Every prefix of the path, spelled as the plan spells it, is outside the denied fields.\<close>

fun clean_path :: "string list \<Rightarrow> string list \<Rightarrow> string \<Rightarrow> string list \<Rightarrow> bool" where
  "clean_path den sub path [] = True"
| "clean_path den sub path (n # ns) =
     (name_path path n \<notin> set den \<and> \<not> underDeniedSubtree (name_path path n) sub \<and>
      clean_path den sub (name_path path n) ns)"

lemma schema_props_shown:
  "map_of (fst (schema_props P den sub docs fds path seen)) n = Some j \<Longrightarrow>
     name_path path n \<notin> set den \<and> \<not> underDeniedSubtree (name_path path n) sub \<and>
     (\<exists>fd. j = fieldSchema fd docs
        (case recurse_into P (elem_type fd) of
           Some i \<Rightarrow> schema_for P den sub docs i (name_path path n) seen
         | None \<Rightarrow> leaf_schema P (elem_type fd)))"
proof (induction fds)
  case (Cons fd fds)
  then show ?case
    by (auto simp: Let_def split: if_splits prod.splits)
qed simp

lemma schema_for_keys:
  "map_of (schema_for P den sub docs i path seen) ''items'' = None"
  "map_of (schema_for P den sub docs i path seen) ''additionalProperties'' = None"
  by (auto simp: jstr_def split: prod.splits)

lemma schema_for_props:
  assumes "map_of (schema_for P den sub docs i path seen) ''properties'' = Some j"
  shows "j = JObj [] \<or>
     j = JObj (fst (schema_props P den sub docs (fields_of P i) path (full_name P i # seen)))"
  using assms by (auto simp: jstr_def split: prod.splits if_splits)

declare schema_for.simps [simp del]

lemma leaf_schema_keys:
  "map_of (leaf_schema P vt) ''items'' = None"
  "map_of (leaf_schema P vt) ''additionalProperties'' = None"
  "map_of (leaf_schema P vt) ''properties'' = None"
  by (simp_all add: leaf_schema_def scalarSchema_def jstr_def split: kind.split)

lemma look_through_stop:
  "map_of s ''items'' = None \<Longrightarrow> map_of s ''additionalProperties'' = None \<Longrightarrow> look_through s = s"
  by (subst look_through.simps) simp

lemma look_through_field:
  assumes "map_of inner ''items'' = None" "map_of inner ''additionalProperties'' = None"
    and "fieldSchema fd docs inner = JObj m"
  shows "map_of (look_through m) ''properties'' = map_of inner ''properties''"
proof -
  have inner: "look_through inner = inner" using assms(1,2) by (rule look_through_stop)
  obtain extra where m: "m = (case fd_Shape fd of
                 FMap v \<Rightarrow> [jstr ''type'' ''object'', (''additionalProperties'', JObj inner)]
               | FList \<Rightarrow> [jstr ''type'' ''array'', (''items'', JObj inner)]
               | FSingle \<Rightarrow> inner) @ extra" "extra = [] \<or> (\<exists>d. extra = [jstr ''description'' d])"
    using assms(3) by (auto simp: fieldSchema_def Let_def split: option.splits if_splits)
  show ?thesis
  proof (cases "fd_Shape fd")
    case FSingle
    then have "look_through m = m"
      using m assms(1,2) by (intro look_through_stop) (auto simp: jstr_def map_add_def)
    then show ?thesis using m FSingle by (auto simp: jstr_def map_add_def split: option.splits)
  next
    case FList
    have "look_through m = look_through inner"
      using m FList by (subst look_through.simps) (auto simp: jstr_def)
    then show ?thesis using inner by simp
  next
    case (FMap v)
    have "look_through m = look_through inner"
      using m FMap by (subst look_through.simps) (auto simp: jstr_def)
    then show ?thesis using inner by simp
  qed
qed

lemma admitted_clean:
  "admitted_from (Some m) ns \<Longrightarrow>
     map_of m ''properties'' = map_of (schema_for P den sub docs i path seen) ''properties'' \<or>
     map_of m ''properties'' = None \<Longrightarrow>
     clean_path den sub path ns"
proof (induction ns arbitrary: m i path seen)
  case (Cons n ns)
  obtain nxt where nxt: "asMap (at_key (asMap (at_key (Some m) ''properties'')) n) = Some nxt"
    "admitted_from (Some (look_through nxt)) ns"
    using Cons(2) by (auto split: option.splits)
  then obtain pj where pj: "map_of m ''properties'' = Some (JObj pj)" "map_of pj n = Some (JObj nxt)"
    by (auto simp: at_key_def elim!: asMap.elims split: option.splits)
  then have "map_of (schema_for P den sub docs i path seen) ''properties'' = Some (JObj pj)"
    using Cons(3) by simp
  then have "pj = fst (schema_props P den sub docs (fields_of P i) path (full_name P i # seen))"
    using schema_for_props pj(2) by force
  then obtain fd where fd: "name_path path n \<notin> set den" "\<not> underDeniedSubtree (name_path path n) sub"
    "JObj nxt = fieldSchema fd docs
        (case recurse_into P (elem_type fd) of
           Some k \<Rightarrow> schema_for P den sub docs k (name_path path n) (full_name P i # seen)
         | None \<Rightarrow> leaf_schema P (elem_type fd))"
    using schema_props_shown pj(2) by blast
  have "clean_path den sub (name_path path n) ns"
  proof (cases "recurse_into P (elem_type fd)")
    case (Some k)
    have "map_of (look_through nxt) ''properties'' =
        map_of (schema_for P den sub docs k (name_path path n) (full_name P i # seen)) ''properties''"
      using fd(3) Some schema_for_keys by (intro look_through_field[where fd = fd and docs = docs]) simp_all
    then show ?thesis using Cons(1)[OF nxt(2)] by blast
  next
    case None
    have "map_of (look_through nxt) ''properties'' = map_of (leaf_schema P (elem_type fd)) ''properties''"
      using fd(3) None leaf_schema_keys by (intro look_through_field[where fd = fd and docs = docs]) simp_all
    then show ?thesis using Cons(1)[OF nxt(2)] leaf_schema_keys(3) by metis
  qed
  then show ?case using fd(1,2) by simp
qed simp

lemma admittedPath_clean:
  assumes "admittedPath (project_schema E pl s docs need) ns"
  shows "clean_path (map a_Name (filter (\<lambda>a. \<not> may E s need a) (pl_Actions pl)))
     (map a_Name (filter a_IsSubtree (filter (\<lambda>a. \<not> may E s need a) (pl_Actions pl)))) [] ns"
  using assms unfolding admittedPath_def project_schema_def Let_def asMap.simps
  by (rule admitted_clean[OF _ disjI1[OF refl]])

lemma clean_prefix:
  "clean_path den sub path ns \<Longrightarrow> 0 < k \<Longrightarrow> k \<le> length ns \<Longrightarrow>
     foldl name_path path (take k ns) \<notin> set den"
proof (induction ns arbitrary: path k)
  case (Cons n ns)
  then show ?case by (cases k; cases "k = 1") auto
qed simp

section \<open>The cache holds projections\<close>

definition schema_entry_ok :: "env \<Rightarrow> core \<Rightarrow> schema_key \<times> json \<Rightarrow> bool" where
  "schema_entry_ok E c x =
     (case x of ((d, s, out), j) \<Rightarrow>
        \<exists>pl docs. c_plans c d = Some pl \<and>
          j = project_schema E pl s docs (if out then a_Read else a_Write))"

definition schemas_ok :: "env \<Rightarrow> core \<Rightarrow> bool" where
  "schemas_ok E c \<longleftrightarrow> (\<forall>x \<in> set (c_schemas c). schema_entry_ok E c x)"

lemma schemas_ok_empty: "c_schemas c = [] \<Longrightarrow> schemas_ok E c"
  by (simp add: schemas_ok_def)

lemma SchemaFor_cases:
  assumes "SchemaFor E c t po = (Inr (sin, sout), c')"
  obtains p i out pi po' m1 m2 where "po = Some p" "t_Input t = Some i" "t_Output t = Some out"
    "c_plans c i = Some pi" "c_plans c out = Some po'"
    "cache_get (c_schemas c) (i, Shape p, False) (\<lambda>u. ProjectInput E pi (Shape p) (t_FieldDocs t)) = (sin, m1)"
    "cache_get m1 (out, Shape p, True) (\<lambda>u. ProjectOutput E po' (Shape p) (t_FieldDocs t)) = (sout, m2)"
    "c' = c\<lparr>c_schemas := m2\<rparr>"
  using assms unfolding SchemaFor_def PlanFor_def
  by (auto split: option.splits prod.splits)

lemma SchemaFor_err: "SchemaFor E c t po = (Inl e, c') \<Longrightarrow> c' = c"
  unfolding SchemaFor_def by (auto split: option.splits prod.splits)

lemma cache_get_entry:
  "cache_get m k build = (s, m') \<Longrightarrow>
     ((k, s) \<in> set m \<and> m' = m) \<or> (s = build () \<and> m' = (k, s) # m)"
  by (auto simp: cache_get_def dest: map_of_SomeD split: option.splits)

lemma SchemaFor_ok:
  assumes ok: "schemas_ok E c" and r: "SchemaFor E c t po = (r, c')"
  shows "schemas_ok E c'"
proof (cases r)
  case (Inl e)
  then show ?thesis using SchemaFor_err[of E c t po e c'] r ok by simp
next
  case (Inr ss)
  then obtain sin sout where "SchemaFor E c t po = (Inr (sin, sout), c')" using r by (cases ss) auto
  then show ?thesis
  proof (cases rule: SchemaFor_cases)
    case (1 p i out pi po' m1 m2)
    have sub: "set m2 \<subseteq> set (c_schemas c) \<union>
        {((i, Shape p, False), ProjectInput E pi (Shape p) (t_FieldDocs t)),
         ((out, Shape p, True), ProjectOutput E po' (Shape p) (t_FieldDocs t))}"
      using cache_get_entry[OF 1(6)] cache_get_entry[OF 1(7)] by auto
    have plans: "schema_entry_ok E c' x = schema_entry_ok E c x" for x
      using 1(8) by (simp add: schema_entry_ok_def)
    have "schema_entry_ok E c ((i, Shape p, False), ProjectInput E pi (Shape p) (t_FieldDocs t))"
      using 1(4) by (auto simp: schema_entry_ok_def ProjectInput_def)
    moreover have "schema_entry_ok E c ((out, Shape p, True), ProjectOutput E po' (Shape p) (t_FieldDocs t))"
      using 1(5) by (auto simp: schema_entry_ok_def ProjectOutput_def)
    ultimately have "\<forall>x \<in> set m2. schema_entry_ok E c x"
      using sub ok unfolding schemas_ok_def by blast
    then show ?thesis using 1(8) plans by (simp add: schemas_ok_def)
  qed
qed

lemma SchemaFor_input:
  assumes ok: "schemas_ok E c" and r: "SchemaFor E c t (Some p) = (Inr (sin, sout), c')"
  shows "\<exists>i pl docs. t_Input t = Some i \<and> c_plans c i = Some pl \<and>
     sin = project_schema E pl (Shape p) docs a_Write"
  using r
proof (cases rule: SchemaFor_cases)
  case (1 q i out pi po' m1 m2)
  have "((i, Shape q, False), sin) \<in> set (c_schemas c) \<or>
      sin = ProjectInput E pi (Shape q) (t_FieldDocs t)"
    using cache_get_entry[OF 1(6)] by auto
  then show ?thesis
  proof
    assume "((i, Shape q, False), sin) \<in> set (c_schemas c)"
    then have "\<exists>pl docs. c_plans c i = Some pl \<and> sin = project_schema E pl (Shape q) docs a_Write"
      using ok by (fastforce simp: schemas_ok_def schema_entry_ok_def)
    then show ?thesis using 1(1,2) by simp
  next
    assume "sin = ProjectInput E pi (Shape q) (t_FieldDocs t)"
    then show ?thesis using 1(1,2,4) by (auto simp: ProjectInput_def)
  qed
qed

lemma admit_one_Some:
  "admit_one K P root sin v = Some x \<Longrightarrow>
     admittedPath sin (namesOf (rv_Field v)) \<and> vl_Field x = pathString (rv_Field v) \<and>
     vl_Rule x = rv_RuleId v \<and>
     (vl_Message x \<noteq> [] \<longrightarrow>
        vl_Message x = rv_Message v \<and>
        (celRuleFor K P root v = None \<longrightarrow> \<not> echoesValue v (rv_Message v)) \<and>
        (\<forall>rule. celRuleFor K P root v = Some rule \<longrightarrow>
           (\<exists>r. rule = Some r \<and> ru_Message r = rv_Message v)))"
  by (auto simp: admit_one_def split: if_splits option.splits prod.splits)

text \<open>
  What the projection shows: a path each of whose prefixes the caller may write, as the compiled plan
  of the message has it; and an expression the scan accounts for, whose every field is such a path.
\<close>

definition writable_path :: "env \<Rightarrow> plan \<Rightarrow> principal \<Rightarrow> string list \<Rightarrow> bool" where
  "writable_path E pl p names \<longleftrightarrow>
     (\<forall>k a. 0 < k \<and> k \<le> length names \<and> a \<in> set (pl_Actions pl) \<and>
        a_Name a = foldl name_path [] (take k names) \<longrightarrow>
        pk_Allows (en_Policy E) (p_Clearance p) (a_Write a) \<and>
        pk_Covers (en_Policy E) (p_Compartments p) (a_Need a))"

fun node_shown :: "(string list \<Rightarrow> bool) \<Rightarrow> cel_expr \<Rightarrow> bool" where
  "node_shown ok (CComprehension es) = False"
| "node_shown ok (COther es) = True"
| "node_shown ok (CIdent i) = (i \<in> set bound_names)"
| "node_shown ok (CSelect e f) =
     (\<exists>chain root. select_chain (CSelect e f) [] = (chain, Some root) \<and> root \<in> set bound_names \<and>
        (root = ''this'' \<longrightarrow> ok chain))"

lemma visit_all:
  "fold visit_cel ns (refs0, ok0) = (refs, True) \<Longrightarrow>
     ok0 \<and> set refs0 \<subseteq> set refs \<and> (\<forall>n \<in> set ns. node_shown (\<lambda>r. r \<in> set refs) n)"
proof (induction ns arbitrary: refs0 ok0)
  case (Cons n ns)
  show ?case
  proof (cases n)
    case (CIdent i)
    then show ?thesis using Cons(1)[of refs0 "ok0 \<and> i \<in> set bound_names"] Cons(2) by auto
  next
    case (CSelect e f)
    obtain chain root where c: "select_chain n [] = (chain, root)" by fastforce
    show ?thesis
    proof (cases "root = Some ''this''")
      case True
      then show ?thesis using Cons(1)[of "refs0 @ [chain]" ok0] Cons(2) c
        unfolding CSelect by (auto simp: bound_names_def)
    next
      case False
      then have "root \<in> {Some ''rules'', Some ''rule'', Some ''now''}"
        using Cons(1)[of refs0 False] Cons(2) c unfolding CSelect by (auto split: if_splits)
      then show ?thesis using Cons(1)[of refs0 ok0] Cons(2) c
        unfolding CSelect by (auto simp: bound_names_def)
    qed
  next
    case (CComprehension es)
    then show ?thesis using Cons(1)[of refs0 False] Cons(2) by simp
  next
    case (COther es)
    then show ?thesis using Cons(1)[of refs0 ok0] Cons(2) by simp
  qed
qed simp

lemma node_shown_mono:
  "node_shown P n \<Longrightarrow> (\<And>c. P c \<Longrightarrow> Q c) \<Longrightarrow> node_shown Q n"
  by (induction P n rule: node_shown.induct) auto

lemma celFieldRefs_sound:
  assumes "celFieldRefs K ex = (refs, True)" "\<forall>r \<in> set refs. ok r"
  shows "\<exists>e. rp_Parse K ex = Some e \<and> (\<forall>n \<in> set (pre_order e). node_shown ok n)"
proof -
  obtain e where e: "rp_Parse K ex = Some e" "fold visit_cel (pre_order e) ([], True) = (refs, True)"
    using assms(1) by (auto simp: celFieldRefs_def split: option.splits)
  show ?thesis using visit_all[OF e(2)] e(1) assms(2) node_shown_mono by blast
qed

text \<open>What a listed violation is, and what its CEL rule names.\<close>

lemma admit_one_cel:
  assumes "admit_one K P root sin v = Some x" "celRuleFor K P root v = Some rule"
  shows "\<exists>r e. rule = Some r \<and> rp_Parse K (ru_Expression r) = Some e \<and>
     (\<forall>n \<in> set (pre_order e). node_shown (\<lambda>c. admittedPath sin (namesOf (rv_Field v) @ c)) n)"
proof -
  obtain r refs where "rule = Some r" "celFieldRefs K (ru_Expression r) = (refs, True)"
    "allAdmitted sin (namesOf (rv_Field v)) refs"
    using assms by (auto simp: admit_one_def split: if_splits option.splits prod.splits)
  then show ?thesis using celFieldRefs_sound by (fastforce simp: allAdmitted_def list_all_iff)
qed

lemma admittedPath_writable:
  assumes "admittedPath (project_schema E pl (Shape p) docs a_Write) ns"
  shows "writable_path E pl p ns"
proof -
  note clean = admittedPath_clean[OF assms]
  have "may E (Shape p) a_Write b"
    if "0 < k" "k \<le> length ns" "b \<in> set (pl_Actions pl)" "a_Name b = foldl name_path [] (take k ns)" for k b
  proof (rule ccontr)
    assume "\<not> may E (Shape p) a_Write b"
    then have "a_Name b \<in> set (map a_Name (filter (\<lambda>a. \<not> may E (Shape p) a_Write a) (pl_Actions pl)))"
      using that(3) by simp
    then show False using clean_prefix[OF clean that(1,2)] that(4)[symmetric] by simp
  qed
  then show ?thesis unfolding writable_path_def may_def Shape_def fst_conv snd_conv by blast
qed

text \<open>
  C26: A refused request tells its caller nothing its own schema did not. Every violation that is
  listed comes from one the validator reported, and each field along its path is one the caller may
  write: no action of the compiled plan for that field denies it. If it broke a CEL rule, the rule's
  declaration was found, its expression parses, holds no comprehension, names only identifiers that
  are bound and selects only from them, and every field it selects from the message is one the caller
  may write too.
  A sentence is listed only when it is the one reported: for a standard rule it does not contain the
  refused text, and for a CEL rule it is the sentence the rule declares.
\<close>

theorem violations_within_projection:
  assumes "schemas_ok E c" "admittedViolations E K c t p raws = (vs, c')" "x \<in> set vs"
  shows "\<exists>v i pl. Some v \<in> set raws \<and> t_Input t = Some i \<and> PlanFor c i = Some pl \<and>
     vl_Field x = pathString (rv_Field v) \<and> vl_Rule x = rv_RuleId v \<and>
     writable_path E pl p (namesOf (rv_Field v)) \<and>
     (\<forall>rule. celRuleFor K (en_Pool E) (t_Input t) v = Some rule \<longrightarrow>
        (\<exists>r e. rule = Some r \<and> rp_Parse K (ru_Expression r) = Some e \<and>
           (\<forall>n \<in> set (pre_order e).
              node_shown (\<lambda>chain. writable_path E pl p (namesOf (rv_Field v) @ chain)) n))) \<and>
     (vl_Message x \<noteq> [] \<longrightarrow>
        vl_Message x = rv_Message v \<and>
        (celRuleFor K (en_Pool E) (t_Input t) v = None \<longrightarrow> \<not> echoesValue v (rv_Message v)) \<and>
        (\<forall>rule. celRuleFor K (en_Pool E) (t_Input t) v = Some rule \<longrightarrow>
           (\<exists>r. rule = Some r \<and> ru_Message r = rv_Message v)))"
proof -
  obtain sin sout where s: "SchemaFor E c t (Some p) = (Inr (sin, sout), c')"
    using assms(2,3) by (auto simp: admittedViolations_def split: sum.splits prod.splits)
  then obtain v where v: "Some v \<in> set raws" "admit_one K (en_Pool E) (t_Input t) sin v = Some x"
    using assms(2,3)
    by (auto simp: admittedViolations_def map_filter_def split: option.splits)
  obtain i pl docs where i: "t_Input t = Some i" "c_plans c i = Some pl"
    "sin = project_schema E pl (Shape p) docs a_Write"
    using SchemaFor_input[OF assms(1) s] by blast
  note a = admit_one_Some[OF v(2)]
  have path: "writable_path E pl p (namesOf (rv_Field v))"
    using a i(3) admittedPath_writable by blast
  have cel: "\<forall>rule. celRuleFor K (en_Pool E) (t_Input t) v = Some rule \<longrightarrow>
      (\<exists>r e. rule = Some r \<and> rp_Parse K (ru_Expression r) = Some e \<and>
        (\<forall>n \<in> set (pre_order e). node_shown (\<lambda>chain. writable_path E pl p (namesOf (rv_Field v) @ chain)) n))"
  proof (intro allI impI)
    fix rule assume "celRuleFor K (en_Pool E) (t_Input t) v = Some rule"
    from admit_one_cel[OF v(2) this] obtain r e where r: "rule = Some r"
      "rp_Parse K (ru_Expression r) = Some e"
      "\<forall>n \<in> set (pre_order e). node_shown (\<lambda>c. admittedPath sin (namesOf (rv_Field v) @ c)) n"
      by blast
    have "node_shown (\<lambda>chain. writable_path E pl p (namesOf (rv_Field v) @ chain)) n" if "n \<in> set (pre_order e)" for n
      using r(3) that i(3) by (auto elim!: node_shown_mono intro: admittedPath_writable)
    then show "\<exists>r e. rule = Some r \<and> rp_Parse K (ru_Expression r) = Some e \<and>
        (\<forall>n \<in> set (pre_order e). node_shown (\<lambda>chain. writable_path E pl p (namesOf (rv_Field v) @ chain)) n)"
      using r(1,2) by blast
  qed
  have plan: "PlanFor c i = Some pl" using i(2) by (simp add: PlanFor_def)
  show ?thesis
    by (rule exI[of _ v], rule exI[of _ i], rule exI[of _ pl])
      (intro conjI v(1) i(1) plan path cel a[THEN conjunct2, THEN conjunct1]
        a[THEN conjunct2, THEN conjunct2, THEN conjunct1]
        a[THEN conjunct2, THEN conjunct2, THEN conjunct2])
qed

text \<open>
  A field the caller may not write, one it may, and two CEL rules of the message, on one each.
\<close>

definition sample_rules :: rule_pkg where
  "sample_rules =
     \<lparr>rp_Parse = \<lambda>s. Some (CSelect (CIdent ''this'') s),
      rp_MessageRules = \<lambda>d. Some
        [\<lparr>ru_Id = ''by.name'', ru_Expression = ''name'', ru_Message = ''name it''\<rparr>,
         \<lparr>ru_Id = ''by.secret'', ru_Expression = ''secret'', ru_Message = ''keep it''\<rparr>],
      rp_FieldRules = \<lambda>f. None\<rparr>"

definition sample_raw :: "string \<Rightarrow> raw_violation" where
  "sample_raw n = \<lparr>rv_Field = [\<lparr>pe_FieldName = n, pe_FieldNumber = 1, pe_Sub = NoSub\<rparr>],
     rv_Rule = [\<lparr>pe_FieldName = ''max_len'', pe_FieldNumber = 3, pe_Sub = NoSub\<rparr>],
     rv_RuleId = ''string.max_len'', rv_Message = ''too long'', rv_FieldValue = Some (VStr ''abc'')\<rparr>"

definition sample_cel :: "string \<Rightarrow> string \<Rightarrow> raw_violation" where
  "sample_cel rule msg = \<lparr>rv_Field = [], rv_Rule = [], rv_RuleId = rule, rv_Message = msg, rv_FieldValue = None\<rparr>"

definition sample_raws :: "raw_violation option list" where
  "sample_raws = [Some (sample_raw ''secret''), Some (sample_raw ''name''),
     Some (sample_cel ''by.secret'' ''keep it''), Some (sample_cel ''by.name'' ''name it'')]"

lemma sample_listed:
  "fst (admittedViolations sample_env sample_rules sample_mounted sample_tool sample_principal sample_raws)
   = [\<lparr>vl_Field = ''name'', vl_Rule = ''string.max_len'', vl_Message = ''too long''\<rparr>,
      \<lparr>vl_Field = [], vl_Rule = ''by.name'', vl_Message = ''name it''\<rparr>]"
  by code_simp

lemma violations_within_projection_witness:
  "\<exists>x v. x \<in> set (fst (admittedViolations sample_env sample_rules sample_mounted sample_tool
        sample_principal sample_raws)) \<and>
     Some v \<in> set sample_raws \<and> vl_Rule x = ''by.name'' \<and> vl_Rule x = rv_RuleId v \<and>
     vl_Field x = pathString (rv_Field v)"
proof -
  obtain vs c' where r: "admittedViolations sample_env sample_rules sample_mounted sample_tool
      sample_principal sample_raws = (vs, c')" by (rule prod.exhaust)
  have vs: "\<lparr>vl_Field = [], vl_Rule = ''by.name'', vl_Message = ''name it''\<rparr> \<in> set vs" (is "?x \<in> _")
    using sample_listed r by simp
  have "schemas_ok sample_env sample_mounted"
    by (rule schemas_ok_empty) (simp add: sample_mounted_def sample_core_def)
  from violations_within_projection[OF this r vs]
  obtain v where "Some v \<in> set sample_raws" "vl_Rule ?x = rv_RuleId v" "vl_Field ?x = pathString (rv_Field v)"
    by blast
  then show ?thesis using r vs by (intro exI[of _ ?x] exI[of _ v]) simp
qed

end
