(* ===== verification/Chain.thy ===== *)
theory Chain
  imports Violations
begin

text \<open>
  \<open>internal/toolplane/core.go\<close>: the invocation chain, steps 2 to 10, with \<open>validate.go\<close>, the context
  values of \<open>binding.go\<close>, \<open>eventid.go\<close> and \<open>redactions.go\<close>, and \<open>Unauthenticated\<close>.

  The body of \<open>invoke\<close> runs on a state holding what its locals hold: the event, the tool that was
  looked up, the core (for its memo tables) and the effects so far, newest first. A step returns
  (\<open>Ok\<close>), refuses (\<open>Fail\<close>) or panics (\<open>Boom\<close>). The deferred function is \<open>finish\<close>.
\<close>

section \<open>Steps\<close>

record cst =
  s_ev :: event
  s_tool :: tooldef
  s_core :: core
  s_hist :: hist
  s_red :: "(string list \<times> string) option"

datatype 'a step = Ok 'a | Fail go_err | Boom panic

type_synonym 'a st = "cst \<Rightarrow> 'a step \<times> cst"

definition sret :: "'a \<Rightarrow> 'a st" where
  "sret a = (\<lambda>s. (Ok a, s))"

definition sbind :: "'a st \<Rightarrow> ('a \<Rightarrow> 'b st) \<Rightarrow> 'b st" where
  "sbind m f = (\<lambda>s. case m s of
       (Ok a, s') \<Rightarrow> f a s'
     | (Fail e, s') \<Rightarrow> (Fail e, s')
     | (Boom p, s') \<Rightarrow> (Boom p, s'))"

definition then_do :: "unit st \<Rightarrow> 'b st \<Rightarrow> 'b st" where
  "then_do m k = sbind m (\<lambda>u. k)"

definition srefuse :: "(event \<Rightarrow> event) \<Rightarrow> go_err \<Rightarrow> 'a st" where
  "srefuse f e = (\<lambda>s. (Fail e, s\<lparr>s_ev := f (s_ev s)\<rparr>))"

definition ask :: "effect \<Rightarrow> (hist \<Rightarrow> 'a call) \<Rightarrow> 'a st" where
  "ask eff q = (\<lambda>s. case q (s_hist s) of
       Returns a \<Rightarrow> (Ok a, s\<lparr>s_hist := eff # s_hist s\<rparr>)
     | Panics p \<Rightarrow> (Boom p, s\<lparr>s_hist := eff # s_hist s\<rparr>))"

text \<open>The two ways a refusal marks the row: the reason alone, or the outcome error with it.\<close>

definition because :: "detail \<Rightarrow> event \<Rightarrow> event" where
  "because d ev = ev\<lparr>ev_ErrorDetail := d\<rparr>"

definition error_because :: "detail \<Rightarrow> event \<Rightarrow> event" where
  "error_because d ev = ev\<lparr>ev_Outcome := OutcomeError, ev_ErrorDetail := d\<rparr>"

section \<open>The row\<close>

definition kindName :: "env \<Rightarrow> principal_kind \<Rightarrow> string" where
  "kindName E k = (if k = 0 then [] else en_KindString E k)"

definition newEvent :: "env \<Rightarrow> core \<Rightarrow> hist \<Rightarrow> principal option \<Rightarrow> string \<Rightarrow> event" where
  "newEvent E c h po procedure =
     (let ev = \<lparr>ev_App = ''garmd'', ev_ID = en_NewEventID E h, ev_Time = en_Now E h,
                ev_Tool = procedure, ev_Outcome = OutcomeDenied, ev_Tenant = [],
                ev_PrincipalSubject = [], ev_PrincipalKind = [], ev_PrincipalActor = [],
                ev_ChainDepth = 0, ev_ClearanceEffective = [], ev_CompartmentsEffective = [],
                ev_ExecutionSubject = [], ev_ErrorKind = [], ev_ErrorDetail = DNone, ev_Tags = [],
                ev_RedactionPlan = [], ev_RedactionCount = 0, ev_DisclosedCount = 0\<rparr>
      in case po of
           None \<Rightarrow> ev
         | Some p \<Rightarrow>
             ev\<lparr>ev_Tenant := p_Tenant p, ev_PrincipalSubject := p_Subject p,
                ev_PrincipalKind := kindName E (p_Kind p), ev_PrincipalActor := p_Actor p,
                ev_ChainDepth := length (p_Chain p),
                ev_ClearanceEffective := en_ClearanceString E (p_Clearance p),
                ev_CompartmentsEffective := rg_Names (c_reg c) (p_Compartments p),
                ev_ExecutionSubject := p_Execution p\<rparr>)"

section \<open>Step 2: the tool and its visibility\<close>

definition lookupStep :: "env \<Rightarrow> principal \<Rightarrow> string \<Rightarrow> bool st" where
  "lookupStep E p procedure = (\<lambda>s.
     case lookup_tool (s_core s) procedure of
       None \<Rightarrow> (Ok False, s)
     | Some t \<Rightarrow>
         (let s1 = s\<lparr>s_tool := t, s_ev := (s_ev s)\<lparr>ev_Tool := t_Name t\<rparr>\<rparr>
          in if \<not> Visible E (s_core s) (Some p) t then
               srefuse (because (DInvisible (t_Name t) (Has (p_Verbs p) (t_Verb t))
                   (pk_Allows (en_Policy E) (p_Clearance p) (t_MinClearance t))
                   (pk_Covers (en_Policy E) (p_Compartments p) (need_of (s_core s) (t_FullMethod t)))))
                 (Sentinel SNotFound) s1
             else (Ok True, s1)))"

definition messageStep :: "pmsg option \<Rightarrow> pmsg st" where
  "messageStep reqo =
     (case reqo of
        None \<Rightarrow> srefuse (error_because DNotProto) (Sentinel SInternal)
      | Some req \<Rightarrow> sret req)"

definition siblingStep :: "string \<Rightarrow> bool \<Rightarrow> pmsg \<Rightarrow> unit st" where
  "siblingStep procedure known req = (\<lambda>s.
     if \<not> known \<and> PlanFor (s_core s) (pm_desc req) = None
     then srefuse (because (DNoPlanUnknown procedure (pm_desc req))) (Sentinel SUnimplemented) s
     else (Ok (), s))"

section \<open>Step 3: what the request may set\<close>

text \<open>The messages a populated field holds: list elements, message map values, the message.\<close>

definition sub_messages :: "fdesc \<Rightarrow> pval \<Rightarrow> pmsg list" where
  "sub_messages fd v =
     (case fd_Shape fd of
        FList \<Rightarrow> List.map_filter as_msg (as_list v)
      | FMap vt \<Rightarrow>
          (if vt_Kind vt = MessageKind then List.map_filter (\<lambda>e. as_msg (ent_val e)) (as_map v) else [])
      | FSingle \<Rightarrow> (case as_msg v of Some m \<Rightarrow> [m] | None \<Rightarrow> []))"

definition children_at :: "pool \<Rightarrow> nat \<Rightarrow> pmsg \<Rightarrow> pmsg list" where
  "children_at P num t =
     (case by_number P (pm_desc t) num of
        None \<Rightarrow> []
      | Some fd \<Rightarrow> (case get_fd t fd of None \<Rightarrow> [] | Some v \<Rightarrow> sub_messages fd v))"

fun walk_targets :: "pool \<Rightarrow> nat list \<Rightarrow> pmsg list \<Rightarrow> pmsg list" where
  "walk_targets P [] targets = targets"
| "walk_targets P (num # path) targets =
     walk_targets P path (concat (map (children_at P num) targets))"

definition set_at :: "pool \<Rightarrow> nat \<Rightarrow> pmsg \<Rightarrow> bool" where
  "set_at P num t = (case by_number P (pm_desc t) num of None \<Rightarrow> False | Some fd \<Rightarrow> has_fd t fd)"

definition fieldIsSet :: "pool \<Rightarrow> pmsg \<Rightarrow> nat list \<Rightarrow> bool" where
  "fieldIsSet P m path =
     (if path = [] then False
      else list_ex (set_at P (last path)) (walk_targets P (butlast path) [m]))"

definition forbidden :: "env \<Rightarrow> principal \<Rightarrow> pmsg \<Rightarrow> policy_action \<Rightarrow> bool" where
  "forbidden E p req a =
     (\<not> (pk_Allows (en_Policy E) (p_Clearance p) (a_Write a) \<and>
         pk_Covers (en_Policy E) (p_Compartments p) (a_Need a)) \<and>
      fieldIsSet (en_Pool E) req (a_Path a))"

definition checkInputWrites :: "env \<Rightarrow> principal \<Rightarrow> pmsg \<Rightarrow> unit st" where
  "checkInputWrites E p req = (\<lambda>s.
     case PlanFor (s_core s) (pm_desc req) of
       None \<Rightarrow> srefuse (because (DNoPlanRequest (pm_desc req))) (Sentinel SInternal) s
     | Some pl \<Rightarrow>
         (case List.find (forbidden E p req) (pl_Actions pl) of
            Some a \<Rightarrow> srefuse (because (DInputSets (a_Name a) (a_Write a) (p_Clearance p)))
                        (Sentinel SPermissionDenied) s
          | None \<Rightarrow> (Ok (), s)))"

definition validateInput :: "env \<Rightarrow> rule_pkg \<Rightarrow> principal \<Rightarrow> pmsg \<Rightarrow> unit st" where
  "validateInput E K p req = (\<lambda>s.
     case c_validator (s_core s) of
       None \<Rightarrow> srefuse (because DNoValidator) (Sentinel SInternal) s
     | Some validate \<Rightarrow>
         (case validate req of
            VOk \<Rightarrow> (Ok (), s)
          | VFailed txt \<Rightarrow> srefuse (because (DValidation txt)) (Sentinel SInvalidArgument) s
          | VInvalid txt raws \<Rightarrow>
              (case admittedViolations E K (s_core s) (s_tool s) p raws of
                 (vs, c') \<Rightarrow>
                   srefuse (because (DValidation txt)) (ValidationRefusal vs) (s\<lparr>s_core := c'\<rparr>))))"

section \<open>Steps 4 and 5: instance authorization and the grant\<close>

definition fgaPre :: "principal \<Rightarrow> pmsg \<Rightarrow> unit st" where
  "fgaPre p req = (\<lambda>s.
     case c_fga (s_core s) of
       None \<Rightarrow> (Ok (), s)
     | Some f \<Rightarrow>
         sbind (ask (EFgaPre (t_FullMethod (s_tool s)) req) (\<lambda>h. fga_Pre f h p (s_tool s) req))
           (\<lambda>r. case r of
                  None \<Rightarrow> sret ()
                | Some e \<Rightarrow> srefuse (because (DFgaPre e)) (Sentinel SPermissionDenied)) s)"

definition note_task :: "string \<Rightarrow> event \<Rightarrow> event" where
  "note_task task ev =
     (if task \<noteq> [] then ev\<lparr>ev_Tags := AList.update ''task_id'' task (ev_Tags ev)\<rparr> else ev)"

definition verifyGrant :: "gctx \<Rightarrow> principal \<Rightarrow> pmsg \<Rightarrow> unit st" where
  "verifyGrant x p req = (\<lambda>s.
     case c_grants (s_core s) of
       None \<Rightarrow> (Ok (), s)
     | Some g \<Rightarrow>
         sbind (ask (EGrantVerify (t_FullMethod (s_tool s)) req) (\<lambda>h. gv_Verify g h x p (s_tool s) req))
           (\<lambda>(task, r). case r of
                None \<Rightarrow> (\<lambda>s. (Ok (), s\<lparr>s_ev := note_task task (s_ev s)\<rparr>))
              | Some e \<Rightarrow> srefuse (\<lambda>ev. because (DGrant e) (note_task task ev)) e) s)"

section \<open>Step 6: availability, the audit write-ahead, the resolver\<close>

definition checkAvailability :: "unit st" where
  "checkAvailability = (\<lambda>s.
     case c_availability (s_core s) of
       None \<Rightarrow> (Ok (), s)
     | Some a \<Rightarrow>
         sbind (ask (EAvailability (t_FQN (s_tool s))) (\<lambda>h. av_Availability a h (t_FQN (s_tool s))))
           (\<lambda>(ok, reason).
              if \<not> ok then srefuse (error_because (DToolDown (t_Name (s_tool s)) reason)) (Sentinel SUnavailable)
              else sret ()) s)"

definition auditIntent :: "unit st" where
  "auditIntent = (\<lambda>s.
     case c_audit (s_core s) of
       None \<Rightarrow> (Ok (), s)
     | Some a \<Rightarrow>
         if t_AuditLevel (s_tool s) \<noteq> LEVEL_AUDIT then (Ok (), s)
         else
           (let row = (s_ev s)\<lparr>ev_Outcome := OutcomeIntent\<rparr>
            in sbind (ask (EAuditIntent row) (\<lambda>h. as_Write a h row))
              (\<lambda>r. case r of
                 None \<Rightarrow> sret ()
               | Some e \<Rightarrow>
                   if t_AuditFailClosed (s_tool s)
                   then srefuse (\<lambda>ev. (because (DAuditAhead e) ev)\<lparr>ev_Outcome := OutcomeDenied\<rparr>)
                          (Wrapped ''unavailable: the audit record could not be written''
                             [Sentinel SUnavailable])
                   else sret ()) s))"

definition invocationContext :: "env \<Rightarrow> gctx \<Rightarrow> principal \<Rightarrow> hist \<Rightarrow> string \<Rightarrow> invocation_context" where
  "invocationContext E x p h callID =
     (let existing = (case x_Invocation x of Some ic \<Rightarrow> ic_CorrelationId ic | None \<Rightarrow> [])
      in \<lparr>ic_Tenant = p_Tenant p,
          ic_CorrelationId = (if existing \<noteq> [] then existing else en_NewCorrelationID E h),
          ic_Subject = p_Subject p, ic_Kind = p_Kind p, ic_Agent = p_Actor p, ic_CallId = callID,
          ic_Act = (if length (p_Chain p) > 1
                    then map (\<lambda>e. \<lparr>ac_Subject = ce_Subject e, ac_Kind = ce_Kind e\<rparr>) (tl (p_Chain p))
                    else [])\<rparr>)"

definition resolve :: "string \<Rightarrow> pmsg \<Rightarrow> resolver option \<Rightarrow> invocation_context \<Rightarrow> ranswer st" where
  "resolve procedure req fn ic =
     (case fn of
        None \<Rightarrow> sret (RErr (Wrapped (''unimplemented: no resolver registered for '' @ procedure)
                  [Sentinel SUnimplemented]))
      | Some f \<Rightarrow> ask (EResolve procedure req ic) (\<lambda>h. f h ic req))"

definition resolveStep ::
  "env \<Rightarrow> gctx \<Rightarrow> principal \<Rightarrow> string \<Rightarrow> pmsg \<Rightarrow> resolver option \<Rightarrow> pmsg option st" where
  "resolveStep E x p procedure req fn = (\<lambda>s.
     sbind (resolve procedure req fn (invocationContext E x p (s_hist s) (ev_ID (s_ev s))))
       (\<lambda>r. case r of
          RErr e \<Rightarrow>
            (case toolRefusalOf e of
               Some (code, msg) \<Rightarrow>
                 srefuse (\<lambda>ev. ev\<lparr>ev_Outcome := OutcomeDenied, ev_ErrorKind := ErrorKindToolRefused,
                                 ev_ErrorDetail := DToolRefused code msg\<rparr>) (ToolRefusal code)
             | None \<Rightarrow> srefuse (error_because (DErr e)) e)
        | RNil \<Rightarrow> sret None
        | RMsg m \<Rightarrow> sret (Some m)) s)"

section \<open>Steps 7 and 8: the post-check and the sanitiser\<close>

definition fgaPost :: "principal \<Rightarrow> pmsg \<Rightarrow> pmsg st" where
  "fgaPost p resp = (\<lambda>s.
     case c_fga (s_core s) of
       None \<Rightarrow> (Ok resp, s)
     | Some f \<Rightarrow>
         sbind (ask (EFgaPost resp) (\<lambda>h. fga_Post f h p (s_tool s) resp))
           (\<lambda>r. case r of
              PostErr e \<Rightarrow> srefuse (error_because (DFgaPostErr e)) (Sentinel SPermissionDenied)
            | PostNil \<Rightarrow> srefuse (error_because DFgaPostNil) (Sentinel SInternal)
            | PostOther m \<Rightarrow> srefuse (error_because DFgaPostReplaced) (Sentinel SInternal)
            | PostSame m \<Rightarrow> sret m) s)"

definition cardsIn :: "env \<Rightarrow> core \<Rightarrow> md \<Rightarrow> bool \<times> core" where
  "cardsIn E c d =
     (case c_cards c d of
        Some b \<Rightarrow> (b, c)
      | None \<Rightarrow> (contains_card (en_Pool E) d,
                 c\<lparr>c_cards := (c_cards c)(d \<mapsto> contains_card (en_Pool E) d)\<rparr>))"

definition note_sanitized :: "gctx \<Rightarrow> resolved \<Rightarrow> string list \<Rightarrow> unit st" where
  "note_sanitized x rs paths = (\<lambda>s.
     (Ok (), s\<lparr>s_red := (if x_Redactions x then Some (paths, rs_Hash rs) else s_red s),
               s_ev := (s_ev s)\<lparr>ev_RedactionPlan := rs_Hash rs, ev_RedactionCount := length paths,
                                 ev_DisclosedCount := length (rs_Disclosed rs)\<rparr>\<rparr>))"

definition projectStep :: "env \<Rightarrow> gctx \<Rightarrow> principal \<Rightarrow> resolved \<Rightarrow> pmsg \<Rightarrow> string list \<Rightarrow> pmsg st" where
  "projectStep E x p rs resp paths = (\<lambda>s.
     case cardsIn E (s_core s) (pm_desc resp) of
       (False, c') \<Rightarrow> sbind (note_sanitized x rs paths) (\<lambda>u. sret resp) (s\<lparr>s_core := c'\<rparr>)
     | (True, c') \<Rightarrow>
         (case projectCards E c' p (s_tool s) resp of
            (res, resp') \<Rightarrow>
              (case cr_invalid res of
                 Some v \<Rightarrow>
                   srefuse (\<lambda>ev. (error_because (DCardInvalid (invalid_text v)) ev)
                                   \<lparr>ev_ErrorKind := ErrorKindCardInvalid\<rparr>)
                     (Sentinel SInternal) (s\<lparr>s_core := c'\<rparr>)
               | None \<Rightarrow>
                   if cr_gone res
                   then srefuse (because DCardWithheld) (Sentinel SNotFound) (s\<lparr>s_core := c'\<rparr>)
                   else sbind (note_sanitized x rs (paths @ cr_withheld res)) (\<lambda>u. sret resp')
                          (s\<lparr>s_core := c'\<rparr>))))"

definition sanitize :: "env \<Rightarrow> gctx \<Rightarrow> principal \<Rightarrow> pmsg \<Rightarrow> pmsg st" where
  "sanitize E x p resp = (\<lambda>s.
     case PlanFor (s_core s) (pm_desc resp) of
       None \<Rightarrow> srefuse (error_because (DNoPlanResponse (pm_desc resp))) (Sentinel SInternal) s
     | Some pl \<Rightarrow>
         (let rs = pk_Resolve (en_Policy E) pl (fst (Shape p)) (snd (Shape p))
          in case pk_Sanitize (en_Policy E) resp rs (c_hashKey (s_core s)) (p_Tenant p) of
               (resp', paths) \<Rightarrow>
                 projectStep E x p rs resp' paths (s\<lparr>s_hist := ESanitize resp # s_hist s\<rparr>)))"

section \<open>The body of invoke\<close>

definition chain_front ::
  "env \<Rightarrow> rule_pkg \<Rightarrow> gctx \<Rightarrow> principal \<Rightarrow> string \<Rightarrow> pmsg option \<Rightarrow> pmsg st" where
  "chain_front E K x p procedure reqo =
     sbind (lookupStep E p procedure) (\<lambda>known.
     sbind (messageStep reqo) (\<lambda>req.
     then_do (siblingStep procedure known req) (
     then_do (checkInputWrites E p req) (
     then_do (validateInput E K p req) (
     then_do (fgaPre p req) (
     then_do (verifyGrant x p req) (
     then_do (if known then checkAvailability else sret ()) (
     then_do auditIntent (sret req)))))))))"

definition chain_back :: "env \<Rightarrow> gctx \<Rightarrow> principal \<Rightarrow> pmsg option \<Rightarrow> pmsg option st" where
  "chain_back E x p respo =
     (case respo of
        None \<Rightarrow> sret None
      | Some resp \<Rightarrow>
          sbind (fgaPost p resp) (\<lambda>resp1.
          sbind (sanitize E x p resp1) (\<lambda>resp2. sret (Some resp2))))"

definition mark_ok :: "'a \<Rightarrow> 'a st" where
  "mark_ok a = (\<lambda>s. (Ok a, s\<lparr>s_ev := (s_ev s)\<lparr>ev_Outcome := OutcomeOK\<rparr>\<rparr>))"

definition chain_body ::
  "env \<Rightarrow> rule_pkg \<Rightarrow> gctx \<Rightarrow> principal option \<Rightarrow> string \<Rightarrow> pmsg option \<Rightarrow> resolver option \<Rightarrow>
     pmsg option st" where
  "chain_body E K x po procedure reqo fn =
     (case po of
        None \<Rightarrow> srefuse (because (DNoPrincipal procedure)) (Sentinel SUnauthenticated)
      | Some p \<Rightarrow>
          sbind (chain_front E K x p procedure reqo) (\<lambda>req.
          sbind (resolveStep E x p procedure req fn) (\<lambda>respo.
          sbind (chain_back E x p respo) mark_ok)))"

section \<open>The deferred function\<close>

text \<open>\<open>record\<close>, steps 9 and 10: neither can fail the call, and a panic of either costs a log line.\<close>

definition recordRow :: "core \<Rightarrow> event \<Rightarrow> hist \<Rightarrow> hist" where
  "recordRow c ev h =
     (let h1 = ERecord ev # h
      in case rc_Record (c_recorder c) h ev of
           Panics _ \<Rightarrow> ELog (ev_ErrorDetail ev) # h1
         | Returns _ \<Rightarrow>
             (case c_notifier c of
                None \<Rightarrow> h1
              | Some n \<Rightarrow>
                  (case nf_Notify n h1 ev of
                     Returns _ \<Rightarrow> ENotify ev # h1
                   | Panics _ \<Rightarrow> ELog (ev_ErrorDetail ev) # ENotify ev # h1)))"

text \<open>\<open>auditOutcome\<close> logs an error of the sink; a panic of the sink is not recovered.\<close>

definition auditOutcome :: "core \<Rightarrow> tooldef \<Rightarrow> event \<Rightarrow> hist \<Rightarrow> panic option \<times> hist" where
  "auditOutcome c t ev h =
     (case c_audit c of
        None \<Rightarrow> (None, h)
      | Some a \<Rightarrow>
          if t_AuditLevel t \<noteq> LEVEL_AUDIT then (None, h)
          else (case as_Write a h ev of
             Returns None \<Rightarrow> (None, EAuditOutcome ev # h)
           | Returns (Some e) \<Rightarrow> (None, ELog (DErr e) # EAuditOutcome ev # h)
           | Panics p \<Rightarrow> (Some p, EAuditOutcome ev # h)))"

datatype answer = Answered "pmsg option" | Refused go_err | Repanicked panic

record call_result =
  o_answer :: answer
  o_core :: core
  o_hist :: hist
  o_red :: "(string list \<times> string) option"
  o_eventID :: "string option"

text \<open>What \<open>recover\<close> makes of the outcome: the row as it will be written, and the answer.\<close>

definition settle :: "pmsg option step \<Rightarrow> event \<Rightarrow> answer \<times> event" where
  "settle r ev =
     (case r of
        Ok resp \<Rightarrow> (Answered resp, ev)
      | Fail e \<Rightarrow> (Refused e, ev)
      | Boom AbortHandler \<Rightarrow> (Repanicked AbortHandler, error_because DAborted ev)
      | Boom (PanicWith v) \<Rightarrow>
          (Refused (Wrapped (''internal error: resolver panicked: '' @ v) [Sentinel SInternal]),
           error_because (DResolverPanicked v) ev))"

definition finish :: "gctx \<Rightarrow> pmsg option step \<Rightarrow> cst \<Rightarrow> call_result" where
  "finish x r s =
     (case settle r (s_ev s) of
        (ans, ev) \<Rightarrow>
          (case auditOutcome (s_core s) (s_tool s) ev (recordRow (s_core s) ev (s_hist s)) of
             (p, h) \<Rightarrow>
               \<lparr>o_answer = (case p of Some q \<Rightarrow> Repanicked q | None \<Rightarrow> ans),
                o_core = s_core s, o_hist = h, o_red = s_red s,
                o_eventID = (if x_EventID x then Some (ev_ID ev) else None)\<rparr>))"

definition start :: "env \<Rightarrow> core \<Rightarrow> hist \<Rightarrow> principal option \<Rightarrow> string \<Rightarrow> cst" where
  "start E c h po procedure =
     \<lparr>s_ev = newEvent E c h po procedure, s_tool = zero_tool, s_core = c, s_hist = h, s_red = None\<rparr>"

definition invoke ::
  "env \<Rightarrow> rule_pkg \<Rightarrow> core \<Rightarrow> hist \<Rightarrow> gctx \<Rightarrow> principal option \<Rightarrow> string \<Rightarrow> pmsg option \<Rightarrow>
     resolver option \<Rightarrow> call_result" where
  "invoke E K c h x po procedure reqo fn =
     (case chain_body E K x po procedure reqo fn (start E c h po procedure) of
        (r, s) \<Rightarrow> finish x r s)"

definition Invoke ::
  "env \<Rightarrow> rule_pkg \<Rightarrow> core \<Rightarrow> hist \<Rightarrow> gctx \<Rightarrow> principal option \<Rightarrow> string \<Rightarrow> pmsg option \<Rightarrow> call_result" where
  "Invoke E K c h x po procedure reqo =
     invoke E K c h x po procedure reqo (resolverFor c procedure)"

definition Unauthenticated ::
  "env \<Rightarrow> core \<Rightarrow> hist \<Rightarrow> gctx \<Rightarrow> string \<Rightarrow> go_err option \<Rightarrow> go_err \<times> hist \<times> string option" where
  "Unauthenticated E c h x procedure cause =
     (let ev = because (DUnauthenticated procedure cause) (newEvent E c h None procedure)
      in (Sentinel SUnauthenticated, recordRow c ev h,
          if x_EventID x then Some (ev_ID ev) else None))"

end
