(* ===== verification/ChainProps.thy ===== *)
theory ChainProps
  imports Chain Mount
begin

text \<open>
  What the chain guarantees. A step's contract is the locale \<open>lawful_step\<close>: it only adds effects of
  the kinds it may have, keeps the row's identity and the core's wiring, and refuses with a reason.
  The front, the resolver step and the back are interpretations of it; the properties of \<open>invoke\<close>
  follow from their facts and from the exact condition under which the front lets a call through.
\<close>

section \<open>The contract of a step\<close>

text \<open>What a step may not change: the row's identity and attribution, the core's wiring.\<close>

definition attribution :: "event \<Rightarrow> event" where
  "attribution ev = ev\<lparr>ev_Tool := [], ev_Outcome := OutcomeDenied, ev_ErrorKind := [],
     ev_ErrorDetail := DNone, ev_Tags := [], ev_RedactionPlan := [], ev_RedactionCount := 0,
     ev_DisclosedCount := 0\<rparr>"

definition bare :: "core \<Rightarrow> core" where
  "bare c = c\<lparr>c_cards := Map.empty, c_schemas := []\<rparr>"

definition grown :: "(effect \<Rightarrow> bool) \<Rightarrow> hist \<Rightarrow> hist \<Rightarrow> bool" where
  "grown K h h' \<longleftrightarrow> (\<exists>es. h' = es @ h \<and> (\<forall>e \<in> set es. K e))"

lemma grown_refl [simp, intro]: "grown K h h"
  by (simp add: grown_def)

lemma grown_one [intro]: "K e \<Longrightarrow> grown K h (e # h)"
  unfolding grown_def by (rule exI[of _ "[e]"]) simp

lemma grown_trans: "grown K h1 h2 \<Longrightarrow> grown K h2 h3 \<Longrightarrow> grown K h1 h3"
  unfolding grown_def by (metis (no_types, lifting) UnE append.assoc set_append)

lemma grown_mono: "grown K h h' \<Longrightarrow> (\<And>e. K e \<Longrightarrow> K' e) \<Longrightarrow> grown K' h h'"
  unfolding grown_def by blast

definition framed :: "(effect \<Rightarrow> bool) \<Rightarrow> cst \<Rightarrow> cst \<Rightarrow> bool" where
  "framed K s s' \<longleftrightarrow> grown K (s_hist s) (s_hist s') \<and>
     attribution (s_ev s') = attribution (s_ev s) \<and> bare (s_core s') = bare (s_core s)"

lemma framed_refl [simp, intro]: "framed K s s"
  by (simp add: framed_def)

lemma framed_trans: "framed K a b \<Longrightarrow> framed K b c \<Longrightarrow> framed K a c"
  by (auto simp: framed_def intro: grown_trans)

lemma framed_mono: "framed K a b \<Longrightarrow> (\<And>e. K e \<Longrightarrow> K' e) \<Longrightarrow> framed K' a b"
  by (auto simp: framed_def intro: grown_mono)

text \<open>A refusal says why, and its row does not read as a success.\<close>

fun outcome_law :: "'a step \<Rightarrow> event \<Rightarrow> event \<Rightarrow> bool" where
  "outcome_law (Ok a) ev ev' = (ev_Outcome ev' = ev_Outcome ev)"
| "outcome_law (Fail e) ev ev' =
     (ev_ErrorDetail ev' \<noteq> DNone \<and> (ev_Outcome ev \<noteq> OutcomeOK \<longrightarrow> ev_Outcome ev' \<noteq> OutcomeOK))"
| "outcome_law (Boom p) ev ev' = (ev_Outcome ev' = ev_Outcome ev)"

locale lawful_step =
  fixes K :: "effect \<Rightarrow> bool" and m :: "'a st"
  assumes law: "m s = (r, s') \<Longrightarrow> framed K s s' \<and> outcome_law r (s_ev s) (s_ev s')"
begin

lemma frame: "m s = (r, s') \<Longrightarrow> framed K s s'"
  using law by blast

lemma refusal_reason: "m s = (Fail e, s') \<Longrightarrow> ev_ErrorDetail (s_ev s') \<noteq> DNone"
  using law[of s "Fail e" s'] by simp

lemma not_success:
  "m s = (r, s') \<Longrightarrow> ev_Outcome (s_ev s) \<noteq> OutcomeOK \<Longrightarrow> ev_Outcome (s_ev s') \<noteq> OutcomeOK"
  using law[of s r s'] by (cases r) auto

lemma effects: "m s = (r, s') \<Longrightarrow> grown K (s_hist s) (s_hist s')"
  using law by (auto simp: framed_def)

end

named_theorems lawful_intros \<open>composition of lawful steps\<close>

lemma lawful_mono:
  assumes "lawful_step K m" "\<And>e. K e \<Longrightarrow> K' e"
  shows "lawful_step K' m"
proof
  fix s r s' assume "m s = (r, s')"
  from lawful_step.law[OF assms(1) this] show "framed K' s s' \<and> outcome_law r (s_ev s) (s_ev s')"
    using framed_mono assms(2) by blast
qed

lemma lawful_sret [lawful_intros]: "lawful_step K (sret a)"
  by standard (auto simp: sret_def)

lemma lawful_sbind [lawful_intros]:
  assumes "lawful_step K m" "\<And>a. lawful_step K (f a)"
  shows "lawful_step K (sbind m f)"
proof
  fix s r s' assume run: "sbind m f s = (r, s')"
  obtain r1 s1 where r1: "m s = (r1, s1)" by (cases "m s")
  from lawful_step.law[OF assms(1) this] have one: "framed K s s1" "outcome_law r1 (s_ev s) (s_ev s1)"
    by auto
  show "framed K s s' \<and> outcome_law r (s_ev s) (s_ev s')"
  proof (cases r1)
    case (Ok a)
    then have "f a s1 = (r, s')" using run r1 by (simp add: sbind_def)
    from lawful_step.law[OF assms(2) this]
    have "framed K s1 s'" "outcome_law r (s_ev s1) (s_ev s')" by auto
    then show ?thesis using one Ok framed_trans by (cases r) auto
  qed (use run r1 one in \<open>auto simp: sbind_def\<close>)
qed

lemma lawful_then [lawful_intros]:
  "lawful_step K m \<Longrightarrow> lawful_step K k \<Longrightarrow> lawful_step K (then_do m k)"
  unfolding then_do_def by (rule lawful_sbind)

lemma lawful_ask [lawful_intros]: "K e \<Longrightarrow> lawful_step K (ask e q)"
  by standard (auto simp: ask_def framed_def split: call.splits)

text \<open>A step given by cases on the state.\<close>

lemma lawful_at:
  assumes "\<And>s. lawful_step K (f s)"
  shows "lawful_step K (\<lambda>s. f s s)"
  by standard (use lawful_step.law[OF assms] in blast)

lemma lawful_refuse [lawful_intros]:
  assumes "\<And>ev. attribution (f ev) = attribution ev" "\<And>ev. ev_ErrorDetail (f ev) \<noteq> DNone"
    and "\<And>ev. ev_Outcome ev \<noteq> OutcomeOK \<Longrightarrow> ev_Outcome (f ev) \<noteq> OutcomeOK"
  shows "lawful_step K (srefuse f e)"
  by standard (use assms in \<open>auto simp: srefuse_def framed_def\<close>)

lemma attribution_marks [simp]:
  "attribution (because d ev) = attribution ev" "attribution (error_because d ev) = attribution ev"
  "attribution (note_task task ev) = attribution ev"
  "attribution (ev\<lparr>ev_Outcome := oc\<rparr>) = attribution ev"
  "attribution (ev\<lparr>ev_ErrorKind := k\<rparr>) = attribution ev"
  "attribution (ev\<lparr>ev_ErrorDetail := d\<rparr>) = attribution ev"
  "attribution (ev\<lparr>ev_Tool := tn\<rparr>) = attribution ev"
  by (simp_all add: attribution_def because_def error_because_def note_task_def)

lemma mark_sel [simp]:
  "ev_ErrorDetail (because d ev) = d" "ev_ErrorDetail (error_because d ev) = d"
  "ev_Outcome (because d ev) = ev_Outcome ev" "ev_Outcome (error_because d ev) = OutcomeError"
  "ev_Outcome (note_task task ev) = ev_Outcome ev" "ev_ID (because d ev) = ev_ID ev"
  "ev_Tool (because d ev) = ev_Tool ev"
  by (simp_all add: because_def error_because_def note_task_def)

section \<open>Every step keeps the contract\<close>

fun front_effect :: "effect \<Rightarrow> bool" where
  "front_effect (EFgaPre a b) = True"
| "front_effect (EGrantVerify a b) = True"
| "front_effect (EAvailability a) = True"
| "front_effect (EAuditIntent a) = True"
| "front_effect _ = False"

fun is_resolve :: "effect \<Rightarrow> bool" where
  "is_resolve (EResolve a b c) = True"
| "is_resolve _ = False"

fun back_effect :: "effect \<Rightarrow> bool" where
  "back_effect (EFgaPost a) = True"
| "back_effect (ESanitize a) = True"
| "back_effect _ = False"

fun closing_effect :: "effect \<Rightarrow> bool" where
  "closing_effect (ERecord a) = True"
| "closing_effect (ENotify a) = True"
| "closing_effect (EAuditOutcome a) = True"
| "closing_effect (ELog a) = True"
| "closing_effect _ = False"

lemmas step_defs = sbind_def ask_def srefuse_def sret_def then_do_def

lemma bare_memo [simp]:
  "bare (c\<lparr>c_cards := m\<rparr>) = bare c" "bare (c\<lparr>c_schemas := ss\<rparr>) = bare c"
  by (simp_all add: bare_def)

lemma lawful_lookup: "lawful_step K (lookupStep E p procedure)"
  by standard (auto simp: lookupStep_def srefuse_def Let_def framed_def split: option.splits if_splits)

lemma lawful_message: "lawful_step K (messageStep reqo)"
  unfolding messageStep_def by (cases reqo) (auto intro!: lawful_intros)

lemma lawful_sibling: "lawful_step K (siblingStep procedure known req)"
  by standard (auto simp: siblingStep_def srefuse_def framed_def split: if_splits)

lemma lawful_writes: "lawful_step K (checkInputWrites E p req)"
  by standard (auto simp: checkInputWrites_def srefuse_def framed_def split: option.splits)

lemma SchemaFor_bare: "SchemaFor E c t po = (r, c') \<Longrightarrow> bare c' = bare c"
  unfolding SchemaFor_def by (auto split: option.splits prod.splits)

lemma admitted_bare: "admittedViolations E K c t p raws = (vs, c') \<Longrightarrow> bare c' = bare c"
  unfolding admittedViolations_def
  by (auto split: sum.splits prod.splits option.splits if_splits dest!: SchemaFor_bare)

lemma lawful_validate: "lawful_step K (validateInput E R p req)"
proof
  fix s r s' assume run: "validateInput E R p req s = (r, s')"
  then show "framed K s s' \<and> outcome_law r (s_ev s) (s_ev s')"
    unfolding validateInput_def srefuse_def
    by (auto simp: framed_def split: option.splits vresult.splits prod.splits dest: admitted_bare)
qed

lemma lawful_fgaPre: "lawful_step front_effect (fgaPre p req)"
  by standard
    (auto simp: fgaPre_def step_defs framed_def split: option.splits call.splits prod.splits)

lemma lawful_grant: "lawful_step front_effect (verifyGrant x p req)"
  by standard
    (auto simp: verifyGrant_def step_defs framed_def split: option.splits call.splits prod.splits)

lemma lawful_availability: "lawful_step front_effect checkAvailability"
  by standard
    (auto simp: checkAvailability_def step_defs framed_def
      split: option.splits call.splits prod.splits if_splits)

lemma lawful_intent: "lawful_step front_effect auditIntent"
  by standard
    (auto simp: auditIntent_def step_defs framed_def Let_def
      split: option.splits call.splits prod.splits if_splits)

lemma lawful_resolve: "lawful_step is_resolve (resolveStep E x p procedure req fn)"
  by standard
    (auto simp: resolveStep_def resolve_def step_defs framed_def
      split: option.splits call.splits prod.splits ranswer.splits)

lemma lawful_fgaPost: "lawful_step back_effect (fgaPost p resp)"
  by standard
    (auto simp: fgaPost_def step_defs framed_def split: option.splits call.splits fga_post.splits)

lemma cardsIn_bare: "cardsIn E c d = (b, c') \<Longrightarrow> bare c' = bare c"
  unfolding cardsIn_def by (auto split: option.splits)

lemma lawful_sanitized: "lawful_step K (note_sanitized x rs paths)"
  by standard (auto simp: note_sanitized_def framed_def attribution_def)

lemma lawful_project: "lawful_step K (projectStep E x p rs resp paths)"
proof
  fix s r s' assume run: "projectStep E x p rs resp paths s = (r, s')"
  obtain b c' where c: "cardsIn E (s_core s) (pm_desc resp) = (b, c')"
    by (cases "cardsIn E (s_core s) (pm_desc resp)")
  have frame: "framed K s (s\<lparr>s_core := c'\<rparr>)"
    using cardsIn_bare[OF c] by (simp add: framed_def)
  have shown: "lawful_step K (sbind (note_sanitized x rs q) (\<lambda>u. sret m))" for q m
    by (intro lawful_intros lawful_sanitized)
  show "framed K s s' \<and> outcome_law r (s_ev s) (s_ev s')"
  proof (cases b)
    case False
    then have "sbind (note_sanitized x rs paths) (\<lambda>u. sret resp) (s\<lparr>s_core := c'\<rparr>) = (r, s')"
      using run c by (simp add: projectStep_def)
    from lawful_step.law[OF shown this] show ?thesis using framed_trans[OF frame] by simp
  next
    case True
    obtain res resp' where pr: "projectCards E c' p (s_tool s) resp = (res, resp')"
      by (metis surj_pair)
    show ?thesis
    proof (cases "cr_invalid res = None \<and> \<not> cr_gone res")
      case served: True
      then have "sbind (note_sanitized x rs (paths @ cr_withheld res)) (\<lambda>u. sret resp')
          (s\<lparr>s_core := c'\<rparr>) = (r, s')"
        using run c True pr by (simp add: projectStep_def)
      from lawful_step.law[OF shown this] show ?thesis using framed_trans[OF frame] by simp
    next
      case False
      then show ?thesis using run c True pr frame
        by (auto simp: projectStep_def srefuse_def framed_def split: option.splits if_splits)
    qed
  qed
qed

lemma lawful_sanitize: "lawful_step back_effect (sanitize E x p resp)"
proof
  fix s r s' assume run: "sanitize E x p resp s = (r, s')"
  show "framed back_effect s s' \<and> outcome_law r (s_ev s) (s_ev s')"
  proof (cases "PlanFor (s_core s) (pm_desc resp)")
    case None
    then show ?thesis using run by (auto simp: sanitize_def srefuse_def framed_def)
  next
    case (Some pl)
    let ?rs = "pk_Resolve (en_Policy E) pl (fst (Shape p)) (snd (Shape p))"
    obtain m paths where sz:
      "pk_Sanitize (en_Policy E) resp ?rs (c_hashKey (s_core s)) (p_Tenant p) = (m, paths)"
      by (metis surj_pair)
    let ?s1 = "s\<lparr>s_hist := ESanitize resp # s_hist s\<rparr>"
    have "projectStep E x p ?rs m paths ?s1 = (r, s')"
      using run Some sz by (simp add: sanitize_def Let_def)
    from lawful_step.law[OF lawful_project[of back_effect] this]
    have "framed back_effect ?s1 s'" "outcome_law r (s_ev s) (s_ev s')" by simp_all
    moreover have "framed back_effect s ?s1" by (auto simp: framed_def)
    ultimately show ?thesis using framed_trans by blast
  qed
qed

section \<open>The three parts of the body\<close>

lemma lawful_front: "lawful_step front_effect (chain_front E R x p procedure reqo)"
  unfolding chain_front_def
  by (intro lawful_intros lawful_lookup lawful_message lawful_sibling lawful_writes lawful_validate
      lawful_fgaPre lawful_grant lawful_intent) (simp add: lawful_availability lawful_sret)

lemma lawful_back: "lawful_step back_effect (chain_back E x p respo)"
  unfolding chain_back_def
  by (cases respo) (auto intro!: lawful_intros lawful_fgaPost lawful_sanitize)

interpretation front: lawful_step front_effect "chain_front E R x p procedure reqo"
  for E R x p procedure reqo
  by (rule lawful_front)

interpretation resolver: lawful_step is_resolve "resolveStep E x p procedure req fn"
  for E x p procedure req fn
  by (rule lawful_resolve)

interpretation tail: lawful_step back_effect "chain_back E x p respo" for E x p respo
  by (rule lawful_back)

section \<open>When the front lets a call through\<close>

text \<open>
  The gates of steps 4 to 6 as relations between the effects before and after them, over what the
  deployment's parts answered.
\<close>

definition fga_gate :: "core \<Rightarrow> principal \<Rightarrow> tooldef \<Rightarrow> pmsg \<Rightarrow> hist \<Rightarrow> hist \<Rightarrow> bool" where
  "fga_gate c p t req h h' \<longleftrightarrow>
     (case c_fga c of
        None \<Rightarrow> h' = h
      | Some f \<Rightarrow> fga_Pre f h p t req = Returns None \<and> h' = EFgaPre (t_FullMethod t) req # h)"

definition grant_gate :: "core \<Rightarrow> gctx \<Rightarrow> principal \<Rightarrow> tooldef \<Rightarrow> pmsg \<Rightarrow> hist \<Rightarrow> hist \<Rightarrow> bool" where
  "grant_gate c x p t req h h' \<longleftrightarrow>
     (case c_grants c of
        None \<Rightarrow> h' = h
      | Some g \<Rightarrow> (\<exists>task. gv_Verify g h x p t req = Returns (task, None)) \<and>
          h' = EGrantVerify (t_FullMethod t) req # h)"

definition up_gate :: "core \<Rightarrow> tooldef \<Rightarrow> hist \<Rightarrow> hist \<Rightarrow> bool" where
  "up_gate c t h h' \<longleftrightarrow>
     (case c_availability c of
        None \<Rightarrow> h' = h
      | Some a \<Rightarrow> (\<exists>reason. av_Availability a h (t_FQN t) = Returns (True, reason)) \<and>
          h' = EAvailability (t_FQN t) # h)"

definition intent_gate :: "core \<Rightarrow> tooldef \<Rightarrow> string \<Rightarrow> hist \<Rightarrow> hist \<Rightarrow> bool" where
  "intent_gate c t i h h' \<longleftrightarrow>
     (case c_audit c of
        None \<Rightarrow> h' = h
      | Some a \<Rightarrow>
          if t_AuditLevel t \<noteq> LEVEL_AUDIT then h' = h
          else (\<exists>row r. ev_ID row = i \<and> ev_Outcome row = OutcomeIntent \<and>
                  as_Write a h row = Returns r \<and> (t_AuditFailClosed t \<longrightarrow> r = None) \<and>
                  h' = EAuditIntent row # h))"

definition field_gate :: "env \<Rightarrow> core \<Rightarrow> principal \<Rightarrow> pmsg \<Rightarrow> bool" where
  "field_gate E c p req \<longleftrightarrow>
     (\<exists>pl. PlanFor c (pm_desc req) = Some pl \<and> (\<forall>a \<in> set (pl_Actions pl). \<not> forbidden E p req a))"

definition tool_of :: "core \<Rightarrow> string \<Rightarrow> tooldef" where
  "tool_of c procedure = (case lookup_tool c procedure of Some t \<Rightarrow> t | None \<Rightarrow> zero_tool)"

definition front_gates ::
  "env \<Rightarrow> core \<Rightarrow> gctx \<Rightarrow> principal \<Rightarrow> string \<Rightarrow> pmsg \<Rightarrow> string \<Rightarrow> hist \<Rightarrow> hist \<Rightarrow> bool" where
  "front_gates E c x p procedure req i h h' \<longleftrightarrow>
     (\<forall>t. lookup_tool c procedure = Some t \<longrightarrow> Visible E c (Some p) t) \<and>
     field_gate E c p req \<and>
     (\<exists>v. c_validator c = Some v \<and> v req = VOk) \<and>
     (\<exists>h1 h2 h3. fga_gate c p (tool_of c procedure) req h h1 \<and>
        grant_gate c x p (tool_of c procedure) req h1 h2 \<and>
        (if lookup_tool c procedure = None then h3 = h2 else up_gate c (tool_of c procedure) h2 h3) \<and>
        intent_gate c (tool_of c procedure) i h3 h')"

lemma sbind_Ok:
  "sbind m f s = (Ok b, s') \<longleftrightarrow> (\<exists>a s1. m s = (Ok a, s1) \<and> f a s1 = (Ok b, s'))"
  by (cases "m s") (auto simp: sbind_def split: step.splits)

lemma then_Ok: "then_do m k s = (Ok b, s') \<longleftrightarrow> (\<exists>a s1. m s = (Ok a, s1) \<and> k s1 = (Ok b, s'))"
  by (simp add: then_do_def sbind_Ok)

lemma lookup_Ok:
  assumes "lookupStep E p procedure s = (Ok known, s')" "s_tool s = zero_tool"
  shows "known \<longleftrightarrow> lookup_tool (s_core s) procedure \<noteq> None"
    and "\<forall>t. lookup_tool (s_core s) procedure = Some t \<longrightarrow> Visible E (s_core s) (Some p) t"
    and "s_tool s' = tool_of (s_core s) procedure" and "s_core s' = s_core s"
    and "s_hist s' = s_hist s" and "ev_ID (s_ev s') = ev_ID (s_ev s)" and "s_red s' = s_red s"
  using assms
  by (auto simp: lookupStep_def srefuse_def tool_of_def Let_def split: option.splits if_splits)

lemma message_Ok: "messageStep reqo s = (Ok req, s') \<longleftrightarrow> reqo = Some req \<and> s' = s"
  by (auto simp: messageStep_def sret_def srefuse_def split: option.splits)

lemma sibling_Ok: "siblingStep procedure known req s = (Ok u, s') \<Longrightarrow> s' = s"
  by (auto simp: siblingStep_def srefuse_def split: if_splits)

lemma writes_Ok:
  "checkInputWrites E p req s = (Ok u, s') \<Longrightarrow> s' = s \<and> field_gate E (s_core s) p req"
  by (auto simp: checkInputWrites_def srefuse_def field_gate_def dest: find_None_all
      split: option.splits)

lemma validate_Ok:
  "validateInput E R p req s = (Ok u, s') \<Longrightarrow>
     s' = s \<and> (\<exists>v. c_validator (s_core s) = Some v \<and> v req = VOk)"
  by (auto simp: validateInput_def srefuse_def split: option.splits vresult.splits prod.splits)

lemma fga_Ok:
  "fgaPre p req s = (Ok u, s') \<Longrightarrow>
     s' = s\<lparr>s_hist := s_hist s'\<rparr> \<and> fga_gate (s_core s) p (s_tool s) req (s_hist s) (s_hist s')"
  by (auto simp: fgaPre_def step_defs fga_gate_def split: option.splits call.splits)

lemma grant_Ok:
  "verifyGrant x p req s = (Ok u, s') \<Longrightarrow>
     s_core s' = s_core s \<and> s_tool s' = s_tool s \<and> ev_ID (s_ev s') = ev_ID (s_ev s) \<and>
     s_red s' = s_red s \<and> grant_gate (s_core s) x p (s_tool s) req (s_hist s) (s_hist s')"
  by (auto simp: verifyGrant_def step_defs grant_gate_def note_task_def
      split: option.splits call.splits prod.splits)

lemma up_Ok:
  "checkAvailability s = (Ok u, s') \<Longrightarrow>
     s' = s\<lparr>s_hist := s_hist s'\<rparr> \<and> up_gate (s_core s) (s_tool s) (s_hist s) (s_hist s')"
  by (auto simp: checkAvailability_def step_defs up_gate_def
      split: option.splits call.splits prod.splits if_splits)

lemma intent_Ok:
  "auditIntent s = (Ok u, s') \<Longrightarrow>
     s' = s\<lparr>s_hist := s_hist s'\<rparr> \<and>
     intent_gate (s_core s) (s_tool s) (ev_ID (s_ev s)) (s_hist s) (s_hist s')"
  by (auto simp: auditIntent_def step_defs intent_gate_def Let_def
      split: option.splits call.splits if_splits)
    (rule exI[of _ "(s_ev s)\<lparr>ev_Outcome := OutcomeIntent\<rparr>"], simp)+

lemma frame_fields:
  assumes "s' = s\<lparr>s_hist := g\<rparr>"
  shows "s_core s' = s_core s" "s_tool s' = s_tool s" "s_ev s' = s_ev s"
    "s_red s' = s_red s"
  using assms by simp_all

lemma front_Ok:
  assumes "chain_front E R x p procedure reqo s = (Ok req, s')" "s_tool s = zero_tool"
  shows "reqo = Some req \<and> s_core s' = s_core s \<and> s_tool s' = tool_of (s_core s) procedure \<and>
     ev_ID (s_ev s') = ev_ID (s_ev s) \<and> s_red s' = s_red s \<and>
     front_gates E (s_core s) x p procedure req (ev_ID (s_ev s)) (s_hist s) (s_hist s')"
proof -
  from assms(1) obtain known s1 s2 s3 s4 s5 s6 s7 s8 m u1 u2 u3 u4 u5 u6 u7 where
    lk: "lookupStep E p procedure s = (Ok known, s1)" and
    ms: "messageStep reqo s1 = (Ok m, s2)" and
    sb: "siblingStep procedure known m s2 = (Ok u1, s3)" and
    wr: "checkInputWrites E p m s3 = (Ok u2, s4)" and
    vd: "validateInput E R p m s4 = (Ok u3, s5)" and
    fg: "fgaPre p m s5 = (Ok u4, s6)" and
    gr: "verifyGrant x p m s6 = (Ok u5, s7)" and
    up: "(if known then checkAvailability else sret ()) s7 = (Ok u6, s8)" and
    it: "auditIntent s8 = (Ok u7, s')" and m: "m = req"
    unfolding chain_front_def sbind_Ok then_Ok by (auto simp: sret_def)
  note L = lookup_Ok[OF lk assms(2)]
  have s5: "reqo = Some req" "s5 = s1" "field_gate E (s_core s) p req"
    "\<exists>v. c_validator (s_core s) = Some v \<and> v req = VOk"
    using ms sb wr vd L m by (auto simp: message_Ok dest!: sibling_Ok writes_Ok validate_Ok)
  note F = fga_Ok[OF fg] and G = grant_Ok[OF gr]
  have "s8 = s7\<lparr>s_hist := s_hist s8\<rparr> \<and>
      (if known then up_gate (s_core s7) (s_tool s7) (s_hist s7) (s_hist s8) else s_hist s8 = s_hist s7)"
    using up by (auto simp: sret_def dest!: up_Ok)
  note U = this and I = intent_Ok[OF it]
  have same: "s_core s8 = s_core s" "s_core s7 = s_core s" "s_core s6 = s_core s" "s_core s5 = s_core s"
    "s_tool s8 = tool_of (s_core s) procedure" "s_tool s7 = tool_of (s_core s) procedure"
    "s_tool s6 = tool_of (s_core s) procedure" "s_tool s5 = tool_of (s_core s) procedure"
    "ev_ID (s_ev s8) = ev_ID (s_ev s)" "s_hist s5 = s_hist s" "s_red s8 = s_red s"
    using frame_fields[OF conjunct1[OF F]] frame_fields[OF conjunct1[OF U]] G L s5(2) by simp_all
  have gates: "fga_gate (s_core s) p (tool_of (s_core s) procedure) req (s_hist s) (s_hist s6)"
    "grant_gate (s_core s) x p (tool_of (s_core s) procedure) req (s_hist s6) (s_hist s7)"
    "if lookup_tool (s_core s) procedure = None then s_hist s8 = s_hist s7
     else up_gate (s_core s) (tool_of (s_core s) procedure) (s_hist s7) (s_hist s8)"
    "intent_gate (s_core s) (tool_of (s_core s) procedure) (ev_ID (s_ev s)) (s_hist s8) (s_hist s')"
    using conjunct2[OF F] G conjunct2[OF U] conjunct2[OF I] L(1) m unfolding same
    by (auto split: if_split_asm)
  have "front_gates E (s_core s) x p procedure req (ev_ID (s_ev s)) (s_hist s) (s_hist s')"
    unfolding front_gates_def using L(2) s5(3,4) gates by blast
  then show ?thesis using s5(1) frame_fields[OF conjunct1[OF I]] same by simp
qed

section \<open>The whole body\<close>

lemma sbind_assoc: "sbind (sbind m f) g = sbind m (\<lambda>a. sbind (f a) g)"
  by (rule ext) (auto simp: sbind_def split: step.splits prod.splits)

definition before_ok ::
  "env \<Rightarrow> rule_pkg \<Rightarrow> gctx \<Rightarrow> principal \<Rightarrow> string \<Rightarrow> pmsg option \<Rightarrow> resolver option \<Rightarrow> pmsg option st" where
  "before_ok E R x p procedure reqo fn =
     sbind (chain_front E R x p procedure reqo) (\<lambda>req.
       sbind (resolveStep E x p procedure req fn) (chain_back E x p))"

lemma body_before:
  "chain_body E R x (Some p) procedure reqo fn = sbind (before_ok E R x p procedure reqo fn) mark_ok"
  by (simp add: chain_body_def before_ok_def sbind_assoc)

lemma open_effects:
  "front_effect e \<Longrightarrow> \<not> closing_effect e" "is_resolve e \<Longrightarrow> \<not> closing_effect e"
  "back_effect e \<Longrightarrow> \<not> closing_effect e"
  by (cases e; simp)+

lemma lawful_before: "lawful_step (\<lambda>e. \<not> closing_effect e) (before_ok E R x p procedure reqo fn)"
  unfolding before_ok_def
  by (intro lawful_sbind lawful_mono[OF lawful_front] lawful_mono[OF lawful_resolve]
      lawful_mono[OF lawful_back] open_effects)

interpretation before: lawful_step "\<lambda>e. \<not> closing_effect e" "before_ok E R x p procedure reqo fn"
  for E R x p procedure reqo fn
  by (rule lawful_before)

fun row_reads :: "'a step \<Rightarrow> event \<Rightarrow> bool" where
  "row_reads (Ok a) ev = (ev_Outcome ev = OutcomeOK)"
| "row_reads (Fail e) ev = (ev_Outcome ev \<noteq> OutcomeOK \<and> ev_ErrorDetail ev \<noteq> DNone)"
| "row_reads (Boom p) ev = True"

lemma body_law:
  assumes "chain_body E R x po procedure reqo fn s = (r, s')" "ev_Outcome (s_ev s) = OutcomeDenied"
  shows "framed (\<lambda>e. \<not> closing_effect e) s s' \<and> row_reads r (s_ev s')"
proof (cases po)
  case None
  then show ?thesis using assms by (auto simp: chain_body_def srefuse_def framed_def)
next
  case (Some p)
  obtain r1 s1 where b: "before_ok E R x p procedure reqo fn s = (r1, s1)" by (metis surj_pair)
  note l = before.law[OF b]
  have e: "(r, s') = (case r1 of Ok a \<Rightarrow> mark_ok a s1 | Fail e \<Rightarrow> (Fail e, s1) | Boom q \<Rightarrow> (Boom q, s1))"
    using assms(1) b by (simp add: Some body_before sbind_def split: step.splits)
  show ?thesis
    using l e assms(2) by (cases r1) (auto simp: mark_ok_def framed_def)
qed

section \<open>The deferred function\<close>

fun is_row :: "effect \<Rightarrow> bool" where
  "is_row (ERecord ev) = True"
| "is_row _ = False"

definition after_row :: "effect \<Rightarrow> bool" where
  "after_row e \<longleftrightarrow> closing_effect e \<and> \<not> is_row e"

lemma recordRow_grown: "grown after_row (ERecord ev # h) (recordRow c ev h)"
  unfolding grown_def recordRow_def Let_def
  by (auto simp: after_row_def split: call.splits option.splits)

lemma auditOutcome_grown: "auditOutcome c t ev h = (q, h') \<Longrightarrow> grown after_row h h'"
  unfolding grown_def auditOutcome_def
  by (auto simp: after_row_def split: call.splits option.splits if_splits)

lemma auditOutcome_panics:
  "auditOutcome c t ev h = (Some q, h') \<Longrightarrow> \<exists>a. c_audit c = Some a \<and> as_Write a h ev = Panics q"
  unfolding auditOutcome_def by (auto split: call.splits option.splits if_splits)

lemma finish_cases:
  obtains ans ev q h' where "settle r (s_ev s) = (ans, ev)"
    "auditOutcome (s_core s) (s_tool s) ev (recordRow (s_core s) ev (s_hist s)) = (q, h')"
    "o_hist (finish x r s) = h'" "grown after_row (ERecord ev # s_hist s) h'"
    "o_answer (finish x r s) = (case q of Some z \<Rightarrow> Repanicked z | None \<Rightarrow> ans)"
    "o_eventID (finish x r s) = (if x_EventID x then Some (ev_ID ev) else None)"
    "o_core (finish x r s) = s_core s" "o_red (finish x r s) = s_red s"
proof -
  obtain ans ev where st: "settle r (s_ev s) = (ans, ev)" by (metis surj_pair)
  obtain q h' where ao:
    "auditOutcome (s_core s) (s_tool s) ev (recordRow (s_core s) ev (s_hist s)) = (q, h')"
    by (metis surj_pair)
  show thesis
    by (rule that[OF st ao])
      (use grown_trans[OF recordRow_grown auditOutcome_grown[OF ao]] st ao
        in \<open>simp_all add: finish_def\<close>)
qed

lemma settle_attribution: "settle r ev = (ans, ev') \<Longrightarrow> attribution ev' = attribution ev"
  by (auto simp: settle_def split: step.splits panic.splits)

lemma bare_audit: "bare c = bare d \<Longrightarrow> c_audit c = c_audit d"
  unfolding bare_def by (drule arg_cong[of _ _ c_audit]) simp

lemma start_sel [simp]:
  "s_hist (start E c h po procedure) = h" "s_core (start E c h po procedure) = c"
  "s_ev (start E c h po procedure) = newEvent E c h po procedure"
  "s_tool (start E c h po procedure) = zero_tool" "s_red (start E c h po procedure) = None"
  by (simp_all add: start_def)

lemma newEvent_sel [simp]:
  "ev_Outcome (newEvent E c h po procedure) = OutcomeDenied"
  "ev_ID (newEvent E c h po procedure) = en_NewEventID E h"
  "ev_ErrorDetail (newEvent E c h po procedure) = DNone"
  by (cases po; simp add: newEvent_def Let_def)+

lemma grown_filter:
  assumes "grown (\<lambda>e. \<not> closing_effect e) h g" "grown after_row (ERecord ev # g) k"
  shows "\<exists>es. k = es @ h \<and> filter is_row es = [ERecord ev]"
proof -
  obtain a where a: "g = a @ h" "\<forall>e \<in> set a. \<not> closing_effect e"
    using assms(1) by (auto simp: grown_def)
  obtain b where b: "k = b @ ERecord ev # g" "\<forall>e \<in> set b. after_row e"
    using assms(2) by (auto simp: grown_def)
  have "filter is_row a = []" using a(2) by (fastforce simp: filter_empty_conv elim: is_row.elims)
  moreover have "filter is_row b = []" using b(2) by (auto simp: filter_empty_conv after_row_def)
  ultimately show ?thesis using a b by (intro exI[of _ "b @ ERecord ev # a"]) simp
qed

text \<open>What the call came to before the deferred function wrote anything down.\<close>

definition decided ::
  "env \<Rightarrow> rule_pkg \<Rightarrow> core \<Rightarrow> hist \<Rightarrow> gctx \<Rightarrow> principal option \<Rightarrow> string \<Rightarrow> pmsg option \<Rightarrow> resolver option \<Rightarrow> answer" where
  "decided E R c h x po procedure reqo fn =
     (case chain_body E R x po procedure reqo fn (start E c h po procedure) of
        (r, s) \<Rightarrow> fst (settle r (s_ev s)))"

text \<open>
  C6: Every call leaves exactly one ledger row, whatever happened to it, and the row tells the truth:
  it carries the id minted for the call and the caller it was attributed to; it reads OK exactly when
  the chain came to an answer; a refusal's row says why; and the chain panics by itself only for an
  aborted connection, which the row says. The caller gets what the chain came to, unless the audit sink
  panics when it is handed the outcome, after the row was written: then the caller gets that panic.
\<close>

theorem one_row_per_call:
  "\<exists>es ev. o_hist (invoke E R c h x po procedure reqo fn) = es @ h \<and>
     filter is_row es = [ERecord ev] \<and>
     attribution ev = attribution (newEvent E c h po procedure) \<and>
     o_eventID (invoke E R c h x po procedure reqo fn) =
       (if x_EventID x then Some (ev_ID ev) else None) \<and>
     (ev_Outcome ev = OutcomeOK \<longleftrightarrow> (\<exists>m. decided E R c h x po procedure reqo fn = Answered m)) \<and>
     (case decided E R c h x po procedure reqo fn of
        Answered m \<Rightarrow> ev_Outcome ev = OutcomeOK
      | Refused e \<Rightarrow> ev_Outcome ev \<noteq> OutcomeOK \<and> ev_ErrorDetail ev \<noteq> DNone
      | Repanicked q \<Rightarrow> q = AbortHandler \<and> ev_Outcome ev = OutcomeError \<and> ev_ErrorDetail ev = DAborted) \<and>
     (o_answer (invoke E R c h x po procedure reqo fn) = decided E R c h x po procedure reqo fn \<or>
      (\<exists>a g q. c_audit c = Some a \<and> as_Write a g ev = Panics q \<and>
         o_answer (invoke E R c h x po procedure reqo fn) = Repanicked q))"
proof -
  obtain r s where body: "chain_body E R x po procedure reqo fn (start E c h po procedure) = (r, s)"
    by (metis surj_pair)
  then have inv: "invoke E R c h x po procedure reqo fn = finish x r s" by (simp add: invoke_def)
  have fr: "framed (\<lambda>e. \<not> closing_effect e) (start E c h po procedure) s" and rd: "row_reads r (s_ev s)"
    using body_law[OF body] by simp_all
  show ?thesis
  proof (cases rule: finish_cases[of r s x])
    case (1 ans ev q h')
    have attr: "attribution ev = attribution (newEvent E c h po procedure)"
      using settle_attribution[OF 1(1)] fr by (simp add: framed_def)
    obtain es where es: "h' = es @ h" "filter is_row es = [ERecord ev]"
      using grown_filter[OF _ 1(4)] fr by (auto simp: framed_def)
    have "bare (s_core s) = bare c" using fr by (simp add: framed_def)
    then have au: "c_audit (s_core s) = c_audit c" by (rule bare_audit)
    have dec: "decided E R c h x po procedure reqo fn = ans" using body 1(1) by (simp add: decided_def)
    have said: "case ans of
        Answered m \<Rightarrow> ev_Outcome ev = OutcomeOK
      | Refused e \<Rightarrow> ev_Outcome ev \<noteq> OutcomeOK \<and> ev_ErrorDetail ev \<noteq> DNone
      | Repanicked q \<Rightarrow> q = AbortHandler \<and> ev_Outcome ev = OutcomeError \<and> ev_ErrorDetail ev = DAborted"
      using 1(1) rd by (auto simp: settle_def split: step.splits panic.splits)
    then have ok: "ev_Outcome ev = OutcomeOK \<longleftrightarrow> (\<exists>m. ans = Answered m)" by (cases ans) auto
    have "o_answer (finish x r s) = ans \<or> (\<exists>a g z. c_audit c = Some a \<and> as_Write a g ev = Panics z \<and>
        o_answer (finish x r s) = Repanicked z)"
    proof (cases q)
      case None
      then show ?thesis using 1(5) by simp
    next
      case (Some z)
      then show ?thesis
        using auditOutcome_panics[of "s_core s" "s_tool s" ev _ z h'] 1(2,5) au by auto
    qed
    moreover have "o_hist (finish x r s) = es @ h" using 1(3) es(1) by simp
    ultimately show ?thesis
      unfolding inv dec using es(2) attr 1(6) ok said by (intro exI[of _ es] exI[of _ ev] conjI)
  qed
qed

section \<open>What the resolver is behind\<close>

lemma resolve_hist:
  "resolveStep E x p procedure req fn s = (r, s') \<Longrightarrow>
     (fn = None \<and> s_hist s' = s_hist s) \<or>
     (\<exists>f. fn = Some f \<and> s_hist s' =
        EResolve procedure req (invocationContext E x p (s_hist s) (ev_ID (s_ev s))) # s_hist s)"
  by (auto simp: resolveStep_def resolve_def step_defs
      split: option.splits call.splits prod.splits ranswer.splits)

abbreviation quiet :: "hist \<Rightarrow> hist \<Rightarrow> bool" where
  "quiet \<equiv> grown (\<lambda>e. \<not> is_resolve e)"

lemma quiet_front: "grown front_effect h h' \<Longrightarrow> quiet h h'"
  by (erule grown_mono) (auto elim: front_effect.elims)

lemma quiet_back: "grown back_effect h h' \<Longrightarrow> quiet h h'"
  by (erule grown_mono) (auto elim: back_effect.elims)

lemma quiet_row: "grown after_row (ERecord ev # h) h' \<Longrightarrow> quiet h h'"
proof -
  assume "grown after_row (ERecord ev # h) h'"
  then have "quiet (ERecord ev # h) h'"
    by (rule grown_mono) (auto simp: after_row_def elim: closing_effect.elims)
  moreover have "quiet h (ERecord ev # h)" by (rule grown_one) simp
  ultimately show ?thesis using grown_trans by blast
qed

lemma back_quiet:
  "sbind (chain_back E x p respo) mark_ok s = (r, s') \<Longrightarrow> quiet (s_hist s) (s_hist s')"
proof -
  assume run: "sbind (chain_back E x p respo) mark_ok s = (r, s')"
  obtain r1 s1 where b: "chain_back E x p respo s = (r1, s1)" by (metis surj_pair)
  have "quiet (s_hist s) (s_hist s1)" using quiet_back[OF tail.effects[OF b]] .
  moreover have "s_hist s' = s_hist s1"
    using run b by (cases r1) (auto simp: sbind_def mark_ok_def)
  ultimately show ?thesis by simp
qed

lemma resolve_tool: "resolveStep E x p procedure req fn s = (r, s') \<Longrightarrow> s_tool s' = s_tool s"
  by (auto simp: resolveStep_def resolve_def step_defs
      split: option.splits call.splits prod.splits ranswer.splits)

lemma fgaPost_tool: "fgaPost p resp s = (r, s') \<Longrightarrow> s_tool s' = s_tool s"
  by (auto simp: fgaPost_def step_defs split: option.splits call.splits fga_post.splits)

lemma sanitize_tool: "sanitize E x p resp s = (r, s') \<Longrightarrow> s_tool s' = s_tool s"
  by (auto simp: sanitize_def projectStep_def note_sanitized_def step_defs Let_def
      split: option.splits prod.splits bool.splits if_splits)

lemma back_tool: "sbind (chain_back E x p respo) mark_ok s = (r, s') \<Longrightarrow> s_tool s' = s_tool s"
  by (auto simp: chain_back_def sbind_def sret_def mark_ok_def
      split: option.splits prod.splits step.splits dest!: fgaPost_tool sanitize_tool)

lemma resolved_tool:
  "sbind (resolveStep E x p procedure req fn) (\<lambda>a. sbind (chain_back E x p a) mark_ok) s = (r, s') \<Longrightarrow>
     s_tool s' = s_tool s"
proof -
  assume run: "sbind (resolveStep E x p procedure req fn)
      (\<lambda>a. sbind (chain_back E x p a) mark_ok) s = (r, s')"
  obtain r1 s1 where b: "resolveStep E x p procedure req fn s = (r1, s1)" by (metis surj_pair)
  have "s_tool s' = s_tool s1"
  proof (cases r1)
    case (Ok a)
    then have "sbind (chain_back E x p a) mark_ok s1 = (r, s')" using run b by (simp add: sbind_def)
    then show ?thesis by (rule back_tool)
  qed (use run b in \<open>simp_all add: sbind_def\<close>)
  then show ?thesis using resolve_tool[OF b] by simp
qed

lemma resolved_quiet:
  assumes "sbind (resolveStep E x p procedure req fn) (\<lambda>a. sbind (chain_back E x p a) mark_ok) s = (r, s')"
  shows "quiet (s_hist s) (s_hist s') \<or>
     (\<exists>f. fn = Some f \<and>
        quiet (EResolve procedure req (invocationContext E x p (s_hist s) (ev_ID (s_ev s))) # s_hist s)
          (s_hist s'))"
proof -
  obtain r1 s1 where b: "resolveStep E x p procedure req fn s = (r1, s1)" by (metis surj_pair)
  have "quiet (s_hist s1) (s_hist s')"
  proof (cases r1)
    case (Ok a)
    then have "sbind (chain_back E x p a) mark_ok s1 = (r, s')" using assms b by (simp add: sbind_def)
    then show ?thesis by (rule back_quiet)
  qed (use assms b in \<open>simp_all add: sbind_def\<close>)
  then show ?thesis using resolve_hist[OF b] by auto
qed

lemma body_resolves:
  assumes "chain_body E R x po procedure reqo fn (start E c h po procedure) = (r, s')"
  obtains "quiet h (s_hist s')"
  | p req f g where "po = Some p" "reqo = Some req" "fn = Some f" "quiet h g"
      "front_gates E c x p procedure req (en_NewEventID E h) h g"
      "quiet (EResolve procedure req (invocationContext E x p g (en_NewEventID E h)) # g) (s_hist s')"
      "s_tool s' = tool_of c procedure"
proof (cases po)
  case None
  then show thesis using assms that(1) by (auto simp: chain_body_def srefuse_def)
next
  case (Some p)
  let ?s = "start E c h (Some p) procedure"
  obtain r1 s1 where b: "chain_front E R x p procedure reqo ?s = (r1, s1)" by (metis surj_pair)
  have q: "quiet h (s_hist s1)" using quiet_front[OF front.effects[OF b]] by simp
  show thesis
  proof (cases r1)
    case (Ok req)
    note F = front_Ok[OF b[unfolded Ok], simplified]
    have "sbind (resolveStep E x p procedure req fn) (\<lambda>a. sbind (chain_back E x p a) mark_ok) s1 = (r, s')"
      using assms b Ok Some by (simp add: chain_body_def sbind_def)
    from resolved_quiet[OF this] resolved_tool[OF this] show thesis
    proof (elim disjE exE conjE)
      assume "quiet (s_hist s1) (s_hist s')" "s_tool s' = s_tool s1"
      then show thesis using that(1)[OF grown_trans[OF q]] by blast
    next
      fix f assume f: "fn = Some f" and z: "quiet (EResolve procedure req
          (invocationContext E x p (s_hist s1) (ev_ID (s_ev s1))) # s_hist s1) (s_hist s')"
        and tl: "s_tool s' = s_tool s1"
      have i: "ev_ID (s_ev s1) = en_NewEventID E h" using F by simp
      show thesis
        by (rule that(2)[OF Some _ f q _ z[unfolded i]]) (use F tl in simp_all)
    qed
  qed (use assms b Some q that(1) in \<open>simp_all add: chain_body_def sbind_def\<close>)
qed

lemma split_at_unique:
  assumes "quiet h g" "quiet (z # g) k" "is_resolve z" "k = es @ h"
  shows "\<exists>post pre. es = post @ z # pre \<and> g = pre @ h \<and> (\<forall>e \<in> set (post @ pre). \<not> is_resolve e)"
proof -
  obtain pre where pre: "g = pre @ h" "\<forall>e \<in> set pre. \<not> is_resolve e"
    using assms(1) by (auto simp: grown_def)
  obtain post where post: "k = post @ z # g" "\<forall>e \<in> set post. \<not> is_resolve e"
    using assms(2) by (auto simp: grown_def)
  have "es = post @ z # pre" using pre(1) post(1) assms(4) by simp
  then show ?thesis using pre post by auto
qed

lemma gate_prefix:
  "fga_gate c p t req h h' \<Longrightarrow> \<exists>l. h' = l @ h" "grant_gate c x p t req h h' \<Longrightarrow> \<exists>l. h' = l @ h"
  "up_gate c t h h' \<Longrightarrow> \<exists>l. h' = l @ h"
  by (auto simp: fga_gate_def grant_gate_def up_gate_def split: option.splits)

lemma front_gates_intent:
  assumes "front_gates E c x p procedure req i h h'"
  obtains l where "intent_gate c (tool_of c procedure) i (l @ h) h'"
proof -
  obtain h1 h2 h3 where g: "fga_gate c p (tool_of c procedure) req h h1"
    "grant_gate c x p (tool_of c procedure) req h1 h2"
    "if lookup_tool c procedure = None then h3 = h2 else up_gate c (tool_of c procedure) h2 h3"
    "intent_gate c (tool_of c procedure) i h3 h'"
    using assms unfolding front_gates_def by blast
  obtain a b where "h1 = a @ h" "h2 = b @ h1" using gate_prefix(1)[OF g(1)] gate_prefix(2)[OF g(2)] by blast
  moreover have "\<exists>l. h3 = l @ h2" using g(3) gate_prefix(3)
    by (cases "lookup_tool c procedure = None") auto
  ultimately obtain l where "h3 = l @ h" by auto
  then show thesis using that g(4) by blast
qed

lemma audit_in_post:
  assumes "auditOutcome c t ev h1 = (q, post @ EResolve pr m ic # g)" "c_audit c = Some a"
    "t_AuditLevel t = LEVEL_AUDIT"
  shows "EAuditOutcome ev \<in> set post"
proof (cases post)
  case Nil
  then show ?thesis using assms by (auto simp: auditOutcome_def split: call.splits option.splits)
next
  case (Cons y ys)
  then show ?thesis using assms
    by (cases ys) (auto simp: auditOutcome_def split: call.splits option.splits)
qed

lemma invoke_resolves:
  assumes "o_hist (invoke E R c h x po procedure reqo fn) = es @ h"
    and "EResolve pr m ic \<in> set es"
  obtains p post pre ev c' h1 q where "po = Some p" "reqo = Some m" "pr = procedure" "fn \<noteq> None"
    "es = post @ EResolve procedure m ic # pre" "\<forall>e \<in> set (post @ pre). \<not> is_resolve e"
    "front_gates E c x p procedure m (en_NewEventID E h) h (pre @ h)"
    "ic = invocationContext E x p (pre @ h) (en_NewEventID E h)"
    "c_audit c' = c_audit c" "attribution ev = attribution (newEvent E c h po procedure)"
    "auditOutcome c' (tool_of c procedure) ev (recordRow c' ev h1) = (q, es @ h)"
proof -
  obtain r s where body: "chain_body E R x po procedure reqo fn (start E c h po procedure) = (r, s)"
    by (metis surj_pair)
  have fr: "framed (\<lambda>e. \<not> closing_effect e) (start E c h po procedure) s"
    using body_law[OF body] by simp
  obtain ans ev q where fin: "settle r (s_ev s) = (ans, ev)"
    "auditOutcome (s_core s) (s_tool s) ev (recordRow (s_core s) ev (s_hist s)) = (q, es @ h)"
    "grown after_row (ERecord ev # s_hist s) (es @ h)"
    using assms(1) body by (cases rule: finish_cases[of r s x]) (auto simp: invoke_def)
  note quiet_end = quiet_row[OF fin(3)]
  have ctx: "c_audit (s_core s) = c_audit c" "attribution ev = attribution (newEvent E c h po procedure)"
    using fr settle_attribution[OF fin(1)] bare_audit[of "s_core s" c] by (simp_all add: framed_def)
  from body show thesis
  proof (cases rule: body_resolves)
    case 1
    then have "quiet h (es @ h)" using quiet_end grown_trans by blast
    then show thesis using assms(2) by (auto simp: grown_def)
  next
    case (2 p req f g)
    let ?z = "EResolve procedure req (invocationContext E x p g (en_NewEventID E h))"
    have "quiet (?z # g) (es @ h)" using 2(6) quiet_end grown_trans by blast
    from split_at_unique[OF 2(4) this] obtain post pre where
      sp: "es = post @ ?z # pre" "g = pre @ h" "\<forall>e \<in> set (post @ pre). \<not> is_resolve e"
      by auto
    have "is_resolve (EResolve pr m ic)" by simp
    then have "EResolve pr m ic \<notin> set (post @ pre)" using sp(3) by blast
    then have z: "EResolve pr m ic = ?z" using assms(2) sp(1) by simp
    show thesis
      by (rule that[OF 2(1) _ _ _ _ sp(3) _ _ ctx fin(2)[unfolded 2(7)]])
        (use 2(1-3,5) sp z in simp_all)
  qed
qed

text \<open>
  C1: The resolver of a call runs at most once, and only behind every gate. If it ran, then: there
  was a principal; a known tool was visible to it; the request sets no field it may not write; the
  validator accepted the request; and, in this order, instance authorization, the grant verifier, the
  availability of the tool and the audit write-ahead were each asked and each let the call pass (a
  fail-closed tool's intent row was written). It was handed the very request that was checked, and the
  call id of the ledger row.
\<close>

theorem resolver_behind_gates:
  assumes "o_hist (invoke E R c h x po procedure reqo fn) = es @ h"
    and "EResolve pr m ic \<in> set es"
  shows "\<exists>p post pre. po = Some p \<and> reqo = Some m \<and> pr = procedure \<and> fn \<noteq> None \<and>
     es = post @ EResolve procedure m ic # pre \<and> (\<forall>e \<in> set (post @ pre). \<not> is_resolve e) \<and>
     front_gates E c x p procedure m (en_NewEventID E h) h (pre @ h) \<and>
     ic = invocationContext E x p (pre @ h) (en_NewEventID E h)"
  using assms by (cases rule: invoke_resolves) (blast intro: sym)

text \<open>
  The audit write-ahead brackets the tool's run. If the resolver of an audited tool ran, the last
  thing the chain did before it was to write the intent row under the call's id, and the write
  succeeded if the tool is fail-closed; and after it the same call's outcome row went to the sink.
\<close>

theorem audit_brackets_the_call:
  assumes "o_hist (invoke E R c h x po procedure reqo fn) = es @ h" "EResolve pr m ic \<in> set es"
    and "c_audit c = Some a" "t_AuditLevel (tool_of c procedure) = LEVEL_AUDIT"
  shows "\<exists>post pre row r ev.
     es = post @ EResolve procedure m ic # EAuditIntent row # pre \<and>
     ev_Outcome row = OutcomeIntent \<and> ev_ID row = en_NewEventID E h \<and>
     as_Write a (pre @ h) row = Returns r \<and> (t_AuditFailClosed (tool_of c procedure) \<longrightarrow> r = None) \<and>
     EAuditOutcome ev \<in> set post \<and> attribution ev = attribution (newEvent E c h po procedure)"
  using assms(1,2)
proof (cases rule: invoke_resolves)
  case (1 p post pre ev c' h1 q)
  obtain pre' where "intent_gate c (tool_of c procedure) (en_NewEventID E h) (pre' @ h) (pre @ h)"
    using front_gates_intent[OF 1(7)] .
  then obtain row r where it: "ev_ID row = en_NewEventID E h" "ev_Outcome row = OutcomeIntent"
    "as_Write a (pre' @ h) row = Returns r" "t_AuditFailClosed (tool_of c procedure) \<longrightarrow> r = None"
    "pre = EAuditIntent row # pre'"
    using assms(3,4) unfolding intent_gate_def by auto
  have "auditOutcome c' (tool_of c procedure) ev (recordRow c' ev h1) =
      (q, post @ EResolve procedure m ic # (pre @ h))"
    using 1(5,11) by simp
  from audit_in_post[OF this] 1(9) assms(3,4) have "EAuditOutcome ev \<in> set post" by simp
  then show ?thesis using it 1(5,10) by blast
qed

section \<open>What an answer is made of\<close>

lemma sanitized_Ok:
  "sbind (note_sanitized x rs paths) (\<lambda>u. sret m) s = (Ok a, s') \<Longrightarrow>
     a = m \<and> s_red s' = (if x_Redactions x then Some (paths, rs_Hash rs) else s_red s) \<and>
     ev_RedactionCount (s_ev s') = length paths"
  by (auto simp: note_sanitized_def sbind_def sret_def)

text \<open>The card step: what is served when the response type can hold a card, and when it cannot.\<close>

definition carded ::
  "env \<Rightarrow> core \<Rightarrow> principal \<Rightarrow> tooldef \<Rightarrow> pmsg \<Rightarrow> pmsg \<Rightarrow> string list \<Rightarrow> bool" where
  "carded E c p t m m' w \<longleftrightarrow>
     (if contains_card (en_Pool E) (pm_desc m)
      then projectCards E c p t m = (\<lparr>cr_withheld = w, cr_invalid = None, cr_gone = False\<rparr>, m')
      else m' = m \<and> w = [])"

definition memo_ok :: "env \<Rightarrow> core \<Rightarrow> bool" where
  "memo_ok E c \<longleftrightarrow> (\<forall>d b. c_cards c d = Some b \<longrightarrow> b = contains_card (en_Pool E) d)"

lemma core_ok_memo: "core_ok E c \<Longrightarrow> memo_ok E c"
  by (simp add: core_ok_def memo_ok_def)

lemma cardsIn_ok:
  "cardsIn E c d = (b, c') \<Longrightarrow> memo_ok E c \<Longrightarrow> b = contains_card (en_Pool E) d \<and> memo_ok E c'"
  by (auto simp: cardsIn_def memo_ok_def split: option.splits if_split_asm)

lemma project_bare: "bare c' = bare c \<Longrightarrow> projectCards E c' = projectCards E c"
proof -
  assume "bare c' = bare c"
  then have "c_reg c' = c_reg c" unfolding bare_def by (auto dest: arg_cong[of _ _ c_reg])
  then have "reaches E c' = reaches E c" by (intro ext) (simp add: reaches_def cong: option.case_cong)
  then show ?thesis unfolding projectCards_def by (simp only:)
qed

lemma project_Ok:
  assumes "projectStep E x p rs m paths s = (Ok a, s')" "memo_ok E (s_core s)"
  shows "\<exists>w. carded E (s_core s) p (s_tool s) m a w \<and>
     s_red s' = (if x_Redactions x then Some (paths @ w, rs_Hash rs) else s_red s) \<and>
     ev_RedactionCount (s_ev s') = length (paths @ w)"
proof -
  obtain b c' where c: "cardsIn E (s_core s) (pm_desc m) = (b, c')" by (metis surj_pair)
  note ok = cardsIn_ok[OF c assms(2)] and bare = cardsIn_bare[OF c]
  show ?thesis
  proof (cases b)
    case False
    then have "sbind (note_sanitized x rs paths) (\<lambda>u. sret m) (s\<lparr>s_core := c'\<rparr>) = (Ok a, s')"
      using assms(1) c by (simp add: projectStep_def)
    from sanitized_Ok[OF this] show ?thesis
      using False ok by (intro exI[of _ "[]"]) (simp add: carded_def)
  next
    case True
    obtain res m' where pr: "projectCards E c' p (s_tool s) m = (res, m')" by (metis surj_pair)
    have served: "cr_invalid res = None" "\<not> cr_gone res"
      using assms(1) c True pr by (auto simp: projectStep_def srefuse_def split: option.splits if_splits)
    then have "sbind (note_sanitized x rs (paths @ cr_withheld res)) (\<lambda>u. sret m')
        (s\<lparr>s_core := c'\<rparr>) = (Ok a, s')"
      using assms(1) c True pr by (simp add: projectStep_def)
    note S = sanitized_Ok[OF this]
    have "res = \<lparr>cr_withheld = cr_withheld res, cr_invalid = None, cr_gone = False\<rparr>"
      using served by (cases res) simp
    then have "carded E (s_core s) p (s_tool s) m a (cr_withheld res)"
      using True ok pr S by (simp add: carded_def project_bare[OF bare])
    then show ?thesis using S by (intro exI[of _ "cr_withheld res"]) simp
  qed
qed

definition plan_applied :: "env \<Rightarrow> core \<Rightarrow> principal \<Rightarrow> pmsg \<Rightarrow> pmsg \<Rightarrow> string list \<Rightarrow> string \<Rightarrow> bool" where
  "plan_applied E c p raw m paths hsh \<longleftrightarrow>
     (\<exists>pl rs. PlanFor c (pm_desc raw) = Some pl \<and>
        rs = pk_Resolve (en_Policy E) pl (fst (Shape p)) (snd (Shape p)) \<and> rs_Hash rs = hsh \<and>
        pk_Sanitize (en_Policy E) raw rs (c_hashKey c) (p_Tenant p) = (m, paths))"

lemma sanitize_Ok:
  assumes "sanitize E x p raw s = (Ok a, s')" "memo_ok E (s_core s)"
  shows "\<exists>m paths w hsh. plan_applied E (s_core s) p raw m paths hsh \<and>
     carded E (s_core s) p (s_tool s) m a w \<and>
     s_red s' = (if x_Redactions x then Some (paths @ w, hsh) else s_red s) \<and>
     ev_RedactionCount (s_ev s') = length (paths @ w)"
proof -
  obtain pl where pl: "PlanFor (s_core s) (pm_desc raw) = Some pl"
    using assms(1) by (auto simp: sanitize_def srefuse_def split: option.splits)
  let ?rs = "pk_Resolve (en_Policy E) pl (fst (Shape p)) (snd (Shape p))"
  obtain m paths where sz:
    "pk_Sanitize (en_Policy E) raw ?rs (c_hashKey (s_core s)) (p_Tenant p) = (m, paths)"
    by (metis surj_pair)
  have "projectStep E x p ?rs m paths (s\<lparr>s_hist := ESanitize raw # s_hist s\<rparr>) = (Ok a, s')"
    using assms(1) pl sz by (simp add: sanitize_def Let_def)
  from project_Ok[OF this] assms(2) obtain w where
    "carded E (s_core s) p (s_tool s) m a w"
    "s_red s' = (if x_Redactions x then Some (paths @ w, rs_Hash ?rs) else s_red s)"
    "ev_RedactionCount (s_ev s') = length (paths @ w)" by auto
  moreover have "plan_applied E (s_core s) p raw m paths (rs_Hash ?rs)"
    using pl sz by (auto simp: plan_applied_def)
  ultimately show ?thesis by blast
qed

lemma resolveStep_Ok:
  "resolveStep E x p procedure req fn s = (Ok (Some m), s') \<Longrightarrow>
     \<exists>f ic. fn = Some f \<and> f (s_hist s) ic req = Returns (RMsg m) \<and> s_core s' = s_core s \<and>
       s_tool s' = s_tool s \<and> s_red s' = s_red s"
  by (auto simp: resolveStep_def resolve_def step_defs
      split: option.splits call.splits prod.splits ranswer.splits)

definition post_filtered :: "core \<Rightarrow> principal \<Rightarrow> tooldef \<Rightarrow> pmsg \<Rightarrow> pmsg \<Rightarrow> bool" where
  "post_filtered c p t raw m \<longleftrightarrow>
     (case c_fga c of None \<Rightarrow> m = raw | Some f \<Rightarrow> \<exists>h. fga_Post f h p t raw = Returns (PostSame m))"

lemma fgaPost_Ok:
  "fgaPost p raw s = (Ok m, s') \<Longrightarrow>
     post_filtered (s_core s) p (s_tool s) raw m \<and> s_core s' = s_core s \<and> s_tool s' = s_tool s \<and>
     s_red s' = s_red s"
  by (auto simp: fgaPost_def step_defs post_filtered_def
      split: option.splits call.splits fga_post.splits)

lemma back_Ok:
  assumes "sbind (chain_back E x p respo) mark_ok s = (Ok (Some a), s')"
    and "memo_ok E (s_core s)" "s_red s = None"
  shows "\<exists>raw m1 m2 paths w hsh. respo = Some raw \<and> post_filtered (s_core s) p (s_tool s) raw m1 \<and>
     plan_applied E (s_core s) p m1 m2 paths hsh \<and> carded E (s_core s) p (s_tool s) m2 a w \<and>
     s_red s' = (if x_Redactions x then Some (paths @ w, hsh) else None)"
proof -
  obtain raw where raw: "respo = Some raw"
    using assms(1) by (cases respo) (auto simp: chain_back_def sbind_Ok sret_def mark_ok_def)
  obtain m1 s1 s2 where st: "fgaPost p raw s = (Ok m1, s1)" "sanitize E x p m1 s1 = (Ok a, s2)"
    "s_red s' = s_red s2"
    using assms(1) raw by (auto simp: chain_back_def sbind_Ok sret_def mark_ok_def)
  note F = fgaPost_Ok[OF st(1)]
  from sanitize_Ok[OF st(2)] F assms(2,3) obtain m2 paths w hsh where
    "plan_applied E (s_core s) p m1 m2 paths hsh" "carded E (s_core s) p (s_tool s) m2 a w"
    "s_red s2 = (if x_Redactions x then Some (paths @ w, hsh) else None)" by auto
  then show ?thesis using raw F st(3) by auto
qed

section \<open>The properties of an answer\<close>

lemma answered_body:
  assumes "o_answer (invoke E R c h x po procedure reqo fn) = Answered a"
  obtains s where
    "chain_body E R x po procedure reqo fn (start E c h po procedure) = (Ok a, s)"
    "o_red (invoke E R c h x po procedure reqo fn) = s_red s"
proof -
  obtain r s where body: "chain_body E R x po procedure reqo fn (start E c h po procedure) = (r, s)"
    by (metis surj_pair)
  have inv: "invoke E R c h x po procedure reqo fn = finish x r s" by (simp add: invoke_def body)
  show thesis
  proof (cases rule: finish_cases[of r s x])
    case (1 ans ev q h')
    then have "ans = Answered a" using assms inv by (cases q) simp_all
    then have "r = Ok a" using 1(1) by (auto simp: settle_def split: step.splits panic.splits)
    then show thesis using that body inv 1(8) by simp
  qed
qed

lemma bare_fields:
  assumes "bare c' = bare c"
  shows "c_plans c' = c_plans c" "c_hashKey c' = c_hashKey c" "c_fga c' = c_fga c"
  using arg_cong[OF assms, of c_plans] arg_cong[OF assms, of c_hashKey] arg_cong[OF assms, of c_fga]
  by (simp_all add: bare_def)

text \<open>What the deployment's parts keep: messages stay well formed, of a type of the pool.\<close>

definition good_msg :: "pool \<Rightarrow> pmsg \<Rightarrow> bool" where
  "good_msg P m \<longleftrightarrow> wf_msg P m \<and> pm_desc m < length P"

definition messages_wf :: "env \<Rightarrow> core \<Rightarrow> resolver \<Rightarrow> bool" where
  "messages_wf E c f \<longleftrightarrow>
     (\<forall>g ic req m. f g ic req = Returns (RMsg m) \<longrightarrow> good_msg (en_Pool E) m) \<and>
     (\<forall>p t m m'. post_filtered c p t m m' \<longrightarrow> good_msg (en_Pool E) m \<longrightarrow> good_msg (en_Pool E) m') \<and>
     (\<forall>m rs k tn. good_msg (en_Pool E) m \<longrightarrow>
        good_msg (en_Pool E) (fst (pk_Sanitize (en_Policy E) m rs k tn)))"

lemma carded_labels:
  assumes "carded E c p t m a w" "good_msg (en_Pool E) m" "wf_pool (en_Pool E)" "card_vocab (en_Pool E)"
    and at: "card_at (en_Pool E) a k" and on: "(holds (en_Pool E))\<^sup>*\<^sup>* k n"
    and lb: "own_label (en_Pool E) n = Some l"
  shows "\<exists>l'. l = Some l' \<and> clears E c p l'"
proof (cases "contains_card (en_Pool E) (pm_desc m)")
  case True
  then have "projectCards E c p t m = (\<lparr>cr_withheld = w, cr_invalid = None, cr_gone = False\<rparr>, a)"
    using assms(1) by (simp add: carded_def)
  then show ?thesis
  proof (cases rule: projectCards_cases)
    case (served w')
    then show ?thesis using served_labels[OF _ assms(4) served(2) at on lb] assms(2)
      by (simp add: good_msg_def)
  qed simp_all
next
  case False
  then have "a = m" using assms(1) by (simp add: carded_def)
  then show ?thesis using False card_at_contains[OF at] assms(2,3) by (simp add: good_msg_def)
qed

lemma answered_parts:
  assumes "o_answer (invoke E R c h x po procedure reqo fn) = Answered (Some a)" "core_ok E c"
  obtains p req f g ic raw m1 m2 paths w hsh where "po = Some p" "reqo = Some req" "fn = Some f"
    "f g ic req = Returns (RMsg raw)" "post_filtered c p (tool_of c procedure) raw m1"
    "plan_applied E c p m1 m2 paths hsh" "carded E c p (tool_of c procedure) m2 a w"
    "o_red (invoke E R c h x po procedure reqo fn) =
       (if x_Redactions x then Some (paths @ w, hsh) else None)"
proof -
  obtain s where body: "chain_body E R x po procedure reqo fn (start E c h po procedure) = (Ok (Some a), s)"
    and red: "o_red (invoke E R c h x po procedure reqo fn) = s_red s"
    using answered_body[OF assms(1)] by blast
  obtain p where p: "po = Some p" using body by (cases po) (auto simp: chain_body_def srefuse_def)
  let ?s0 = "start E c h (Some p) procedure"
  obtain req s1 respo s2 where st: "chain_front E R x p procedure reqo ?s0 = (Ok req, s1)"
    "resolveStep E x p procedure req fn s1 = (Ok respo, s2)"
    "sbind (chain_back E x p respo) mark_ok s2 = (Ok (Some a), s)"
    using body p by (auto simp: chain_body_def sbind_Ok)
  note F = front_Ok[OF st(1), simplified]
  have memo: "memo_ok E c" using assms(2) by (rule core_ok_memo)
  obtain raw where raw: "respo = Some raw"
    using st(3) by (cases respo) (auto simp: chain_back_def sbind_Ok sret_def mark_ok_def)
  from resolveStep_Ok[OF st(2)[unfolded raw]] F obtain f ic where
    R: "fn = Some f" "f (s_hist s1) ic req = Returns (RMsg raw)" "s_core s2 = c"
    "s_tool s2 = tool_of c procedure" "s_red s2 = None" by auto
  from back_Ok[OF st(3)] core_ok_memo[OF assms(2)] R obtain m1 m2 paths w hsh where
    "post_filtered c p (tool_of c procedure) raw m1" "plan_applied E c p m1 m2 paths hsh"
    "carded E c p (tool_of c procedure) m2 a w"
    "s_red s = (if x_Redactions x then Some (paths @ w, hsh) else None)"
    by (auto simp: raw)
  with that show thesis using p F R(1,2) red by simp
qed

text \<open>
  C7: Nothing reaches the caller but what the sanitiser made of the resolver's answer. A message that
  is answered is the resolver's own message, filtered by the instance post-check, with the plan
  compiled for its live type applied under the caller's shape and tenant, and, where its type can hold
  a card, with its cards projected for the caller. The redactions reported to the surface are the
  paths of those two passes, in that order.
\<close>

theorem answer_is_sanitised:
  assumes "o_answer (invoke E R c h x po procedure reqo fn) = Answered (Some a)"
    and "core_ok E c"
  shows "\<exists>p req f g ic raw m1 m2 paths w hsh.
     po = Some p \<and> reqo = Some req \<and> fn = Some f \<and> f g ic req = Returns (RMsg raw) \<and>
     post_filtered c p (tool_of c procedure) raw m1 \<and>
     plan_applied E c p m1 m2 paths hsh \<and>
     carded E c p (tool_of c procedure) m2 a w \<and>
     o_red (invoke E R c h x po procedure reqo fn) =
       (if x_Redactions x then Some (paths @ w, hsh) else None)"
  using assms by (cases rule: answered_parts) blast

text \<open>
  No card leaves the chain holding anything its caller does not clear. Given that the library's
  sanitiser and the post-check keep messages well formed, every label on every node of every card
  in an answered message is one the caller clears.
\<close>

theorem answered_cards_cleared:
  assumes "o_answer (invoke E R c h x (Some p) procedure reqo (Some f)) = Answered (Some a)"
    and "core_ok E c" "messages_wf E c f" "wf_pool (en_Pool E)" "card_vocab (en_Pool E)"
    and "card_at (en_Pool E) a k" "(holds (en_Pool E))\<^sup>*\<^sup>* k n" "own_label (en_Pool E) n = Some l"
  shows "\<exists>l'. l = Some l' \<and> clears E c p l'"
  using assms(1,2)
proof (cases rule: answered_parts)
  case (1 p' req f' g ic raw m1 m2 paths w hsh)
  have "good_msg (en_Pool E) m1" using assms(3) 1(3-5) unfolding messages_wf_def by blast
  then have "good_msg (en_Pool E) m2"
    using assms(3) 1(6) unfolding messages_wf_def plan_applied_def by (metis fst_conv)
  then show ?thesis using carded_labels[OF 1(7) _ assms(4-8)] 1(1) by simp
qed

section \<open>Tools a caller may not see\<close>

text \<open>What a call to such a tool comes to: the deferred function, on the state of the second step.\<close>

definition unseen_row :: "env \<Rightarrow> core \<Rightarrow> hist \<Rightarrow> principal \<Rightarrow> string \<Rightarrow> tooldef \<Rightarrow> event" where
  "unseen_row E c h p procedure t =
     because (DInvisible (t_Name t) (Has (p_Verbs p) (t_Verb t))
        (pk_Allows (en_Policy E) (p_Clearance p) (t_MinClearance t))
        (pk_Covers (en_Policy E) (p_Compartments p) (need_of c (t_FullMethod t))))
       ((newEvent E c h (Some p) procedure)\<lparr>ev_Tool := t_Name t\<rparr>)"

lemma invoke_unseen:
  assumes "lookup_tool c procedure = Some t" "\<not> Visible E c (Some p) t"
  shows "invoke E R c h x (Some p) procedure reqo fn = finish x (Fail (Sentinel SNotFound))
     ((start E c h (Some p) procedure)\<lparr>s_tool := t, s_ev := unseen_row E c h p procedure t\<rparr>)"
proof -
  have "chain_front E R x p procedure reqo (start E c h (Some p) procedure) =
      (Fail (Sentinel SNotFound),
       (start E c h (Some p) procedure)\<lparr>s_tool := t, s_ev := unseen_row E c h p procedure t\<rparr>)"
    using assms by (simp add: chain_front_def sbind_def lookupStep_def srefuse_def Let_def unseen_row_def)
  then show ?thesis by (simp add: invoke_def chain_body_def sbind_def)
qed

text \<open>
  C25: A tool its caller may not see is absent, whatever the call asked for. The refusal is NotFound
  unless the audit sink panics when it is handed the outcome, and then that panic; it comes before the
  request is looked at and before any step, seam or resolver of the deployment is asked. What it leaves
  is the ledger row, which alone says which gate was missed, and what every row is followed by: the
  notification, the audit sink's outcome record and a log line, exactly as recording and auditing that
  row leave them. All of this is the same for every request and every resolver.
\<close>

theorem invisible_tool_is_absent:
  assumes "lookup_tool c procedure = Some t" "\<not> Visible E c (Some p) t"
  shows "\<exists>es ev. o_hist (invoke E R c h x (Some p) procedure reqo fn) = es @ ERecord ev # h \<and>
     (\<forall>e \<in> set es. closing_effect e \<and> \<not> is_row e) \<and>
     es @ ERecord ev # h = snd (auditOutcome c t ev (recordRow c ev h)) \<and>
     attribution ev = attribution (newEvent E c h (Some p) procedure) \<and>
     ev_Tool ev = t_Name t \<and> ev_Outcome ev = OutcomeDenied \<and>
     ev_ErrorDetail ev = DInvisible (t_Name t) (Has (p_Verbs p) (t_Verb t))
       (pk_Allows (en_Policy E) (p_Clearance p) (t_MinClearance t))
       (pk_Covers (en_Policy E) (p_Compartments p) (need_of c (t_FullMethod t))) \<and>
     o_answer (invoke E R c h x (Some p) procedure reqo fn) =
       (case fst (auditOutcome c t ev (recordRow c ev h)) of None \<Rightarrow> Refused (Sentinel SNotFound) | Some z \<Rightarrow> Repanicked z) \<and>
     invoke E R c h x (Some p) procedure reqo fn = invoke E R' c h x (Some p) procedure reqo' fn'"
proof -
  let ?ev = "unseen_row E c h p procedure t"
  let ?s = "(start E c h (Some p) procedure)\<lparr>s_tool := t, s_ev := ?ev\<rparr>"
  note run = invoke_unseen[OF assms]
  show ?thesis
  proof (cases rule: finish_cases[of "Fail (Sentinel SNotFound) :: pmsg option step" ?s x])
    case (1 ans ev q h')
    have ev: "ev = ?ev" "ans = Refused (Sentinel SNotFound)" using 1(1) by (simp_all add: settle_def)
    obtain es where es: "h' = es @ ERecord ev # h" "\<forall>e \<in> set es. closing_effect e \<and> \<not> is_row e"
      using 1(4) by (auto simp: grown_def after_row_def)
    have all: "es @ ERecord ev # h = snd (auditOutcome c t ev (recordRow c ev h))" using 1(2) es(1) by simp
    have q: "q = fst (auditOutcome c t ev (recordRow c ev h))" using 1(2) by simp
    have answer: "o_answer (invoke E R c h x (Some p) procedure reqo fn) =
        (case fst (auditOutcome c t ev (recordRow c ev h)) of
           None \<Rightarrow> Refused (Sentinel SNotFound) | Some z \<Rightarrow> Repanicked z)"
      unfolding run 1(5) q[symmetric] ev(2) by (cases q) simp_all
    have hist: "o_hist (invoke E R c h x (Some p) procedure reqo fn) = es @ ERecord ev # h"
      using 1(3) es(1) run by simp
    show ?thesis
      by (rule exI[of _ es], rule exI[of _ ev], intro conjI hist es(2) all answer)
        (simp_all add: ev(1) run unseen_row_def)
  qed
qed

section \<open>A call, evaluated\<close>

definition chain_tool :: tooldef where
  "chain_tool = card_tool\<lparr>t_AuditLevel := LEVEL_AUDIT, t_AuditFailClosed := True\<rparr>"

definition chain_core :: core where
  "chain_core = sample_core\<lparr>c_plans := [3 \<mapsto> \<lparr>pl_Desc = 3, pl_Actions = []\<rparr>],
     c_tools := [(''/p.S/Card'', chain_tool)], c_need := [''/p.S/Card'' \<mapsto> 0]\<rparr>"

definition chain_env :: env where
  "chain_env = card_env\<lparr>en_Policy := sample_policy\<lparr>pk_Compile :=
     \<lambda>d r. Inr \<lparr>pl_Desc = d, pl_Actions = []\<rparr>\<rparr>\<rparr>"

definition chain_ctx :: gctx where
  "chain_ctx = \<lparr>x_EventID = True, x_Redactions = True, x_Invocation = None, x_Grant = []\<rparr>"

definition chain_resolver :: resolver where
  "chain_resolver = (\<lambda>g ic req. Returns (RMsg sample_card))"

abbreviation sample_call :: call_result where
  "sample_call \<equiv> invoke chain_env sample_rules chain_core [] chain_ctx (Some sample_principal)
     ''/p.S/Card'' (Some (Msg 3 [])) (Some chain_resolver)"

lemma sample_call_answer: "o_answer sample_call = Answered (Some sample_card_shown)"
  by code_simp

definition sample_row :: event where
  "sample_row = (newEvent chain_env chain_core [] (Some sample_principal) ''/p.S/Card'')
     \<lparr>ev_Tool := ''card'', ev_Outcome := OutcomeIntent\<rparr>"

definition sample_ic :: invocation_context where
  "sample_ic = invocationContext chain_env chain_ctx sample_principal [] ''ev''"

lemma sample_call_hist:
  "o_hist sample_call =
     [EAuditOutcome (sample_row\<lparr>ev_Outcome := OutcomeOK, ev_RedactionPlan := ''h'',
                       ev_RedactionCount := 1\<rparr>),
      ERecord (sample_row\<lparr>ev_Outcome := OutcomeOK, ev_RedactionPlan := ''h'',
                 ev_RedactionCount := 1\<rparr>),
      ESanitize sample_card, EResolve ''/p.S/Card'' (Msg 3 []) sample_ic, EAuditIntent sample_row] @ []"
  by code_simp

lemma chain_core_ok: "core_ok chain_env chain_core"
  by (simp add: core_ok_def chain_core_def entry_ok_def chain_tool_def card_tool_def zero_tool_def
      unimplementedGovernance_def approval_missing_def level_missing_def fail_closed_missing_def
      retain_missing_def sample_core_def sample_registry_def need_of_def planned_def chain_env_def)

lemma resolver_behind_gates_witness:
  "\<exists>p post pre. front_gates chain_env chain_core chain_ctx p ''/p.S/Card'' (Msg 3 []) ''ev'' [] (pre @ []) \<and>
     (\<forall>e \<in> set (post @ pre). \<not> is_resolve e)"
proof -
  have "en_NewEventID chain_env [] = ''ev''" by code_simp
  then show ?thesis
    using resolver_behind_gates[OF sample_call_hist, of "''/p.S/Card''" "Msg 3 []" sample_ic] by auto
qed

lemma chain_core_audited:
  "c_audit chain_core = Some (sample_sink 0)"
  "t_AuditLevel (tool_of chain_core ''/p.S/Card'') = LEVEL_AUDIT"
  "t_AuditFailClosed (tool_of chain_core ''/p.S/Card'')"
  by (simp_all add: chain_core_def sample_core_def tool_of_def lookup_tool_def chain_tool_def)

lemma audit_brackets_the_call_witness:
  "\<exists>pre row. ev_Outcome row = OutcomeIntent \<and> as_Write (sample_sink 0) (pre @ []) row = Returns None"
  using audit_brackets_the_call[OF sample_call_hist _ chain_core_audited(1,2),
      of "''/p.S/Card''" "Msg 3 []" sample_ic] chain_core_audited(3)
  by auto

lemma answer_is_sanitised_witness:
  "\<exists>m1 m2 paths w hsh.
     plan_applied chain_env chain_core sample_principal m1 m2 paths hsh \<and>
     carded chain_env chain_core sample_principal (tool_of chain_core ''/p.S/Card'') m2 sample_card_shown w \<and>
     o_red sample_call = Some (paths @ w, hsh)"
proof -
  have "x_Redactions chain_ctx" by (simp add: chain_ctx_def)
  then show ?thesis using answer_is_sanitised[OF sample_call_answer chain_core_ok] by fastforce
qed

lemma chain_pool: "en_Pool chain_env = card_pool"
  by (simp add: chain_env_def)

lemma card_pool_wf: "wf_pool card_pool"
  by (auto simp: wf_pool_def card_pool_def md_of_def card_child_of_def card_field_defs fd_Kind_def
      fd_Message_def nth_Cons split: nat.splits if_splits)

lemma chain_messages_wf: "messages_wf chain_env chain_core chain_resolver"
proof -
  have "good_msg card_pool sample_card"
    using sample_card_wf by (simp add: good_msg_def sample_card_def card_pool_def)
  then show ?thesis
    by (auto simp: messages_wf_def chain_resolver_def chain_pool post_filtered_def chain_core_def
        sample_core_def chain_env_def sample_policy_def)
qed

lemma answered_cards_cleared_witness:
  "\<exists>l. own_label card_pool sample_card_shown = Some (Some l) \<and>
     clears chain_env chain_core sample_principal l"
proof -
  have "is_card_message card_pool (pm_desc sample_card_shown)" by code_simp
  then have at: "card_at card_pool sample_card_shown sample_card_shown" by (rule card_self)
  have "own_label card_pool sample_card_shown \<noteq> None" by code_simp
  then obtain l where l: "own_label card_pool sample_card_shown = Some l" by blast
  show ?thesis
    using answered_cards_cleared[OF sample_call_answer chain_core_ok chain_messages_wf,
        unfolded chain_pool, OF card_pool_wf card_pool_vocab at rtranclp.rtrancl_refl l] l
    by auto
qed

lemma invisible_tool_is_absent_witness:
  "o_answer (invoke chain_env sample_rules chain_core [] chain_ctx
     (Some (sample_principal\<lparr>p_Clearance := CLEARANCE_PUBLIC\<rparr>)) ''/p.S/Card'' None None) =
   Refused (Sentinel SNotFound)"
proof -
  let ?p = "sample_principal\<lparr>p_Clearance := CLEARANCE_PUBLIC\<rparr>"
  have "lookup_tool chain_core ''/p.S/Card'' = Some chain_tool"
    by (simp add: lookup_tool_def chain_core_def)
  moreover have "\<not> Visible chain_env chain_core (Some ?p) chain_tool" by code_simp
  moreover have "fst (auditOutcome chain_core chain_tool ev h) = None" for ev h
    by (simp add: auditOutcome_def chain_core_def sample_core_def sample_sink_def)
  ultimately show ?thesis
    using invisible_tool_is_absent[of chain_core "''/p.S/Card''" chain_tool chain_env ?p sample_rules
        "[]" chain_ctx None None sample_rules None None]
    by auto
qed

end
