(* ===== verification/Jwks.thy ===== *)
theory Jwks
  imports Errors
begin

text \<open>
  \<open>internal/authn/jwks.go\<close>: the cached key set of one issuer. A key is opaque (\<^typ>\<open>'k\<close>); what the
  endpoint answers to one fetch, and the decoder of its body, are parameters. A time is a number of
  nanoseconds; the readings of the clock one call takes are \<open>ck 0\<close>, \<open>ck 1\<close>, \<dots> in order.
\<close>

section \<open>State\<close>

record 'k keyset =
  ks_ttl :: int
  ks_refreshCooldown :: int
  ks_keys :: "(string \<rightharpoonup> 'k) option"
  ks_fetchedAt :: int
  ks_lastAttempt :: int

text \<open>Go's zero time in nanoseconds; the saturation of \<open>Sub\<close> never changes a comparison here.\<close>

definition zero_ns :: int where "zero_ns = - 62135596800 * 10 ^ 9"

definition defaultTTL :: int where "defaultTTL = 10 * 60 * 10 ^ 9"
definition defaultRefreshCooldown :: int where "defaultRefreshCooldown = 60 * 10 ^ 9"
definition maxKeySetBytes :: nat where "maxKeySetBytes = 2 ^ 20"

definition NewKeySet :: "int \<Rightarrow> int \<Rightarrow> 'k keyset" where
  "NewKeySet ttl cooldown =
     \<lparr>ks_ttl = (if ttl = 0 then defaultTTL else ttl),
      ks_refreshCooldown = (if cooldown = 0 then defaultRefreshCooldown else cooldown),
      ks_keys = None, ks_fetchedAt = zero_ns, ks_lastAttempt = zero_ns\<rparr>"

section \<open>One fetch\<close>

datatype fetched = BuildErr go_err | DoErr go_err | StatusNot200 string | ReadErr go_err | Body string

definition authn_err :: "string \<Rightarrow> go_err list \<Rightarrow> go_err" where
  "authn_err t es = Wrapped (''authn: '' @ t) es"

fun keyed :: "(string \<times> 'k) list \<Rightarrow> (string \<rightharpoonup> 'k) \<Rightarrow> (string \<rightharpoonup> 'k)" where
  "keyed [] m = m"
| "keyed ((kid, k) # ks) m = (if kid = [] then keyed ks m else keyed ks (m(kid \<mapsto> k)))"

definition has_kid :: "(string \<times> 'k) list \<Rightarrow> bool" where
  "has_kid ks = list_ex (\<lambda>(kid, k). kid \<noteq> []) ks"

definition read_set :: "(string \<Rightarrow> go_err + (string \<times> 'k) list) \<Rightarrow> fetched \<Rightarrow> go_err + (string \<rightharpoonup> 'k)" where
  "read_set decode resp =
     (case resp of
        BuildErr e \<Rightarrow> Inl (authn_err ''building the key set request'' [e])
      | DoErr e \<Rightarrow> Inl (authn_err ''fetching the key set'' [e])
      | StatusNot200 st \<Rightarrow> Inl (authn_err (''fetching the key set: '' @ st) [])
      | ReadErr e \<Rightarrow> Inl (authn_err ''reading the key set'' [e])
      | Body full \<Rightarrow>
          (let body = take (maxKeySetBytes + 1) full in
           if length body > maxKeySetBytes then Inl (authn_err ''key set larger than the ceiling'' [])
           else (case decode body of
              Inl e \<Rightarrow> Inl (authn_err ''parsing the key set'' [e])
            | Inr ks \<Rightarrow>
                if ks = [] then Inl (authn_err ''the key set contains no keys'' [])
                else if \<not> has_kid ks then Inl (authn_err ''no key in the set carries a kid'' [])
                else Inr (keyed ks Map.empty))))"

definition refreshLocked ::
  "(string \<Rightarrow> go_err + (string \<times> 'k) list) \<Rightarrow> fetched \<Rightarrow> int \<Rightarrow> int \<Rightarrow> 'k keyset \<Rightarrow> go_err option \<times> 'k keyset" where
  "refreshLocked decode resp now1 now2 k =
     (let k1 = k\<lparr>ks_lastAttempt := now1\<rparr> in
      case read_set decode resp of
        Inl e \<Rightarrow> (Some e, k1)
      | Inr keys \<Rightarrow> (None, k1\<lparr>ks_keys := Some keys, ks_fetchedAt := now2\<rparr>))"

section \<open>A lookup\<close>

definition no_such_key :: "string \<Rightarrow> go_err" where
  "no_such_key kid = authn_err (''no such key in the key set: '' @ kid) [Sentinel SNoSuchKey]"

definition key_in :: "'k keyset \<Rightarrow> string \<Rightarrow> 'k option" where
  "key_in k kid = (case ks_keys k of None \<Rightarrow> None | Some m \<Rightarrow> m kid)"

definition fresh :: "int \<Rightarrow> 'k keyset \<Rightarrow> bool" where
  "fresh now k = (ks_keys k \<noteq> None \<and> now - ks_fetchedAt k < ks_ttl k)"

text \<open>The result, the new state, and whether the endpoint was asked.\<close>

definition look_again ::
  "(string \<Rightarrow> go_err + (string \<times> 'k) list) \<Rightarrow> fetched \<Rightarrow> int \<Rightarrow> int \<Rightarrow> 'k keyset \<Rightarrow> string \<Rightarrow>
     (go_err + 'k) \<times> 'k keyset \<times> bool" where
  "look_again decode resp now1 now2 k kid =
     (case refreshLocked decode resp now1 now2 k of
        (Some e, k') \<Rightarrow> (Inl e, k', True)
      | (None, k') \<Rightarrow>
          (case key_in k' kid of
             Some key \<Rightarrow> (Inr key, k', True)
           | None \<Rightarrow> (Inl (no_such_key kid), k', True)))"

definition Key ::
  "(string \<Rightarrow> go_err + (string \<times> 'k) list) \<Rightarrow> fetched \<Rightarrow> (nat \<Rightarrow> int) \<Rightarrow> 'k keyset \<Rightarrow> string \<Rightarrow>
     (go_err + 'k) \<times> 'k keyset \<times> bool" where
  "Key decode resp ck k kid =
     (if fresh (ck 0) k then
        (case key_in k kid of
           Some key \<Rightarrow> (Inr key, k, False)
         | None \<Rightarrow>
             if ck 1 - ks_lastAttempt k < ks_refreshCooldown k
             then (Inl (no_such_key kid), k, False)
             else look_again decode resp (ck 2) (ck 3) k kid)
      else look_again decode resp (ck 1) (ck 2) k kid)"

section \<open>Properties\<close>

lemma read_set_not_missing:
  assumes "read_set decode resp = Inl e" "\<And>b e. decode b = Inl e \<Longrightarrow> \<not> err_is e SNoSuchKey"
    and "\<And>e. resp \<in> {BuildErr e, DoErr e, ReadErr e} \<Longrightarrow> \<not> err_is e SNoSuchKey"
  shows "\<not> err_is e SNoSuchKey"
  using assms
  by (cases resp) (auto simp: read_set_def authn_err_def Let_def split: sum.splits if_splits)

text \<open>Errors of the network and of the decoder are not the program's own sentinel.\<close>

definition foreign_errors :: "(string \<Rightarrow> go_err + (string \<times> 'k) list) \<Rightarrow> fetched \<Rightarrow> bool" where
  "foreign_errors decode resp \<longleftrightarrow>
     (\<forall>b e. decode b = Inl e \<longrightarrow> \<not> err_is e SNoSuchKey) \<and>
     (\<forall>e. resp \<in> {BuildErr e, DoErr e, ReadErr e} \<longrightarrow> \<not> err_is e SNoSuchKey)"

lemma look_again_cases:
  assumes "look_again decode resp n1 n2 k kid = (r, k', f)"
  obtains (failed) e where "read_set decode resp = Inl e" "r = Inl e" "k' = k\<lparr>ks_lastAttempt := n1\<rparr>" "f"
  | (read_it) keys where "read_set decode resp = Inr keys" "f"
      "k' = k\<lparr>ks_lastAttempt := n1, ks_keys := Some keys, ks_fetchedAt := n2\<rparr>"
      "r = (case keys kid of Some key \<Rightarrow> Inr key | None \<Rightarrow> Inl (no_such_key kid))"
  using assms
  by (auto simp: look_again_def refreshLocked_def key_in_def Let_def split: sum.splits option.splits)

lemma no_such_key_is [simp]: "err_is (no_such_key kid) SNoSuchKey"
  by (simp add: no_such_key_def authn_err_def)

lemma Key_cases:
  assumes "Key decode resp ck k kid = (r, k', f)"
  obtains (cached) key where "fresh (ck 0) k" "key_in k kid = Some key" "r = Inr key" "k' = k" "\<not> f"
  | (cooling) "fresh (ck 0) k" "key_in k kid = None" "ck 1 - ks_lastAttempt k < ks_refreshCooldown k"
      "r = Inl (no_such_key kid)" "k' = k" "\<not> f"
  | (asked) i where "fresh (ck 0) k \<Longrightarrow> key_in k kid = None \<and> ks_refreshCooldown k \<le> ck 1 - ks_lastAttempt k"
      "look_again decode resp (ck i) (ck (Suc i)) k kid = (r, k', f)" "i = 1 \<or> i = 2"
  using assms
  by (auto simp: Key_def split: if_splits option.splits) (metis Suc_1 numeral_3_eq_3 numeral_2_eq_2 One_nat_def)+

text \<open>
  C30: A key is never served from a set that may be out of date. A lookup that answers a key answers
  it from the set the cache now holds, and that set was either read by this very lookup or fetched
  less than the time to live ago; a failed refresh never falls back on the keys already held.
\<close>

theorem key_never_stale:
  assumes "Key decode resp ck k kid = (Inr key, k', f)"
  shows "key_in k' kid = Some key \<and>
     (\<not> f \<and> k' = k \<and> ck 0 - ks_fetchedAt k < ks_ttl k \<or>
      f \<and> (\<exists>keys. read_set decode resp = Inr keys \<and> ks_keys k' = Some keys))"
  using assms
proof (cases rule: Key_cases)
  case (cached key')
  then show ?thesis by (auto simp: fresh_def)
next
  case (asked i)
  from asked(2) show ?thesis
    by (cases rule: look_again_cases) (auto simp: key_in_def split: option.splits)
qed simp

text \<open>
  The blame is put on the right party. A refused lookup is the caller's fault, and says so,
  exactly when a key set could be read and does not hold the key; a set that could not be read is
  never reported as a missing key.
\<close>

theorem missing_key_is_callers_fault:
  assumes "Key decode resp ck k kid = (Inl e, k', f)" "foreign_errors decode resp"
  shows "err_is e SNoSuchKey \<longleftrightarrow>
     (\<not> f \<and> fresh (ck 0) k \<or> f \<and> (\<exists>keys. read_set decode resp = Inr keys)) \<and> key_in k' kid = None"
  using assms(1)
proof (cases rule: Key_cases)
  case (asked i)
  from asked(2) show ?thesis
  proof (cases rule: look_again_cases)
    case (failed e')
    then have "\<not> err_is e SNoSuchKey"
      using read_set_not_missing[of decode resp e] assms(2) unfolding foreign_errors_def by auto
    then show ?thesis using failed by simp
  next
    case (read_it keys)
    then show ?thesis by (auto simp: key_in_def split: option.splits)
  qed
qed auto

section \<open>How often the endpoint is asked\<close>

text \<open>A run of lookups: the times at which the endpoint was asked, and the state after it.\<close>

fun run_keys ::
  "(string \<Rightarrow> go_err + (string \<times> 'k) list) \<Rightarrow> 'k keyset \<Rightarrow> (fetched \<times> (nat \<Rightarrow> int) \<times> string) list \<Rightarrow>
     int list \<times> 'k keyset" where
  "run_keys decode k [] = ([], k)"
| "run_keys decode k ((resp, ck, kid) # cs) =
     (case Key decode resp ck k kid of
        (r, k', f) \<Rightarrow>
          (case run_keys decode k' cs of
             (ts, k'') \<Rightarrow> ((if f then ks_lastAttempt k' # ts else ts), k'')))"

fun fresh_run ::
  "(string \<Rightarrow> go_err + (string \<times> 'k) list) \<Rightarrow> 'k keyset \<Rightarrow> (fetched \<times> (nat \<Rightarrow> int) \<times> string) list \<Rightarrow> bool" where
  "fresh_run decode k [] = True"
| "fresh_run decode k ((resp, ck, kid) # cs) =
     (fresh (ck 0) k \<and> ck 1 \<le> ck 2 \<and>
      fresh_run decode (fst (snd (Key decode resp ck k kid))) cs)"

lemma Key_attempt:
  assumes "Key decode resp ck k kid = (r, k', f)" "fresh (ck 0) k" "ck 1 \<le> ck 2"
  shows "ks_refreshCooldown k' = ks_refreshCooldown k"
    and "if f then ks_lastAttempt k + ks_refreshCooldown k \<le> ks_lastAttempt k'
         else ks_lastAttempt k' = ks_lastAttempt k"
proof -
  have "ks_refreshCooldown k' = ks_refreshCooldown k \<and>
      (if f then ks_lastAttempt k + ks_refreshCooldown k \<le> ks_lastAttempt k'
       else ks_lastAttempt k' = ks_lastAttempt k)"
    using assms(1)
  proof (cases rule: Key_cases)
    case (asked i)
    have "ks_refreshCooldown k \<le> ck 1 - ks_lastAttempt k" using asked(1) assms(2) by blast
    then have "ks_lastAttempt k + ks_refreshCooldown k \<le> ck i" using asked(3) assms(3) by auto
    with asked(2) show ?thesis by (cases rule: look_again_cases) auto
  qed auto
  then show "ks_refreshCooldown k' = ks_refreshCooldown k"
    and "if f then ks_lastAttempt k + ks_refreshCooldown k \<le> ks_lastAttempt k'
         else ks_lastAttempt k' = ks_lastAttempt k" by auto
qed

lemma run_spaced:
  "fresh_run decode k cs \<Longrightarrow>
     successively (\<lambda>a b. a + ks_refreshCooldown k \<le> b) (ks_lastAttempt k # fst (run_keys decode k cs))"
proof (induction cs arbitrary: k)
  case Nil
  then show ?case by simp
next
  case (Cons c cs)
  obtain resp ck kid where c: "c = (resp, ck, kid)" by (cases c)
  obtain r k' f where K: "Key decode resp ck k kid = (r, k', f)" by (metis surj_pair)
  obtain ts k'' where R: "run_keys decode k' cs = (ts, k'')" by (metis surj_pair)
  have ok: "fresh (ck 0) k" "ck 1 \<le> ck 2" "fresh_run decode k' cs" using Cons.prems c K by auto
  note A = Key_attempt[OF K ok(1,2)]
  from Cons.IH[OF ok(3)] have "successively (\<lambda>a b. a + ks_refreshCooldown k \<le> b) (ks_lastAttempt k' # ts)"
    using R A(1) by simp
  then show ?case using c K R A(2) by (cases f) auto
qed

text \<open>
  While the key set stays fresh, no stream of tokens, whatever key ids they name, makes the
  endpoint be asked more than once per cool-down: successive attempts are a cool-down apart.
\<close>

theorem garbage_kids_rate_limited:
  assumes "fresh_run decode k cs"
  shows "successively (\<lambda>a b. a + ks_refreshCooldown k \<le> b) (fst (run_keys decode k cs))"
  using run_spaced[OF assms] by (cases "fst (run_keys decode k cs)") auto

text \<open>
  The cool-down does not apply to a set that is stale or was never read. Against an endpoint that
  keeps failing, every lookup asks it again, however recently it was asked and whatever key id the
  token names: as many requests as tokens.
\<close>

theorem stale_set_asks_every_time:
  assumes "\<And>now. \<not> fresh now k" "\<forall>(resp, ck, kid) \<in> set cs. \<exists>e. read_set decode resp = Inl e"
  shows "length (fst (run_keys decode k cs)) = length cs"
  using assms
proof (induction cs arbitrary: k)
  case Nil
  then show ?case by simp
next
  case (Cons c cs)
  obtain resp ck kid where c: "c = (resp, ck, kid)" by (cases c)
  obtain e where e: "read_set decode resp = Inl e" using Cons.prems(2) c by auto
  have K: "Key decode resp ck k kid = (Inl e, k\<lparr>ks_lastAttempt := ck 1\<rparr>, True)"
    using Cons.prems(1) e by (simp add: Key_def look_again_def refreshLocked_def)
  have "length (fst (run_keys decode (k\<lparr>ks_lastAttempt := ck 1\<rparr>) cs)) = length cs"
    by (rule Cons.IH) (use Cons.prems in \<open>auto simp: fresh_def\<close>)
  then show ?case using c K by (auto split: prod.splits)
qed

section \<open>Witnesses\<close>

definition toy_decode :: "string \<Rightarrow> go_err + (string \<times> nat) list" where
  "toy_decode b = (if b = ''keys'' then Inr [(''k1'', 7), ([], 8)] else Inl (Plain ''bad json''))"

definition toy_clock :: "int \<Rightarrow> nat \<Rightarrow> int" where
  "toy_clock t n = t + int n"

definition toy_set :: "nat keyset" where
  "toy_set = \<lparr>ks_ttl = 1000, ks_refreshCooldown = 100, ks_keys = Some [''k1'' \<mapsto> 7],
     ks_fetchedAt = 0, ks_lastAttempt = 0\<rparr>"

lemma toy_lookup: "Key toy_decode (Body ''keys'') (toy_clock 500) (NewKeySet 0 0) ''k1'' =
    (Inr 7, (NewKeySet 0 0)\<lparr>ks_lastAttempt := 501, ks_keys := Some [''k1'' \<mapsto> 7], ks_fetchedAt := 502\<rparr>, True)"
proof -
  have "read_set toy_decode (Body ''keys'') = Inr [''k1'' \<mapsto> 7]"
    by (simp add: read_set_def toy_decode_def has_kid_def maxKeySetBytes_def)
  then show ?thesis
    by (simp add: Key_def fresh_def NewKeySet_def look_again_def refreshLocked_def key_in_def
        toy_clock_def)
qed

lemma key_never_stale_witness:
  "\<exists>k'. key_in (k' :: nat keyset) ''k1'' = Some 7 \<and>
     Key toy_decode (Body ''keys'') (toy_clock 500) (NewKeySet 0 0) ''k1'' = (Inr 7, k', True)"
  using key_never_stale[OF toy_lookup] toy_lookup by blast

lemma toy_refused: "Key toy_decode (DoErr (Plain ''refused'')) (toy_clock 2000) toy_set ''zz'' =
    (Inl (authn_err ''fetching the key set'' [Plain ''refused'']), toy_set\<lparr>ks_lastAttempt := 2001\<rparr>, True)"
  by (simp add: Key_def fresh_def toy_set_def look_again_def refreshLocked_def read_set_def toy_clock_def)

lemma missing_key_is_callers_fault_witness:
  "\<not> err_is (authn_err ''fetching the key set'' [Plain ''refused'']) SNoSuchKey"
proof -
  have "foreign_errors toy_decode (DoErr (Plain ''refused''))"
    by (auto simp: foreign_errors_def toy_decode_def)
  then show ?thesis
    using missing_key_is_callers_fault[OF toy_refused] by (simp add: read_set_def)
qed

lemma garbage_kids_rate_limited_witness:
  "successively (\<lambda>a b. a + 100 \<le> b)
     (fst (run_keys toy_decode toy_set
        [(DoErr (Plain ''x''), toy_clock 200, ''zz''), (DoErr (Plain ''x''), toy_clock 250, ''zz''),
         (DoErr (Plain ''x''), toy_clock 400, ''zz'')])) \<and>
   fst (run_keys toy_decode toy_set
        [(DoErr (Plain ''x''), toy_clock 200, ''zz''), (DoErr (Plain ''x''), toy_clock 250, ''zz''),
         (DoErr (Plain ''x''), toy_clock 400, ''zz'')]) = [202, 402]"
proof -
  let ?cs = "[(DoErr (Plain ''x''), toy_clock 200, ''zz''), (DoErr (Plain ''x''), toy_clock 250, ''zz''),
      (DoErr (Plain ''x''), toy_clock 400, ''zz'')]"
  have "fresh_run toy_decode toy_set ?cs" "fst (run_keys toy_decode toy_set ?cs) = [202, 402]"
    by (simp_all add: toy_set_def toy_clock_def fresh_def Key_def key_in_def look_again_def
        refreshLocked_def read_set_def)
  then show ?thesis using garbage_kids_rate_limited[of toy_decode toy_set ?cs] by (simp add: toy_set_def)
qed

lemma stale_set_asks_every_time_witness:
  "length (fst (run_keys toy_decode (NewKeySet 0 0)
     [(StatusNot200 ''503'', toy_clock 1, ''zz''), (StatusNot200 ''503'', toy_clock 2, ''zz'')])) = 2"
  using stale_set_asks_every_time[of "NewKeySet 0 0 :: nat keyset"
      "[(StatusNot200 ''503'', toy_clock 1, ''zz''), (StatusNot200 ''503'', toy_clock 2, ''zz'')]" toy_decode]
  by (simp add: NewKeySet_def fresh_def read_set_def)

end
