(* ===== verification/Claims.thy ===== *)
theory Claims
  imports Plugins
begin

text \<open>
  \<open>internal/authn/claims.go\<close>: reading the body of a token into the delegation chain it carries.
  The body is decoded JSON; a number m / 10^k is read as NumericDate the way Go does,
  through a float64, an int64 and \<open>time.Unix\<close>. A time is a
  number of seconds since the epoch, and \<open>zero_time\<close> is Go's zero \<open>time.Time\<close>.
\<close>

section \<open>Enum names\<close>

definition clearance_value :: "(string \<times> clearance) list" where
  "clearance_value =
    [(''CLEARANCE_UNSPECIFIED'', CLEARANCE_UNSPECIFIED), (''CLEARANCE_PUBLIC'', CLEARANCE_PUBLIC),
     (''CLEARANCE_INTERNAL'', CLEARANCE_INTERNAL), (''CLEARANCE_CONFIDENTIAL'', CLEARANCE_CONFIDENTIAL),
     (''CLEARANCE_RESTRICTED'', CLEARANCE_RESTRICTED)]"

definition verb_value :: "(string \<times> verb) list" where
  "verb_value = [(''VERB_UNSPECIFIED'', VERB_UNSPECIFIED), (''VERB_READ'', VERB_READ),
     (''VERB_WRITE'', VERB_WRITE), (''VERB_DESTRUCTIVE'', VERB_DESTRUCTIVE)]"

definition kind_value :: "(string \<times> principal_kind) list" where
  "kind_value = [(''PRINCIPAL_KIND_UNSPECIFIED'', 0), (''PRINCIPAL_KIND_USER'', 1),
     (''PRINCIPAL_KIND_AGENT'', 2), (''PRINCIPAL_KIND_SERVICE'', 3)]"

section \<open>Claims\<close>

record garm_claims =
  gc_Clearance :: string
  gc_Compartments :: "string list"
  gc_Verbs :: "string list"
  gc_ToolSets :: "string list"
  gc_Kind :: string

record exec_claim =
  ex_Subject :: string
  ex_Issuer :: string

record claim_body =
  cb_Issuer :: string
  cb_Subject :: string
  cb_Tenant :: string
  cb_ID :: string
  cb_Audience :: "string list"
  cb_ExpiresAt :: int
  cb_IssuedAt :: int
  cb_Garm :: garm_claims
  cb_Exec :: "exec_claim option"

datatype claims = Claims (cl_body: claim_body) (cl_Act: "claims option")

fun Depth :: "claims \<Rightarrow> nat" where
  "Depth (Claims b None) = 1"
| "Depth (Claims b (Some a)) = Suc (Depth a)"

text \<open>The chain, outermost identity first.\<close>

fun levels :: "claims \<Rightarrow> claim_body list" where
  "levels (Claims b None) = [b]"
| "levels (Claims b (Some a)) = b # levels a"

lemma Depth_levels: "Depth c = length (levels c)"
  by (induction c rule: Depth.induct) auto

lemma levels_Cons: "levels c = cl_body c # (case cl_Act c of None \<Rightarrow> [] | Some a \<Rightarrow> levels a)"
  by (cases c rule: levels.cases) auto

section \<open>Readers of a decoded body\<close>

type_synonym jobj = "(string \<times> json) list"

definition str_claim :: "jobj \<Rightarrow> string \<Rightarrow> string" where
  "str_claim m k = (case map_of m k of Some (JStr s) \<Rightarrow> s | _ \<Rightarrow> [])"

fun json_strings :: "json list \<Rightarrow> string list" where
  "json_strings [] = []"
| "json_strings (JStr s # es) = (if s \<noteq> [] then s # json_strings es else json_strings es)"
| "json_strings (e # es) = json_strings es"

definition strSlice :: "jobj \<Rightarrow> string \<Rightarrow> string list" where
  "strSlice m k =
     (case map_of m k of
        Some (JArr es) \<Rightarrow> json_strings es
      | Some (JStr s) \<Rightarrow> (if s = [] then [] else [s])
      | _ \<Rightarrow> [])"

definition zero_time :: int where "zero_time = - 62135596800"

text \<open>
  A number of the body is decoded to a float64 before \<open>int64\<close> truncates it. For a literal m / 10^k the
  nearest float64 has 53 significant bits, ties to even: \<open>float_int\<close> is its integer part, worked out
  on integers with the exponent the literal's own integer part has (below 1 the integer part only
  depends on whether the value rounds up to 1).
\<close>

function bit_len :: "int \<Rightarrow> nat" where
  "bit_len n = (if n \<le> 0 then 0 else Suc (bit_len (n div 2)))"
  by pat_completeness auto

termination by (relation "measure nat") auto

declare bit_len.simps [simp del]

definition round_half_even :: "int \<Rightarrow> int \<Rightarrow> int" where
  "round_half_even n d =
     (let q = n div d; r = n mod d
      in if 2 * r > d \<or> 2 * r = d \<and> odd q then q + 1 else q)"

definition float_abs :: "int \<Rightarrow> int \<Rightarrow> int" where
  "float_abs m d =
     (let l = bit_len (m div d)
      in if l \<le> 53 then round_half_even (m * 2 ^ (53 - l)) d div 2 ^ (53 - l)
         else round_half_even m (d * 2 ^ (l - 53)) * 2 ^ (l - 53))"

definition float_int :: "int \<Rightarrow> nat \<Rightarrow> int" where
  "float_int m k = (if m < 0 then - float_abs (- m) (10 ^ k) else float_abs m (10 ^ k))"

text \<open>
  \<open>int64(f)\<close> of a value out of range is left to the machine: on amd64 it is the least int64. (Where
  the conversion saturates instead, \<open>time.Unix\<close> overflows on the greatest int64 just as it does
  below.) \<open>time.Unix\<close> counts from the year 1, in an int64 that wraps; the time is given back here in
  seconds since the epoch.
\<close>

definition go_int64 :: "int \<Rightarrow> int" where
  "go_int64 z = (if - (2 ^ 63) \<le> z \<and> z < 2 ^ 63 then z else - (2 ^ 63))"

definition go_unix :: "int \<Rightarrow> int" where
  "go_unix s = wrap64 (s - zero_time) + zero_time"

definition numericDate :: "int \<Rightarrow> nat \<Rightarrow> int" where
  "numericDate n e = go_unix (go_int64 (float_int n e))"

definition unixTime :: "jobj \<Rightarrow> string \<Rightarrow> int" where
  "unixTime m k = (case map_of m k of Some (JNum n e) \<Rightarrow> numericDate n e | _ \<Rightarrow> zero_time)"

text \<open>
  On the dates tokens carry, whole seconds that a float64 holds exactly, a NumericDate is the number
  itself; past the range of the clock it wraps into the past.
\<close>

lemma bit_len_bound: "0 \<le> n \<Longrightarrow> n < 2 ^ b \<Longrightarrow> bit_len n \<le> b"
proof (induction b arbitrary: n)
  case 0
  then show ?case by (simp add: bit_len.simps[of n])
next
  case (Suc b)
  show ?case
  proof (cases "n \<le> 0")
    case True
    then show ?thesis by (simp add: bit_len.simps[of n])
  next
    case False
    have "n div 2 < 2 ^ b" using Suc.prems by simp
    then have "bit_len (n div 2) \<le> b" using Suc.IH[of "n div 2"] False by simp
    then show ?thesis using False by (simp add: bit_len.simps[of n])
  qed
qed

lemma round_half_even_1: "round_half_even n 1 = n"
  by (simp add: round_half_even_def)

lemma float_abs_exact: "0 \<le> m \<Longrightarrow> m < 2 ^ 53 \<Longrightarrow> float_abs m 1 = m"
  using bit_len_bound[of m 53] by (simp add: float_abs_def round_half_even_1)

lemma numericDate_exact: "0 \<le> n \<Longrightarrow> n < 2 ^ 53 \<Longrightarrow> numericDate n 0 = n"
  by (simp add: numericDate_def float_int_def float_abs_exact go_int64_def go_unix_def zero_time_def
      wrap64_small)

lemma numericDate_overflows:
  "numericDate (2 ^ 63) 0 < zero_time" "numericDate (2 ^ 63 - 50000000000) 0 < zero_time"
  by code_simp+

lemma numericDate_rounds:
  "numericDate 17000000005 1 = 1700000000" "numericDate 9007199254740993 0 = 9007199254740992"
  "numericDate (- 5) 1 = 0" "numericDate 99999999999999999999 20 = 1"
  by code_simp+

definition normaliseKind :: "string \<Rightarrow> string" where
  "normaliseKind s =
     (let u = to_upper (trim_space s) in
      if u = [] then []
      else
        let n = (if has_prefix u ''PRINCIPAL_KIND_'' then u else ''PRINCIPAL_KIND_'' @ u) in
        case map_of kind_value n of
          None \<Rightarrow> []
        | Some v \<Rightarrow> if v = 0 then [] else n)"

datatype clearance_err = ClrEmpty | ClrUnknown string | ClrUnspecified

definition normaliseClearance :: "string \<Rightarrow> clearance_err + string" where
  "normaliseClearance s =
     (let u = to_upper (trim_space s) in
      if u = [] then Inl ClrEmpty
      else
        let n = (if has_prefix u ''CLEARANCE_'' then u else ''CLEARANCE_'' @ u) in
        case map_of clearance_value n of
          None \<Rightarrow> Inl (ClrUnknown n)
        | Some v \<Rightarrow> if v = CLEARANCE_UNSPECIFIED then Inl ClrUnspecified else Inr n)"

section \<open>Parsing\<close>

datatype claims_err =
  ChainTooDeep | NoGarmClaim string | BadClearance string clearance_err
  | ExecNotObject string | ExecNoSubject string

definition maxChainDepth :: nat where "maxChainDepth = 16"

definition parse_exec :: "string \<Rightarrow> jobj \<Rightarrow> claims_err + exec_claim option" where
  "parse_exec sub raw =
     (case map_of raw ''exec'' of
        None \<Rightarrow> Inr None
      | Some (JObj obj) \<Rightarrow>
          (if str_claim obj ''sub'' = [] then Inl (ExecNoSubject sub)
           else Inr (Some \<lparr>ex_Subject = str_claim obj ''sub'', ex_Issuer = str_claim obj ''iss''\<rparr>))
      | Some _ \<Rightarrow> Inl (ExecNotObject sub))"

text \<open>One identity: everything but the nested actor, in the order of the checks.\<close>

definition parse_level :: "jobj \<Rightarrow> claims_err + claim_body" where
  "parse_level raw =
     (let sub = str_claim raw ''sub'' in
      case map_of raw ''garm'' of
        Some (JObj g) \<Rightarrow>
          (case normaliseClearance (str_claim g ''clearance'') of
             Inl e \<Rightarrow> Inl (BadClearance sub e)
           | Inr cl \<Rightarrow>
               (case parse_exec sub raw of
                  Inl e \<Rightarrow> Inl e
                | Inr ex \<Rightarrow>
                    Inr \<lparr>cb_Issuer = str_claim raw ''iss'', cb_Subject = sub,
                         cb_Tenant = str_claim raw ''tenant'', cb_ID = str_claim raw ''jti'',
                         cb_Audience = strSlice raw ''aud'', cb_ExpiresAt = unixTime raw ''exp'',
                         cb_IssuedAt = unixTime raw ''iat'',
                         cb_Garm = \<lparr>gc_Clearance = cl, gc_Compartments = strSlice g ''compartments'',
                            gc_Verbs = strSlice g ''verbs'', gc_ToolSets = strSlice g ''tool_sets'',
                            gc_Kind = normaliseKind (str_claim g ''kind'')\<rparr>,
                         cb_Exec = ex\<rparr>))
      | _ \<Rightarrow> Inl (NoGarmClaim sub))"

function parse_claims :: "jobj \<Rightarrow> nat \<Rightarrow> claims_err + claims" where
  "parse_claims raw depth =
     (if depth \<ge> maxChainDepth then Inl ChainTooDeep
      else (case parse_level raw of
         Inl e \<Rightarrow> Inl e
       | Inr b \<Rightarrow>
           (case map_of raw ''act'' of
              Some (JObj a) \<Rightarrow>
                (case parse_claims a (depth + 1) of
                   Inl e \<Rightarrow> Inl e
                 | Inr act \<Rightarrow> Inr (Claims b (Some act)))
            | _ \<Rightarrow> Inr (Claims b None))))"
  by pat_completeness auto

termination by (relation "measure (\<lambda>(raw, depth). maxChainDepth - depth)") auto

declare parse_claims.simps [simp del]

definition ParseClaims :: "jobj \<Rightarrow> claims_err + claims" where
  "ParseClaims raw = parse_claims raw 0"

section \<open>What parsing guarantees\<close>

lemma normaliseClearance_named:
  "normaliseClearance s = Inr n \<Longrightarrow>
     \<exists>v. map_of clearance_value n = Some v \<and> v \<in> {10, 20, 30, 40}"
  by (auto simp: normaliseClearance_def Let_def clearance_value_def split: option.splits if_splits)

definition body_ok :: "claim_body \<Rightarrow> bool" where
  "body_ok b \<longleftrightarrow>
     (\<exists>v. map_of clearance_value (gc_Clearance (cb_Garm b)) = Some v \<and> CLEARANCE_PUBLIC \<le> v) \<and>
     (case cb_Exec b of None \<Rightarrow> True | Some ex \<Rightarrow> ex_Subject ex \<noteq> [])"

lemma parse_level_ok: "parse_level raw = Inr b \<Longrightarrow> body_ok b"
  unfolding parse_level_def body_ok_def Let_def
  by (auto simp: parse_exec_def split: option.splits json.splits sum.splits if_splits
      dest!: normaliseClearance_named)

lemma parse_claims_ok:
  "parse_claims raw depth = Inr c \<Longrightarrow>
     (\<forall>b \<in> set (levels c). body_ok b) \<and> depth + Depth c \<le> maxChainDepth"
proof (induction raw depth arbitrary: c rule: parse_claims.induct)
  case (1 raw depth)
  have deep: "\<not> depth \<ge> maxChainDepth"
    using "1.prems" by (auto simp: parse_claims.simps[of raw depth] split: if_splits)
  then obtain b where b: "parse_level raw = Inr b"
    using "1.prems" by (auto simp: parse_claims.simps[of raw depth] split: sum.splits)
  show ?case
  proof (cases "\<exists>a. map_of raw ''act'' = Some (JObj a)")
    case True
    then obtain a where a: "map_of raw ''act'' = Some (JObj a)" by blast
    then obtain act where act: "parse_claims a (depth + 1) = Inr act" "c = Claims b (Some act)"
      using "1.prems" deep b by (auto simp: parse_claims.simps[of raw depth] split: sum.splits)
    from "1.IH"[OF deep b a refl act(1)] show ?thesis
      using act(2) parse_level_ok[OF b] by auto
  next
    case False
    then have "c = Claims b None"
      using "1.prems" deep b
      by (auto simp: parse_claims.simps[of raw depth] split: option.splits json.splits)
    then show ?thesis using parse_level_ok[OF b] deep by auto
  qed
qed

text \<open>
  C31: A token that parses asserts a usable authority at every level and nothing is inferred: each
  identity of the chain names a known clearance above UNSPECIFIED, an execution claim names who
  executed, and the chain is at most sixteen deep.
\<close>

theorem parsed_claims_wellformed:
  assumes "ParseClaims raw = Inr c"
  shows "(\<forall>b \<in> set (levels c). body_ok b) \<and> Depth c \<le> maxChainDepth"
  using parse_claims_ok[of raw 0 c] assms by (simp add: ParseClaims_def)

text \<open>The two spellings of a name mean the same, and a normal form is kept.\<close>

definition sample_body :: jobj where
  "sample_body =
    [(''iss'', JStr ''https://idp''), (''sub'', JStr ''ada''), (''aud'', JStr ''garmd''), (''exp'', JNum 1700000000 0),
     (''garm'', JObj [(''clearance'', JStr '' internal ''), (''verbs'', JArr [JStr ''READ'', JStr ''WRITE'']),
        (''compartments'', JArr [JStr ''finance'', JNull, JStr ''nope'']), (''kind'', JStr ''user'')]),
     (''act'', JObj [(''sub'', JStr ''bot''), (''garm'', JObj [(''clearance'', JStr ''CLEARANCE_PUBLIC''),
        (''verbs'', JArr [JStr ''VERB_READ'']), (''compartments'', JStr ''finance''),
        (''tool_sets'', JArr [JStr ''books''])])])]"

definition level_named :: "string \<Rightarrow> string \<Rightarrow> claim_body" where
  "level_named sub cl = \<lparr>cb_Issuer = [], cb_Subject = sub, cb_Tenant = [], cb_ID = [], cb_Audience = [],
     cb_ExpiresAt = zero_time, cb_IssuedAt = zero_time,
     cb_Garm = \<lparr>gc_Clearance = cl, gc_Compartments = [''finance''], gc_Verbs = [''VERB_READ''],
       gc_ToolSets = [''books''], gc_Kind = []\<rparr>, cb_Exec = None\<rparr>"

definition sample_claims :: claims where
  "sample_claims = Claims
     \<lparr>cb_Issuer = ''https://idp'', cb_Subject = ''ada'', cb_Tenant = [], cb_ID = [],
      cb_Audience = [''garmd''], cb_ExpiresAt = 1700000000, cb_IssuedAt = zero_time,
      cb_Garm = \<lparr>gc_Clearance = ''CLEARANCE_INTERNAL'', gc_Compartments = [''finance'', ''nope''],
        gc_Verbs = [''READ'', ''WRITE''], gc_ToolSets = [], gc_Kind = ''PRINCIPAL_KIND_USER''\<rparr>,
      cb_Exec = None\<rparr>
     (Some (Claims (level_named ''bot'' ''CLEARANCE_PUBLIC'') None))"

lemma sample_parsed: "ParseClaims sample_body = Inr sample_claims"
  by code_simp

lemma parsed_claims_wellformed_witness: "Depth sample_claims \<le> 16"
  using parsed_claims_wellformed[OF sample_parsed] by (simp add: maxChainDepth_def)

end
