(* ===== verification/Fold.thy ===== *)
theory Fold
  imports Claims ChainProps
begin

text \<open>
  \<open>internal/authn/principal.go\<close>: folding a delegation chain into the one authority it carries.

  Each dimension of authority is a meet: the locale \<open>narrowing\<close> states what a meet promises (it
  admits exactly what both sides admit) and is interpreted on clearances, verbs, compartments and
  tool sets. The fold's properties are the locale's fact about a whole chain, four times.
\<close>

section \<open>Names to numbers\<close>

definition kindFromName :: "string \<Rightarrow> principal_kind" where
  "kindFromName name =
     (if name = [] then 0 else (case map_of kind_value name of Some v \<Rightarrow> v | None \<Rightarrow> 0))"

fun named_verbs :: "string list \<Rightarrow> verb list" where
  "named_verbs [] = []"
| "named_verbs (n # ns) =
     (let key = (if map_of verb_value n = None then ''VERB_'' @ n else n)
      in case map_of verb_value key of
           Some v \<Rightarrow> v # named_verbs ns
         | None \<Rightarrow> named_verbs ns)"

definition verbSetFromNames :: "string list \<Rightarrow> verb_set" where
  "verbSetFromNames names = NewVerbSet (named_verbs names)"

definition clearance_of_name :: "string \<Rightarrow> clearance" where
  "clearance_of_name n = (case map_of clearance_value n of Some v \<Rightarrow> v | None \<Rightarrow> 0)"

fun keep_shared :: "string list \<Rightarrow> string list \<Rightarrow> string list" where
  "keep_shared [] add = []"
| "keep_shared (h # hs) add =
     (if contains_string add h then h # keep_shared hs add else keep_shared hs add)"

definition intersectSets :: "string list option \<Rightarrow> string list \<Rightarrow> string list option" where
  "intersectSets have add =
     (if add = [] then have
      else case have of None \<Rightarrow> Some add | Some hs \<Rightarrow> Some (keep_shared hs add))"

section \<open>The fold\<close>

datatype fold_err = NoClaims | ChainTooLong nat

definition maxDelegationDepth :: nat where "maxDelegationDepth = 4"

text \<open>The variables of the loop.\<close>

record fold_state =
  fs_clearance :: clearance
  fs_compartments :: comp_set
  fs_verbs :: verb_set
  fs_chain :: "chain_entry list"
  fs_dropped :: "string list"
  fs_toolSets :: "string list option"
  fs_first :: bool

definition fold_start :: fold_state where
  "fold_start = \<lparr>fs_clearance = 0, fs_compartments = 0, fs_verbs = 0, fs_chain = [], fs_dropped = [],
     fs_toolSets = None, fs_first = True\<rparr>"

definition fold_step :: "registry \<Rightarrow> claim_body \<Rightarrow> fold_state \<Rightarrow> fold_state" where
  "fold_step reg cur st =
     (let g = cb_Garm cur;
          lvlClearance = clearance_of_name (gc_Clearance g);
          (lvlCompartments, lvlDropped) = rg_SetLenient reg (gc_Compartments g);
          lvlVerbs = verbSetFromNames (gc_Verbs g);
          st1 = st\<lparr>fs_chain := fs_chain st @ [\<lparr>ce_Subject = cb_Subject cur, ce_Kind = kindFromName (gc_Kind g)\<rparr>],
                   fs_dropped := fs_dropped st @ lvlDropped,
                   fs_toolSets := intersectSets (fs_toolSets st) (gc_ToolSets g)\<rparr>
      in if fs_first st then
           st1\<lparr>fs_clearance := lvlClearance, fs_compartments := lvlCompartments, fs_verbs := lvlVerbs,
               fs_first := False\<rparr>
         else
           st1\<lparr>fs_clearance := (if lvlClearance < fs_clearance st then lvlClearance else fs_clearance st),
               fs_compartments := (fs_compartments st AND lvlCompartments),
               fs_verbs := Intersect (fs_verbs st) lvlVerbs\<rparr>)"

fun fold_loop :: "registry \<Rightarrow> claims option \<Rightarrow> fold_state \<Rightarrow> fold_state" where
  "fold_loop reg None st = st"
| "fold_loop reg (Some (Claims b a)) st = fold_loop reg a (fold_step reg b st)"

definition Fold :: "claims option \<Rightarrow> registry \<Rightarrow> fold_err + (principal \<times> string list)" where
  "Fold co reg =
     (case co of
        None \<Rightarrow> Inl NoClaims
      | Some c \<Rightarrow>
          if Depth c > maxDelegationDepth then Inl (ChainTooLong (Depth c))
          else
            (let st = fold_loop reg (Some c) fold_start; b = cl_body c
             in Inr (\<lparr>p_Subject = cb_Subject b,
                      p_Actor = (if length (fs_chain st) > 1 then ce_Subject (last (fs_chain st)) else []),
                      p_Kind = kindFromName (gc_Kind (cb_Garm b)), p_Chain = fs_chain st,
                      p_Tenant = cb_Tenant b, p_Clearance = fs_clearance st,
                      p_Compartments = fs_compartments st, p_Verbs = fs_verbs st,
                      p_TokenID = cb_ID b,
                      p_Execution = (case cb_Exec b of Some ex \<Rightarrow> ex_Subject ex | None \<Rightarrow> []),
                      p_ToolSets = fs_toolSets st\<rparr>,
                     fs_dropped st)))"

section \<open>A meet of authorities\<close>

text \<open>\<open>ok a x\<close>: the accumulated authority \<open>a\<close> admits \<open>x\<close>; \<open>lvl b x\<close>: one level's claim does.\<close>

locale narrowing =
  fixes meet :: "'a \<Rightarrow> 'b \<Rightarrow> 'a" and ok :: "'a \<Rightarrow> 'x \<Rightarrow> bool" and lvl :: "'b \<Rightarrow> 'x \<Rightarrow> bool"
  assumes meet_ok: "ok (meet a b) x \<longleftrightarrow> ok a x \<and> lvl b x"
begin

lemma chain_ok: "ok (foldl meet a bs) x \<longleftrightarrow> ok a x \<and> (\<forall>b \<in> set bs. lvl b x)"
  by (induction bs arbitrary: a) (auto simp: meet_ok)

lemma more_levels: "ok (foldl meet a (bs @ cs)) x \<Longrightarrow> ok (foldl meet a bs) x"
  by (simp add: chain_ok)

end

definition meet_clearance :: "clearance \<Rightarrow> clearance \<Rightarrow> clearance" where
  "meet_clearance a b = (if b < a then b else a)"

definition set_admits :: "string list option \<Rightarrow> string \<Rightarrow> bool" where
  "set_admits have s = (case have of None \<Rightarrow> True | Some hs \<Rightarrow> s \<in> set hs)"

definition names_admit :: "string list \<Rightarrow> string \<Rightarrow> bool" where
  "names_admit add s \<longleftrightarrow> add = [] \<or> s \<in> set add"

lemma set_keep_shared [simp]: "set (keep_shared hs add) = set hs \<inter> set add"
  by (induction hs) auto

interpretation clearances: narrowing meet_clearance "\<lambda>a x. x \<le> a" "\<lambda>b x. x \<le> b"
  by unfold_locales (auto simp: meet_clearance_def)

interpretation verbs: narrowing Intersect Has Has
  by unfold_locales simp

interpretation compartments: narrowing "\<lambda>a b. a AND b :: nat" bit bit
  by unfold_locales (simp add: bit_and_iff)

interpretation toolsets: narrowing intersectSets set_admits names_admit
  by unfold_locales
    (auto simp: intersectSets_def set_admits_def names_admit_def split: option.splits)

section \<open>The loop is four meets\<close>

definition lvl_clearance :: "claim_body \<Rightarrow> clearance" where
  "lvl_clearance b = clearance_of_name (gc_Clearance (cb_Garm b))"

definition lvl_compartments :: "registry \<Rightarrow> claim_body \<Rightarrow> comp_set" where
  "lvl_compartments reg b = fst (rg_SetLenient reg (gc_Compartments (cb_Garm b)))"

definition lvl_verbs :: "claim_body \<Rightarrow> verb_set" where
  "lvl_verbs b = verbSetFromNames (gc_Verbs (cb_Garm b))"

definition lvl_entry :: "claim_body \<Rightarrow> chain_entry" where
  "lvl_entry b = \<lparr>ce_Subject = cb_Subject b, ce_Kind = kindFromName (gc_Kind (cb_Garm b))\<rparr>"

definition lvl_dropped :: "registry \<Rightarrow> claim_body \<Rightarrow> string list" where
  "lvl_dropped reg b = snd (rg_SetLenient reg (gc_Compartments (cb_Garm b)))"

lemma fold_step_first:
  "fs_first st \<Longrightarrow> fold_step reg b st =
     \<lparr>fs_clearance = lvl_clearance b, fs_compartments = lvl_compartments reg b, fs_verbs = lvl_verbs b,
      fs_chain = fs_chain st @ [lvl_entry b], fs_dropped = fs_dropped st @ lvl_dropped reg b,
      fs_toolSets = intersectSets (fs_toolSets st) (gc_ToolSets (cb_Garm b)), fs_first = False\<rparr>"
  by (simp add: fold_step_def Let_def lvl_clearance_def lvl_compartments_def lvl_verbs_def
      lvl_entry_def lvl_dropped_def split: prod.split)

lemma fold_step_next:
  "\<not> fs_first st \<Longrightarrow> fold_step reg b st =
     \<lparr>fs_clearance = meet_clearance (fs_clearance st) (lvl_clearance b),
      fs_compartments = (fs_compartments st AND lvl_compartments reg b),
      fs_verbs = Intersect (fs_verbs st) (lvl_verbs b),
      fs_chain = fs_chain st @ [lvl_entry b], fs_dropped = fs_dropped st @ lvl_dropped reg b,
      fs_toolSets = intersectSets (fs_toolSets st) (gc_ToolSets (cb_Garm b)), fs_first = False\<rparr>"
  by (simp add: fold_step_def Let_def lvl_clearance_def lvl_compartments_def lvl_verbs_def
      lvl_entry_def lvl_dropped_def meet_clearance_def split: prod.split)

lemma fold_loop_levels: "fold_loop reg (Some c) st = foldl (\<lambda>s b. fold_step reg b s) st (levels c)"
  by (induction c arbitrary: st rule: levels.induct) auto

lemma fold_rest:
  "\<not> fs_first st \<Longrightarrow> foldl (\<lambda>s b. fold_step reg b s) st bs =
     \<lparr>fs_clearance = foldl meet_clearance (fs_clearance st) (map lvl_clearance bs),
      fs_compartments = foldl (\<lambda>a b. a AND b) (fs_compartments st) (map (lvl_compartments reg) bs),
      fs_verbs = foldl Intersect (fs_verbs st) (map lvl_verbs bs),
      fs_chain = fs_chain st @ map lvl_entry bs,
      fs_dropped = fs_dropped st @ concat (map (lvl_dropped reg) bs),
      fs_toolSets = foldl intersectSets (fs_toolSets st) (map (\<lambda>b. gc_ToolSets (cb_Garm b)) bs),
      fs_first = False\<rparr>"
  by (induction bs arbitrary: st) (simp_all add: fold_step_next)

section \<open>What the fold carries\<close>

lemma Fold_Inr:
  assumes "Fold (Some c) reg = Inr (p, dropped)"
  obtains b bs where "levels c = b # bs" "b = cl_body c" "Depth c \<le> maxDelegationDepth"
    "p_Clearance p = foldl meet_clearance (lvl_clearance b) (map lvl_clearance bs)"
    "p_Compartments p = foldl (\<lambda>a b. a AND b) (lvl_compartments reg b) (map (lvl_compartments reg) bs)"
    "p_Verbs p = foldl Intersect (lvl_verbs b) (map lvl_verbs bs)"
    "p_ToolSets p = foldl intersectSets None (map (\<lambda>b. gc_ToolSets (cb_Garm b)) (b # bs))"
    "p_Chain p = map lvl_entry (levels c)" "dropped = concat (map (lvl_dropped reg) (levels c))"
    "p_Subject p = cb_Subject b" "p_Kind p = kindFromName (gc_Kind (cb_Garm b))"
    "p_Actor p = (if length (p_Chain p) > 1 then ce_Subject (last (p_Chain p)) else [])"
proof -
  obtain bs where l: "levels c = cl_body c # bs" by (metis levels_Cons)
  have first: "fs_first fold_start" "fs_chain fold_start = []" "fs_dropped fold_start = []"
    "fs_toolSets fold_start = None" by (simp_all add: fold_start_def)
  have st: "fold_loop reg (Some c) fold_start =
      foldl (\<lambda>s b. fold_step reg b s) (fold_step reg (cl_body c) fold_start) bs"
    by (simp add: fold_loop_levels l)
  have "Depth c \<le> maxDelegationDepth"
    using assms by (auto simp: Fold_def Let_def split: if_splits)
  then show thesis
    using assms that[OF l refl]
    by (auto simp: Fold_def Let_def st fold_rest fold_step_first[OF first(1)] first l
        split: if_splits)
qed

text \<open>
  A delegated call carries exactly the authority every party in the chain has. The folded
  principal's clearance, verbs, compartments and tool sets admit exactly what all the levels admit
  (a level naming no tool set constrains none); the chain, the subject, the actor and the compartment
  names dropped are those of the token.
\<close>

theorem fold_exact:
  assumes "Fold (Some c) reg = Inr (p, dropped)"
  shows "(\<forall>x. x \<le> p_Clearance p \<longleftrightarrow> (\<forall>b \<in> set (levels c). x \<le> lvl_clearance b)) \<and>
     (\<forall>v. Has (p_Verbs p) v \<longleftrightarrow> (\<forall>b \<in> set (levels c). Has (lvl_verbs b) v)) \<and>
     (\<forall>n. bit (p_Compartments p) n \<longleftrightarrow> (\<forall>b \<in> set (levels c). bit (lvl_compartments reg b) n)) \<and>
     (\<forall>s. set_admits (p_ToolSets p) s \<longleftrightarrow>
        (\<forall>b \<in> set (levels c). names_admit (gc_ToolSets (cb_Garm b)) s)) \<and>
     p_Chain p = map lvl_entry (levels c) \<and> dropped = concat (map (lvl_dropped reg) (levels c)) \<and>
     p_Subject p = cb_Subject (cl_body c) \<and> length (p_Chain p) \<le> maxDelegationDepth"
  using assms
proof (cases rule: Fold_Inr)
  case (1 b bs)
  have "set_admits None s" for s by (simp add: set_admits_def)
  then show ?thesis
    unfolding 1(4-7)
    by (simp only: clearances.chain_ok verbs.chain_ok compartments.chain_ok toolsets.chain_ok)
      (use 1 in \<open>auto simp: Depth_levels\<close>)
qed

section \<open>Delegation narrows\<close>

definition allows_mono :: "(clearance \<Rightarrow> clearance \<Rightarrow> bool) \<Rightarrow> bool" where
  "allows_mono A \<longleftrightarrow> (\<forall>a b n. a \<le> b \<longrightarrow> A a n \<longrightarrow> A b n)"

definition covers_mono :: "(comp_set \<Rightarrow> comp_set \<Rightarrow> bool) \<Rightarrow> bool" where
  "covers_mono C \<longleftrightarrow> (\<forall>a b n. (\<forall>i. bit a i \<longrightarrow> bit b i) \<longrightarrow> C a n \<longrightarrow> C b n)"

lemma num_allows_mono: "allows_mono num_allows"
  by (auto simp: allows_mono_def num_allows_def)

lemma bit_covers_mono: "covers_mono bit_covers"
  unfolding covers_mono_def bit_covers_def by (metis bit_and_iff bit_eq_iff)

lemma inScope_narrow:
  assumes "\<And>s. set_admits a s \<Longrightarrow> set_admits b s" "inScope a sets"
  shows "inScope b sets"
proof (cases b)
  case None
  then show ?thesis by (simp add: inScope_def)
next
  case (Some ss)
  have "infinite (UNIV :: string set)" by (rule infinite_UNIV_listI)
  then obtain z where z: "z \<notin> set ss" using ex_new_if_finite[OF _ finite_set] by blast
  have "a \<noteq> None" using assms(1)[of z] z Some by (cases a) (auto simp: set_admits_def)
  then obtain hs where a: "a = Some hs" by blast
  then have "s \<in> set ss" if "s \<in> set hs" for s
    using assms(1)[of s] that Some by (simp add: set_admits_def)
  then show ?thesis using assms(2) Some a by (auto simp: inScope_def scope_meets_iff)
qed

text \<open>
  C23: Adding a hop can only take authority away, whatever the added parties claim for themselves: a
  tool the longer chain's principal may see, the shorter chain's principal may see too.
\<close>

theorem delegation_never_widens:
  assumes "allows_mono (pk_Allows (en_Policy E))" "covers_mono (pk_Covers (en_Policy E))"
    and "Fold (Some c) reg = Inr (p, d)" "Fold (Some c') reg = Inr (p', d')"
    and "levels c' = levels c @ extra" "Visible E k (Some p') t"
  shows "Visible E k (Some p) t"
proof -
  from assms(3) obtain b bs where s: "levels c = b # bs"
    "p_Clearance p = foldl meet_clearance (lvl_clearance b) (map lvl_clearance bs)"
    "p_Compartments p = foldl (\<lambda>a b. a AND b) (lvl_compartments reg b) (map (lvl_compartments reg) bs)"
    "p_Verbs p = foldl Intersect (lvl_verbs b) (map lvl_verbs bs)"
    "p_ToolSets p = foldl intersectSets None (map (\<lambda>b. gc_ToolSets (cb_Garm b)) (b # bs))"
    by (rule Fold_Inr)
  from assms(4) obtain b' bs' where l: "levels c' = b' # bs'"
    "p_Clearance p' = foldl meet_clearance (lvl_clearance b') (map lvl_clearance bs')"
    "p_Compartments p' = foldl (\<lambda>a b. a AND b) (lvl_compartments reg b') (map (lvl_compartments reg) bs')"
    "p_Verbs p' = foldl Intersect (lvl_verbs b') (map lvl_verbs bs')"
    "p_ToolSets p' = foldl intersectSets None (map (\<lambda>b. gc_ToolSets (cb_Garm b)) (b' # bs'))"
    by (rule Fold_Inr)
  have e: "b' = b" "bs' = bs @ extra" using assms(5) s(1) l(1) by auto
  have clr: "p_Clearance p' \<le> p_Clearance p"
    using clearances.more_levels[of "p_Clearance p'" "lvl_clearance b" "map lvl_clearance bs"
        "map lvl_clearance extra"] s(2) l(2) e by simp
  have cmp: "bit (p_Compartments p') i \<Longrightarrow> bit (p_Compartments p) i" for i
    using compartments.more_levels[of "lvl_compartments reg b" "map (lvl_compartments reg) bs"
        "map (lvl_compartments reg) extra" i] s(3) l(3) e by simp
  have vrb: "Has (p_Verbs p') v \<Longrightarrow> Has (p_Verbs p) v" for v
    using verbs.more_levels[of "lvl_verbs b" "map lvl_verbs bs" "map lvl_verbs extra" v] s(4) l(4) e
    by simp
  have tls: "set_admits (p_ToolSets p') x \<Longrightarrow> set_admits (p_ToolSets p) x" for x
    using toolsets.more_levels[of None "map (\<lambda>b. gc_ToolSets (cb_Garm b)) (b # bs)"
        "map (\<lambda>b. gc_ToolSets (cb_Garm b)) extra" x] s(5) l(5) e by simp
  have "pk_Covers (en_Policy E) (p_Compartments p) n" if "pk_Covers (en_Policy E) (p_Compartments p') n" for n
    using assms(2) cmp that unfolding covers_mono_def by blast
  moreover have "pk_Allows (en_Policy E) (p_Clearance p) n" if "pk_Allows (en_Policy E) (p_Clearance p') n" for n
    using assms(1) clr that unfolding allows_mono_def by blast
  moreover have "inScope (p_ToolSets p) n" if "inScope (p_ToolSets p') n" for n
    using inScope_narrow[OF tls that] .
  ultimately show ?thesis
    using assms(6) vrb by (simp add: Visible_def visibleLocked_def)
qed

section \<open>A chain, folded\<close>

definition sample_folded :: principal where
  "sample_folded = \<lparr>p_Subject = ''ada'', p_Actor = ''bot'', p_Kind = 1,
     p_Chain = [\<lparr>ce_Subject = ''ada'', ce_Kind = 1\<rparr>, \<lparr>ce_Subject = ''bot'', ce_Kind = 0\<rparr>],
     p_Tenant = [], p_Clearance = CLEARANCE_PUBLIC, p_Compartments = 1, p_Verbs = 2, p_TokenID = [],
     p_Execution = [], p_ToolSets = Some [''books'']\<rparr>"

lemma sample_fold: "Fold (Some sample_claims) sample_registry = Inr (sample_folded, [''nope''])"
  by code_simp

lemma fold_exact_witness:
  "Has (p_Verbs sample_folded) VERB_READ \<and> \<not> Has (p_Verbs sample_folded) VERB_WRITE \<and>
   (\<forall>x. x \<le> p_Clearance sample_folded \<longleftrightarrow> (\<forall>b \<in> set (levels sample_claims). x \<le> lvl_clearance b))"
proof -
  have "Has (p_Verbs sample_folded) VERB_READ" "\<not> Has (p_Verbs sample_folded) VERB_WRITE"
    by code_simp+
  then show ?thesis using fold_exact[OF sample_fold] by blast
qed

definition sample_direct :: claims where
  "sample_direct = Claims (cl_body sample_claims) None"

lemma sample_direct_fold:
  "Fold (Some sample_direct) sample_registry =
     Inr (sample_folded\<lparr>p_Actor := [], p_Chain := [\<lparr>ce_Subject = ''ada'', ce_Kind = 1\<rparr>],
            p_Clearance := CLEARANCE_INTERNAL, p_Verbs := 6, p_ToolSets := None\<rparr>, [''nope''])"
  by code_simp

definition public_tool :: tooldef where
  "public_tool = sample_tool\<lparr>t_MinClearance := CLEARANCE_PUBLIC\<rparr>"

lemma delegation_never_widens_witness:
  "Visible sample_env sample_mounted (Some sample_folded) public_tool \<and>
   (\<exists>p. Visible sample_env sample_mounted (Some p) public_tool \<and> p_ToolSets p = None)"
proof -
  have pol: "pk_Allows (en_Policy sample_env) = num_allows" "pk_Covers (en_Policy sample_env) = bit_covers"
    by (simp_all add: sample_env_def sample_policy_def)
  have lv: "levels sample_claims = levels sample_direct @ [level_named ''bot'' ''CLEARANCE_PUBLIC'']"
    by (simp add: sample_claims_def sample_direct_def)
  have vis: "Visible sample_env sample_mounted (Some sample_folded) public_tool" by code_simp
  show ?thesis
    using delegation_never_widens[of sample_env, unfolded pol, OF num_allows_mono bit_covers_mono
        sample_direct_fold sample_fold lv vis] vis by auto
qed

end
