(* ===== verification/Verify.thy ===== *)
theory Verify
  imports Jwks Fold
begin

text \<open>
  \<open>internal/authn/verify.go\<close>, \<open>registry.go\<close> and \<open>middleware.go\<close>: from a bearer token to a principal.
  The JOSE library and the JSON decoder are parameters (the record \<open>jose\<close>). Key sets live in a
  store, because several issuers may share one; a time is in nanoseconds, as \<open>zero_ns\<close> says.
\<close>

section \<open>The libraries\<close>

text \<open>A parsed token: the key ids of its signatures, the payload as sent, and verification.\<close>

record 'k jws =
  sg_kids :: "string list"
  sg_unsafe :: string
  sg_Verify :: "'k \<Rightarrow> go_err + string"

record 'k jose =
  jo_ParseSigned :: "string \<Rightarrow> go_err + 'k jws"
  jo_object :: "string \<Rightarrow> go_err + jobj"
  jo_issuer :: "string \<Rightarrow> string option"
  jo_keys :: "string \<Rightarrow> go_err + (string \<times> 'k) list"

section \<open>Configuration\<close>

record trusted_issuer =
  tr_Issuer :: string
  tr_KeySet :: "nat option"
  tr_JWKS :: string

record verify_config =
  vc_Trusted :: "trusted_issuer list"
  vc_KeySet :: "nat option"
  vc_Issuers :: "string list"
  vc_Audience :: string
  vc_Compartments :: "registry option"
  vc_CompartmentSource :: "registry option option"
  vc_Skew :: int

datatype cfg_err =
  TwoTaxonomies | BothForms | NoIssuerName | NoKeySet string | TrustedTwice string

record verifier =
  vr_cfg :: verify_config
  vr_cfgErr :: "cfg_err option"

definition DefaultSkew :: int where "DefaultSkew = 60 * 10 ^ 9"

fun checkTrusted_from :: "string list \<Rightarrow> trusted_issuer list \<Rightarrow> cfg_err option" where
  "checkTrusted_from seen [] = None"
| "checkTrusted_from seen (t # ts) =
     (if tr_Issuer t = [] then Some NoIssuerName
      else if tr_KeySet t = None then Some (NoKeySet (tr_Issuer t))
      else if contains_string seen (tr_Issuer t) then Some (TrustedTwice (tr_Issuer t))
      else checkTrusted_from (tr_Issuer t # seen) ts)"

definition checkTrusted :: "trusted_issuer list \<Rightarrow> cfg_err option" where
  "checkTrusted ts = checkTrusted_from [] ts"

definition fold_pair :: "verify_config \<Rightarrow> trusted_issuer list" where
  "fold_pair cfg =
     (if vc_Trusted cfg = [] \<and> vc_KeySet cfg \<noteq> None
      then map (\<lambda>iss. \<lparr>tr_Issuer = iss, tr_KeySet = vc_KeySet cfg, tr_JWKS = []\<rparr>) (vc_Issuers cfg)
      else vc_Trusted cfg)"

definition NewVerifier :: "verify_config \<Rightarrow> verifier" where
  "NewVerifier cfg =
     (let cfg1 = cfg\<lparr>vc_Skew := (if vc_Skew cfg = 0 then DefaultSkew else vc_Skew cfg)\<rparr>;
          bothForms = (vc_Trusted cfg \<noteq> [] \<and> (vc_KeySet cfg \<noteq> None \<or> vc_Issuers cfg \<noteq> []));
          cfg2 = cfg1\<lparr>vc_Trusted := fold_pair cfg1\<rparr>
      in \<lparr>vr_cfg = cfg2,
          vr_cfgErr =
            (if vc_Compartments cfg \<noteq> None \<and> vc_CompartmentSource cfg \<noteq> None then Some TwoTaxonomies
             else if bothForms then Some BothForms
             else checkTrusted (vc_Trusted cfg2))\<rparr>)"

section \<open>Verification\<close>

datatype verify_err =
    Misconfigured cfg_err | NotConfigured | NotAToken go_err | SignatureCount nat | NoKid
  | IssuerNotAllowed | KeyErr go_err | BadSignature go_err | BadBody go_err | BadClaims claims_err
  | SignedForOther string string | IssuerNotListed string | WrongAudience | Expired int | NoExpiry
  | NotYetValid int | FoldErr fold_err

definition trustedFor :: "'k jose \<Rightarrow> verifier \<Rightarrow> string \<Rightarrow> trusted_issuer option" where
  "trustedFor J v payload =
     (case jo_issuer J payload of
        None \<Rightarrow> None
      | Some iss \<Rightarrow>
          if iss = [] then None
          else List.find (\<lambda>t. tr_Issuer t = iss \<and> tr_KeySet t \<noteq> None) (vc_Trusted (vr_cfg v)))"

text \<open>The registry pinned on the request outranks the configuration.\<close>

definition compartments_of :: "verifier \<Rightarrow> registry option \<Rightarrow> registry option" where
  "compartments_of v pinned =
     (case pinned of
        Some reg \<Rightarrow> Some reg
      | None \<Rightarrow>
          (case vc_CompartmentSource (vr_cfg v) of
             Some cur \<Rightarrow> cur
           | None \<Rightarrow> vc_Compartments (vr_cfg v)))"

fun allowed_issuer :: "trusted_issuer list \<Rightarrow> string \<Rightarrow> bool" where
  "allowed_issuer [] iss = False"
| "allowed_issuer (t # ts) iss = (tr_Issuer t = iss \<or> allowed_issuer ts iss)"

definition nbf_refused :: "verifier \<Rightarrow> jobj \<Rightarrow> int \<Rightarrow> int option" where
  "nbf_refused v raw now =
     (case map_of raw ''nbf'' of
        Some (JNum n e) \<Rightarrow>
          (let start = numericDate n e * 10 ^ 9
           in if now + vc_Skew (vr_cfg v) < start then Some start else None)
      | _ \<Rightarrow> None)"

definition checkRegistered :: "verifier \<Rightarrow> claims \<Rightarrow> jobj \<Rightarrow> int \<Rightarrow> verify_err option" where
  "checkRegistered v c raw now =
     (let b = cl_body c; expires = cb_ExpiresAt b * 10 ^ 9 in
      if \<not> allowed_issuer (vc_Trusted (vr_cfg v)) (cb_Issuer b) then Some (IssuerNotListed (cb_Issuer b))
      else if \<not> contains_string (cb_Audience b) (vc_Audience (vr_cfg v)) then Some WrongAudience
      else if cb_ExpiresAt b \<noteq> zero_time \<and> now > expires + vc_Skew (vr_cfg v)
        then Some (Expired (cb_ExpiresAt b))
      else if cb_ExpiresAt b = zero_time then Some NoExpiry
      else (case nbf_refused v raw now of Some s \<Rightarrow> Some (NotYetValid s) | None \<Rightarrow> None))"

text \<open>What follows the signature check: everything here is verified content.\<close>

definition verified_content ::
  "'k jose \<Rightarrow> verifier \<Rightarrow> registry \<Rightarrow> trusted_issuer \<Rightarrow> string \<Rightarrow> int \<Rightarrow>
     verify_err + (principal \<times> string list)" where
  "verified_content J v reg t payload now =
     (case jo_object J payload of
        Inl e \<Rightarrow> Inl (BadBody e)
      | Inr raw \<Rightarrow>
     (case ParseClaims raw of
        Inl e \<Rightarrow> Inl (BadClaims e)
      | Inr c \<Rightarrow>
          if cb_Issuer (cl_body c) \<noteq> tr_Issuer t
          then Inl (SignedForOther (tr_Issuer t) (cb_Issuer (cl_body c)))
          else (case checkRegistered v c raw now of
             Some e \<Rightarrow> Inl e
           | None \<Rightarrow> (case Fold (Some c) reg of Inl e \<Rightarrow> Inl (FoldErr e) | Inr r \<Rightarrow> Inr r))))"

type_synonym 'k key_store = "nat \<Rightarrow> 'k keyset"

definition Verify ::
  "'k jose \<Rightarrow> verifier \<Rightarrow> registry option \<Rightarrow> (nat \<Rightarrow> fetched) \<Rightarrow> (nat \<Rightarrow> int) \<Rightarrow> int \<Rightarrow> 'k key_store \<Rightarrow>
     string \<Rightarrow> (verify_err + (principal \<times> string list)) \<times> 'k key_store" where
  "Verify J v pinned net ck now store token =
     (case vr_cfgErr v of
        Some e \<Rightarrow> (Inl (Misconfigured e), store)
      | None \<Rightarrow>
     (case compartments_of v pinned of
        None \<Rightarrow> (Inl NotConfigured, store)
      | Some reg \<Rightarrow>
     if vc_Trusted (vr_cfg v) = [] \<or> vc_Audience (vr_cfg v) = [] then (Inl NotConfigured, store)
     else
     (case jo_ParseSigned J token of
        Inl e \<Rightarrow> (Inl (NotAToken e), store)
      | Inr sg \<Rightarrow>
     if length (sg_kids sg) \<noteq> 1 then (Inl (SignatureCount (length (sg_kids sg))), store)
     else if hd (sg_kids sg) = [] then (Inl NoKid, store)
     else
     (case trustedFor J v (sg_unsafe sg) of
        None \<Rightarrow> (Inl IssuerNotAllowed, store)
      | Some t \<Rightarrow>
          (let i = the (tr_KeySet t) in
           case Key (jo_keys J) (net i) ck (store i) (hd (sg_kids sg)) of
             (Inl e, k', f) \<Rightarrow> (Inl (KeyErr e), store(i := k'))
           | (Inr key, k', f) \<Rightarrow>
               (case sg_Verify sg key of
                  Inl e \<Rightarrow> (Inl (BadSignature e), store(i := k'))
                | Inr payload \<Rightarrow> (verified_content J v reg t payload now, store(i := k'))))))))"

section \<open>The surface\<close>

text \<open>\<open>strings.EqualFold\<close> on ASCII, \<open>bearer\<close>, and \<open>PrincipalFunc\<close>.\<close>

definition bearer :: "string \<Rightarrow> string option" where
  "bearer header =
     (case cut_byte (CHR '' '') header of
        None \<Rightarrow> None
      | Some (scheme, rest) \<Rightarrow>
          if to_upper scheme \<noteq> to_upper ''Bearer'' then None
          else if trim_space rest = [] then None
          else Some (trim_space rest))"

datatype principal_err = NoToken | TokenRefused verify_err

definition PrincipalFunc ::
  "'k jose \<Rightarrow> verifier \<Rightarrow> registry option \<Rightarrow> (nat \<Rightarrow> fetched) \<Rightarrow> (nat \<Rightarrow> int) \<Rightarrow> int \<Rightarrow> 'k key_store \<Rightarrow>
     string option \<Rightarrow> (principal_err + principal) \<times> 'k key_store \<times> string list" where
  "PrincipalFunc J v pinned net ck now store tok =
     (case tok of
        None \<Rightarrow> (Inl NoToken, store, [])
      | Some t \<Rightarrow>
          if t = [] then (Inl NoToken, store, [])
          else (case Verify J v pinned net ck now store t of
             (Inl e, store') \<Rightarrow> (Inl (TokenRefused e), store', [])
           | (Inr (p, dropped), store') \<Rightarrow> (Inr p, store', dropped)))"

text \<open>\<open>Swappable\<close>: a taxonomy a reload replaces; a nil registry leaves the one in place.\<close>

definition set_registry :: "registry option \<Rightarrow> registry option \<Rightarrow> registry option" where
  "set_registry cur reg = (case reg of None \<Rightarrow> cur | Some r \<Rightarrow> Some r)"

definition WithRegistry :: "registry option \<Rightarrow> registry option \<Rightarrow> registry option" where
  "WithRegistry pinned reg = (case reg of None \<Rightarrow> pinned | Some r \<Rightarrow> Some r)"

section \<open>Properties\<close>

lemma allowed_issuer_iff [simp]: "allowed_issuer ts iss \<longleftrightarrow> iss \<in> tr_Issuer ` set ts"
  by (induction ts) auto

lemma trustedFor_Some:
  "trustedFor J v pl = Some t \<Longrightarrow>
     t \<in> set (vc_Trusted (vr_cfg v)) \<and> tr_KeySet t \<noteq> None \<and> jo_issuer J pl = Some (tr_Issuer t)"
  unfolding trustedFor_def by (auto split: option.splits if_splits dest!: find_Some_set)

lemma checkRegistered_None:
  "checkRegistered v c raw now = None \<Longrightarrow>
     vc_Audience (vr_cfg v) \<in> set (cb_Audience (cl_body c)) \<and> cb_ExpiresAt (cl_body c) \<noteq> zero_time \<and>
     now \<le> cb_ExpiresAt (cl_body c) * 10 ^ 9 + vc_Skew (vr_cfg v) \<and> nbf_refused v raw now = None"
  by (auto simp: checkRegistered_def Let_def split: if_splits option.splits)

lemma verified_content_Inr:
  assumes "verified_content J v reg t pl now = Inr r"
  obtains raw c where "jo_object J pl = Inr raw" "ParseClaims raw = Inr c"
    "cb_Issuer (cl_body c) = tr_Issuer t" "checkRegistered v c raw now = None" "Fold (Some c) reg = Inr r"
  using assms by (auto simp: verified_content_def split: sum.splits if_splits option.splits)

lemma Verify_Inr:
  assumes "Verify J v pinned net ck now store token = (Inr r, store')"
  obtains reg sg kid t i key k' f pl where "vr_cfgErr v = None" "compartments_of v pinned = Some reg"
    "jo_ParseSigned J token = Inr sg" "sg_kids sg = [kid]" "kid \<noteq> []"
    "trustedFor J v (sg_unsafe sg) = Some t" "tr_KeySet t = Some i"
    "Key (jo_keys J) (net i) ck (store i) kid = (Inr key, k', f)" "store' = store(i := k')"
    "sg_Verify sg key = Inr pl" "verified_content J v reg t pl now = Inr r"
proof -
  obtain reg sg t where a: "vr_cfgErr v = None" "compartments_of v pinned = Some reg"
    "jo_ParseSigned J token = Inr sg" "length (sg_kids sg) = 1" "hd (sg_kids sg) \<noteq> []"
    "trustedFor J v (sg_unsafe sg) = Some t"
    using assms by (auto simp: Verify_def split: option.splits if_splits sum.splits)
  obtain kid where kid: "sg_kids sg = [kid]" using a(4) by (auto simp: length_Suc_conv)
  obtain i where i: "tr_KeySet t = Some i" using trustedFor_Some[OF a(6)] by blast
  obtain kr k' f where K: "Key (jo_keys J) (net i) ck (store i) kid = (kr, k', f)" by (metis surj_pair)
  have ne: "vc_Trusted (vr_cfg v) \<noteq> []" "vc_Audience (vr_cfg v) \<noteq> []"
    using assms a(1,2) by (auto simp: Verify_def split: if_splits)
  have run: "Verify J v pinned net ck now store token =
      (case kr of
         Inl e \<Rightarrow> (Inl (KeyErr e), store(i := k'))
       | Inr key \<Rightarrow> (case sg_Verify sg key of
            Inl e \<Rightarrow> (Inl (BadSignature e), store(i := k'))
          | Inr pl \<Rightarrow> (verified_content J v reg t pl now, store(i := k'))))"
    unfolding Verify_def using a ne kid i K by (simp split: sum.splits)
  obtain key pl where "kr = Inr key" "sg_Verify sg key = Inr pl" "store' = store(i := k')"
    "verified_content J v reg t pl now = Inr r"
    using assms unfolding run by (auto split: sum.splits)
  then show thesis using that a kid i K by auto
qed

text \<open>
  C4: Whoever is authenticated was signed for by the issuer it claims. A principal comes only from a
  token with one signature, under a named key, that verifies with a key of the key set paired with a
  trusted issuer; the verified content names that same issuer, this deployment's audience, an expiry
  that has not passed, and the authority of the principal is the fold of the verified chain. No other
  issuer's key set is consulted.
\<close>

theorem verify_authenticates:
  assumes "Verify J v pinned net ck now store token = (Inr (p, dropped), store')"
  shows "\<exists>reg sg kid t i key pl raw c.
     vr_cfgErr v = None \<and> compartments_of v pinned = Some reg \<and>
     jo_ParseSigned J token = Inr sg \<and> sg_kids sg = [kid] \<and> kid \<noteq> [] \<and>
     t \<in> set (vc_Trusted (vr_cfg v)) \<and> tr_KeySet t = Some i \<and>
     fst (Key (jo_keys J) (net i) ck (store i) kid) = Inr key \<and> (\<forall>j. j \<noteq> i \<longrightarrow> store' j = store j) \<and>
     sg_Verify sg key = Inr pl \<and> jo_object J pl = Inr raw \<and> ParseClaims raw = Inr c \<and>
     cb_Issuer (cl_body c) = tr_Issuer t \<and> vc_Audience (vr_cfg v) \<in> set (cb_Audience (cl_body c)) \<and>
     cb_ExpiresAt (cl_body c) \<noteq> zero_time \<and>
     now \<le> cb_ExpiresAt (cl_body c) * 10 ^ 9 + vc_Skew (vr_cfg v) \<and> nbf_refused v raw now = None \<and>
     Fold (Some c) reg = Inr (p, dropped)"
  using assms
proof (cases rule: Verify_Inr)
  case (1 reg sg kid t i key k' f pl)
  from 1(11) obtain raw c where vc: "jo_object J pl = Inr raw" "ParseClaims raw = Inr c"
    "cb_Issuer (cl_body c) = tr_Issuer t" "checkRegistered v c raw now = None"
    "Fold (Some c) reg = Inr (p, dropped)"
    by (rule verified_content_Inr)
  have "fst (Key (jo_keys J) (net i) ck (store i) kid) = Inr key" using 1(8) by simp
  then show ?thesis
    using 1(1-7,9,10) vc trustedFor_Some[OF 1(6)] checkRegistered_None[OF vc(4)]
    by (intro exI[of _ reg] exI[of _ sg] exI[of _ kid] exI[of _ t] exI[of _ i] exI[of _ key]
        exI[of _ pl] exI[of _ raw] exI[of _ c]) simp
qed

text \<open>
  A start past the range of int64 wraps to a time before the year 1, so a token that is not valid until
  then is not refused for it.
\<close>

lemma nbf_out_of_range_passes:
  assumes "map_of raw ''nbf'' = Some (JNum (2 ^ 63) 0)" "0 \<le> now" "0 \<le> vc_Skew (vr_cfg v)"
  shows "nbf_refused v raw now = None"
  using assms numericDate_overflows(1) by (simp add: nbf_refused_def Let_def zero_time_def)

lemma checkTrusted_from_None:
  "checkTrusted_from seen ts = None \<Longrightarrow>
     distinct (map tr_Issuer ts) \<and> set seen \<inter> set (map tr_Issuer ts) = {} \<and>
     (\<forall>t \<in> set ts. tr_Issuer t \<noteq> [] \<and> tr_KeySet t \<noteq> None)"
  by (induction seen ts rule: checkTrusted_from.induct) (auto split: if_splits)

text \<open>
  A verifier that verifies anything pairs each issuer with one key set: no issuer is empty, none
  is listed twice, none lacks its key set, and the two forms of the configuration (and the two
  sources of the taxonomy) are never mixed.
\<close>

theorem one_key_set_per_issuer:
  assumes "vr_cfgErr (NewVerifier cfg) = None"
  shows "distinct (map tr_Issuer (vc_Trusted (vr_cfg (NewVerifier cfg)))) \<and>
     (\<forall>t \<in> set (vc_Trusted (vr_cfg (NewVerifier cfg))). tr_Issuer t \<noteq> [] \<and> tr_KeySet t \<noteq> None) \<and>
     (vc_Trusted cfg \<noteq> [] \<longrightarrow> vc_KeySet cfg = None \<and> vc_Issuers cfg = []) \<and>
     (vc_Compartments cfg = None \<or> vc_CompartmentSource cfg = None)"
proof -
  have "checkTrusted (fold_pair (cfg\<lparr>vc_Skew := (if vc_Skew cfg = 0 then DefaultSkew else vc_Skew cfg)\<rparr>)) = None"
    "\<not> (vc_Trusted cfg \<noteq> [] \<and> (vc_KeySet cfg \<noteq> None \<or> vc_Issuers cfg \<noteq> []))"
    "\<not> (vc_Compartments cfg \<noteq> None \<and> vc_CompartmentSource cfg \<noteq> None)"
    using assms by (auto simp: NewVerifier_def Let_def split: if_splits)
  then show ?thesis
    using checkTrusted_from_None[of "[]"]
    by (auto simp: NewVerifier_def Let_def checkTrusted_def)
qed

section \<open>A token, verified\<close>

definition toy_jose :: "nat jose" where
  "toy_jose = \<lparr>jo_ParseSigned = \<lambda>s. if s = ''tok'' then Inr \<lparr>sg_kids = [''k1''], sg_unsafe = ''body'',
        sg_Verify = \<lambda>k. if k = 7 then Inr ''body'' else Inl (Plain ''bad signature'')\<rparr>
      else Inl (Plain ''not a token''),
     jo_object = \<lambda>s. Inr sample_body, jo_issuer = \<lambda>s. Some ''https://idp'', jo_keys = toy_decode\<rparr>"

definition toy_config :: verify_config where
  "toy_config = \<lparr>vc_Trusted = [\<lparr>tr_Issuer = ''https://idp'', tr_KeySet = Some 0, tr_JWKS = ''u''\<rparr>],
     vc_KeySet = None, vc_Issuers = [], vc_Audience = ''garmd'', vc_Compartments = Some sample_registry,
     vc_CompartmentSource = None, vc_Skew = 0\<rparr>"

lemma toy_verified:
  "Verify toy_jose (NewVerifier toy_config) None (\<lambda>i. Body ''keys'') (toy_clock 500) 1700000000000000000
     (\<lambda>i. toy_set) ''tok'' = (Inr (sample_folded, [''nope'']), (\<lambda>i. toy_set)(0 := toy_set))"
proof -
  have K: "Key toy_decode (Body ''keys'') (toy_clock 500) toy_set ''k1'' = (Inr 7, toy_set, False)"
    by (simp add: Key_def fresh_def toy_set_def toy_clock_def key_in_def)
  have C: "checkRegistered (NewVerifier toy_config) sample_claims sample_body 1700000000000000000 = None"
    by code_simp
  have I: "cb_Issuer (cl_body sample_claims) = ''https://idp''" by code_simp
  have "verified_content toy_jose (NewVerifier toy_config) sample_registry
      \<lparr>tr_Issuer = ''https://idp'', tr_KeySet = Some 0, tr_JWKS = ''u''\<rparr> ''body'' 1700000000000000000 =
      Inr (sample_folded, [''nope''])"
    by (simp add: verified_content_def toy_jose_def sample_parsed C I sample_fold)
  moreover have "trustedFor toy_jose (NewVerifier toy_config) ''body'' =
      Some \<lparr>tr_Issuer = ''https://idp'', tr_KeySet = Some 0, tr_JWKS = ''u''\<rparr>"
    by (simp add: trustedFor_def toy_jose_def NewVerifier_def toy_config_def Let_def fold_pair_def)
  moreover have "compartments_of (NewVerifier toy_config) None = Some sample_registry"
    "vr_cfgErr (NewVerifier toy_config) = None" "vc_Trusted (vr_cfg (NewVerifier toy_config)) \<noteq> []"
    "vc_Audience (vr_cfg (NewVerifier toy_config)) = ''garmd''"
    by (simp_all add: NewVerifier_def toy_config_def Let_def fold_pair_def compartments_of_def
        checkTrusted_def)
  ultimately show ?thesis by (simp add: Verify_def toy_jose_def K)
qed

lemma verify_authenticates_witness:
  "\<exists>raw c. ParseClaims raw = Inr c \<and> Fold (Some c) sample_registry = Inr (sample_folded, [''nope'']) \<and>
     ''garmd'' \<in> set (cb_Audience (cl_body c))"
proof -
  have "vc_Audience (vr_cfg (NewVerifier toy_config)) = ''garmd''"
    "compartments_of (NewVerifier toy_config) None = Some sample_registry"
    by (simp_all add: NewVerifier_def toy_config_def Let_def compartments_of_def)
  then show ?thesis using verify_authenticates[OF toy_verified] by auto
qed

lemma one_key_set_per_issuer_witness:
  "distinct (map tr_Issuer (vc_Trusted (vr_cfg (NewVerifier toy_config))))"
  using one_key_set_per_issuer[of toy_config]
  by (simp add: NewVerifier_def toy_config_def Let_def fold_pair_def checkTrusted_def)

end
