(* ===== verification/Replay.thy ===== *)
theory Replay
  imports Errors
begin

text \<open>
  \<open>internal/replay\<close>: the record of spent single-use identifiers, over a JetStream key-value bucket.
  The bucket is a service: \<open>kv_Create\<close> is its answer, and \<open>kv_spec\<close> its documented behaviour (a
  created key is there until it expires, and a key that is there is not created again). Times and
  durations are in nanoseconds.
\<close>

section \<open>Keys\<close>

definition hexDigit :: "nat \<Rightarrow> char" where
  "hexDigit b = (if b < 10 then char_of (48 + b) else char_of (97 + (b - 10)))"

definition plain_key_char :: "char \<Rightarrow> bool" where
  "plain_key_char c =
     (let n = (of_char c :: nat) in
        97 \<le> n \<and> n \<le> 122 \<or> 65 \<le> n \<and> n \<le> 90 \<or> 48 \<le> n \<and> n \<le> 57 \<or>
        c = CHR ''-'' \<or> c = CHR ''_'' \<or> c = CHR ''='' \<or> c = CHR ''.'')"

definition key_piece :: "char \<Rightarrow> string" where
  "key_piece c =
     (if plain_key_char c then [c]
      else [CHR ''.'', hexDigit (of_char c div 16), hexDigit (of_char c mod 16)])"

fun key_of :: "string \<Rightarrow> string" where
  "key_of [] = []"
| "key_of (c # cs) = key_piece c @ key_of cs"

section \<open>The bucket\<close>

datatype kv_answer = KvOk | KvExists | KvErr go_err

record 'b kv =
  kv_Create :: "'b \<Rightarrow> int \<Rightarrow> string \<Rightarrow> kv_answer \<times> 'b"
  kv_Live :: "'b \<Rightarrow> int \<Rightarrow> string \<Rightarrow> bool"

definition kv_spec :: "int \<Rightarrow> 'b kv \<Rightarrow> bool" where
  "kv_spec ttl K \<longleftrightarrow>
     (\<forall>b t k ans b'. kv_Create K b t k = (ans, b') \<longrightarrow>
        (ans = KvOk \<longrightarrow> \<not> kv_Live K b t k \<and> (\<forall>u. t \<le> u \<and> u < t + ttl \<longrightarrow> kv_Live K b' u k)) \<and>
        (ans = KvExists \<longrightarrow> kv_Live K b t k) \<and>
        (\<forall>u k'. kv_Live K b u k' \<longrightarrow> kv_Live K b' u k'))"

section \<open>The cache\<close>

definition spend_text :: string where
  "spend_text = ''replay: no identifier to record; a single-use credential must carry one''"

definition Spend :: "'b kv \<Rightarrow> 'b \<Rightarrow> int \<Rightarrow> string \<Rightarrow> go_err option \<times> 'b" where
  "Spend K b now jti =
     (if jti = [] then (Some (Plain spend_text), b)
      else (case kv_Create K b now (key_of jti) of
         (KvOk, b') \<Rightarrow> (None, b')
       | (KvExists, b') \<Rightarrow> (Some (Sentinel SAlreadySpent), b')
       | (KvErr e, b') \<Rightarrow> (Some (Wrapped (''replay: recording '' @ jti) [e]), b')))"

text \<open>\<open>NewJetStream\<close>: the retention is what the bucket says it keeps, when it says so.\<close>

datatype bucket_open = OpenErr go_err | Opened "int option"

definition NewJetStream :: "int \<Rightarrow> go_err option \<Rightarrow> bucket_open \<Rightarrow> go_err + int" where
  "NewJetStream ttl js opened =
     (if ttl \<le> 0 then Inl (Plain ''replay: a cache with no expiry grows without bound'')
      else (case js of
         Some e \<Rightarrow> Inl (Wrapped ''replay: jetstream'' [e])
       | None \<Rightarrow>
           (case opened of
              OpenErr e \<Rightarrow> Inl (Wrapped ''replay: opening GARM_GRANTS_SPENT'' [e])
            | Opened st \<Rightarrow>
                Inr (case st of Some t \<Rightarrow> if t > 0 then t else ttl | None \<Rightarrow> ttl))))"

definition CheckRetention :: "int option \<Rightarrow> int \<Rightarrow> (int \<times> int) option" where
  "CheckRetention cache longest =
     (case cache of
        None \<Rightarrow> None
      | Some r \<Rightarrow>
          if longest \<le> 0 then None
          else if r > 0 \<and> r < longest then Some (r, longest) else None)"

section \<open>Single use\<close>

text \<open>Any sequence of attempts on the bucket, from any replica.\<close>

fun spend_all :: "'b kv \<Rightarrow> 'b \<Rightarrow> (int \<times> string) list \<Rightarrow> 'b" where
  "spend_all K b [] = b"
| "spend_all K b ((t, jti) # rest) = spend_all K (snd (Spend K b t jti)) rest"

lemma Spend_live:
  assumes "kv_spec ttl K" "Spend K b t jti = (r, b')" "kv_Live K b u k"
  shows "kv_Live K b' u k"
proof (cases "jti = []")
  case True
  then show ?thesis using assms by (simp add: Spend_def)
next
  case False
  obtain ans c where c: "kv_Create K b t (key_of jti) = (ans, c)" by (metis surj_pair)
  then have "b' = c" using assms(2) False by (simp add: Spend_def split: kv_answer.splits)
  then show ?thesis using assms(1,3) c unfolding kv_spec_def by blast
qed

lemma spend_all_live:
  assumes "kv_spec ttl K" "kv_Live K b u k"
  shows "kv_Live K (spend_all K b ops) u k"
  using assms(2)
proof (induction ops arbitrary: b)
  case (Cons op ops)
  obtain t jti where op: "op = (t, jti)" by (cases op)
  obtain r b' where "Spend K b t jti = (r, b')" by (metis surj_pair)
  from Spend_live[OF assms(1) this Cons.prems] Cons.IH show ?case
    using op \<open>Spend K b t jti = (r, b')\<close> by simp
qed simp

lemma Spend_None:
  assumes "kv_spec ttl K" "Spend K b t jti = (None, b')"
  shows "\<not> kv_Live K b t (key_of jti)" and "t \<le> u \<Longrightarrow> u < t + ttl \<Longrightarrow> kv_Live K b' u (key_of jti)"
proof -
  have ne: "jti \<noteq> []" using assms(2) by (auto simp: Spend_def)
  obtain ans c where c: "kv_Create K b t (key_of jti) = (ans, c)" by (metis surj_pair)
  then have "ans = KvOk" "b' = c"
    using assms(2) ne by (auto simp: Spend_def split: kv_answer.splits)
  then show "\<not> kv_Live K b t (key_of jti)" "t \<le> u \<Longrightarrow> u < t + ttl \<Longrightarrow> kv_Live K b' u (key_of jti)"
    using assms(1) c unfolding kv_spec_def by blast+
qed

lemma spent_stays_spent:
  assumes "kv_spec ttl K" "Spend K b t jti = (None, b1)" "t \<le> u" "u < t + ttl"
    and "key_of jti' = key_of jti"
  shows "fst (Spend K (spend_all K b1 ops) u jti') \<noteq> None"
proof
  assume "fst (Spend K (spend_all K b1 ops) u jti') = None"
  then obtain b2 where "Spend K (spend_all K b1 ops) u jti' = (None, b2)" by (metis prod.collapse)
  then have "\<not> kv_Live K (spend_all K b1 ops) u (key_of jti')" using Spend_None(1)[OF assms(1)] by blast
  moreover have "kv_Live K b1 u (key_of jti)" using Spend_None(2)[OF assms(1-4)] .
  ultimately show False using spend_all_live[OF assms(1)] assms(5) by metis
qed

text \<open>
  One identifier is spent once. After a successful spend, whatever any replica spends in
  between, the same identifier is not spent again within the bucket's retention; and a failure to
  find out is never a success.
\<close>

theorem single_use:
  assumes "kv_spec ttl K" "Spend K b t jti = (None, b1)" "t \<le> u" "u < t + ttl"
  shows "fst (Spend K (spend_all K b1 ops) u jti) \<noteq> None"
  using spent_stays_spent[OF assms refl] .

section \<open>The spelling of keys\<close>

lemma hexDigit_code: "b < 16 \<Longrightarrow> (of_char (hexDigit b) :: nat) = (if b < 10 then 48 + b else 87 + b)"
  by (simp add: hexDigit_def)

lemma hexDigit_inj: "a < 16 \<Longrightarrow> b < 16 \<Longrightarrow> hexDigit a = hexDigit b \<Longrightarrow> a = b"
proof -
  assume lt: "a < 16" "b < 16" and eq: "hexDigit a = hexDigit b"
  have "(if a < 10 then 48 + a else 87 + a) = (if b < 10 then 48 + b else 87 + b)"
    using hexDigit_code[OF lt(1)] hexDigit_code[OF lt(2)] eq by simp
  then show "a = b" by (auto split: if_splits)
qed

lemma hex_pair_inj:
  assumes "hexDigit (of_char c div 16) = hexDigit (of_char d div 16)"
    and "hexDigit (of_char c mod 16) = hexDigit (of_char d mod 16)"
  shows "c = d"
proof -
  have lt: "(of_char c :: nat) < 256" "(of_char d :: nat) < 256" by simp_all
  then have "(of_char c :: nat) div 16 < 16" "(of_char d :: nat) div 16 < 16"
    by (simp_all add: less_mult_imp_div_less)
  then have "(of_char c :: nat) div 16 = of_char d div 16" using hexDigit_inj assms(1) by blast
  moreover have "(of_char c :: nat) mod 16 = of_char d mod 16"
    using hexDigit_inj[of "of_char c mod 16" "of_char d mod 16"] assms(2) by simp
  ultimately have "(of_char c :: nat) = of_char d" by (metis div_mult_mod_eq)
  then show ?thesis by simp
qed

lemma key_of_inj:
  "CHR ''.'' \<notin> set a \<Longrightarrow> CHR ''.'' \<notin> set b \<Longrightarrow> key_of a = key_of b \<Longrightarrow> a = b"
proof (induction a arbitrary: b)
  case Nil
  then show ?case by (cases b) (auto simp: key_piece_def split: if_splits)
next
  case (Cons c cs)
  then obtain d ds where b: "b = d # ds" by (cases b) (auto simp: key_piece_def split: if_splits)
  have nd: "c \<noteq> CHR ''.''" "d \<noteq> CHR ''.''" using Cons.prems b by auto
  have "key_piece c @ key_of cs = key_piece d @ key_of ds" using Cons.prems(3) b by simp
  then have "c = d \<and> key_of cs = key_of ds"
    using nd hex_pair_inj[of c d] by (auto simp: key_piece_def split: if_splits)
  then show ?case using Cons b by auto
qed

text \<open>
  Identifiers without a dot never collide: such an identifier is refused as spent only if it was
  spent, because its key is that of no other one.
\<close>

theorem key_injective_without_dot:
  assumes "CHR ''.'' \<notin> set a" "CHR ''.'' \<notin> set b"
  shows "key_of a = key_of b \<longleftrightarrow> a = b"
  using key_of_inj[OF assms] by blast

text \<open>
  Identifiers with a dot do collide, because the escape character is itself written plainly:
  \<open>.2f\<close> and \<open>/\<close> have one key. Spending the first makes a first presentation of the second be refused
  as a replay.
\<close>

theorem dot_identifier_collides:
  assumes "kv_spec ttl K" "Spend K b t ''.2f'' = (None, b1)" "t \<le> u" "u < t + ttl"
  shows "key_of ''.2f'' = key_of ''/'' \<and> fst (Spend K b1 u ''/'') \<noteq> None"
proof -
  have k: "key_of ''/'' = key_of ''.2f''" by code_simp
  show ?thesis using spent_stays_spent[OF assms k, of "[]"] k by simp
qed

section \<open>A bucket\<close>

type_synonym memory_bucket = "(string \<times> int) list"

definition mem_kv :: "int \<Rightarrow> memory_bucket kv" where
  "mem_kv ttl = \<lparr>kv_Create = \<lambda>b t k.
       if \<exists>(k', t') \<in> set b. k' = k \<and> t' \<le> t \<and> t < t' + ttl then (KvExists, b) else (KvOk, (k, t) # b),
     kv_Live = \<lambda>b t k. \<exists>(k', t') \<in> set b. k' = k \<and> t' \<le> t \<and> t < t' + ttl\<rparr>"

lemma mem_kv_spec: "kv_spec ttl (mem_kv ttl)"
  unfolding kv_spec_def mem_kv_def by (auto split: if_splits)

lemma mem_spend: "Spend (mem_kv 100) [] 5 ''.2f'' = (None, [(''.2f'', 5)])"
  by (simp add: Spend_def mem_kv_def key_piece_def plain_key_char_def)

lemma single_use_witness:
  "fst (Spend (mem_kv 100) (spend_all (mem_kv 100) [(''.2f'', 5)] [(6, ''a''), (7, ''.2f'')]) 90 ''.2f'') \<noteq> None"
  by (rule single_use[OF mem_kv_spec mem_spend]) simp_all

lemma key_injective_without_dot_witness: "key_of ''a/b'' \<noteq> key_of ''ab''"
  using key_injective_without_dot[of "''a/b''" "''ab''"] by simp

lemma dot_identifier_collides_witness: "fst (Spend (mem_kv 100) [(''.2f'', 5)] 90 ''/'') \<noteq> None"
  using dot_identifier_collides[OF mem_kv_spec mem_spend, of 90] by simp

end
