(* ===== verification/Grants.thy ===== *)
theory Grants
  imports Verify Replay
begin

text \<open>
  \<open>internal/grants\<close>: step 5, spending an approval. What a grant is (its claims, their comparisons,
  the canonical text of the values it binds) is the library \<open>contracts/grants\<close>: the record
  \<open>grant_pkg\<close>. A call happens at one instant \<open>now\<close>; the latency of the bucket is not modelled.
\<close>

section \<open>The library's grant\<close>

record grant_claims =
  gr_Issuer :: string
  gr_Audience :: "string list"
  gr_ID :: string
  gr_Task :: string
  gr_Subject :: string
  gr_IssuedAt :: int
  gr_body :: string

record grant_pkg =
  gp_ParseClaims :: "string \<Rightarrow> go_err + grant_claims"
  gp_CheckNoAct :: "grant_claims \<Rightarrow> go_err option"
  gp_CheckTool :: "grant_claims \<Rightarrow> string \<Rightarrow> go_err option"
  gp_CheckSubject :: "grant_claims \<Rightarrow> string \<Rightarrow> go_err option"
  gp_CheckFresh :: "grant_claims \<Rightarrow> int \<Rightarrow> int \<Rightarrow> int \<Rightarrow> go_err option"
  gp_CheckApprover :: "grant_claims \<Rightarrow> clearance \<Rightarrow> string list \<Rightarrow> go_err option"
  gp_Materialise :: "pmsg \<Rightarrow> string list \<Rightarrow> go_err + string"
  gp_CheckMaterial :: "grant_claims \<Rightarrow> string \<Rightarrow> go_err option"

text \<open>The verifier: are a key set and a cache configured, and the rest of its fields.\<close>

record gverifier =
  gf_Keys :: bool
  gf_Issuers :: "string list"
  gf_Audience :: string
  gf_Spent :: bool
  gf_Skew :: int

section \<open>The checks\<close>

fun first_error :: "go_err option list \<Rightarrow> go_err option" where
  "first_error [] = None"
| "first_error (None # es) = first_error es"
| "first_error (Some e # es) = Some e"

definition unless :: "bool \<Rightarrow> string \<Rightarrow> go_err option" where
  "unless b t = (if b then None else Some (Plain t))"

definition check_caller :: "grant_pkg \<Rightarrow> grant_claims \<Rightarrow> principal option \<Rightarrow> go_err option" where
  "check_caller L c po =
     (case po of
        None \<Rightarrow> Some (Plain ''the grant approves a call, and this call has no caller'')
      | Some p \<Rightarrow> gp_CheckSubject L c (p_Subject p))"

definition checkShape ::
  "grant_pkg \<Rightarrow> gverifier \<Rightarrow> grant_claims \<Rightarrow> principal option \<Rightarrow> tooldef \<Rightarrow> int \<Rightarrow> go_err option" where
  "checkShape L v c po t now =
     first_error
       [gp_CheckNoAct L c,
        unless (contains_string (gf_Issuers v) (gr_Issuer c)) ''the grant's issuer is not trusted here'',
        unless (contains_string (gr_Audience c) (gf_Audience v)) ''the grant was not minted for this deployment'',
        unless (gr_ID c \<noteq> []) ''the grant has no jti, so it cannot be made single-use'',
        gp_CheckTool L c (t_FQN t),
        check_caller L c po,
        gp_CheckFresh L c now (gf_Skew v) (t_MaxGrantAge t),
        gp_CheckApprover L c (t_ApproverMinClearance t) (t_ApproverCompartments t)]"

definition checkMaterial :: "grant_pkg \<Rightarrow> grant_claims \<Rightarrow> tooldef \<Rightarrow> pmsg option \<Rightarrow> go_err option" where
  "checkMaterial L c t reqo =
     (if t_MaterialFields t = [] then None
      else (case reqo of
         None \<Rightarrow> Some (Plain ''there is no request to read the material fields from'')
       | Some req \<Rightarrow>
           (case gp_Materialise L req (t_MaterialFields t) of
              Inl e \<Rightarrow> Some e
            | Inr vals \<Rightarrow> gp_CheckMaterial L c vals)))"

definition unavailable :: "string \<Rightarrow> go_err list \<Rightarrow> go_err" where
  "unavailable txt es = Wrapped txt (Sentinel SGrantUnavailable # es)"

definition parse_grant ::
  "'k jose \<Rightarrow> grant_pkg \<Rightarrow> fetched \<Rightarrow> (nat \<Rightarrow> int) \<Rightarrow> 'k keyset \<Rightarrow> string \<Rightarrow>
     (go_err + grant_claims) \<times> 'k keyset" where
  "parse_grant J L net ck ks raw =
     (case jo_ParseSigned J raw of
        Inl e \<Rightarrow> (Inl (Wrapped ''the grant is not a well-formed token'' [e]), ks)
      | Inr sg \<Rightarrow>
          if length (sg_kids sg) \<noteq> 1 then (Inl (Plain ''the grant carries several signatures''), ks)
          else if hd (sg_kids sg) = [] then (Inl (Plain ''the grant has no kid''), ks)
          else (case Key (jo_keys J) net ck ks (hd (sg_kids sg)) of
             (Inl e, ks', f) \<Rightarrow>
               (if err_is e SNoSuchKey then (Inl (Wrapped ''the grant's key'' [e]), ks')
                else (Inl (unavailable ''the keys that sign approvals'' [e]), ks'))
           | (Inr key, ks', f) \<Rightarrow>
               (case sg_Verify sg key of
                  Inl e \<Rightarrow> (Inl (Wrapped ''the grant's signature'' [e]), ks')
                | Inr pl \<Rightarrow> (gp_ParseClaims L pl, ks'))))"

section \<open>Verification\<close>

text \<open>What a call reads and changes: the key set, the bucket, the task noted on the binding.\<close>

record ('k, 'b) gstate =
  gs_keys :: "'k keyset"
  gs_bucket :: 'b
  gs_task :: string

definition configured :: "gverifier option \<Rightarrow> bool" where
  "configured vo =
     (case vo of
        None \<Rightarrow> False
      | Some v \<Rightarrow> gf_Keys v \<and> gf_Spent v \<and> gf_Issuers v \<noteq> [] \<and> gf_Audience v \<noteq> [])"

definition spend_grant :: "'b kv \<Rightarrow> 'b \<Rightarrow> int \<Rightarrow> string \<Rightarrow> go_err option \<times> 'b" where
  "spend_grant K b now jti =
     (case Spend K b now jti of
        (None, b') \<Rightarrow> (None, b')
      | (Some e, b') \<Rightarrow>
          if err_is e SAlreadySpent
          then (Some (Plain ''this grant has already been used; an approval authorises one call''), b')
          else (Some (unavailable ''the grant could not be checked for reuse'' [e]), b'))"

definition verify_grant ::
  "'k jose \<Rightarrow> grant_pkg \<Rightarrow> 'b kv \<Rightarrow> gverifier option \<Rightarrow> fetched \<Rightarrow> (nat \<Rightarrow> int) \<Rightarrow> int \<Rightarrow> string \<Rightarrow>
     principal option \<Rightarrow> tooldef \<Rightarrow> pmsg option \<Rightarrow> ('k, 'b) gstate \<Rightarrow> go_err option \<times> ('k, 'b) gstate" where
  "verify_grant J L K vo net ck now raw po t reqo s =
     (if t_ApprovalMode t \<noteq> MODE_GRANT then (None, s)
      else if \<not> configured vo then (Some (unavailable ''the grant verifier is not configured'' []), s)
      else if raw = [] then (Some (Sentinel SGrantRequired), s)
      else
        (case parse_grant J L net ck (gs_keys s) raw of
           (Inl e, ks') \<Rightarrow> (Some e, s\<lparr>gs_keys := ks'\<rparr>)
         | (Inr c, ks') \<Rightarrow>
             (let s1 = s\<lparr>gs_keys := ks', gs_task := gr_Task c\<rparr> in
              case checkShape L (the vo) c po t now of
                Some e \<Rightarrow> (Some e, s1)
              | None \<Rightarrow>
                  (case checkMaterial L c t reqo of
                     Some e \<Rightarrow> (Some e, s1)
                   | None \<Rightarrow>
                       (case spend_grant K (gs_bucket s1) now (gr_ID c) of
                          (r, b') \<Rightarrow> (r, s1\<lparr>gs_bucket := b'\<rparr>))))))"

definition classify_grant :: "go_err option \<Rightarrow> go_err option" where
  "classify_grant r =
     (case r of
        None \<Rightarrow> None
      | Some e \<Rightarrow>
          if err_is e SGrantRequired \<or> err_is e SGrantUnavailable then Some e
          else Some (Wrapped ''the approval presented is not valid for this call''
                 [Sentinel SGrantRefused, e]))"

definition VerifyGrant ::
  "'k jose \<Rightarrow> grant_pkg \<Rightarrow> 'b kv \<Rightarrow> gverifier option \<Rightarrow> fetched \<Rightarrow> (nat \<Rightarrow> int) \<Rightarrow> int \<Rightarrow> string \<Rightarrow>
     principal option \<Rightarrow> tooldef \<Rightarrow> pmsg option \<Rightarrow> ('k, 'b) gstate \<Rightarrow> go_err option \<times> ('k, 'b) gstate" where
  "VerifyGrant J L K vo net ck now raw po t reqo s =
     (case verify_grant J L K vo net ck now raw po t reqo s of (r, s') \<Rightarrow> (classify_grant r, s'))"

section \<open>Every branch\<close>

lemma first_error_None: "first_error es = None \<longleftrightarrow> (\<forall>e \<in> set es. e = None)"
  by (induction es rule: first_error.induct) auto

lemma unless_None [simp]: "unless b t = None \<longleftrightarrow> b"
  by (simp add: unless_def)

text \<open>A grant that passes every check but the last.\<close>

definition grant_good ::
  "grant_pkg \<Rightarrow> gverifier \<Rightarrow> grant_claims \<Rightarrow> principal option \<Rightarrow> tooldef \<Rightarrow> pmsg option \<Rightarrow> int \<Rightarrow> bool" where
  "grant_good L v c po t reqo now \<longleftrightarrow>
     gp_CheckNoAct L c = None \<and> gr_Issuer c \<in> set (gf_Issuers v) \<and> gf_Audience v \<in> set (gr_Audience c) \<and>
     gr_ID c \<noteq> [] \<and> gp_CheckTool L c (t_FQN t) = None \<and>
     (\<exists>p. po = Some p \<and> gp_CheckSubject L c (p_Subject p) = None) \<and>
     gp_CheckFresh L c now (gf_Skew v) (t_MaxGrantAge t) = None \<and>
     gp_CheckApprover L c (t_ApproverMinClearance t) (t_ApproverCompartments t) = None \<and>
     checkMaterial L c t reqo = None"

lemma grant_good_iff:
  "grant_good L v c po t reqo now \<longleftrightarrow> checkShape L v c po t now = None \<and> checkMaterial L c t reqo = None"
  by (auto simp: grant_good_def checkShape_def first_error_None check_caller_def split: option.splits)

lemma verify_grant_cases:
  assumes "verify_grant J L K vo net ck now raw po t reqo s = (r, s')" "t_ApprovalMode t = MODE_GRANT"
  obtains (unconfigured) "\<not> configured vo" "s' = s"
      "r = Some (unavailable ''the grant verifier is not configured'' [])"
  | (absent) "configured vo" "raw = []" "s' = s" "r = Some (Sentinel SGrantRequired)"
  | (unread) v e ks' where "configured vo" "vo = Some v" "raw \<noteq> []" "parse_grant J L net ck (gs_keys s) raw = (Inl e, ks')"
      "r = Some e" "s' = s\<lparr>gs_keys := ks'\<rparr>"
  | (shape) v c ks' e where "configured vo" "vo = Some v" "raw \<noteq> []" "parse_grant J L net ck (gs_keys s) raw = (Inr c, ks')"
      "checkShape L v c po t now = Some e \<or> checkMaterial L c t reqo = Some e" "r = Some e"
      "s' = s\<lparr>gs_keys := ks', gs_task := gr_Task c\<rparr>"
  | (spent) v c ks' b' where "configured vo" "vo = Some v" "raw \<noteq> []" "parse_grant J L net ck (gs_keys s) raw = (Inr c, ks')"
      "grant_good L v c po t reqo now" "spend_grant K (gs_bucket s) now (gr_ID c) = (r, b')"
      "s' = s\<lparr>gs_keys := ks', gs_task := gr_Task c, gs_bucket := b'\<rparr>"
proof (cases "configured vo \<and> raw \<noteq> []")
  case False
  then show thesis using assms unconfigured absent by (auto simp: verify_grant_def split: if_splits)
next
  case True
  then obtain v where v: "vo = Some v" by (auto simp: configured_def split: option.splits)
  obtain pr ks' where pr: "parse_grant J L net ck (gs_keys s) raw = (pr, ks')" by (metis surj_pair)
  show thesis
  proof (cases pr)
    case (Inl e)
    then show thesis using assms True v pr unread by (simp add: verify_grant_def)
  next
    case (Inr c)
    show thesis
    proof (cases "checkShape L v c po t now = None \<and> checkMaterial L c t reqo = None")
      case ok: True
      obtain sr b' where sp: "spend_grant K (gs_bucket s) now (gr_ID c) = (sr, b')" by (metis surj_pair)
      then have "r = sr" "s' = s\<lparr>gs_keys := ks', gs_task := gr_Task c, gs_bucket := b'\<rparr>"
        using assms True v pr Inr ok by (simp_all add: verify_grant_def Let_def)
      then show thesis using spent v True pr Inr ok sp grant_good_iff by blast
    next
      case False
      then obtain e where e: "checkShape L v c po t now = Some e \<or>
          checkShape L v c po t now = None \<and> checkMaterial L c t reqo = Some e"
        by (cases "checkShape L v c po t now"; cases "checkMaterial L c t reqo") auto
      then have "verify_grant J L K vo net ck now raw po t reqo s =
          (Some e, s\<lparr>gs_keys := ks', gs_task := gr_Task c\<rparr>)"
        using assms(2) True v pr Inr by (auto simp: verify_grant_def Let_def)
      then have "r = Some e" "s' = s\<lparr>gs_keys := ks', gs_task := gr_Task c\<rparr>" using assms(1) by simp_all
      then show thesis using shape v True pr Inr e by blast
    qed
  qed
qed

section \<open>Properties\<close>

text \<open>The library's and the network's errors are not the daemon's own sentinels.\<close>

definition plain_err :: "go_err \<Rightarrow> bool" where
  "plain_err e \<longleftrightarrow> \<not> err_is e SGrantRequired \<and> \<not> err_is e SGrantUnavailable \<and>
     \<not> err_is e SGrantRefused \<and> \<not> err_is e SNoSuchKey"

definition grant_lib_ok :: "'k jose \<Rightarrow> grant_pkg \<Rightarrow> bool" where
  "grant_lib_ok J L \<longleftrightarrow>
     (\<forall>r e. jo_ParseSigned J r = Inl e \<longrightarrow> plain_err e) \<and>
     (\<forall>r sg k e. jo_ParseSigned J r = Inr sg \<longrightarrow> sg_Verify sg k = Inl e \<longrightarrow> plain_err e) \<and>
     (\<forall>pl e. gp_ParseClaims L pl = Inl e \<longrightarrow> plain_err e) \<and>
     (\<forall>c e. gp_CheckNoAct L c = Some e \<longrightarrow> plain_err e) \<and>
     (\<forall>c n e. gp_CheckTool L c n = Some e \<longrightarrow> plain_err e) \<and>
     (\<forall>c n e. gp_CheckSubject L c n = Some e \<longrightarrow> plain_err e) \<and>
     (\<forall>c a b d e. gp_CheckFresh L c a b d = Some e \<longrightarrow> plain_err e) \<and>
     (\<forall>c a b e. gp_CheckApprover L c a b = Some e \<longrightarrow> plain_err e) \<and>
     (\<forall>m fs e. gp_Materialise L m fs = Inl e \<longrightarrow> plain_err e) \<and>
     (\<forall>c vs e. gp_CheckMaterial L c vs = Some e \<longrightarrow> plain_err e)"

lemma first_error_Some: "first_error es = Some e \<Longrightarrow> Some e \<in> set es"
  by (induction es rule: first_error.induct) auto

lemma plain_Plain [simp]: "plain_err (Plain t)"
  by (simp add: plain_err_def)

lemma plain_Wrapped [simp]: "plain_err (Wrapped t es) \<longleftrightarrow> (\<forall>e \<in> set es. plain_err e)"
  by (auto simp: plain_err_def)

lemma shape_plain:
  assumes "grant_lib_ok J L" "checkShape L v c po t now = Some e"
  shows "plain_err e"
proof -
  have "check_caller L c po = Some e \<Longrightarrow> plain_err e"
    using assms(1) by (auto simp: check_caller_def grant_lib_ok_def split: option.splits)
  moreover have "unless b tx = Some e \<Longrightarrow> plain_err e" for b tx
    by (auto simp: unless_def split: if_splits)
  ultimately show ?thesis
    using first_error_Some[OF assms(2)[unfolded checkShape_def]] assms(1)
    unfolding grant_lib_ok_def by (auto simp: eq_commute)
qed

lemma material_plain:
  "grant_lib_ok J L \<Longrightarrow> checkMaterial L c t reqo = Some e \<Longrightarrow> plain_err e"
  by (auto simp: checkMaterial_def grant_lib_ok_def split: option.splits sum.splits if_splits)

text \<open>
  C5: A tool that needs an approval runs only on one that passed every check: if verification lets the
  call pass, a grant was presented, signed once by a key the issuer publishes, not delegated, from a
  trusted issuer, for this deployment, this tool and this caller, fresh, senior enough, binding the very
  values of the request, and it was recorded as spent by this call.
\<close>

theorem grant_pass_is_complete:
  assumes "VerifyGrant J L K vo net ck now raw po t reqo s = (None, s')"
    and "t_ApprovalMode t = MODE_GRANT"
  shows "\<exists>v sg kid key pl c. vo = Some v \<and> raw \<noteq> [] \<and>
     jo_ParseSigned J raw = Inr sg \<and> sg_kids sg = [kid] \<and> kid \<noteq> [] \<and>
     fst (Key (jo_keys J) net ck (gs_keys s) kid) = Inr key \<and> sg_Verify sg key = Inr pl \<and>
     gp_ParseClaims L pl = Inr c \<and> grant_good L v c po t reqo now \<and>
     Spend K (gs_bucket s) now (gr_ID c) = (None, gs_bucket s')"
proof -
  have "verify_grant J L K vo net ck now raw po t reqo s = (None, s')"
    using assms(1)
    by (auto simp: VerifyGrant_def classify_grant_def split: prod.splits option.splits if_splits)
  then show ?thesis using assms(2)
  proof (cases rule: verify_grant_cases)
    case (spent v c ks' b')
    from spent(4) obtain sg where sg: "jo_ParseSigned J raw = Inr sg" "length (sg_kids sg) = 1"
      "hd (sg_kids sg) \<noteq> []"
      by (auto simp: parse_grant_def split: sum.splits if_splits)
    then obtain kid where kid: "sg_kids sg = [kid]" by (auto simp: length_Suc_conv)
    obtain kr k' f where K: "Key (jo_keys J) net ck (gs_keys s) kid = (kr, k', f)" by (metis surj_pair)
    from spent(4) sg kid K obtain key pl where
      "kr = Inr key" "sg_Verify sg key = Inr pl" "gp_ParseClaims L pl = Inr c"
      by (auto simp: parse_grant_def split: sum.splits if_splits)
    moreover have "Spend K (gs_bucket s) now (gr_ID c) = (None, gs_bucket s')"
      using spent(6,7) by (auto simp: spend_grant_def split: prod.splits option.splits if_splits)
    ultimately show ?thesis using spent(2,3,5) sg kid K by auto
  qed simp_all
qed

text \<open>
  Nothing is consumed until the grant is known good. Whatever is presented, by whomever and at
  whichever tool, the record of spent grants changes only for a grant that passed every other check,
  and then only by spending that grant.
\<close>

theorem refusal_spends_nothing:
  assumes "gs_bucket (snd (VerifyGrant J L K vo net ck now raw po t reqo s)) \<noteq> gs_bucket s"
  shows "\<exists>v c ks'. vo = Some v \<and> parse_grant J L net ck (gs_keys s) raw = (Inr c, ks') \<and>
     grant_good L v c po t reqo now \<and>
     gs_bucket (snd (VerifyGrant J L K vo net ck now raw po t reqo s)) =
       snd (Spend K (gs_bucket s) now (gr_ID c))"
proof -
  obtain r s' where run: "verify_grant J L K vo net ck now raw po t reqo s = (r, s')" by (metis surj_pair)
  then have snd: "snd (VerifyGrant J L K vo net ck now raw po t reqo s) = s'"
    by (simp add: VerifyGrant_def)
  have "t_ApprovalMode t = MODE_GRANT"
    using assms run by (auto simp: VerifyGrant_def verify_grant_def split: if_splits)
  with run show ?thesis
  proof (cases rule: verify_grant_cases)
    case (spent v c ks' b')
    then have "b' = snd (Spend K (gs_bucket s) now (gr_ID c))"
      by (auto simp: spend_grant_def split: prod.splits option.splits if_splits)
    then show ?thesis using spent snd by auto
  qed (use assms snd in simp_all)
qed

text \<open>The key set that signs approvals could not be read.\<close>

definition keys_unreadable :: "'k jose \<Rightarrow> fetched \<Rightarrow> (nat \<Rightarrow> int) \<Rightarrow> 'k keyset \<Rightarrow> string \<Rightarrow> bool" where
  "keys_unreadable J net ck ks raw \<longleftrightarrow>
     (\<exists>sg kid e ks' f. jo_ParseSigned J raw = Inr sg \<and> sg_kids sg = [kid] \<and> kid \<noteq> [] \<and>
        Key (jo_keys J) net ck ks kid = (Inl e, ks', f) \<and> \<not> err_is e SNoSuchKey)"

definition deps_plain :: "'k jose \<Rightarrow> 'b kv \<Rightarrow> fetched \<Rightarrow> (nat \<Rightarrow> int) \<Rightarrow> 'k keyset \<Rightarrow> bool" where
  "deps_plain J K net ck ks \<longleftrightarrow>
     (\<forall>kid e ks' f. Key (jo_keys J) net ck ks kid = (Inl e, ks', f) \<longrightarrow>
        \<not> err_is e SGrantRequired \<and> \<not> err_is e SGrantUnavailable \<and> \<not> err_is e SGrantRefused) \<and>
     (\<forall>b n k e b'. kv_Create K b n k = (KvErr e, b') \<longrightarrow>
        plain_err e \<and> \<not> err_is e SAlreadySpent)"

lemma unavailable_is [simp]:
  "err_is (unavailable txt es) SGrantUnavailable"
  "err_is (unavailable txt es) SGrantRequired \<longleftrightarrow> (\<exists>e \<in> set es. err_is e SGrantRequired)"
  "err_is (unavailable txt es) SGrantRefused \<longleftrightarrow> (\<exists>e \<in> set es. err_is e SGrantRefused)"
  by (simp_all add: unavailable_def)

lemma parse_errors:
  assumes "parse_grant J L net ck ks raw = (Inl e, ks')" "grant_lib_ok J L" "deps_plain J K net ck ks"
  shows "\<not> err_is e SGrantRequired \<and> \<not> err_is e SGrantRefused \<and>
     (err_is e SGrantUnavailable \<longleftrightarrow> keys_unreadable J net ck ks raw)"
proof (cases "\<exists>sg kid. jo_ParseSigned J raw = Inr sg \<and> sg_kids sg = [kid] \<and> kid \<noteq> []")
  case False
  then have "plain_err e" using assms(1,2)
    by (auto simp: parse_grant_def grant_lib_ok_def length_Suc_conv split: sum.splits if_splits)
  then show ?thesis using False by (auto simp: plain_err_def keys_unreadable_def)
next
  case True
  then obtain sg kid where sg: "jo_ParseSigned J raw = Inr sg" "sg_kids sg = [kid]" "kid \<noteq> []" by blast
  obtain kr k' f where K: "Key (jo_keys J) net ck ks kid = (kr, k', f)" by (metis surj_pair)
  have kp: "kr = Inl e' \<Longrightarrow> \<not> err_is e' SGrantRequired \<and> \<not> err_is e' SGrantUnavailable \<and>
      \<not> err_is e' SGrantRefused" for e'
    using assms(3) K unfolding deps_plain_def by blast
  have ur: "keys_unreadable J net ck ks raw \<longleftrightarrow> (\<exists>e'. kr = Inl e' \<and> \<not> err_is e' SNoSuchKey)"
    using sg K by (auto simp: keys_unreadable_def)
  show ?thesis
  proof (cases kr)
    case (Inl e')
    then show ?thesis using assms(1) sg K kp[OF Inl] unfolding ur
      by (auto simp: parse_grant_def split: if_splits)
  next
    case (Inr key)
    then have "plain_err e" using assms(1,2) sg K
      by (auto simp: parse_grant_def grant_lib_ok_def split: sum.splits)
    then show ?thesis using Inr unfolding ur by (simp add: plain_err_def)
  qed
qed

lemma Spend_errors:
  assumes "Spend K b now jti = (Some e, b')" "deps_plain J K net ck ks"
  shows "\<not> err_is e SGrantRequired \<and> \<not> err_is e SGrantUnavailable \<and> \<not> err_is e SGrantRefused \<and>
     (err_is e SAlreadySpent \<longleftrightarrow> e = Sentinel SAlreadySpent)"
proof -
  have kv: "\<not> err_is e' SGrantRequired \<and> \<not> err_is e' SGrantUnavailable \<and>
      \<not> err_is e' SGrantRefused \<and> \<not> err_is e' SAlreadySpent"
    if "kv_Create K b n k = (KvErr e', c)" for n k e' c
    using assms(2) that unfolding deps_plain_def plain_err_def by blast
  show ?thesis
    using assms(1) kv by (auto simp: Spend_def split: if_splits prod.splits kv_answer.splits)
qed

text \<open>
  C29: A refusal is put on the right party. It asks for an approval exactly when the verifier is
  configured and none was presented; it is the operator's exactly when the verifier is not configured,
  the key set could not be read, or a good grant could not be checked for reuse; every other refusal,
  and no refusal of these two kinds, says that the approval is not valid for this call; none says two
  of the three.
\<close>

theorem grant_refusals_classified:
  assumes "VerifyGrant J L K vo net ck now raw po t reqo s = (Some e, s')"
    and "t_ApprovalMode t = MODE_GRANT" "grant_lib_ok J L" "deps_plain J K net ck (gs_keys s)"
  shows "(err_is e SGrantRequired \<longleftrightarrow> configured vo \<and> raw = []) \<and>
     (err_is e SGrantUnavailable \<longleftrightarrow> \<not> configured vo \<or>
        raw \<noteq> [] \<and> keys_unreadable J net ck (gs_keys s) raw \<or>
        raw \<noteq> [] \<and> (\<exists>v c ks' e'. vo = Some v \<and> parse_grant J L net ck (gs_keys s) raw = (Inr c, ks') \<and>
           grant_good L v c po t reqo now \<and>
           fst (Spend K (gs_bucket s) now (gr_ID c)) = Some e' \<and> e' \<noteq> Sentinel SAlreadySpent)) \<and>
     (err_is e SGrantRefused \<longleftrightarrow> \<not> err_is e SGrantRequired \<and> \<not> err_is e SGrantUnavailable) \<and>
     \<not> (err_is e SGrantRequired \<and> err_is e SGrantUnavailable) \<and>
     (err_is e SGrantRequired \<or> err_is e SGrantUnavailable \<or>
      (\<exists>t e'. e = Wrapped t [Sentinel SGrantRefused, e']))"
proof -
  obtain r0 where run: "verify_grant J L K vo net ck now raw po t reqo s = (Some r0, s')"
    and cl: "classify_grant (Some r0) = Some e"
    using assms(1) by (auto simp: VerifyGrant_def classify_grant_def split: prod.splits option.splits)
  have same: "err_is e SGrantRequired \<longleftrightarrow> err_is r0 SGrantRequired"
    "err_is e SGrantUnavailable \<longleftrightarrow> err_is r0 SGrantUnavailable"
    "err_is e SGrantRequired \<or> err_is e SGrantUnavailable \<or> (\<exists>t e'. e = Wrapped t [Sentinel SGrantRefused, e'])"
    "err_is e SGrantRefused \<longleftrightarrow>
       err_is r0 SGrantRefused \<or> \<not> err_is r0 SGrantRequired \<and> \<not> err_is r0 SGrantUnavailable"
    using cl by (auto simp: classify_grant_def split: if_splits)
  have nokey: "\<not> keys_unreadable J net ck (gs_keys s) raw"
    if "parse_grant J L net ck (gs_keys s) raw = (Inr c, ks')" for c ks'
    using that by (auto simp: parse_grant_def keys_unreadable_def split: sum.splits if_splits)
  have "\<not> err_is r0 SGrantRefused \<and> (err_is r0 SGrantRequired \<longleftrightarrow> configured vo \<and> raw = []) \<and>
     (err_is r0 SGrantUnavailable \<longleftrightarrow> \<not> configured vo \<or>
        raw \<noteq> [] \<and> keys_unreadable J net ck (gs_keys s) raw \<or>
        raw \<noteq> [] \<and> (\<exists>v c ks' e'. vo = Some v \<and> parse_grant J L net ck (gs_keys s) raw = (Inr c, ks') \<and>
           grant_good L v c po t reqo now \<and>
           fst (Spend K (gs_bucket s) now (gr_ID c)) = Some e' \<and> e' \<noteq> Sentinel SAlreadySpent))"
    using run assms(2)
  proof (cases rule: verify_grant_cases)
    case (unread v e0 ks')
    then show ?thesis using parse_errors[OF unread(4) assms(3,4)] by auto
  next
    case (shape v c ks' e0)
    then have "plain_err e0" using shape_plain[OF assms(3)] material_plain[OF assms(3)] by blast
    moreover have "\<not> grant_good L v c po t reqo now" using shape(5) by (auto simp: grant_good_iff)
    ultimately show ?thesis using shape nokey[OF shape(4)] by (auto simp: plain_err_def)
  next
    case (spent v c ks' b')
    obtain sp b'' where sp: "Spend K (gs_bucket s) now (gr_ID c) = (sp, b'')" by (metis surj_pair)
    then obtain e1 where e1: "sp = Some e1" using spent(6) by (cases sp) (auto simp: spend_grant_def)
    note se = Spend_errors[OF sp[unfolded e1] assms(4)]
    have r0: "r0 = (if err_is e1 SAlreadySpent
        then Plain ''this grant has already been used; an approval authorises one call''
        else unavailable ''the grant could not be checked for reuse'' [e1])"
      using spent(6) sp e1 by (auto simp: spend_grant_def split: if_splits)
    show ?thesis using spent nokey[OF spent(4)] sp e1 se by (auto simp: r0)
  qed (auto simp: same)
  then show ?thesis using same by auto
qed

lemma pass_spends:
  assumes "VerifyGrant J L K vo net ck now raw po t reqo s = (None, s')" "t_ApprovalMode t = MODE_GRANT"
    and "parse_grant J L net ck (gs_keys s) raw = (Inr c, ks')"
  shows "Spend K (gs_bucket s) now (gr_ID c) = (None, gs_bucket s') \<and>
     (\<exists>v. vo = Some v \<and> gp_CheckFresh L c now (gf_Skew v) (t_MaxGrantAge t) = None)"
proof -
  have "verify_grant J L K vo net ck now raw po t reqo s = (None, s')"
    using assms(1)
    by (auto simp: VerifyGrant_def classify_grant_def split: prod.splits option.splits if_splits)
  then show ?thesis using assms(2)
  proof (cases rule: verify_grant_cases)
    case (spent v c' k2 b')
    then show ?thesis using assms(3)
      by (auto simp: spend_grant_def grant_good_def split: prod.splits option.splits if_splits)
  qed simp_all
qed

text \<open>What the age check promises: a grant is refused a skew past the tool's ceiling.\<close>

definition fresh_window :: "grant_pkg \<Rightarrow> bool" where
  "fresh_window L \<longleftrightarrow>
     (\<forall>c now skew age. age > 0 \<longrightarrow> gp_CheckFresh L c now skew age = None \<longrightarrow>
        now \<le> gr_IssuedAt c + age + skew)"

lemma grant_not_reused_within:
  assumes "kv_spec ttl K"
    and "VerifyGrant J L K (Some v) net1 ck1 now1 raw1 p1 t1 req1 s1 = (None, s1')"
    and "t_ApprovalMode t1 = MODE_GRANT" "parse_grant J L net1 ck1 (gs_keys s1) raw1 = (Inr c1, k1)"
    and "gs_bucket s2 = spend_all K (gs_bucket s1') ops"
    and "t_ApprovalMode t2 = MODE_GRANT" "parse_grant J L net2 ck2 (gs_keys s2) raw2 = (Inr c2, k2)"
    and "gr_ID c2 = gr_ID c1" "now1 \<le> now2" "now2 < now1 + ttl"
  shows "fst (VerifyGrant J L K (Some v) net2 ck2 now2 raw2 p2 t2 req2 s2) \<noteq> None"
proof
  assume "fst (VerifyGrant J L K (Some v) net2 ck2 now2 raw2 p2 t2 req2 s2) = None"
  then obtain s2' where pass: "VerifyGrant J L K (Some v) net2 ck2 now2 raw2 p2 t2 req2 s2 = (None, s2')"
    by (metis prod.collapse)
  note A = pass_spends[OF assms(2,3,4)] and B = pass_spends[OF pass assms(6,7)]
  have "fst (Spend K (spend_all K (gs_bucket s1') ops) now2 (gr_ID c1)) \<noteq> None"
    using spent_stays_spent[OF assms(1) conjunct1[OF A] assms(9,10)] by blast
  then show False using B assms(5,8) by simp
qed

text \<open>Past the retention the age check refuses, if the approval is old enough by then.\<close>

lemma grant_not_reused:
  assumes "kv_spec ttl K" "fresh_window L"
    and "VerifyGrant J L K (Some v) net1 ck1 now1 raw1 p1 t1 req1 s1 = (None, s1')"
    and "t_ApprovalMode t1 = MODE_GRANT" "parse_grant J L net1 ck1 (gs_keys s1) raw1 = (Inr c1, k1)"
    and "gs_bucket s2 = spend_all K (gs_bucket s1') ops"
    and "t_ApprovalMode t2 = MODE_GRANT" "parse_grant J L net2 ck2 (gs_keys s2) raw2 = (Inr c2, k2)"
    and "gr_ID c2 = gr_ID c1" "now1 \<le> now2"
    and "0 < t_MaxGrantAge t2" "gr_IssuedAt c2 + t_MaxGrantAge t2 + gf_Skew v < now1 + ttl"
  shows "fst (VerifyGrant J L K (Some v) net2 ck2 now2 raw2 p2 t2 req2 s2) \<noteq> None"
proof
  assume none: "fst (VerifyGrant J L K (Some v) net2 ck2 now2 raw2 p2 t2 req2 s2) = None"
  then obtain s2' where pass: "VerifyGrant J L K (Some v) net2 ck2 now2 raw2 p2 t2 req2 s2 = (None, s2')"
    by (metis prod.collapse)
  have "now2 \<le> gr_IssuedAt c2 + t_MaxGrantAge t2 + gf_Skew v"
    using pass_spends[OF pass assms(7,8)] assms(2,11) unfolding fresh_window_def by auto
  then have "now2 < now1 + ttl" using assms(12) by linarith
  then show False using grant_not_reused_within[OF assms(1,3-10), of p2 req2] none by blast
qed

text \<open>
  One approval authorises one call. Once a grant (an identifier) has let a call pass, at or after
  the time it was issued, no later call passes on that identifier, at whatever tool and replica and
  whatever was spent in between: within the bucket's retention the record refuses it, and past it the
  age check does, because the retention exceeds the tool's ceiling by the clock tolerance.
\<close>

theorem one_grant_one_call:
  assumes "kv_spec ttl K" "fresh_window L"
    and "VerifyGrant J L K (Some v) net1 ck1 now1 raw1 p1 t1 req1 s1 = (None, s1')"
    and "t_ApprovalMode t1 = MODE_GRANT" "parse_grant J L net1 ck1 (gs_keys s1) raw1 = (Inr c1, k1)"
    and "gs_bucket s2 = spend_all K (gs_bucket s1') ops"
    and "t_ApprovalMode t2 = MODE_GRANT" "parse_grant J L net2 ck2 (gs_keys s2) raw2 = (Inr c2, k2)"
    and "gr_ID c2 = gr_ID c1" "gr_IssuedAt c2 \<le> now1" "now1 \<le> now2"
    and "0 < t_MaxGrantAge t2" "t_MaxGrantAge t2 + gf_Skew v < ttl"
  shows "fst (VerifyGrant J L K (Some v) net2 ck2 now2 raw2 p2 t2 req2 s2) \<noteq> None"
  using grant_not_reused[OF assms(1-9,11,12)] assms(10,13) by simp

section \<open>A grant, spent\<close>

definition toy_grant :: grant_claims where
  "toy_grant = \<lparr>gr_Issuer = ''https://sts'', gr_Audience = [''garmd''], gr_ID = ''j1'', gr_Task = ''task9'',
     gr_Subject = ''ada'', gr_IssuedAt = 1000, gr_body = []\<rparr>"

definition toy_pkg :: grant_pkg where
  "toy_pkg = \<lparr>gp_ParseClaims = \<lambda>pl. Inr toy_grant, gp_CheckNoAct = \<lambda>c. None,
     gp_CheckTool = \<lambda>c n. None, gp_CheckSubject = \<lambda>c n. if n = gr_Subject c then None else Some (Plain ''subject''),
     gp_CheckFresh = \<lambda>c now skew age. if now \<le> gr_IssuedAt c + age + skew then None else Some (Plain ''stale''),
     gp_CheckApprover = \<lambda>c a b. None, gp_Materialise = \<lambda>m fs. Inr [], gp_CheckMaterial = \<lambda>c vs. None\<rparr>"

definition toy_gverifier :: gverifier where
  "toy_gverifier = \<lparr>gf_Keys = True, gf_Issuers = [''https://sts''], gf_Audience = ''garmd'',
     gf_Spent = True, gf_Skew = 60\<rparr>"

definition toy_gated :: tooldef where
  "toy_gated = sample_tool\<lparr>t_ApprovalMode := MODE_GRANT, t_MaxGrantAge := 900\<rparr>"

definition toy_gstate :: "(nat, memory_bucket) gstate" where
  "toy_gstate = \<lparr>gs_keys = toy_set, gs_bucket = [], gs_task = []\<rparr>"

definition toy_spent :: "(nat, memory_bucket) gstate" where
  "toy_spent = \<lparr>gs_keys = toy_set, gs_bucket = [(''j1'', 1100)], gs_task = ''task9''\<rparr>"

lemma toy_key: "Key toy_decode (Body ''keys'') (toy_clock 500) toy_set ''k1'' = (Inr 7, toy_set, False)"
  by (simp add: Key_def fresh_def toy_set_def toy_clock_def key_in_def)

lemma toy_parse:
  "parse_grant toy_jose toy_pkg (Body ''keys'') (toy_clock 500) toy_set ''tok'' = (Inr toy_grant, toy_set)"
  by (simp add: parse_grant_def toy_jose_def toy_key toy_pkg_def)

lemma toy_pass:
  "VerifyGrant toy_jose toy_pkg (mem_kv 1000) (Some toy_gverifier) (Body ''keys'') (toy_clock 500) 1100 ''tok''
     (Some sample_principal) toy_gated (Some (Msg 0 [])) toy_gstate = (None, toy_spent)"
proof -
  have "Spend (mem_kv 1000) [] 1100 ''j1'' = (None, [(''j1'', 1100)])" by code_simp
  moreover have "checkShape toy_pkg toy_gverifier toy_grant (Some sample_principal) toy_gated 1100 = None"
    by code_simp
  ultimately show ?thesis
    by (simp add: VerifyGrant_def verify_grant_def toy_gated_def configured_def toy_gverifier_def
        toy_gstate_def toy_spent_def toy_parse checkMaterial_def sample_tool_def zero_tool_def
        spend_grant_def classify_grant_def toy_grant_def)
qed

lemma toy_gated_mode [simp]: "t_ApprovalMode toy_gated = MODE_GRANT" "t_MaxGrantAge toy_gated = 900"
  by (simp_all add: toy_gated_def)

lemma grant_pass_is_complete_witness:
  "\<exists>c. grant_good toy_pkg toy_gverifier c (Some sample_principal) toy_gated (Some (Msg 0 [])) 1100 \<and>
     Spend (mem_kv 1000) [] 1100 (gr_ID c) = (None, [(''j1'', 1100)])"
  using grant_pass_is_complete[OF toy_pass] by (auto simp: toy_gstate_def toy_spent_def)

lemma refusal_spends_nothing_witness:
  "\<exists>c. grant_good toy_pkg toy_gverifier c (Some sample_principal) toy_gated (Some (Msg 0 [])) 1100 \<and>
     gs_bucket toy_spent = snd (Spend (mem_kv 1000) [] 1100 (gr_ID c))"
proof -
  have "gs_bucket (snd (VerifyGrant toy_jose toy_pkg (mem_kv 1000) (Some toy_gverifier) (Body ''keys'')
      (toy_clock 500) 1100 ''tok'' (Some sample_principal) toy_gated (Some (Msg 0 [])) toy_gstate)) \<noteq>
      gs_bucket toy_gstate"
    unfolding toy_pass by (simp add: toy_spent_def toy_gstate_def)
  from refusal_spends_nothing[OF this] show ?thesis unfolding toy_pass by (auto simp: toy_gstate_def)
qed

lemma grant_refusals_classified_witness:
  "err_is (Sentinel SGrantRequired) SGrantRequired \<and>
   VerifyGrant toy_jose toy_pkg (mem_kv 1000) (Some toy_gverifier) (Body ''keys'') (toy_clock 500) 1100 []
     (Some sample_principal) toy_gated (Some (Msg 0 [])) toy_gstate = (Some (Sentinel SGrantRequired), toy_gstate)"
proof -
  have run: "VerifyGrant toy_jose toy_pkg (mem_kv 1000) (Some toy_gverifier) (Body ''keys'') (toy_clock 500) 1100 []
     (Some sample_principal) toy_gated (Some (Msg 0 [])) toy_gstate = (Some (Sentinel SGrantRequired), toy_gstate)"
    by (simp add: VerifyGrant_def verify_grant_def configured_def toy_gverifier_def classify_grant_def)
  have "grant_lib_ok toy_jose toy_pkg"
    by (auto simp: grant_lib_ok_def toy_jose_def toy_pkg_def split: if_splits)
  moreover have "deps_plain toy_jose (mem_kv 1000) (Body ''keys'') (toy_clock 500) (gs_keys toy_gstate)"
    by (auto simp: deps_plain_def toy_jose_def toy_gstate_def mem_kv_def Key_def fresh_def toy_set_def
        toy_clock_def key_in_def look_again_def refreshLocked_def read_set_def toy_decode_def Let_def
        no_such_key_def authn_err_def has_kid_def maxKeySetBytes_def
        split: if_splits option.splits prod.splits)
  ultimately show ?thesis
    using grant_refusals_classified[OF run toy_gated_mode(1)] run by (simp add: toy_gverifier_def configured_def)
qed

lemma one_grant_one_call_witness:
  "fst (VerifyGrant toy_jose toy_pkg (mem_kv 1000) (Some toy_gverifier) (Body ''keys'') (toy_clock 500) 1700
     ''tok'' (Some sample_principal) toy_gated (Some (Msg 0 [])) toy_spent) \<noteq> None"
proof (rule one_grant_one_call[where ops = "[]"])
  show "kv_spec 1000 (mem_kv 1000)" by (rule mem_kv_spec)
  show "fresh_window toy_pkg" by (auto simp: fresh_window_def toy_pkg_def split: if_splits)
  show "VerifyGrant toy_jose toy_pkg (mem_kv 1000) (Some toy_gverifier) (Body ''keys'') (toy_clock 500) 1100 ''tok''
     (Some sample_principal) toy_gated (Some (Msg 0 [])) toy_gstate = (None, toy_spent)" by (rule toy_pass)
  show "parse_grant toy_jose toy_pkg (Body ''keys'') (toy_clock 500) (gs_keys toy_gstate) ''tok'' = (Inr toy_grant, toy_set)"
    "parse_grant toy_jose toy_pkg (Body ''keys'') (toy_clock 500) (gs_keys toy_spent) ''tok'' = (Inr toy_grant, toy_set)"
    by (simp_all add: toy_gstate_def toy_spent_def toy_parse)
qed (simp_all add: toy_grant_def toy_gverifier_def)

end
