(* ===== verification/Catalogue.thy ===== *)
theory Catalogue
  imports Core "HOL-Library.List_Lexorder" "HOL-Library.Char_ord" "HOL-Library.Multiset"
begin

text \<open>
  \<open>internal/catalogue/catalogue.go\<close> and \<open>audience.go\<close>: from the bytes of an artifact to the tools this
  process serves. The protobuf library (decoding the artifact, building its descriptors, the wire
  primitives) and SHA-256 are parameters: the records \<open>cat_lib\<close> and \<open>protowire\<close>. A file registry is
  the list of its files in the order \<open>RangeFiles\<close> visits them, which the library does not promise.
\<close>

section \<open>What the library hands over\<close>

type_synonym bytes = "8 word list"

text \<open>
  The annotation of a method. The getter of an absent sub-message answers the zero value, so the
  sub-messages are flattened. \<open>tp_Audience\<close> is the linked type's own audience field (one element at
  most when that field is singular), \<open>tp_Unknown\<close> the bytes the load carried through unread.
\<close>

record tool_policy =
  tp_Exclude :: bool
  tp_Name :: string
  tp_Title :: string
  tp_Description :: string
  tp_Verb :: verb
  tp_MinClearance :: clearance
  tp_Compartments :: "string list"
  tp_Sets :: "string list"
  tp_ApprovalMode :: approval_mode
  tp_ApproverMinClearance :: clearance
  tp_ApproverCompartments :: "string list"
  tp_MaxGrantAgeSeconds :: "32 word"
  tp_MaterialFields :: "string list"
  tp_AuditLevel :: audit_level
  tp_RecordRequest :: bool
  tp_RecordResponse :: bool
  tp_RetainDays :: nat
  tp_FailClosed :: bool
  tp_HasAuthorization :: bool
  tp_Idempotent :: bool
  tp_Reversibility :: int
  tp_External :: bool
  tp_WhenToUse :: string
  tp_WhenNotToUse :: string
  tp_OnError :: string
  tp_Audience :: "int list"
  tp_Unknown :: bytes

record method_desc =
  me_Name :: string
  me_Input :: md
  me_Output :: md
  me_Policy :: "tool_policy option"

record service_desc =
  sv_FullName :: string
  sv_Methods :: "method_desc list"

text \<open>A field or an extension, as far as finding the audience reads it.\<close>

record aud_field =
  af_Name :: string
  af_Number :: nat
  af_Kind :: kind
  af_IsMap :: bool
  af_Enum :: "(int \<times> string) list option"

record ext_desc =
  xd_Field :: aud_field
  xd_Containing :: "string option"

datatype msg_tree = MsgTree (mt_Extensions: "ext_desc list") (mt_Messages: "msg_tree list")

record file_desc =
  fl_Package :: string
  fl_Services :: "service_desc list"
  fl_Extensions :: "ext_desc list"
  fl_Messages :: "msg_tree list"

text \<open>What a name of the registry stands for.\<close>

datatype named_desc = NoDescriptor | OtherDescriptor | MessageDescriptor "aud_field list"

record files =
  fs_Files :: "file_desc list"
  fs_Pool :: pool
  fs_FindByName :: "string \<Rightarrow> named_desc"

record ('d, 'p) cat_msg =
  cm_AnnotationSchemaVersion :: "32 word"
  cm_Files :: 'd
  cm_Compartments :: "decl list"
  cm_ToolSets :: "decl list"
  cm_FieldDocs :: "(string \<times> string) list"
  cm_DescriptorHashes :: "(string \<times> string) list"
  cm_Provenance :: 'p

record protowire =
  pw_ConsumeTag :: "bytes \<Rightarrow> (nat \<times> nat \<times> nat) option"
  pw_ConsumeFieldValue :: "nat \<Rightarrow> nat \<Rightarrow> bytes \<Rightarrow> nat option"
  pw_ConsumeVarint :: "bytes \<Rightarrow> (nat \<times> nat) option"
  pw_ConsumeBytes :: "bytes \<Rightarrow> (bytes \<times> nat) option"

text \<open>The linked contract's own audience field: its number, is it an enum, is it a list.\<close>

record ('d, 'p) cat_lib =
  lb_Sum256 :: "string \<Rightarrow> bytes"
  lb_Unmarshal :: "string \<Rightarrow> go_err + ('d, 'p) cat_msg"
  lb_NewFiles :: "'d \<Rightarrow> go_err + files"
  lb_Wire :: protowire
  lb_LinkedAudience :: "(nat \<times> bool \<times> bool) option"

section \<open>The audience of a tool\<close>

abbreviation VarintType :: nat where "VarintType \<equiv> 0"
abbreviation BytesType :: nat where "BytesType \<equiv> 2"

text \<open>\<open>EnumNumber\<close> of an unsigned 64-bit number: its low 32 bits, signed.\<close>

definition enum_number :: "nat \<Rightarrow> int" where
  "enum_number v = sint (word_of_nat v :: 32 word)"

text \<open>A loop over bytes: out of fuel, malformed, or the enum numbers read.\<close>

datatype scan = OutOfFuel | Malformed | Scanned "int list"

fun packed_loop :: "nat \<Rightarrow> protowire \<Rightarrow> bytes \<Rightarrow> int list \<Rightarrow> scan" where
  "packed_loop fuel W [] out = Scanned out"
| "packed_loop 0 W (x # b) out = OutOfFuel"
| "packed_loop (Suc fuel) W (x # b) out =
     (case pw_ConsumeVarint W (x # b) of
        None \<Rightarrow> Malformed
      | Some (v, k) \<Rightarrow> packed_loop fuel W (drop k (x # b)) (out @ [enum_number v]))"

fun unknown_loop :: "nat \<Rightarrow> protowire \<Rightarrow> bytes \<Rightarrow> nat \<Rightarrow> int list \<Rightarrow> scan" where
  "unknown_loop fuel W [] want out = Scanned out"
| "unknown_loop 0 W (x # b) want out = OutOfFuel"
| "unknown_loop (Suc fuel) W (x # b) want out =
     (case pw_ConsumeTag W (x # b) of
        None \<Rightarrow> Malformed
      | Some (num, typ, n) \<Rightarrow>
          (let b1 = drop n (x # b) in
           if num \<noteq> want then
             (case pw_ConsumeFieldValue W num typ b1 of
                None \<Rightarrow> Malformed
              | Some m \<Rightarrow> unknown_loop fuel W (drop m b1) want out)
           else if typ = VarintType then
             (case pw_ConsumeVarint W b1 of
                None \<Rightarrow> Malformed
              | Some (v, m) \<Rightarrow> unknown_loop fuel W (drop m b1) want (out @ [enum_number v]))
           else if typ = BytesType then
             (case pw_ConsumeBytes W b1 of
                None \<Rightarrow> Malformed
              | Some (packed, m) \<Rightarrow>
                  (case packed_loop (length packed) W packed out of
                     Scanned out' \<Rightarrow> unknown_loop fuel W (drop m b1) want out'
                   | r \<Rightarrow> r))
           else Malformed))"

definition enumsFromUnknown :: "protowire \<Rightarrow> bytes \<Rightarrow> nat \<Rightarrow> int list" where
  "enumsFromUnknown W raw want =
     (case unknown_loop (length raw) W raw want [] of Scanned out \<Rightarrow> out | _ \<Rightarrow> [])"

text \<open>Where a catalogue says the audience is: a number and the names of the enum.\<close>

type_synonym audience_reader = "(nat \<times> (int \<times> string) list) option"

definition toolPolicyName :: string where "toolPolicyName = ''garm.tool.v1.ToolPolicy''"
definition audienceField :: string where "audienceField = ''audience''"

definition readerFor :: "aud_field \<Rightarrow> audience_reader" where
  "readerFor fd =
     (if af_Kind fd \<noteq> EnumKind \<or> af_IsMap fd then None
      else map_option (\<lambda>e. (af_Number fd, e)) (af_Enum fd))"

text \<open>A file's extensions in the order \<open>rangeExtensions\<close> visits them.\<close>

fun exts_of :: "msg_tree \<Rightarrow> ext_desc list" where
  "exts_of (MsgTree es ms) = es @ concat (map exts_of ms)"

definition rangeExtensions :: "file_desc \<Rightarrow> ext_desc list" where
  "rangeExtensions f = fl_Extensions f @ concat (map exts_of (fl_Messages f))"

definition is_audience_ext :: "ext_desc \<Rightarrow> bool" where
  "is_audience_ext x = (af_Name (xd_Field x) = audienceField \<and> xd_Containing x = Some toolPolicyName)"

definition newAudienceReader :: "files \<Rightarrow> audience_reader" where
  "newAudienceReader fs =
     (case fs_FindByName fs toolPolicyName of
        MessageDescriptor fds \<Rightarrow>
          (case List.find (\<lambda>fd. af_Name fd = audienceField) fds of
             Some fd \<Rightarrow> readerFor fd
           | None \<Rightarrow>
               pick_first (\<lambda>x. if is_audience_ext x then readerFor (xd_Field x) else None)
                 (concat (map rangeExtensions (fs_Files fs))))
      | _ \<Rightarrow> None)"

definition audience_numbers :: "('d, 'p) cat_lib \<Rightarrow> tool_policy \<Rightarrow> nat \<Rightarrow> int list" where
  "audience_numbers L p num =
     (case lb_LinkedAudience L of
        Some (n, is_enum, many) \<Rightarrow>
          if n = num \<and> is_enum then (if many then tp_Audience p else take 1 (tp_Audience p))
          else enumsFromUnknown (lb_Wire L) (tp_Unknown p) num
      | None \<Rightarrow> enumsFromUnknown (lb_Wire L) (tp_Unknown p) num)"

fun audience_names :: "(int \<times> string) list \<Rightarrow> int list \<Rightarrow> string list \<Rightarrow> string list" where
  "audience_names enum [] out = out"
| "audience_names enum (n # ns) out =
     (case map_of enum n of
        None \<Rightarrow> audience_names enum ns out
      | Some v \<Rightarrow>
          (case normalise_audience v of
             None \<Rightarrow> audience_names enum ns out
           | Some name \<Rightarrow>
               if name = AudienceUnspecified \<or> contains_string out name
               then audience_names enum ns out
               else audience_names enum ns (out @ [name])))"

definition read_audience :: "('d, 'p) cat_lib \<Rightarrow> audience_reader \<Rightarrow> tool_policy \<Rightarrow> string list" where
  "read_audience L r p =
     (case r of None \<Rightarrow> [] | Some (num, enum) \<Rightarrow> audience_names enum (audience_numbers L p num) [])"

section \<open>Declarations\<close>

text \<open>The default name of a tool; the case test and the underscore are on ASCII.\<close>

definition is_upper :: "char \<Rightarrow> bool" where
  "is_upper c = (let n = (of_char c :: nat) in 65 \<le> n \<and> n \<le> 90)"

definition lower_char :: "char \<Rightarrow> char" where
  "lower_char c = (if is_upper c then char_of ((of_char c :: nat) + 32) else c)"

fun snake_rest :: "string \<Rightarrow> string" where
  "snake_rest [] = []"
| "snake_rest (c # cs) =
     (if is_upper c then CHR ''_'' # lower_char c # snake_rest cs else c # snake_rest cs)"

definition snake :: "string \<Rightarrow> string" where
  "snake s = (case s of [] \<Rightarrow> [] | c # cs \<Rightarrow> lower_char c # snake_rest cs)"

definition tool_name :: "method_desc \<Rightarrow> tool_policy \<Rightarrow> string" where
  "tool_name m p = (if tp_Name p = [] then snake (me_Name m) else tp_Name p)"

definition route_of :: "service_desc \<Rightarrow> method_desc \<Rightarrow> string" where
  "route_of svc m = ''/'' @ sv_FullName svc @ ''/'' @ me_Name m"

definition second_ns :: int where "second_ns = 1000000000"

definition defFor ::
  "('d, 'p) cat_lib \<Rightarrow> audience_reader \<Rightarrow> file_desc \<Rightarrow> service_desc \<Rightarrow> method_desc \<Rightarrow> tool_policy \<Rightarrow> tooldef" where
  "defFor L aud fd svc m p =
     \<lparr>t_FullMethod = route_of svc m,
      t_FQN = fl_Package fd @ ''.'' @ tool_name m p,
      t_Name = tool_name m p,
      t_ClientName = [],
      t_Title = tp_Title p,
      t_Description = tp_Description p,
      t_Verb = tp_Verb p,
      t_MinClearance = tp_MinClearance p,
      t_Compartments = tp_Compartments p,
      t_Sets = tp_Sets p,
      t_Audience = read_audience L aud p,
      t_Input = Some (me_Input m),
      t_Output = Some (me_Output m),
      t_ApprovalMode = tp_ApprovalMode p,
      t_ApproverMinClearance = tp_ApproverMinClearance p,
      t_ApproverCompartments = tp_ApproverCompartments p,
      t_MaxGrantAge = wrap64 (uint (tp_MaxGrantAgeSeconds p) * second_ns),
      t_MaterialFields = tp_MaterialFields p,
      t_AuditLevel = tp_AuditLevel p,
      t_AuditRecordRequest = tp_RecordRequest p,
      t_AuditRecordResponse = tp_RecordResponse p,
      t_AuditRetainDays = tp_RetainDays p,
      t_AuditFailClosed = tp_FailClosed p,
      t_HasAuthorization = tp_HasAuthorization p,
      t_Idempotent = tp_Idempotent p,
      t_Reversibility = tp_Reversibility p,
      t_External = tp_External p,
      t_WhenToUse = tp_WhenToUse p,
      t_WhenNotToUse = tp_WhenNotToUse p,
      t_OnError = tp_OnError p,
      t_FieldDocs = []\<rparr>"

fun method_defs ::
  "('d, 'p) cat_lib \<Rightarrow> audience_reader \<Rightarrow> file_desc \<Rightarrow> service_desc \<Rightarrow> method_desc list \<Rightarrow> tooldef list" where
  "method_defs L aud fd svc [] = []"
| "method_defs L aud fd svc (m # ms) =
     (case me_Policy m of
        None \<Rightarrow> method_defs L aud fd svc ms
      | Some p \<Rightarrow>
          if tp_Exclude p then method_defs L aud fd svc ms
          else defFor L aud fd svc m p # method_defs L aud fd svc ms)"

definition file_defs :: "('d, 'p) cat_lib \<Rightarrow> audience_reader \<Rightarrow> file_desc \<Rightarrow> tooldef list" where
  "file_defs L aud fd = concat (map (\<lambda>svc. method_defs L aud fd svc (sv_Methods svc)) (fl_Services fd))"

text \<open>
  The declarations of every file, sorted. The Go sort is not stable: the order of two declarations
  of one qualified name is not specified, here they stay in the order visited.
\<close>

definition buildDefs :: "('d, 'p) cat_lib \<Rightarrow> files \<Rightarrow> audience_reader \<Rightarrow> tooldef list" where
  "buildDefs L fs aud = sort_key t_FQN (concat (map (file_defs L aud) (fs_Files fs)))"

section \<open>Client names\<close>

definition name_count :: "tooldef list \<Rightarrow> string \<Rightarrow> nat" where
  "name_count defs n = length (filter (\<lambda>d. t_Name d = n) defs)"

definition client_name :: "tooldef list \<Rightarrow> tooldef \<Rightarrow> string" where
  "client_name defs d =
     (if name_count defs (t_Name d) = 1 then t_Name d
      else replace_byte (CHR ''.'') (CHR ''_'') (trim_suffix (t_FQN d) (''.'' @ t_Name d))
           @ ''_'' @ t_Name d)"

text \<open>The first tool whose client name an earlier one has, with the name of the earlier one.\<close>

fun client_clash :: "(string \<rightharpoonup> string) \<Rightarrow> tooldef list \<Rightarrow> (string \<times> tooldef) option" where
  "client_clash seen [] = None"
| "client_clash seen (d # ds) =
     (case seen (t_ClientName d) of
        Some prev \<Rightarrow> Some (prev, d)
      | None \<Rightarrow> client_clash (seen(t_ClientName d \<mapsto> t_FQN d)) ds)"

definition assignClientNames :: "tooldef list \<Rightarrow> (string \<times> tooldef) + tooldef list" where
  "assignClientNames defs =
     (let named = map (\<lambda>d. d\<lparr>t_ClientName := client_name defs d\<rparr>) defs in
      case client_clash Map.empty named of
        Some c \<Rightarrow> Inl c
      | None \<Rightarrow> Inr named)"

section \<open>Loading an artifact\<close>

definition SchemaVersion :: "32 word" where "SchemaVersion = 1"
definition MaxBehind :: int where "MaxBehind = 2"
definition MaxBytes :: int where "MaxBytes = 268435456"

datatype schema_err = SchemaTooNew | SchemaTooOld

definition oldest_schema :: int where
  "oldest_schema = (let oldest = uint SchemaVersion - MaxBehind in if oldest < 1 then 1 else oldest)"

definition checkSchema :: "32 word \<Rightarrow> schema_err option" where
  "checkSchema got =
     (if got > SchemaVersion then Some SchemaTooNew
      else if got < word_of_int oldest_schema then Some SchemaTooOld
      else None)"

fun hex_string :: "bytes \<Rightarrow> string" where
  "hex_string [] = []"
| "hex_string (b # bs) =
     (''0123456789abcdef'' ! unat (drop_bit 4 b)) # (''0123456789abcdef'' ! unat (b AND 15)) # hex_string bs"

definition DigestOf :: "('d, 'p) cat_lib \<Rightarrow> string \<Rightarrow> string" where
  "DigestOf L body = ''sha256:'' @ hex_string (lb_Sum256 L body)"

record 'p catalogue =
  ct_Digest :: string
  ct_SchemaVersion :: "32 word"
  ct_Files :: files
  ct_Defs :: "tooldef list"
  ct_Compartments :: "decl list"
  ct_ToolSets :: "decl list"
  ct_FieldDocs :: "(string \<times> string) list"
  ct_DescriptorHashes :: "(string \<times> string) list"
  ct_Provenance :: 'p
  ct_Bytes :: nat
  ct_HeapBytes :: nat
  ct_LoadedAt :: int

datatype load_err =
    ArtifactTooBig nat | NotACatalogue string go_err | SchemaRefused string schema_err
  | DoesNotResolve string go_err | NamesClash string string tooldef | NoTools string

definition Load :: "('d, 'p) cat_lib \<Rightarrow> string \<Rightarrow> int \<Rightarrow> load_err + 'p catalogue" where
  "Load L body now =
     (if int (length body) > MaxBytes then Inl (ArtifactTooBig (length body))
      else
        (let digest = DigestOf L body in
         case lb_Unmarshal L body of
           Inl e \<Rightarrow> Inl (NotACatalogue digest e)
         | Inr msg \<Rightarrow>
        (case checkSchema (cm_AnnotationSchemaVersion msg) of
           Some e \<Rightarrow> Inl (SchemaRefused digest e)
         | None \<Rightarrow>
        (case lb_NewFiles L (cm_Files msg) of
           Inl e \<Rightarrow> Inl (DoesNotResolve digest e)
         | Inr fs \<Rightarrow>
            (let defs = map (\<lambda>d. d\<lparr>t_FieldDocs := cm_FieldDocs msg\<rparr>)
                          (buildDefs L fs (newAudienceReader fs)) in
             case assignClientNames defs of
               Inl (prev, d) \<Rightarrow> Inl (NamesClash digest prev d)
             | Inr named \<Rightarrow>
                 if named = [] then Inl (NoTools digest)
                 else Inr \<lparr>ct_Digest = digest,
                        ct_SchemaVersion = cm_AnnotationSchemaVersion msg,
                        ct_Files = fs, ct_Defs = named,
                        ct_Compartments = cm_Compartments msg,
                        ct_ToolSets = cm_ToolSets msg,
                        ct_FieldDocs = cm_FieldDocs msg,
                        ct_DescriptorHashes = cm_DescriptorHashes msg,
                        ct_Provenance = cm_Provenance msg,
                        ct_Bytes = length body, ct_HeapBytes = 0, ct_LoadedAt = now\<rparr>)))))"

end
