(* ===== verification/AudienceProps.thy ===== *)
theory AudienceProps
  imports Catalogue
begin

text \<open>
  The scan of the unread bytes of an annotation: it always ends within the length of the bytes, and
  it reads back exactly what an encoder wrote under the number asked for. The wire primitives are
  a parameter; \<open>pb_wire\<close> is the protobuf encoding itself, on which the witnesses evaluate.
\<close>

section \<open>The primitives\<close>

text \<open>A primitive that succeeds consumes at least one byte, and no more than there are.\<close>

definition wire_advances :: "protowire \<Rightarrow> bool" where
  "wire_advances W \<longleftrightarrow>
     (\<forall>b num typ n. pw_ConsumeTag W b = Some (num, typ, n) \<longrightarrow> 1 \<le> n \<and> n \<le> length b) \<and>
     (\<forall>b num typ n. pw_ConsumeFieldValue W num typ b = Some n \<longrightarrow> n \<le> length b) \<and>
     (\<forall>b v n. pw_ConsumeVarint W b = Some (v, n) \<longrightarrow> 1 \<le> n \<and> n \<le> length b) \<and>
     (\<forall>b p n. pw_ConsumeBytes W b = Some (p, n) \<longrightarrow> 1 \<le> n \<and> n \<le> length b)"

lemma drop_shorter: "1 \<le> n \<Longrightarrow> b \<noteq> [] \<Longrightarrow> length (drop n b) < length b"
  by (cases b) auto

lemma advances_n:
  assumes "wire_advances W"
  shows "pw_ConsumeTag W b = Some (num, typ, n) \<Longrightarrow> 1 \<le> n"
    and "pw_ConsumeVarint W b = Some (v, n) \<Longrightarrow> 1 \<le> n"
  using assms unfolding wire_advances_def by blast+

lemma packed_loop_ends:
  "wire_advances W \<Longrightarrow> length b \<le> fuel \<Longrightarrow> packed_loop fuel W b out \<noteq> OutOfFuel"
proof (induction fuel W b out rule: packed_loop.induct)
  case (3 fuel W x b out)
  show ?case
  proof (cases "pw_ConsumeVarint W (x # b)")
    case (Some a)
    then obtain v n where a: "pw_ConsumeVarint W (x # b) = Some (v, n)" by (cases a) auto
    have "length (drop n (x # b)) \<le> fuel" using advances_n(2)[OF 3(2) a] 3(3) by simp
    then show ?thesis using 3(1)[OF a refl 3(2)] by (simp add: a)
  qed simp
qed auto

lemma unknown_loop_ends:
  "wire_advances W \<Longrightarrow> length b \<le> fuel \<Longrightarrow> unknown_loop fuel W b want out \<noteq> OutOfFuel"
proof (induction fuel W b want out rule: unknown_loop.induct)
  case (3 fuel W x b want out)
  show ?case
  proof (cases "pw_ConsumeTag W (x # b)")
    case (Some a)
    then obtain num ty n where a: "pw_ConsumeTag W (x # b) = Some (num, ty, n)" by (cases a) auto
    have short: "length (drop m (drop n (x # b))) \<le> fuel" for m
      using advances_n(1)[OF 3(4) a] 3(5) by simp
    note IH = 3(1-3)[OF a refl refl refl]
    show ?thesis
      using a short IH packed_loop_ends[OF 3(4) order_refl] 3(4)
      by (auto simp del: drop_drop simp: Let_def split: option.splits prod.splits scan.splits)
  qed simp
qed auto

text \<open>
  C37: Reading an audience out of bytes this binary does not understand always ends: the scan takes at
  most as many steps as there are bytes, so its fuel never runs out, whatever the bytes are.
\<close>

theorem unknown_scan_terminates:
  assumes "wire_advances W"
  shows "unknown_loop (length raw) W raw want out \<noteq> OutOfFuel \<and>
     (\<forall>fuel \<ge> length raw. unknown_loop fuel W raw want out \<noteq> OutOfFuel)"
  using unknown_loop_ends[OF assms] by blast

section \<open>What an encoder writes\<close>

record encoder =
  en_tag :: "nat \<Rightarrow> nat \<Rightarrow> bytes"
  en_varint :: "nat \<Rightarrow> bytes"
  en_bytes :: "bytes \<Rightarrow> bytes"

text \<open>One field of the unread bytes: a single enum, packed enums, or any other wire type.\<close>

datatype wire_field =
    WVarint nat nat
  | WPacked nat "nat list"
  | WOther nat nat bytes

fun wf_number :: "wire_field \<Rightarrow> nat" where
  "wf_number (WVarint k v) = k"
| "wf_number (WPacked k vs) = k"
| "wf_number (WOther k typ pl) = k"

fun encode_field :: "encoder \<Rightarrow> wire_field \<Rightarrow> bytes" where
  "encode_field E (WVarint k v) = en_tag E k VarintType @ en_varint E v"
| "encode_field E (WPacked k vs) = en_tag E k BytesType @ en_bytes E (concat (map (en_varint E) vs))"
| "encode_field E (WOther k typ pl) = en_tag E k typ @ pl"

definition encode_fields :: "encoder \<Rightarrow> wire_field list \<Rightarrow> bytes" where
  "encode_fields E fs = concat (map (encode_field E) fs)"

fun field_enums :: "nat \<Rightarrow> wire_field \<Rightarrow> int list" where
  "field_enums want (WVarint k v) = (if k = want then [enum_number v] else [])"
| "field_enums want (WPacked k vs) = (if k = want then map enum_number vs else [])"
| "field_enums want (WOther k typ pl) = []"

definition enums_of :: "nat \<Rightarrow> wire_field list \<Rightarrow> int list" where
  "enums_of want fs = concat (map (field_enums want) fs)"

text \<open>
  The primitives decode what the encoder writes, with anything after it: field numbers from 1 to
  2^29 - 1, varints below 2^64.
\<close>

abbreviation valid_number :: "nat \<Rightarrow> bool" where "valid_number k \<equiv> 1 \<le> k \<and> k < 536870912"
abbreviation valid_varint :: "nat \<Rightarrow> bool" where "valid_varint v \<equiv> v < 18446744073709551616"

definition decodes :: "protowire \<Rightarrow> encoder \<Rightarrow> bool" where
  "decodes W E \<longleftrightarrow>
     (\<forall>k ty. en_tag E k ty \<noteq> []) \<and> (\<forall>v. en_varint E v \<noteq> []) \<and>
     (\<forall>k ty rest. valid_number k \<and> ty < 8 \<longrightarrow>
        pw_ConsumeTag W (en_tag E k ty @ rest) = Some (k, ty, length (en_tag E k ty))) \<and>
     (\<forall>v rest. valid_varint v \<longrightarrow>
        pw_ConsumeVarint W (en_varint E v @ rest) = Some (v, length (en_varint E v)) \<and>
        (\<forall>k. pw_ConsumeFieldValue W k 0 (en_varint E v @ rest) = Some (length (en_varint E v)))) \<and>
     (\<forall>b rest. pw_ConsumeBytes W (en_bytes E b @ rest) = Some (b, length (en_bytes E b)) \<and>
        (\<forall>k. pw_ConsumeFieldValue W k 2 (en_bytes E b @ rest) = Some (length (en_bytes E b))))"

text \<open>A field an encoder may write: the audience, or any field the primitive can skip.\<close>

definition writable :: "protowire \<Rightarrow> nat \<Rightarrow> wire_field \<Rightarrow> bool" where
  "writable W want f \<longleftrightarrow> valid_number (wf_number f) \<and>
     (case f of
        WVarint k v \<Rightarrow> valid_varint v
      | WPacked k vs \<Rightarrow> (\<forall>v \<in> set vs. valid_varint v)
      | WOther k ty pl \<Rightarrow> k \<noteq> want \<and> ty < 8 \<and>
          (\<forall>rest. pw_ConsumeFieldValue W k ty (pl @ rest) = Some (length pl)))"

lemma packed_loop_decodes:
  assumes "decodes W E"
  shows "length vs \<le> fuel \<Longrightarrow> \<forall>v \<in> set vs. valid_varint v \<Longrightarrow>
     packed_loop fuel W (concat (map (en_varint E) vs)) out = Scanned (out @ map enum_number vs)"
proof (induction vs arbitrary: fuel out)
  case (Cons v vs)
  then obtain f where f: "fuel = Suc f" by (cases fuel) auto
  have "en_varint E v \<noteq> []" using assms by (simp add: decodes_def)
  then obtain x xs where x: "en_varint E v = x # xs" by (cases "en_varint E v") auto
  have "pw_ConsumeVarint W (x # xs @ concat (map (en_varint E) vs)) = Some (v, Suc (length xs))"
    using assms[unfolded decodes_def] x Cons(3) by (metis append_Cons length_Cons list.set_intros(1))
  then show ?case using Cons by (simp add: f x)
qed simp

lemma varints_length: "decodes W E \<Longrightarrow> length vs \<le> length (concat (map (en_varint E) vs))"
proof (induction vs)
  case (Cons v vs)
  have "en_varint E v \<noteq> []" using Cons(2) by (simp add: decodes_def)
  then have "1 \<le> length (en_varint E v)" by (cases "en_varint E v") auto
  then show ?case using Cons by simp
qed simp

lemma decodes_tag:
  assumes "decodes W E" "ty < 8" "valid_number k"
  obtains x xs where "en_tag E k ty = x # xs"
    "\<And>rest. pw_ConsumeTag W (x # xs @ rest) = Some (k, ty, Suc (length xs))"
proof (cases "en_tag E k ty")
  case Nil
  then show ?thesis using assms by (simp add: decodes_def)
next
  case (Cons x xs)
  have "pw_ConsumeTag W (en_tag E k ty @ rest) = Some (k, ty, length (en_tag E k ty))" for rest
    using assms unfolding decodes_def by blast
  then show ?thesis using that[of x xs] Cons by simp
qed

lemma decodes_parts:
  assumes "decodes W E"
  shows "valid_varint v \<Longrightarrow> pw_ConsumeVarint W (en_varint E v @ rest) = Some (v, length (en_varint E v))"
    and "pw_ConsumeBytes W (en_bytes E b @ rest) = Some (b, length (en_bytes E b))"
    and "valid_varint v \<Longrightarrow> pw_ConsumeFieldValue W k 0 (en_varint E v @ rest) = Some (length (en_varint E v))"
    and "pw_ConsumeFieldValue W k 2 (en_bytes E b @ rest) = Some (length (en_bytes E b))"
  using assms unfolding decodes_def by blast+

lemma scan_field:
  assumes D: "decodes W E" and ok: "writable W want f"
  shows "unknown_loop (Suc fuel) W (encode_field E f @ rest) want out =
         unknown_loop fuel W rest want (out @ field_enums want f)"
proof (cases f)
  case (WVarint k v)
  obtain x xs where x: "en_tag E k 0 = x # xs"
      "\<And>rest. pw_ConsumeTag W (x # xs @ rest) = Some (k, 0, Suc (length xs))"
    using decodes_tag[OF D, of 0 k] ok by (auto simp: writable_def WVarint)
  show ?thesis using ok by (simp add: writable_def WVarint x Let_def decodes_parts[OF D])
next
  case (WPacked k vs)
  obtain x xs where x: "en_tag E k 2 = x # xs"
      "\<And>rest. pw_ConsumeTag W (x # xs @ rest) = Some (k, 2, Suc (length xs))"
    using decodes_tag[OF D, of 2 k] ok by (auto simp: writable_def WPacked)
  show ?thesis using ok
    by (simp add: writable_def WPacked x Let_def decodes_parts[OF D] packed_loop_decodes[OF D varints_length[OF D]])
next
  case (WOther k ty pl)
  have k: "k \<noteq> want" "ty < 8" "pw_ConsumeFieldValue W k ty (pl @ rest) = Some (length pl)"
    using ok by (simp_all add: writable_def WOther)
  obtain x xs where x: "en_tag E k ty = x # xs"
      "\<And>rest. pw_ConsumeTag W (x # xs @ rest) = Some (k, ty, Suc (length xs))"
    using decodes_tag[OF D k(2), of k] ok by (auto simp: writable_def WOther)
  show ?thesis by (simp add: WOther x k Let_def)
qed

lemma scan_fields:
  assumes "decodes W E"
  shows "\<forall>f \<in> set fs. writable W want f \<Longrightarrow>
     unknown_loop (length fs + fuel) W (encode_fields E fs @ rest) want out =
     unknown_loop fuel W rest want (out @ enums_of want fs)"
  by (induction fs arbitrary: out)
     (simp_all add: encode_fields_def enums_of_def scan_field[OF assms])

lemma encode_length: "decodes W E \<Longrightarrow> length fs \<le> length (encode_fields E fs)"
proof (induction fs)
  case (Cons f fs)
  have "en_tag E k ty \<noteq> []" for k ty using Cons(2) by (simp add: decodes_def)
  then have "1 \<le> length (encode_field E f)" by (cases f) (auto simp: Suc_le_eq)
  then show ?case using Cons by (simp add: encode_fields_def)
qed (simp add: encode_fields_def)

text \<open>
  What can be wrong with the bytes where a field should start: the tag itself, the value of a field
  that is skipped, the single number, the length of the packed ones or one of the numbers in it, and
  a wire type an enum cannot have. Whatever follows is in the bytes too.
\<close>

inductive bad_packed :: "protowire \<Rightarrow> bytes \<Rightarrow> bool" for W where
  bad_here: "b \<noteq> [] \<Longrightarrow> pw_ConsumeVarint W b = None \<Longrightarrow> bad_packed W b"
| bad_later: "b \<noteq> [] \<Longrightarrow> pw_ConsumeVarint W b = Some (v, n) \<Longrightarrow> bad_packed W (drop n b) \<Longrightarrow>
    bad_packed W b"

definition bad_value :: "protowire \<Rightarrow> nat \<Rightarrow> nat \<Rightarrow> nat \<Rightarrow> bytes \<Rightarrow> bool" where
  "bad_value W want num ty b \<longleftrightarrow>
     (if num \<noteq> want then pw_ConsumeFieldValue W num ty b = None
      else if ty = VarintType then pw_ConsumeVarint W b = None
      else if ty = BytesType
        then pw_ConsumeBytes W b = None \<or> (\<exists>p n. pw_ConsumeBytes W b = Some (p, n) \<and> bad_packed W p)
      else True)"

definition bad_field :: "protowire \<Rightarrow> nat \<Rightarrow> bytes \<Rightarrow> bool" where
  "bad_field W want b \<longleftrightarrow> b \<noteq> [] \<and>
     (pw_ConsumeTag W b = None \<or>
      (\<exists>num ty n. pw_ConsumeTag W b = Some (num, ty, n) \<and> bad_value W want num ty (drop n b)))"

lemma bad_packed_scan: "bad_packed W b \<Longrightarrow> packed_loop fuel W b out \<noteq> Scanned r"
proof (induction b arbitrary: fuel out rule: bad_packed.induct)
  case (bad_here b)
  then show ?case by (cases fuel; cases b) auto
next
  case (bad_later b v n)
  then show ?case by (cases fuel; cases b) auto
qed

lemma bad_field_scan:
  assumes "bad_field W want b"
  shows "unknown_loop fuel W b want out \<noteq> Scanned r"
proof (cases fuel)
  case 0
  then show ?thesis using assms by (cases b) (auto simp: bad_field_def)
next
  case (Suc f)
  obtain x xs where b: "b = x # xs" using assms by (cases b) (auto simp: bad_field_def)
  show ?thesis
  proof (cases "pw_ConsumeTag W b")
    case None
    then show ?thesis by (simp add: Suc b)
  next
    case (Some a)
    then obtain num ty n where a: "pw_ConsumeTag W b = Some (num, ty, n)" by (cases a) auto
    then have "bad_value W want num ty (drop n b)" using assms by (auto simp: bad_field_def)
    then show ?thesis
      using a bad_packed_scan[of W]
      by (auto simp: Suc b bad_value_def Let_def split: option.splits scan.splits if_splits)
  qed
qed

text \<open>
  C32: An audience a newer contract declares is read by an older binary. Whatever fields the bytes hold,
  in any order, singly or packed, the scan reads back exactly the enum numbers written under the
  number asked for, in order. If what comes next is malformed, nothing at all is read rather than a
  part: a tag that does not decode, a skipped field or a single number or a packed run or a number in
  it that does not, or the field asked for under a wire type an enum cannot have.
\<close>

theorem audience_roundtrip:
  assumes "decodes W E" "\<forall>f \<in> set fs. writable W want f"
  shows "enumsFromUnknown W (encode_fields E fs) want = enums_of want fs \<and>
     (\<forall>rest. bad_field W want rest \<longrightarrow>
        enumsFromUnknown W (encode_fields E fs @ rest) want = [])"
proof (intro conjI allI impI)
  obtain k where k: "length (encode_fields E fs) = length fs + k"
    using encode_length[OF assms(1)] le_Suc_ex by blast
  show "enumsFromUnknown W (encode_fields E fs) want = enums_of want fs"
    using scan_fields[OF assms, of k "[]" "[]"] by (cases k) (simp_all add: enumsFromUnknown_def k)
  fix rest assume bad: "bad_field W want rest"
  have "unknown_loop (length (encode_fields E fs @ rest)) W (encode_fields E fs @ rest) want [] =
      unknown_loop (k + length rest) W rest want (enums_of want fs)"
    using scan_fields[OF assms, of "k + length rest" rest "[]"] by (simp add: k add.assoc)
  then show "enumsFromUnknown W (encode_fields E fs @ rest) want = []"
    using bad_field_scan[OF bad] by (simp add: enumsFromUnknown_def split: scan.split)
qed

section \<open>The protobuf encoding\<close>

fun read_varint :: "bytes \<Rightarrow> (nat \<times> nat) option" where
  "read_varint [] = None"
| "read_varint (x # xs) =
     (if unat x < 128 then Some (unat x, 1)
      else (case read_varint xs of
              None \<Rightarrow> None
            | Some (v, n) \<Rightarrow> Some (unat x - 128 + 128 * v, Suc n)))"

fun write_varint :: "nat \<Rightarrow> bytes" where
  "write_varint v =
     (if v < 128 then [word_of_nat v] else word_of_nat (128 + v mod 128) # write_varint (v div 128))"

declare write_varint.simps [simp del]

definition read_bytes :: "bytes \<Rightarrow> (bytes \<times> nat) option" where
  "read_bytes b =
     (case read_varint b of
        None \<Rightarrow> None
      | Some (len, n) \<Rightarrow>
          if length (drop n b) < len then None else Some (take len (drop n b), n + len))"

definition pb_wire :: protowire where
  "pb_wire =
     \<lparr>pw_ConsumeTag = (\<lambda>b. case read_varint b of
         None \<Rightarrow> None
       | Some (v, n) \<Rightarrow> if v div 8 = 0 then None else Some (v div 8, v mod 8, n)),
      pw_ConsumeFieldValue = (\<lambda>k ty b.
        if ty = 0 then map_option snd (read_varint b)
        else if ty = 1 then (if length b < 8 then None else Some 8)
        else if ty = 2 then map_option snd (read_bytes b)
        else if ty = 5 then (if length b < 4 then None else Some 4)
        else None),
      pw_ConsumeVarint = read_varint,
      pw_ConsumeBytes = read_bytes\<rparr>"

definition pb_encoder :: encoder where
  "pb_encoder =
     \<lparr>en_tag = (\<lambda>k ty. write_varint (8 * k + ty)), en_varint = write_varint,
      en_bytes = (\<lambda>b. write_varint (length b) @ b)\<rparr>"

lemma varint_roundtrip: "read_varint (write_varint v @ rest) = Some (v, length (write_varint v))"
proof (induction v rule: write_varint.induct)
  case (1 v)
  show ?case
  proof (cases "v < 128")
    case True
    then show ?thesis by (simp add: write_varint.simps[of v] unat_of_nat)
  next
    case False
    define x where "x = (word_of_nat (128 + v mod 128) :: 8 word)"
    have u: "unat x = 128 + v mod 128"
      unfolding x_def unat_of_nat by (rule mod_less) simp
    have "write_varint v = x # write_varint (v div 128)"
      using False by (simp only: write_varint.simps[of v] x_def if_False)
    moreover have "v mod 128 + 128 * (v div 128) = v" by simp
    ultimately show ?thesis using 1[OF False] by (simp add: u)
  qed
qed

lemma write_varint_nonempty [simp]: "write_varint v \<noteq> []"
  by (simp add: write_varint.simps[of v])

lemma bytes_roundtrip: "read_bytes (write_varint (length b) @ b @ rest) = Some (b, length (write_varint (length b)) + length b)"
  by (simp add: read_bytes_def varint_roundtrip)

lemma read_varint_n: "read_varint b = Some (v, n) \<Longrightarrow> 1 \<le> n \<and> n \<le> length b"
  by (induction b arbitrary: v n) (auto split: if_splits option.splits)

lemma read_bytes_n: "read_bytes b = Some (p, n) \<Longrightarrow> 1 \<le> n \<and> n \<le> length b"
  by (auto simp: read_bytes_def dest!: read_varint_n split: option.splits if_splits)

lemma pb_wire_advances: "wire_advances pb_wire"
  by (auto simp: wire_advances_def pb_wire_def dest: read_varint_n read_bytes_n
      split: option.splits if_splits)

lemma pb_decodes: "decodes pb_wire pb_encoder"
proof -
  have t: "ty < 8 \<Longrightarrow> (8 * k + ty) div 8 = k \<and> (8 * k + ty) mod 8 = ty" for k ty :: nat by auto
  show ?thesis
    by (auto simp: decodes_def pb_wire_def pb_encoder_def varint_roundtrip bytes_roundtrip t)
qed

section \<open>Witnesses\<close>

text \<open>Field 3 is a string, field 40 an audience written once alone and once packed.\<close>

definition sample_fields :: "wire_field list" where
  "sample_fields = [WVarint 40 1, WOther 3 2 [2, 104, 105], WPacked 40 [2, 300]]"

lemma unknown_scan_terminates_witness:
  "unknown_loop 4 pb_wire [1, 255, 255, 255] 40 [] \<noteq> OutOfFuel"
  using unknown_scan_terminates[OF pb_wire_advances, of "[1, 255, 255, 255]" 40 "[]"] by simp

lemma sample_writable: "\<forall>f \<in> set sample_fields. writable pb_wire 40 f"
  by (auto simp: sample_fields_def writable_def pb_wire_def read_bytes_def)

lemma sample_bad:
  "bad_field pb_wire 40 [128]" "bad_field pb_wire 40 [26, 9, 1]" "bad_field pb_wire 40 [192, 2, 128]"
  "bad_field pb_wire 40 [194, 2, 5, 1]" "bad_field pb_wire 40 [194, 2, 2, 1, 128]"
  "bad_field pb_wire 40 [197, 2, 0, 0, 0, 0]"
proof -
  have "bad_packed pb_wire [1, 128]"
    by (rule bad_packed.bad_later[of _ _ 1 1]) (auto simp: pb_wire_def intro: bad_packed.bad_here)
  moreover have "pw_ConsumeTag pb_wire [194, 2, 2, 1, 128] = Some (40, BytesType, 2)"
    "pw_ConsumeBytes pb_wire [2, 1, 128] = Some ([1, 128], 3)"
    by (simp_all add: pb_wire_def read_bytes_def)
  ultimately show "bad_field pb_wire 40 [194, 2, 2, 1, 128]"
    by (simp add: bad_field_def bad_value_def)
qed (simp_all add: bad_field_def bad_value_def pb_wire_def read_bytes_def)

lemma audience_roundtrip_witness:
  "enumsFromUnknown pb_wire (encode_fields pb_encoder sample_fields) 40 = [1, 2, 300] \<and>
   enumsFromUnknown pb_wire (encode_fields pb_encoder sample_fields @ [194, 2, 2, 1, 128]) 40 = []"
proof -
  have "enums_of 40 sample_fields = [1, 2, 300]"
    by (simp add: enums_of_def sample_fields_def enum_number_def)
  then show ?thesis using audience_roundtrip[OF pb_decodes sample_writable] sample_bad(5) by simp
qed

end
