(* ===== verification/CatalogueProps.thy ===== *)
theory CatalogueProps
  imports AudienceProps
begin

text \<open>
  Facts about loading an artifact: which tools a catalogue serves and under which names, that the
  order of its files does not matter, and that an audience declared in bytes this binary cannot read
  is read back from them.
\<close>

section \<open>Names and sorting\<close>

lemma client_clash_None:
  "client_clash seen ds = None \<longleftrightarrow>
     distinct (map t_ClientName ds) \<and> (\<forall>d \<in> set ds. seen (t_ClientName d) = None)"
proof (induction ds arbitrary: seen)
  case (Cons d ds)
  show ?case by (cases "seen (t_ClientName d)") (auto simp: Cons image_iff dom_def)
qed simp

lemma assignClientNames_Inr:
  "assignClientNames defs = Inr named \<longleftrightarrow>
     named = map (\<lambda>d. d\<lparr>t_ClientName := client_name defs d\<rparr>) defs \<and> distinct (map t_ClientName named)"
proof -
  let ?n = "map (\<lambda>d. d\<lparr>t_ClientName := client_name defs d\<rparr>) defs"
  have "client_clash Map.empty ?n = None \<longleftrightarrow> distinct (map t_ClientName ?n)"
    by (simp only: client_clash_None) simp
  then show ?thesis
    by (cases "client_clash Map.empty ?n") (auto simp only: assignClientNames_def Let_def option.case)
qed

text \<open>A declaration without the two things the load adds to it.\<close>

definition bare_def :: "tooldef \<Rightarrow> tooldef" where
  "bare_def d = d\<lparr>t_ClientName := [], t_FieldDocs := []\<rparr>"

lemma bare_sel [simp]:
  "t_FullMethod (bare_def d) = t_FullMethod d" "t_FQN (bare_def d) = t_FQN d"
  "t_Name (bare_def d) = t_Name d" "t_MaxGrantAge (bare_def d) = t_MaxGrantAge d"
  by (simp_all add: bare_def_def)

lemma bare_updates [simp]:
  "bare_def (d\<lparr>t_ClientName := n\<rparr>) = bare_def d" "bare_def (d\<lparr>t_FieldDocs := ds\<rparr>) = bare_def d"
  by (simp_all add: bare_def_def)

lemma name_count_map:
  "(\<And>d. t_Name (f d) = t_Name d) \<Longrightarrow> name_count (map f defs) n = name_count defs n"
  by (simp add: name_count_def filter_map comp_def)

lemma client_name_map:
  assumes "\<And>d. t_Name (f d) = t_Name d" "\<And>d. t_FQN (f d) = t_FQN d"
  shows "client_name (map f defs) (f d) = client_name defs d"
  by (simp add: client_name_def name_count_map[of f, OF assms(1)] assms)

section \<open>The declarations of a registry\<close>

definition declares :: "files \<Rightarrow> file_desc \<Rightarrow> service_desc \<Rightarrow> method_desc \<Rightarrow> tool_policy \<Rightarrow> bool" where
  "declares fs f svc m p \<longleftrightarrow>
     f \<in> set (fs_Files fs) \<and> svc \<in> set (fl_Services f) \<and> m \<in> set (sv_Methods svc) \<and>
     me_Policy m = Some p \<and> \<not> tp_Exclude p"

lemma set_method_defs:
  "set (method_defs L aud f svc ms) =
     {defFor L aud f svc m p |m p. m \<in> set ms \<and> me_Policy m = Some p \<and> \<not> tp_Exclude p}"
  by (induction ms) (auto split: option.splits)

lemma set_buildDefs:
  "set (buildDefs L fs aud) = {defFor L aud f svc m p |f svc m p. declares fs f svc m p}"
  unfolding buildDefs_def file_defs_def declares_def by (simp add: set_method_defs) blast

lemma bare_defFor [simp]: "bare_def (defFor L aud f svc m p) = defFor L aud f svc m p"
  by (simp add: bare_def_def defFor_def)

lemma grant_age_exact:
  "t_MaxGrantAge (defFor L aud f svc m p) = uint (tp_MaxGrantAgeSeconds p) * second_ns"
proof -
  have "uint (tp_MaxGrantAgeSeconds p) < 2 ^ 32" "0 \<le> uint (tp_MaxGrantAgeSeconds p)"
    using uint_lt2p[of "tp_MaxGrantAgeSeconds p"] by simp_all
  then show ?thesis by (simp add: defFor_def wrap64_def second_ns_def)
qed

lemma checkSchema_None: "checkSchema got = None \<longleftrightarrow> got = 1"
proof -
  have "\<not> 1 < unat got \<and> \<not> unat got < 1 \<longleftrightarrow> got = 1" by (auto simp: word_unat_eq_iff)
  then show ?thesis
    by (auto simp: checkSchema_def SchemaVersion_def oldest_schema_def MaxBehind_def word_less_nat_alt)
qed

section \<open>What loads\<close>

lemma Load_Inr:
  assumes "Load L body now = Inr c"
  obtains msg fs where
    "int (length body) \<le> MaxBytes" "lb_Unmarshal L body = Inr msg" "cm_AnnotationSchemaVersion msg = 1"
    "lb_NewFiles L (cm_Files msg) = Inr fs" "ct_Files c = fs" "ct_Digest c = DigestOf L body"
    "ct_Compartments c = cm_Compartments msg" "ct_LoadedAt c = now" "ct_Defs c \<noteq> []"
    "assignClientNames (map (\<lambda>d. d\<lparr>t_FieldDocs := cm_FieldDocs msg\<rparr>)
       (buildDefs L fs (newAudienceReader fs))) = Inr (ct_Defs c)"
  using assms unfolding Load_def Let_def
  by (auto simp: checkSchema_None split: if_split_asm sum.split_asm option.split_asm prod.split_asm)

lemma Load_def_of:
  assumes "Load L body now = Inr c" "d \<in> set (ct_Defs c)"
  obtains aud f svc m p where "bare_def d = defFor L aud f svc m p"
proof -
  from Load_Inr[OF assms(1)] obtain msg fs where
    "lb_Unmarshal L body = Inr msg" and named: "assignClientNames (map (\<lambda>d. d\<lparr>t_FieldDocs := cm_FieldDocs msg\<rparr>)
       (buildDefs L fs (newAudienceReader fs))) = Inr (ct_Defs c)" by metis
  from named have "bare_def d \<in> set (buildDefs L fs (newAudienceReader fs))"
    using assms(2) unfolding assignClientNames_Inr by (auto simp: set_buildDefs) blast
  then show ?thesis using that by (auto simp: set_buildDefs)
qed

lemma lone_client_name:
  assumes "d \<in> set ds" "name_count ds (t_Name d) = 1"
    and "ds = map (\<lambda>d. d\<lparr>t_ClientName := client_name docs d\<rparr>) docs"
  shows "t_ClientName d = t_Name d"
proof -
  have count: "name_count ds n = name_count docs n" for n
    unfolding assms(3) by (rule name_count_map) simp
  from assms(1) obtain d' where "d = d'\<lparr>t_ClientName := client_name docs d'\<rparr>"
    unfolding assms(3) by auto
  then show ?thesis using assms(2) by (simp add: count client_name_def)
qed

lemma bare_each:
  assumes "bare_def ` set ds = {defFor L aud f svc m p |f svc m p. declares fs f svc m p}" "d \<in> set ds"
  shows "\<exists>f svc m p. declares fs f svc m p \<and> t_FullMethod d = route_of svc m \<and>
     t_MaxGrantAge d = uint (tp_MaxGrantAgeSeconds p) * second_ns"
proof -
  from assms obtain f svc m p where p: "declares fs f svc m p" "bare_def d = defFor L aud f svc m p" by blast
  then have "t_FullMethod d = route_of svc m" using bare_sel(1)[of d] by (simp add: defFor_def)
  then show ?thesis using p grant_age_exact[of L aud f svc m p] bare_sel(4)[of d] by metis
qed

text \<open>
  C27: A catalogue serves exactly the tools its artifact declares, each under the policy declared. An
  artifact that loads is within the byte ceiling, of the one schema version this build reads and
  named by the digest of the very bytes handed over; its tools are the annotated methods that are
  not excluded, each once, every field of each from its own annotation (the longest approval age
  exact, without wrapping); they are sorted by name, a tool whose short name is its own shows that
  name, and no two tools show a caller one name.
\<close>

theorem catalogue_load_exact:
  assumes "Load L body now = Inr c"
  shows "length body \<le> 2 ^ 28 \<and> ct_Digest c = DigestOf L body \<and>
     (\<exists>msg fs. lb_Unmarshal L body = Inr msg \<and> cm_AnnotationSchemaVersion msg = 1 \<and>
        lb_NewFiles L (cm_Files msg) = Inr fs \<and> ct_Files c = fs \<and>
        mset (map bare_def (ct_Defs c)) =
          mset (concat (map (file_defs L (newAudienceReader fs)) (fs_Files fs))) \<and>
        bare_def ` set (ct_Defs c) =
          {defFor L (newAudienceReader fs) f svc m p |f svc m p. declares fs f svc m p} \<and>
        (\<forall>d \<in> set (ct_Defs c). \<exists>f svc m p. declares fs f svc m p \<and> t_FullMethod d = route_of svc m \<and>
           t_MaxGrantAge d = uint (tp_MaxGrantAgeSeconds p) * second_ns)) \<and>
     ct_Defs c \<noteq> [] \<and> sorted (map t_FQN (ct_Defs c)) \<and> distinct (map t_ClientName (ct_Defs c)) \<and>
     (\<forall>d \<in> set (ct_Defs c). name_count (ct_Defs c) (t_Name d) = 1 \<longrightarrow> t_ClientName d = t_Name d)"
proof -
  from Load_Inr[OF assms] obtain msg fs where L:
    "int (length body) \<le> MaxBytes" "lb_Unmarshal L body = Inr msg" "cm_AnnotationSchemaVersion msg = 1"
    "lb_NewFiles L (cm_Files msg) = Inr fs" "ct_Files c = fs" "ct_Digest c = DigestOf L body"
    "ct_Defs c \<noteq> []"
    "assignClientNames (map (\<lambda>d. d\<lparr>t_FieldDocs := cm_FieldDocs msg\<rparr>)
       (buildDefs L fs (newAudienceReader fs))) = Inr (ct_Defs c)" .
  define raw where "raw = buildDefs L fs (newAudienceReader fs)"
  define docs where "docs = map (\<lambda>d. d\<lparr>t_FieldDocs := cm_FieldDocs msg\<rparr>) raw"
  have named: "ct_Defs c = map (\<lambda>d. d\<lparr>t_ClientName := client_name docs d\<rparr>) docs"
      "distinct (map t_ClientName (ct_Defs c))"
    using L(8)[folded raw_def, folded docs_def] unfolding assignClientNames_Inr by blast+
  have bare_raw: "map bare_def raw = raw"
    by (rule map_idI) (auto simp: raw_def set_buildDefs)
  have bare: "map bare_def (ct_Defs c) = raw"
    by (simp add: named(1) docs_def comp_def bare_raw)
  have keys: "map t_FQN (ct_Defs c) = map t_FQN raw" by (simp add: named(1) docs_def comp_def)
  have set_eq: "bare_def ` set (ct_Defs c) =
      {defFor L (newAudienceReader fs) f svc m p |f svc m p. declares fs f svc m p}"
    by (metis bare list.set_map raw_def set_buildDefs)
  note each = bare_each[OF set_eq]
  note lone = lone_client_name[OF _ _ named(1)]
  have ms: "mset (map bare_def (ct_Defs c)) =
      mset (concat (map (file_defs L (newAudienceReader fs)) (fs_Files fs)))"
    by (simp add: bare raw_def buildDefs_def)
  have sorted: "sorted (map t_FQN (ct_Defs c))" by (simp add: keys raw_def buildDefs_def)
  have body: "length body \<le> 2 ^ 28" using L(1) by (simp add: MaxBytes_def)
  have found: "\<exists>msg fs. lb_Unmarshal L body = Inr msg \<and> cm_AnnotationSchemaVersion msg = 1 \<and>
        lb_NewFiles L (cm_Files msg) = Inr fs \<and> ct_Files c = fs \<and>
        mset (map bare_def (ct_Defs c)) =
          mset (concat (map (file_defs L (newAudienceReader fs)) (fs_Files fs))) \<and>
        bare_def ` set (ct_Defs c) =
          {defFor L (newAudienceReader fs) f svc m p |f svc m p. declares fs f svc m p} \<and>
        (\<forall>d \<in> set (ct_Defs c). \<exists>f svc m p. declares fs f svc m p \<and> t_FullMethod d = route_of svc m \<and>
           t_MaxGrantAge d = uint (tp_MaxGrantAgeSeconds p) * second_ns)"
    by (rule exI[of _ msg], rule exI[of _ fs], intro conjI ballI)
       (rule L(2-5) ms set_eq each, assumption?)+
  show ?thesis
    by (intro conjI found ballI impI body L(6,7) sorted named(2) lone)
qed

section \<open>The order of the files\<close>

text \<open>Another order of visiting the files of one registry.\<close>

definition visited :: "(file_desc list \<Rightarrow> file_desc list) \<Rightarrow> files \<Rightarrow> files" where
  "visited perm fs = fs\<lparr>fs_Files := perm (fs_Files fs)\<rparr>"

definition visiting ::
  "(file_desc list \<Rightarrow> file_desc list) \<Rightarrow> ('d, 'p) cat_lib \<Rightarrow> ('d, 'p) cat_lib" where
  "visiting perm L = L\<lparr>lb_NewFiles := \<lambda>d. map_sum id (visited perm) (lb_NewFiles L d)\<rparr>"

text \<open>The audience, when ToolPolicy is described at all, is a field of it and not an extension.\<close>

definition audience_is_a_field :: "files \<Rightarrow> bool" where
  "audience_is_a_field fs =
     (case fs_FindByName fs toolPolicyName of
        MessageDescriptor fds \<Rightarrow> list_ex (\<lambda>fd. af_Name fd = audienceField) fds
      | _ \<Rightarrow> True)"

lemma reader_visited:
  assumes "audience_is_a_field fs"
  shows "newAudienceReader (visited perm fs) = newAudienceReader fs"
proof -
  have "\<exists>fd. List.find (\<lambda>fd. af_Name fd = audienceField) fds = Some fd"
    if "fs_FindByName fs toolPolicyName = MessageDescriptor fds" for fds
  proof -
    have "list_ex (\<lambda>fd. af_Name fd = audienceField) fds"
      using assms unfolding audience_is_a_field_def that by simp
    then obtain fd where "fd \<in> set fds" "af_Name fd = audienceField" by (auto simp: list_ex_iff)
    then show ?thesis by (cases "List.find (\<lambda>fd. af_Name fd = audienceField) fds") (auto simp: find_None_iff)
  qed
  then show ?thesis
    by (auto simp: newAudienceReader_def visited_def split: named_desc.splits option.splits)
qed

lemma mset_concat_map: "mset (concat (map g xs)) = sum_mset (image_mset (\<lambda>x. mset (g x)) (mset xs))"
  by (induction xs) simp_all

lemma buildDefs_visited:
  assumes "mset (perm (fs_Files fs)) = mset (fs_Files fs)" "distinct (map t_FQN (buildDefs L fs aud))"
  shows "buildDefs L (visited perm fs) aud = buildDefs L fs aud"
proof -
  let ?xs = "concat (map (file_defs L aud) (perm (fs_Files fs)))"
  have "mset ?xs = mset (concat (map (file_defs L aud) (fs_Files fs)))"
    by (simp only: mset_concat_map assms(1))
  then have m: "mset ?xs = mset (buildDefs L fs aud)" by (simp add: buildDefs_def)
  have inj: "inj_on t_FQN (set ?xs)"
    using assms(2) m by (metis distinct_map set_mset_mset)
  have "sorted (map t_FQN (buildDefs L fs aud))" by (simp add: buildDefs_def)
  from sort_key_inj_key_eq[OF m inj this] show ?thesis
    unfolding buildDefs_def[of L "visited perm fs"] by (simp add: visited_def)
qed

lemma file_defs_lib:
  "lb_Wire L' = lb_Wire L \<Longrightarrow> lb_LinkedAudience L' = lb_LinkedAudience L \<Longrightarrow> defFor L' = defFor L"
  by (intro ext) (simp add: defFor_def read_audience_def audience_numbers_def split: option.split)

lemma buildDefs_visiting: "buildDefs (visiting perm L) = buildDefs L"
proof -
  have d: "defFor (visiting perm L) = defFor L" by (rule file_defs_lib) (simp_all add: visiting_def)
  have "method_defs (visiting perm L) aud f svc ms = method_defs L aud f svc ms" for aud f svc ms
    by (induction ms) (simp_all add: d split: option.split)
  then have "file_defs (visiting perm L) = file_defs L" by (intro ext) (simp add: file_defs_def)
  then show ?thesis by (intro ext) (simp add: buildDefs_def)
qed

text \<open>
  Two replicas that load one artifact serve the same tools under the same names. The library
  does not promise the order in which it visits the files of a registry; whatever the order, the
  load succeeds or fails alike, with the same tools in the same order and the same client names, as
  long as the qualified names are distinct.
\<close>

theorem load_order_independent:
  assumes "\<And>xs. mset (perm xs) = mset xs"
    and "\<And>d fs. lb_NewFiles L d = Inr fs \<Longrightarrow>
           audience_is_a_field fs \<and> distinct (map t_FQN (buildDefs L fs (newAudienceReader fs)))"
  shows "map_sum id (\<lambda>c. c\<lparr>ct_Files := visited perm (ct_Files c)\<rparr>) (Load L body now) =
         Load (visiting perm L) body now"
proof -
  have same: "buildDefs L (visited perm fs) (newAudienceReader (visited perm fs)) =
      buildDefs L fs (newAudienceReader fs)" if "lb_NewFiles L d = Inr fs" for d fs
    using reader_visited[of fs perm] buildDefs_visited[of perm fs L "newAudienceReader fs"] assms that
    by metis
  have sel: "lb_Unmarshal (visiting perm L) = lb_Unmarshal L"
      "DigestOf (visiting perm L) = DigestOf L"
      "lb_NewFiles (visiting perm L) d = map_sum id (visited perm) (lb_NewFiles L d)" for d
    by (simp_all add: visiting_def DigestOf_def fun_eq_iff)
  show ?thesis
    by (auto simp: Load_def Let_def sel buildDefs_visiting same split: sum.split option.split prod.split)
qed

section \<open>A small artifact\<close>

text \<open>Two packages that share a short name, and a tool only one of them has.\<close>

definition plain_policy :: tool_policy where
  "plain_policy =
     \<lparr>tp_Exclude = False, tp_Name = [], tp_Title = [], tp_Description = [], tp_Verb = VERB_READ,
      tp_MinClearance = CLEARANCE_PUBLIC, tp_Compartments = [], tp_Sets = [], tp_ApprovalMode = 0,
      tp_ApproverMinClearance = 0, tp_ApproverCompartments = [], tp_MaxGrantAgeSeconds = 0,
      tp_MaterialFields = [], tp_AuditLevel = 0, tp_RecordRequest = False, tp_RecordResponse = False,
      tp_RetainDays = 0, tp_FailClosed = False, tp_HasAuthorization = False, tp_Idempotent = True,
      tp_Reversibility = 0, tp_External = False, tp_WhenToUse = [], tp_WhenNotToUse = [],
      tp_OnError = [], tp_Audience = [], tp_Unknown = []\<rparr>"

definition gated_policy :: tool_policy where
  "gated_policy = plain_policy\<lparr>tp_Name := ''pay'', tp_Verb := VERB_WRITE,
     tp_ApprovalMode := MODE_GRANT, tp_MaxGrantAgeSeconds := 900, tp_Unknown := [192, 2, 1]\<rparr>"

definition toy_service :: "string \<Rightarrow> method_desc list \<Rightarrow> file_desc" where
  "toy_service pkg ms =
     \<lparr>fl_Package = pkg, fl_Services = [\<lparr>sv_FullName = pkg @ ''.S'', sv_Methods = ms\<rparr>],
      fl_Extensions = [], fl_Messages = []\<rparr>"

definition toy_method :: "string \<Rightarrow> tool_policy option \<Rightarrow> method_desc" where
  "toy_method n p = \<lparr>me_Name = n, me_Input = 0, me_Output = 0, me_Policy = p\<rparr>"

definition toy_files :: files where
  "toy_files =
     \<lparr>fs_Files = [toy_service ''b'' [toy_method ''GetIt'' (Some plain_policy), toy_method ''Ping'' None],
                 toy_service ''a'' [toy_method ''Pay'' (Some gated_policy), toy_method ''GetIt'' (Some plain_policy)]],
      fs_Pool = [\<lparr>md_FullName = ''a.M'', md_Fields = []\<rparr>],
      fs_FindByName = (\<lambda>n. if n = toolPolicyName
         then MessageDescriptor [\<lparr>af_Name = ''audience'', af_Number = 40, af_Kind = EnumKind,
                af_IsMap = False, af_Enum = Some [(0, ''AUDIENCE_UNSPECIFIED''), (1, ''AUDIENCE_PERSON'')]\<rparr>]
         else NoDescriptor)\<rparr>"

definition toy_message :: "(unit, unit) cat_msg" where
  "toy_message = \<lparr>cm_AnnotationSchemaVersion = 1, cm_Files = (), cm_Compartments = [], cm_ToolSets = [],
     cm_FieldDocs = [], cm_DescriptorHashes = [], cm_Provenance = ()\<rparr>"

definition toy_catlib :: "(unit, unit) cat_lib" where
  "toy_catlib =
     \<lparr>lb_Sum256 = (\<lambda>body. [of_nat (length body)]),
      lb_Unmarshal = (\<lambda>body. if body = ''bad'' then Inl (Plain ''bad'') else Inr toy_message),
      lb_NewFiles = (\<lambda>_. Inr toy_files), lb_Wire = pb_wire, lb_LinkedAudience = None\<rparr>"

text \<open>What a caller is shown of a loaded catalogue.\<close>

definition shown :: "'e + 'p catalogue \<Rightarrow> (string \<times> string list) list" where
  "shown r = (case r of Inl _ \<Rightarrow> [] | Inr c \<Rightarrow> map (\<lambda>d. (t_ClientName d, t_Audience d)) (ct_Defs c))"

lemma toy_load:
  "shown (Load toy_catlib ''artifact'' 7) = [(''a_get_it'', []), (''pay'', [''PERSON'']), (''b_get_it'', [])]"
  by code_simp

lemma catalogue_load_exact_witness:
  "\<exists>c. Load toy_catlib ''artifact'' 7 = Inr c \<and> distinct (map t_ClientName (ct_Defs c))"
proof (cases "Load toy_catlib ''artifact'' 7")
  case (Inl e)
  then show ?thesis using toy_load by (simp add: shown_def)
next
  case (Inr c)
  then show ?thesis using catalogue_load_exact[OF Inr] by blast
qed

lemma load_order_independent_witness:
  "shown (Load (visiting rev toy_catlib) ''artifact'' 7) = shown (Load toy_catlib ''artifact'' 7)"
proof -
  have ok: "audience_is_a_field fs \<and> distinct (map t_FQN (buildDefs toy_catlib fs (newAudienceReader fs)))"
    if "lb_NewFiles toy_catlib d = Inr fs" for d fs
  proof -
    have fs: "fs = toy_files" using that by (simp add: toy_catlib_def)
    show ?thesis unfolding fs by code_simp
  qed
  have keep: "shown (map_sum id (\<lambda>c. c\<lparr>ct_Files := visited rev (ct_Files c)\<rparr>) r) = shown r"
    for r :: "load_err + unit catalogue"
    by (cases r) (simp_all add: shown_def)
  have "map_sum id (\<lambda>c. c\<lparr>ct_Files := visited rev (ct_Files c)\<rparr>) (Load toy_catlib ''artifact'' 7) =
      Load (visiting rev toy_catlib) ''artifact'' 7"
    by (rule load_order_independent) (simp, rule ok)
  then show ?thesis using keep[of "Load toy_catlib ''artifact'' 7"] by simp
qed

end
