(* ===== verification/Store.thy ===== *)
theory Store
  imports CatalogueProps
begin

text \<open>
  \<open>internal/catalogue/s3.go\<close>, \<open>store.go\<close> and the root \<open>source.go\<close>: where an artifact is read from, and
  the catalogue a process is serving with the bounded history of the ones it served before. What the
  object store answers, the clock and the heap measurement are arguments of each operation.
\<close>

section \<open>Where the artifact is\<close>

definition s3_scheme :: string where "s3_scheme = ''s3://''"

definition ParseS3URL :: "string \<Rightarrow> (string \<times> string) option" where
  "ParseS3URL raw =
     (case cut_prefix raw s3_scheme of
        None \<Rightarrow> None
      | Some rest \<Rightarrow>
          (case cut_byte (CHR ''/'') rest of
             None \<Rightarrow> None
           | Some (bucket, key) \<Rightarrow>
               if bucket = [] \<or> key = [] \<or> has_prefix key ''/'' then None else Some (bucket, key)))"

definition s3_String :: "string \<Rightarrow> string \<Rightarrow> string" where
  "s3_String bucket key = s3_scheme @ bucket @ ''/'' @ key"

text \<open>What the object store answers to a GET and to a HEAD.\<close>

datatype s3_get = GetErr go_err | GetBody string | GetBroken go_err
datatype s3_head = HeadErr go_err | HeadETag "string option"

definition S3_Read :: "string \<Rightarrow> string \<Rightarrow> s3_get \<Rightarrow> go_err + string" where
  "S3_Read bucket key ans =
     (case ans of
        GetErr e \<Rightarrow> Inl (Wrapped (''reading '' @ s3_String bucket key) [e])
      | GetBroken e \<Rightarrow> Inl (Wrapped (''reading '' @ s3_String bucket key) [e])
      | GetBody full \<Rightarrow>
          (let body = take (nat (MaxBytes + 1)) full in
           if int (length body) > MaxBytes
           then Inl (Wrapped (s3_String bucket key @ '' is larger than the catalogue ceiling'') [Sentinel STooLarge])
           else Inr body))"

definition S3_ETag :: "string \<Rightarrow> string \<Rightarrow> s3_head \<Rightarrow> go_err + string" where
  "S3_ETag bucket key ans =
     (case ans of
        HeadErr e \<Rightarrow> Inl (Wrapped (''checking '' @ s3_String bucket key) [e])
      | HeadETag t \<Rightarrow>
          (let etag = (case t of None \<Rightarrow> [] | Some t \<Rightarrow> t) in
           if etag = [] then Inl (Plain (''checking '' @ s3_String bucket key @ '': no ETag''))
           else Inr etag))"

datatype boot_source = FromFile string | FromObject string string
datatype source_err = UnusableObject string | NoClient go_err

text \<open>What \<open>--catalogue\<close> names; \<open>client\<close> is the error of building the store's client, if any.\<close>

definition catalogueSource :: "go_err option \<Rightarrow> string \<Rightarrow> source_err + boot_source" where
  "catalogueSource client raw =
     (case ParseS3URL raw of
        None \<Rightarrow> if has_prefix raw s3_scheme then Inl (UnusableObject raw) else Inr (FromFile raw)
      | Some (bucket, key) \<Rightarrow>
          (case client of Some e \<Rightarrow> Inl (NoClient e) | None \<Rightarrow> Inr (FromObject bucket key)))"

section \<open>The client of an object store\<close>

text \<open>
  What \<open>NewS3Client\<close> settles over the configuration the SDK loads (or fails to): an endpoint named by
  \<open>AWS_ENDPOINT_URL\<close> is an address, so the bucket goes into the path and not into the host.
\<close>

record s3_options =
  sx_BaseEndpoint :: "string option"
  sx_UsePathStyle :: bool

definition NewS3Client :: "go_err + s3_options \<Rightarrow> string \<Rightarrow> go_err + s3_options" where
  "NewS3Client loaded endpoint_env =
     (case loaded of
        Inl e \<Rightarrow> Inl (Wrapped ''the AWS configuration'' [e])
      | Inr opts \<Rightarrow>
          Inr (if endpoint_env \<noteq> [] then opts\<lparr>sx_BaseEndpoint := Some endpoint_env, sx_UsePathStyle := True\<rparr> else opts))"

text \<open>The error \<open>catalogueSource\<close> is given, if any: an unset variable leaves what was loaded as it was.\<close>

definition client_err :: "go_err + s3_options \<Rightarrow> go_err option" where
  "client_err c = (case c of Inl e \<Rightarrow> Some e | Inr _ \<Rightarrow> None)"

lemma endpoint_is_path_style:
  "NewS3Client (Inr opts) ep = Inr c \<Longrightarrow> ep \<noteq> [] \<Longrightarrow> sx_BaseEndpoint c = Some ep \<and> sx_UsePathStyle c"
  "NewS3Client loaded [] = Inr c \<Longrightarrow> loaded = Inr c"
  "client_err (NewS3Client loaded ep) = None \<longleftrightarrow> (\<exists>opts. loaded = Inr opts)"
  by (auto simp: NewS3Client_def client_err_def split: sum.splits)

section \<open>The store\<close>

text \<open>
  A pointer to a generation is its address with what it points to: two loads of one artifact are two
  generations. \<open>so_alloc\<close> is the next address.
\<close>

type_synonym 'p gen = "nat \<times> 'p catalogue"

record 'p store =
  so_current :: "'p gen option"
  so_retired :: "'p gen list"
  so_keepDepth :: int
  so_ttl :: int
  so_maxTools :: int
  so_alloc :: nat

definition five_minutes :: int where "five_minutes = 5 * 60 * second_ns"

definition NewStore :: "int \<Rightarrow> int \<Rightarrow> int \<Rightarrow> 'p store" where
  "NewStore keepDepth ttl maxTools =
     (let k = (if keepDepth = 0 then 1 else keepDepth);
          k = (if k < 0 then 0 else k)
      in \<lparr>so_current = None, so_retired = [], so_keepDepth = k,
          so_ttl = (if ttl = 0 then five_minutes else ttl), so_maxTools = maxTools, so_alloc = 0\<rparr>)"

definition sweepLocked :: "int \<Rightarrow> 'p store \<Rightarrow> 'p store" where
  "sweepLocked now s =
     (let kept = take (nat (so_keepDepth s)) (so_retired s);
          cut = now - so_ttl s
      in s\<lparr>so_retired := filter (\<lambda>g. ct_LoadedAt (snd g) > cut) kept\<rparr>)"

definition Sweep :: "int \<Rightarrow> 'p store \<Rightarrow> 'p store" where "Sweep now s = sweepLocked now s"

definition Generations :: "int \<Rightarrow> 'p store \<Rightarrow> 'p gen list \<times> 'p store" where
  "Generations now s =
     (let s' = sweepLocked now s in
      ((case so_current s' of None \<Rightarrow> [] | Some g \<Rightarrow> [g]) @ so_retired s', s'))"

datatype store_err = ReadErr go_err | LoadErr load_err | TooManyTools string nat int

definition measured :: "nat \<Rightarrow> nat \<Rightarrow> 'p catalogue \<Rightarrow> 'p catalogue" where
  "measured before after c = (if after > before then c\<lparr>ct_HeapBytes := after - before\<rparr> else c)"

text \<open>What one reload observes: the source's answer, two heap sizes, the clock at the load and at the sweep.\<close>

record reading =
  rd_Read :: "go_err + string"
  rd_Before :: nat
  rd_After :: nat
  rd_Load :: int
  rd_Sweep :: int

definition swap_in :: "int \<Rightarrow> 'p catalogue \<Rightarrow> 'p store \<Rightarrow> 'p gen \<times> 'p store" where
  "swap_in now c s =
     (let g = (so_alloc s, c);
          s1 = s\<lparr>so_current := Some g, so_alloc := Suc (so_alloc s)\<rparr>;
          s2 = (case so_current s of
                  Some prev \<Rightarrow>
                    if so_keepDepth s > 0 then s1\<lparr>so_retired := prev # so_retired s\<rparr> else s1
                | None \<Rightarrow> s1)
      in (g, sweepLocked now s2))"

definition store_Reload :: "('d, 'p) cat_lib \<Rightarrow> reading \<Rightarrow> 'p store \<Rightarrow> (store_err + 'p gen) \<times> 'p store" where
  "store_Reload L rd s =
     (case rd_Read rd of
        Inl e \<Rightarrow> (Inl (ReadErr e), s)
      | Inr body \<Rightarrow>
     (case Load L body (rd_Load rd) of
        Inl e \<Rightarrow> (Inl (LoadErr e), s)
      | Inr loaded \<Rightarrow>
          (let c = measured (rd_Before rd) (rd_After rd) loaded in
           if so_maxTools s > 0 \<and> int (length (ct_Defs c)) > so_maxTools s
           then (Inl (TooManyTools (ct_Digest c) (length (ct_Defs c)) (so_maxTools s)), s)
           else
             (case so_current s of
                Some prev \<Rightarrow>
                  if ct_Digest (snd prev) = ct_Digest c then (Inr prev, s)
                  else (case swap_in (rd_Sweep rd) c s of (g, s') \<Rightarrow> (Inr g, s'))
              | None \<Rightarrow> (case swap_in (rd_Sweep rd) c s of (g, s') \<Rightarrow> (Inr g, s'))))))"

section \<open>Reading a source\<close>

lemma cut_byte_iff: "cut_byte c s = Some (a, b) \<longleftrightarrow> s = a @ c # b \<and> c \<notin> set a"
  using cut_byte_Some cut_byte_append by metis

lemma ParseS3URL_Some:
  "ParseS3URL raw = Some (b, k) \<longleftrightarrow>
     (\<exists>rest. cut_prefix raw s3_scheme = Some rest \<and> cut_byte (CHR ''/'') rest = Some (b, k) \<and>
        b \<noteq> [] \<and> k \<noteq> [] \<and> \<not> has_prefix k ''/'')"
  by (auto simp: ParseS3URL_def split: option.splits if_split_asm)

text \<open>
  Only an object is polled, and always the one named. The flag is read as an object exactly when
  it is the printed form of a bucket and a key, both present, the key not beginning with a slash: what
  is parsed prints back to the flag, and what prints parses back. Anything else that looks like an
  object is refused rather than opened as a file.
\<close>

theorem s3_url_roundtrip:
  "(ParseS3URL raw = Some (b, k) \<longleftrightarrow>
      raw = s3_String b k \<and> b \<noteq> [] \<and> CHR ''/'' \<notin> set b \<and> k \<noteq> [] \<and> \<not> has_prefix k ''/'') \<and>
   (catalogueSource client raw = Inr (FromFile raw) \<longleftrightarrow> \<not> has_prefix raw s3_scheme)"
proof
  show "ParseS3URL raw = Some (b, k) \<longleftrightarrow>
      raw = s3_String b k \<and> b \<noteq> [] \<and> CHR ''/'' \<notin> set b \<and> k \<noteq> [] \<and> \<not> has_prefix k ''/''"
    by (auto simp: ParseS3URL_Some cut_prefix_conv cut_byte_iff s3_String_def)
  show "catalogueSource client raw = Inr (FromFile raw) \<longleftrightarrow> \<not> has_prefix raw s3_scheme"
  proof (cases "cut_prefix raw s3_scheme")
    case None
    moreover from this have "\<not> has_prefix raw s3_scheme" by (metis cut_prefix_None)
    ultimately show ?thesis by (simp add: catalogueSource_def ParseS3URL_def)
  next
    case (Some rest)
    then have "has_prefix raw s3_scheme" by (metis cut_prefix_None option.distinct(1))
    then show ?thesis by (auto simp: catalogueSource_def split: option.splits prod.splits)
  qed
qed

lemma S3_Read_ceiling:
  "S3_Read b k (GetBody full) = (if int (length full) > MaxBytes
     then Inl (Wrapped (s3_String b k @ '' is larger than the catalogue ceiling'') [Sentinel STooLarge])
     else Inr full)"
  by (auto simp: S3_Read_def Let_def MaxBytes_def min_def)

section \<open>What a store serves\<close>

definition loaded_by :: "('d, 'p) cat_lib \<Rightarrow> 'p catalogue \<Rightarrow> bool" where
  "loaded_by L c \<longleftrightarrow> (\<exists>body now. Load L body now = Inr (c\<lparr>ct_HeapBytes := 0\<rparr>))"

definition fits :: "int \<Rightarrow> 'p catalogue \<Rightarrow> bool" where
  "fits m c \<longleftrightarrow> (m > 0 \<longrightarrow> int (length (ct_Defs c)) \<le> m)"

definition store_ok :: "('d, 'p) cat_lib \<Rightarrow> 'p store \<Rightarrow> bool" where
  "store_ok L s \<longleftrightarrow>
     (\<forall>g \<in> set_option (so_current s) \<union> set (so_retired s).
        loaded_by L (snd g) \<and> fits (so_maxTools s) (snd g) \<and> fst g < so_alloc s) \<and>
     length (so_retired s) \<le> nat (so_keepDepth s) \<and>
     distinct (map fst (so_retired s)) \<and>
     (\<forall>g. so_current s = Some g \<longrightarrow> fst g \<notin> fst ` set (so_retired s))"

lemma Load_heap: "Load L body now = Inr c \<Longrightarrow> c\<lparr>ct_HeapBytes := 0\<rparr> = c"
  by (auto simp: Load_def Let_def split: if_split_asm sum.split_asm option.split_asm prod.split_asm)

lemma measured_sel [simp]:
  "ct_Digest (measured a b c) = ct_Digest c" "ct_Defs (measured a b c) = ct_Defs c"
  "ct_LoadedAt (measured a b c) = ct_LoadedAt c" "ct_Compartments (measured a b c) = ct_Compartments c"
  "(measured a b c)\<lparr>ct_HeapBytes := 0\<rparr> = c\<lparr>ct_HeapBytes := 0\<rparr>"
  by (simp_all add: measured_def)

lemma sweep_sel [simp]:
  "so_current (sweepLocked now s) = so_current s" "so_keepDepth (sweepLocked now s) = so_keepDepth s"
  "so_maxTools (sweepLocked now s) = so_maxTools s" "so_alloc (sweepLocked now s) = so_alloc s"
  "so_ttl (sweepLocked now s) = so_ttl s"
  "so_retired (sweepLocked now s) =
     filter (\<lambda>g. ct_LoadedAt (snd g) > now - so_ttl s) (take (nat (so_keepDepth s)) (so_retired s))"
  by (simp_all add: sweepLocked_def Let_def)

lemma swap_in_sel:
  assumes "swap_in now c s = (g, s')"
  shows "g = (so_alloc s, c)" "so_current s' = Some g" "so_alloc s' = Suc (so_alloc s)"
    "so_keepDepth s' = so_keepDepth s" "so_maxTools s' = so_maxTools s" "so_ttl s' = so_ttl s"
    "so_retired s' = filter (\<lambda>g. ct_LoadedAt (snd g) > now - so_ttl s) (take (nat (so_keepDepth s))
       (if so_keepDepth s > 0 then (case so_current s of None \<Rightarrow> [] | Some p \<Rightarrow> [p]) @ so_retired s
        else so_retired s))"
  using assms by (auto simp: swap_in_def Let_def take_Cons' split: option.splits)

text \<open>What one reload does: it fails and changes nothing, it finds what it serves, or it swaps.\<close>

lemma store_Reload_cases:
  obtains (failed) e where "store_Reload L rd s = (Inl e, s)"
  | (same) body c prev where "rd_Read rd = Inr body" "Load L body (rd_Load rd) = Inr c"
      "so_current s = Some prev" "ct_Digest (snd prev) = ct_Digest c"
      "store_Reload L rd s = (Inr prev, s)"
  | (swapped) body c g s' where "rd_Read rd = Inr body" "Load L body (rd_Load rd) = Inr c"
      "fits (so_maxTools s) c" "\<forall>prev. so_current s = Some prev \<longrightarrow> ct_Digest (snd prev) \<noteq> ct_Digest c"
      "swap_in (rd_Sweep rd) (measured (rd_Before rd) (rd_After rd) c) s = (g, s')"
      "store_Reload L rd s = (Inr g, s')"
proof (cases "rd_Read rd")
  case (Inl e)
  then show ?thesis by (intro failed) (simp add: store_Reload_def)
next
  case r: (Inr body)
  show ?thesis
  proof (cases "Load L body (rd_Load rd)")
    case (Inl e)
    then show ?thesis by (intro failed) (simp add: store_Reload_def r)
  next
    case l: (Inr c)
    obtain g s' where g: "swap_in (rd_Sweep rd) (measured (rd_Before rd) (rd_After rd) c) s = (g, s')"
      by (metis surj_pair)
    show ?thesis
    proof (cases "fits (so_maxTools s) c")
      case False
      then show ?thesis by (intro failed) (simp add: store_Reload_def r l fits_def)
    next
      case fit: True
      then have f: "\<not> (so_maxTools s > 0 \<and> int (length (ct_Defs c)) > so_maxTools s)"
        by (auto simp: fits_def)
      show ?thesis
      proof (cases "\<exists>prev. so_current s = Some prev \<and> ct_Digest (snd prev) = ct_Digest c")
        case True
        then obtain prev where "so_current s = Some prev" "ct_Digest (snd prev) = ct_Digest c" by blast
        with r l f show ?thesis by (intro same[OF r l]) (simp_all add: store_Reload_def Let_def)
      next
        case False
        then show ?thesis using r l f g fit
          by (intro swapped[OF r l fit _ g]) (auto simp: store_Reload_def Let_def split: option.splits)
      qed
    qed
  qed
qed

text \<open>A store as its operations leave it.\<close>

inductive store_reach :: "('d, 'p) cat_lib \<Rightarrow> 'p store \<Rightarrow> bool" for L where
  new: "store_reach L (NewStore keepDepth ttl maxTools)"
| reload: "store_reach L s \<Longrightarrow> store_reach L (snd (store_Reload L rd s))"
| sweep: "store_reach L s \<Longrightarrow> store_reach L (Sweep now s)"
| generations: "store_reach L s \<Longrightarrow> store_reach L (snd (Generations now s))"

lemma loaded_by_measured: "Load L body now = Inr c \<Longrightarrow> loaded_by L (measured a b c)"
  unfolding loaded_by_def using Load_heap by fastforce

lemma fits_measured [simp]: "fits m (measured a b c) = fits m c"
  by (simp add: fits_def)

lemma sweep_ok: "store_ok L s \<Longrightarrow> store_ok L (sweepLocked now s)"
proof -
  assume ok: "store_ok L s"
  let ?r = "filter (\<lambda>g. ct_LoadedAt (snd g) > now - so_ttl s) (take (nat (so_keepDepth s)) (so_retired s))"
  have sub: "set ?r \<subseteq> set (so_retired s)" by (auto dest: in_set_takeD)
  have "length ?r \<le> nat (so_keepDepth s)"
    by (rule order_trans[OF length_filter_le]) simp
  moreover have "distinct (map fst ?r)"
    using ok unfolding store_ok_def by (simp add: distinct_map_filter take_map[symmetric] distinct_take)
  ultimately show ?thesis using ok sub unfolding store_ok_def sweep_sel by blast
qed

lemma swap_ok:
  assumes "store_ok L s" "loaded_by L c" "fits (so_maxTools s) c" "swap_in now c s = (g, s')"
  shows "store_ok L s'"
proof -
  define s1 where "s1 = s\<lparr>so_current := Some (so_alloc s, c), so_alloc := Suc (so_alloc s)\<rparr>"
  have new: "so_alloc s \<notin> fst ` set (so_retired s)" "\<And>p. so_current s = Some p \<Longrightarrow> fst p < so_alloc s"
    using assms(1) unfolding store_ok_def by (auto simp: image_iff) (metis Un_iff less_irrefl fst_conv)
  show ?thesis
  proof (cases "so_current s")
    case None
    have "store_ok L s1" using assms(1-3) new None
      unfolding store_ok_def s1_def by (auto intro: less_SucI)
    then have "store_ok L (sweepLocked now s1)" by (rule sweep_ok)
    then show ?thesis using assms(4) by (auto simp: swap_in_def Let_def None s1_def)
  next
    case (Some p)
    show ?thesis
    proof (cases "so_keepDepth s > 0")
      case True
      text \<open>The pushed list may be one too long; the sweep cuts it.\<close>
      have r: "so_retired s' = filter (\<lambda>g. ct_LoadedAt (snd g) > now - so_ttl s)
          (take (nat (so_keepDepth s)) (p # so_retired s))"
        using swap_in_sel(7)[OF assms(4)] True Some by simp
      have sub: "set (so_retired s') \<subseteq> insert p (set (so_retired s))"
        unfolding r by (auto dest!: in_set_takeD)
      have len: "length (so_retired s') \<le> nat (so_keepDepth s)"
        unfolding r by (rule order_trans[OF length_filter_le]) simp
      have "distinct (map fst (p # so_retired s))" using assms(1) Some unfolding store_ok_def by simp
      then have dist: "distinct (map fst (so_retired s'))"
        unfolding r by (intro distinct_map_filter) (simp only: take_map[symmetric] distinct_take)
      have old: "\<And>q. q \<in> insert p (set (so_retired s)) \<Longrightarrow>
          loaded_by L (snd q) \<and> fits (so_maxTools s) (snd q) \<and> fst q < so_alloc s"
        using assms(1) Some unfolding store_ok_def by auto
      show ?thesis
        unfolding store_ok_def swap_in_sel(1-5)[OF assms(4)]
        using assms(2,3) sub len dist old by (fastforce simp: less_Suc_eq)
    next
      case False
      have "store_ok L s1" using assms(1-3) new Some
        unfolding store_ok_def s1_def by (auto intro: less_SucI)
      then have "store_ok L (sweepLocked now s1)" by (rule sweep_ok)
      then show ?thesis using assms(4) False by (auto simp: swap_in_def Let_def Some s1_def)
    qed
  qed
qed

lemma reload_ok: "store_ok L s \<Longrightarrow> store_ok L (snd (store_Reload L rd s))"
  by (cases rule: store_Reload_cases[of L rd s])
     (auto intro: swap_ok[OF _ loaded_by_measured])

lemma store_reach_ok: "store_reach L s \<Longrightarrow> store_ok L s"
proof (induction rule: store_reach.induct)
  case (new keepDepth ttl maxTools)
  then show ?case by (simp add: store_ok_def NewStore_def Let_def)
qed (auto simp: Sweep_def Generations_def Let_def intro: sweep_ok reload_ok)

text \<open>
  A bad catalogue never becomes current, and the history is bounded. Whatever reloads, sweeps and
  listings a store has been through, everything it serves or still holds came out of a load that
  succeeded, within the tool budget; it holds no more than the configured number of superseded
  generations, no generation twice, and never the current one among them.
\<close>

theorem store_serves_loaded:
  assumes "store_reach L s"
  shows "(\<forall>g \<in> set_option (so_current s) \<union> set (so_retired s).
            loaded_by L (snd g) \<and> fits (so_maxTools s) (snd g)) \<and>
         length (so_retired s) \<le> nat (so_keepDepth s) \<and> distinct (map fst (so_retired s)) \<and>
         (\<forall>g. so_current s = Some g \<longrightarrow> fst g \<notin> fst ` set (so_retired s))"
  using store_reach_ok[OF assms] by (simp add: store_ok_def)

text \<open>
  A reload swaps or leaves everything as it was. If anything fails (the read, the load, the tool
  budget) the store is unchanged; if the artifact is the one served, the generation served is kept,
  not rebuilt; otherwise the new generation is current, holding the declarations loaded from the very
  bytes read, and the old one is first in the history unless none is kept or it has aged out.
\<close>

theorem store_reload_exact:
  assumes "store_Reload L rd s = (r, s')"
  shows "(\<forall>e. r = Inl e \<longrightarrow> s' = s) \<and>
     (\<forall>g. r = Inr g \<longrightarrow>
        so_current s' = Some g \<and>
        (\<exists>body c. rd_Read rd = Inr body \<and> Load L body (rd_Load rd) = Inr c \<and>
           ct_Digest (snd g) = ct_Digest c \<and>
           (if \<exists>p. so_current s = Some p \<and> ct_Digest (snd p) = ct_Digest c then s' = s
            else g = (so_alloc s, measured (rd_Before rd) (rd_After rd) c) \<and> fits (so_maxTools s) c \<and>
              (\<forall>p. so_current s = Some p \<and> so_keepDepth s > 0 \<and>
                 ct_LoadedAt (snd p) > rd_Sweep rd - so_ttl s \<longrightarrow> hd (so_retired s') = p))))"
proof (cases rule: store_Reload_cases[of L rd s])
  case (failed e)
  then show ?thesis using assms by auto
next
  case (same body c prev)
  then show ?thesis using assms by auto
next
  case (swapped body c g s1)
  have rs: "r = Inr g" "s' = s1" using assms swapped(6) by simp_all
  have no: "\<not> (\<exists>p. so_current s = Some p \<and> ct_Digest (snd p) = ct_Digest c)" using swapped(4) by blast
  have head: "hd (so_retired s') = p" if "so_current s = Some p" "so_keepDepth s > 0"
      "ct_LoadedAt (snd p) > rd_Sweep rd - so_ttl s" for p
    using swap_in_sel(7)[OF swapped(5)] that by (simp add: rs take_Cons')
  show ?thesis
    using swap_in_sel(1,2)[OF swapped(5)] swapped(1-3) no head by (auto simp: rs)
qed

text \<open>
  The age bound on the history counts from the load, not from the moment a generation was
  superseded. A generation that served longer than the bound is dropped by the very reload that
  supersedes it, so there is nothing to roll back to, although it has been superseded for no time.
\<close>

theorem long_served_not_retained:
  assumes "so_current s = Some prev" "store_Reload L rd s = (Inr g, s')" "g \<noteq> prev"
    and "ct_LoadedAt (snd prev) \<le> rd_Sweep rd - so_ttl s"
    and "prev \<notin> set (so_retired s)"
  shows "so_current s' = Some g \<and> prev \<notin> set (fst (Generations (rd_Sweep rd) s'))"
proof (cases rule: store_Reload_cases[of L rd s])
  case (swapped body c g' s1)
  have e: "g' = g" "s1 = s'" using assms(2) swapped(6) by simp_all
  note sel = swap_in_sel[OF swapped(5)[unfolded e]]
  have "prev \<notin> set (so_retired s')"
    unfolding sel(7) using assms(1,4) by auto
  then have "prev \<notin> set (so_retired (sweepLocked (rd_Sweep rd) s'))" by (auto dest: in_set_takeD)
  then show ?thesis using sel(2) assms(3) by (auto simp: Generations_def Let_def)
qed (use assms in auto)

section \<open>Witnesses\<close>

definition toy_reading :: "string \<Rightarrow> int \<Rightarrow> reading" where
  "toy_reading body now = \<lparr>rd_Read = Inr body, rd_Before = 10, rd_After = 30, rd_Load = now, rd_Sweep = now\<rparr>"

definition toy_store :: "unit store" where
  "toy_store = snd (store_Reload toy_catlib (toy_reading ''artifact'' 0) (NewStore 0 0 0))"

definition later_store :: "int \<Rightarrow> unit store" where
  "later_store now = snd (store_Reload toy_catlib (toy_reading ''other'' now) toy_store)"

text \<open>The addresses and digests a store holds: the current one, and the history.\<close>

definition holds_gens :: "'p store \<Rightarrow> (nat \<times> string) list \<times> (nat \<times> string) list" where
  "holds_gens s = (let k = map (\<lambda>g. (fst g, ct_Digest (snd g)))
     in (k (case so_current s of None \<Rightarrow> [] | Some g \<Rightarrow> [g]), k (so_retired s)))"

lemma toy_store_gens:
  "holds_gens toy_store = ([(0, ''sha256:08'')], [])"
  "holds_gens (later_store 1000) = ([(1, ''sha256:05'')], [(0, ''sha256:08'')])"
  "holds_gens (later_store 1000000000000) = ([(1, ''sha256:05'')], [])"
  by code_simp+

lemma store_serves_loaded_witness: "length (so_retired (later_store 1000)) \<le> 1"
proof -
  have "store_reach toy_catlib (later_store 1000)"
    unfolding later_store_def toy_store_def by (intro store_reach.intros)
  moreover have "so_keepDepth (later_store 1000) = 1" by code_simp
  ultimately show ?thesis using store_serves_loaded by fastforce
qed

lemma store_reload_exact_witness:
  "fst (store_Reload toy_catlib (toy_reading ''bad'' 5) toy_store) \<noteq> Inr (0, snd (the (so_current toy_store)))
   \<and> snd (store_Reload toy_catlib (toy_reading ''bad'' 5) toy_store) = toy_store"
proof -
  have "case fst (store_Reload toy_catlib (toy_reading ''bad'' 5) toy_store) of Inl _ \<Rightarrow> True | Inr _ \<Rightarrow> False"
    by code_simp
  then obtain e where "fst (store_Reload toy_catlib (toy_reading ''bad'' 5) toy_store) = Inl e"
    by (auto split: sum.splits)
  then show ?thesis
    using store_reload_exact[of toy_catlib "toy_reading ''bad'' 5" toy_store] by (metis Inl_Inr_False prod.collapse)
qed

lemma toy_store_current:
  obtains c where "so_current toy_store = Some (0, c)" "ct_Digest c = ''sha256:08''" "ct_LoadedAt c = 0"
    "so_retired toy_store = []" "so_ttl toy_store = five_minutes"
proof -
  have "case so_current toy_store of None \<Rightarrow> False
        | Some g \<Rightarrow> fst g = 0 \<and> ct_Digest (snd g) = ''sha256:08'' \<and> ct_LoadedAt (snd g) = 0"
    by code_simp
  moreover have "length (so_retired toy_store) = 0" by code_simp
  moreover have "so_ttl toy_store = five_minutes" by code_simp
  ultimately show ?thesis using that by (cases "so_current toy_store") auto
qed

lemma long_served_not_retained_witness:
  "the (so_current toy_store) \<notin> set (fst (Generations 1000000000000 (later_store 1000000000000)))"
proof -
  obtain c where c: "so_current toy_store = Some (0, c)" "ct_LoadedAt c = 0" "so_retired toy_store = []"
      "so_ttl toy_store = five_minutes"
    by (rule toy_store_current)
  have "case store_Reload toy_catlib (toy_reading ''other'' 1000000000000) toy_store of
          (Inl _, _) \<Rightarrow> False | (Inr g, _) \<Rightarrow> fst g = 1"
    by code_simp
  then obtain g s' where g: "store_Reload toy_catlib (toy_reading ''other'' 1000000000000) toy_store = (Inr g, s')"
      "fst g = 1"
    by (auto split: prod.splits sum.splits)
  have "g \<noteq> (0, c)" using g(2) by auto
  moreover have "rd_Sweep (toy_reading ''other'' 1000000000000) = 1000000000000" by (simp add: toy_reading_def)
  ultimately show ?thesis
    using long_served_not_retained[OF c(1) g(1)] c
    by (simp add: later_store_def g(1) five_minutes_def second_ns_def)
qed

end
