(* ===== verification/GrantConfig.thy ===== *)
theory GrantConfig
  imports Grants Store
begin

text \<open>
  The root package's \<open>grants.go\<close> and \<open>issuers.go\<close>: whether this deployment verifies approvals, with
  which key set and for which audience, how long the record of a spent one must last, what a reload
  may raise, and which key set signs for which issuer. Whether there is a connection and what the
  broker answers to opening the bucket are arguments.
\<close>

section \<open>Configuration\<close>

record config =
  cf_Catalogue :: string
  cf_CataloguePoll :: int
  cf_NATS :: string
  cf_Listen :: string
  cf_MaxTools :: int
  cf_JWKSURLs :: "string list"
  cf_Issuers :: "string list"
  cf_Audience :: string
  cf_HashKeyFile :: string
  cf_GrantIssuer :: string
  cf_GrantJWKS :: string
  cf_GrantAudience :: string
  cf_Audit :: bool
  cf_AuditRetention :: int
  cf_LedgerStream :: bool

datatype grant_cfg_err =
    FlagsWithoutIssuer "string list" | AmbiguousKeySet nat | NoGrantKeySet | NoGrantAudience
  | NoCeiling string | NoConnection | CacheErr go_err | ForgetsTooSoon int int

definition grantJWKS :: "config \<Rightarrow> string" where
  "grantJWKS cfg =
     (if cf_GrantJWKS cfg \<noteq> [] then cf_GrantJWKS cfg
      else if length (cf_JWKSURLs cfg) = 1 then hd (cf_JWKSURLs cfg)
      else [])"

definition grantAudience :: "config \<Rightarrow> string" where
  "grantAudience cfg = (if cf_GrantAudience cfg \<noteq> [] then cf_GrantAudience cfg else cf_Audience cfg)"

definition flags_given :: "config \<Rightarrow> string list" where
  "flags_given cfg =
     (if cf_GrantJWKS cfg \<noteq> [] then [''--grant-jwks''] else []) @
     (if cf_GrantAudience cfg \<noteq> [] then [''--grant-audience''] else [])"

definition checkGrantFlags :: "config \<Rightarrow> grant_cfg_err option" where
  "checkGrantFlags cfg =
     (if cf_GrantIssuer cfg = [] then
        (if flags_given cfg \<noteq> [] then Some (FlagsWithoutIssuer (flags_given cfg)) else None)
      else if cf_GrantJWKS cfg = [] \<and> length (cf_JWKSURLs cfg) > 1
        then Some (AmbiguousKeySet (length (cf_JWKSURLs cfg)))
      else if grantJWKS cfg = [] then Some NoGrantKeySet
      else if grantAudience cfg = [] then Some NoGrantAudience
      else None)"

section \<open>Ceilings\<close>

definition gated :: "tooldef \<Rightarrow> bool" where "gated d = (t_ApprovalMode d = MODE_GRANT)"

fun no_ceiling :: "tooldef list \<Rightarrow> grant_cfg_err option" where
  "no_ceiling [] = None"
| "no_ceiling (d # ds) = (if gated d \<and> t_MaxGrantAge d \<le> 0 then Some (NoCeiling (t_FQN d)) else no_ceiling ds)"

definition checkGrantCeilings :: "'p catalogue option \<Rightarrow> grant_cfg_err option" where
  "checkGrantCeilings cat = (case cat of None \<Rightarrow> None | Some c \<Rightarrow> no_ceiling (ct_Defs c))"

fun longest_from :: "int \<Rightarrow> tooldef list \<Rightarrow> int" where
  "longest_from m [] = m"
| "longest_from m (d # ds) =
     longest_from (if gated d \<and> t_MaxGrantAge d > m then t_MaxGrantAge d else m) ds"

definition longestGrantAge :: "'p catalogue option \<Rightarrow> int" where
  "longestGrantAge cat = (case cat of None \<Rightarrow> 0 | Some c \<Rightarrow> longest_from 0 (ct_Defs c))"

definition bucketFloorTTL :: int where "bucketFloorTTL = 3600 * second_ns"

section \<open>The verifier of a deployment\<close>

text \<open>What startup builds: the verifier, the endpoint of its key set, what the bucket really keeps.\<close>

record grant_setup =
  gu_verifier :: gverifier
  gu_JWKS :: string
  gu_retention :: int

definition retention_err :: "int \<Rightarrow> int \<Rightarrow> grant_cfg_err option" where
  "retention_err retention covers =
     (case CheckRetention (Some retention) covers of
        None \<Rightarrow> None
      | Some (r, longest) \<Rightarrow> Some (ForgetsTooSoon r longest))"

definition grantVerifier ::
  "bool \<Rightarrow> 'p catalogue option \<Rightarrow> config \<Rightarrow> go_err option \<Rightarrow> bucket_open \<Rightarrow> grant_cfg_err + grant_setup option" where
  "grantVerifier connected cat cfg js opened =
     (case checkGrantFlags cfg of
        Some e \<Rightarrow> Inl e
      | None \<Rightarrow>
     if cf_GrantIssuer cfg = [] then Inr None
     else (case checkGrantCeilings cat of
        Some e \<Rightarrow> Inl e
      | None \<Rightarrow>
     if \<not> connected then Inl NoConnection
     else
       (let longest = longestGrantAge cat;
            covers = (if longest > 0 then wrap64 (longest + DefaultSkew) else 0);
            ttl = (if covers \<le> 0 then bucketFloorTTL else covers)
        in case NewJetStream ttl js opened of
             Inl e \<Rightarrow> Inl (CacheErr e)
           | Inr retention \<Rightarrow>
               (case retention_err retention covers of
                  Some e \<Rightarrow> Inl e
                | None \<Rightarrow>
                    Inr (Some \<lparr>gu_verifier = \<lparr>gf_Keys = True, gf_Issuers = [cf_GrantIssuer cfg],
                            gf_Audience = grantAudience cfg, gf_Spent = True, gf_Skew = DefaultSkew\<rparr>,
                          gu_JWKS = grantJWKS cfg, gu_retention = retention\<rparr>)))))"

definition reloadGuard :: "int \<Rightarrow> 'p catalogue option \<Rightarrow> grant_cfg_err option" where
  "reloadGuard retention cat =
     (case checkGrantCeilings cat of
        Some e \<Rightarrow> Some e
      | None \<Rightarrow>
          (let longest = longestGrantAge cat in
           if longest \<le> 0 then None else retention_err retention (wrap64 (longest + DefaultSkew))))"

section \<open>Issuers and key sets\<close>

datatype issuers_err = IssuersMissing | IssuersUnpaired nat nat | IssuerTwice string

text \<open>The key set built for the pair at position \<open>i\<close> is the \<open>i\<close>-th one.\<close>

fun pair_issuers :: "nat \<Rightarrow> string list \<Rightarrow> string list \<Rightarrow> string list \<Rightarrow> issuers_err + trusted_issuer list" where
  "pair_issuers i seen (iss # issuers) (url # jwks) =
     (if contains_string seen iss then Inl (IssuerTwice iss)
      else ebind (pair_issuers (Suc i) (iss # seen) issuers jwks) (\<lambda>ts.
             Inr (\<lparr>tr_Issuer = iss, tr_KeySet = Some i, tr_JWKS = url\<rparr> # ts)))"
| "pair_issuers i seen _ _ = Inr []"

definition trustedIssuers :: "string list \<Rightarrow> string list \<Rightarrow> issuers_err + trusted_issuer list" where
  "trustedIssuers issuers jwks =
     (if issuers = [] \<or> jwks = [] then Inl IssuersMissing
      else if length issuers \<noteq> length jwks then Inl (IssuersUnpaired (length issuers) (length jwks))
      else pair_issuers 0 [] issuers jwks)"

section \<open>Ceilings, exactly\<close>

lemma no_ceiling_None: "no_ceiling ds = None \<longleftrightarrow> (\<forall>d \<in> set ds. gated d \<longrightarrow> 0 < t_MaxGrantAge d)"
  by (induction ds) auto

lemma longest_from_ge: "m \<le> longest_from m ds"
proof (induction ds arbitrary: m)
  case (Cons d ds)
  have "m \<le> (if gated d \<and> t_MaxGrantAge d > m then t_MaxGrantAge d else m)" by simp
  then show ?case using Cons order_trans by (metis longest_from.simps(2))
qed simp

lemma longest_from_bounds: "d \<in> set ds \<Longrightarrow> gated d \<Longrightarrow> t_MaxGrantAge d \<le> longest_from m ds"
proof (induction ds arbitrary: m)
  case (Cons e ds)
  show ?case
  proof (cases "d = e")
    case True
    have "t_MaxGrantAge d \<le> (if gated e \<and> t_MaxGrantAge e > m then t_MaxGrantAge e else m)"
      using Cons.prems(2) True by simp
    then show ?thesis using longest_from_ge order_trans by (metis longest_from.simps(2))
  next
    case False
    then show ?thesis using Cons by simp
  qed
qed simp

lemma longest_from_le:
  "(\<And>d. d \<in> set ds \<Longrightarrow> t_MaxGrantAge d \<le> b) \<Longrightarrow> m \<le> b \<Longrightarrow> longest_from m ds \<le> b"
  by (induction ds arbitrary: m) auto

text \<open>No artifact declares an approval age a 64-bit duration cannot hold.\<close>

definition max_age :: int where "max_age = (2 ^ 32 - 1) * second_ns"

lemma loaded_age:
  assumes "loaded_by L c" "d \<in> set (ct_Defs c)"
  shows "t_MaxGrantAge d \<le> max_age"
proof -
  obtain body now where l: "Load L body now = Inr (c\<lparr>ct_HeapBytes := 0\<rparr>)"
    using assms(1) by (auto simp: loaded_by_def)
  obtain aud f svc m p where "bare_def d = defFor L aud f svc m p"
    by (rule Load_def_of[OF l]) (use assms(2) in simp_all)
  then have "t_MaxGrantAge d = t_MaxGrantAge (defFor L aud f svc m p)" by (metis bare_sel(4))
  then have "t_MaxGrantAge d = uint (tp_MaxGrantAgeSeconds p) * second_ns" by (simp add: grant_age_exact)
  moreover have "uint (tp_MaxGrantAgeSeconds p) \<le> 2 ^ 32 - 1"
    using uint_lt2p[of "tp_MaxGrantAgeSeconds p"] by simp
  ultimately show ?thesis by (simp add: max_age_def second_ns_def)
qed

lemma covers_exact:
  assumes "loaded_by L c" "0 < longestGrantAge (Some c)"
  shows "wrap64 (longestGrantAge (Some c) + DefaultSkew) = longestGrantAge (Some c) + DefaultSkew"
proof -
  have "longestGrantAge (Some c) \<le> max_age"
    unfolding longestGrantAge_def option.case
    by (rule longest_from_le) (rule loaded_age[OF assms(1)], assumption, simp add: max_age_def second_ns_def)
  then show ?thesis using assms(2)
    by (simp add: wrap64_def DefaultSkew_def max_age_def second_ns_def)
qed

text \<open>Every approval a catalogue can ask for is outlived by the record of its being spent.\<close>

definition outlived :: "int \<Rightarrow> 'p catalogue \<Rightarrow> bool" where
  "outlived retention c \<longleftrightarrow>
     (\<forall>d \<in> set (ct_Defs c). gated d \<longrightarrow>
        0 < t_MaxGrantAge d \<and> t_MaxGrantAge d + DefaultSkew \<le> retention)"

lemma guard_outlived:
  assumes "loaded_by L c" "0 < retention" "checkGrantCeilings (Some c) = None"
    and "0 < longestGrantAge (Some c) \<Longrightarrow>
       retention_err retention (wrap64 (longestGrantAge (Some c) + DefaultSkew)) = None"
  shows "outlived retention c"
  unfolding outlived_def
proof (intro ballI impI)
  fix d assume d: "d \<in> set (ct_Defs c)" "gated d"
  have pos: "0 < t_MaxGrantAge d" using assms(3) d by (simp add: checkGrantCeilings_def no_ceiling_None)
  have le: "t_MaxGrantAge d \<le> longestGrantAge (Some c)"
    using longest_from_bounds[OF d] by (simp add: longestGrantAge_def)
  then have "retention_err retention (longestGrantAge (Some c) + DefaultSkew) = None"
    using assms(4) covers_exact[OF assms(1)] pos by simp
  then have "longestGrantAge (Some c) + DefaultSkew \<le> retention" using pos le assms(2)
    by (auto simp: retention_err_def CheckRetention_def DefaultSkew_def split: if_splits)
  then show "0 < t_MaxGrantAge d \<and> t_MaxGrantAge d + DefaultSkew \<le> retention" using pos le by linarith
qed

lemma NewJetStream_pos: "NewJetStream ttl js opened = Inr r \<Longrightarrow> 0 < r"
  by (auto simp: NewJetStream_def split: if_splits option.splits bucket_open.splits)

lemma grantVerifier_Some:
  assumes "grantVerifier conn (Some c) cfg js opened = Inr (Some u)" "loaded_by L c"
  shows "checkGrantFlags cfg = None" "cf_GrantIssuer cfg \<noteq> []" "gu_JWKS u = grantJWKS cfg"
    "gu_verifier u = \<lparr>gf_Keys = True, gf_Issuers = [cf_GrantIssuer cfg],
       gf_Audience = grantAudience cfg, gf_Spent = True, gf_Skew = DefaultSkew\<rparr>"
    "0 < gu_retention u" "outlived (gu_retention u) c"
proof -
  let ?l = "longestGrantAge (Some c)"
  let ?c = "if ?l > 0 then wrap64 (?l + DefaultSkew) else 0"
  obtain r where r: "checkGrantFlags cfg = None" "cf_GrantIssuer cfg \<noteq> []"
      "checkGrantCeilings (Some c) = None" "0 < r" "retention_err r ?c = None" "gu_retention u = r"
      "gu_JWKS u = grantJWKS cfg"
      "gu_verifier u = \<lparr>gf_Keys = True, gf_Issuers = [cf_GrantIssuer cfg],
       gf_Audience = grantAudience cfg, gf_Spent = True, gf_Skew = DefaultSkew\<rparr>"
    using assms(1) unfolding grantVerifier_def Let_def
    by (auto dest: NewJetStream_pos split: option.split_asm if_split_asm sum.split_asm)
  then show "checkGrantFlags cfg = None" "cf_GrantIssuer cfg \<noteq> []" "gu_JWKS u = grantJWKS cfg"
    "gu_verifier u = \<lparr>gf_Keys = True, gf_Issuers = [cf_GrantIssuer cfg],
       gf_Audience = grantAudience cfg, gf_Spent = True, gf_Skew = DefaultSkew\<rparr>"
    "0 < gu_retention u" "outlived (gu_retention u) c"
    using guard_outlived[OF assms(2) r(4,3)] by (simp_all split: if_splits)
qed

lemma reloadGuard_outlived:
  "reloadGuard retention (Some c) = None \<Longrightarrow> loaded_by L c \<Longrightarrow> 0 < retention \<Longrightarrow> outlived retention c"
  by (rule guard_outlived) (auto simp: reloadGuard_def Let_def split: option.splits if_splits)

section \<open>The deployment\<close>

lemma key_set_unambiguous:
  assumes "checkGrantFlags cfg = None" "cf_GrantIssuer cfg \<noteq> []"
  shows "grantJWKS cfg \<noteq> [] \<and> grantAudience cfg \<noteq> [] \<and>
     (grantJWKS cfg = cf_GrantJWKS cfg \<or> cf_JWKSURLs cfg = [grantJWKS cfg])"
  using assms by (auto simp: checkGrantFlags_def grantJWKS_def length_Suc_conv split: if_splits)

text \<open>
  Whatever this deployment serves, the record of a spent approval outlasts the approval. When step 5
  is on, the verifier is fully configured, trusts the one issuer named, and checks approvals against a
  key set the operator named or the only one given, never the first of several; and every gated tool,
  of the catalogue it booted with and of any generation a reload admits, has a positive ceiling that,
  with the clock tolerance, fits in what the bucket really keeps.
\<close>

theorem spent_records_outlive_grants:
  assumes "grantVerifier conn (Some c) cfg js opened = Inr (Some u)" "loaded_by L c" "loaded_by L c'"
    and "c' = c \<or> reloadGuard (gu_retention u) (Some c') = None"
  shows "configured (Some (gu_verifier u)) \<and> gf_Issuers (gu_verifier u) = [cf_GrantIssuer cfg] \<and>
     gu_JWKS u \<noteq> [] \<and> (gu_JWKS u = cf_GrantJWKS cfg \<or> cf_JWKSURLs cfg = [gu_JWKS u]) \<and>
     (\<forall>d \<in> set (ct_Defs c'). t_ApprovalMode d = MODE_GRANT \<longrightarrow>
        0 < t_MaxGrantAge d \<and> t_MaxGrantAge d + gf_Skew (gu_verifier u) \<le> gu_retention u)"
proof -
  note u = grantVerifier_Some[OF assms(1,2)]
  have "outlived (gu_retention u) c'"
    using assms(3,4) u(5,6) reloadGuard_outlived by blast
  then show ?thesis using key_set_unambiguous[OF u(1,2)] u(2-4)
    by (simp add: configured_def outlived_def gated_def)
qed

text \<open>
  C8: In a deployment one approval authorises one call. Take a verifier built at startup, a bucket that
  keeps what it says, and any tool of the catalogue booted with or of a generation a reload admitted:
  an identifier that has let a call pass lets no later call pass, at any tool and on any replica,
  while the bucket keeps it and, past that, as long as the approval presented later was issued, by
  its issuer's clock, before the time the spending call had here. (An issuer whose clock is ahead can
  put an approval's last moment past the retention.)
\<close>

theorem deployment_single_use:
  assumes "grantVerifier conn (Some c) cfg js opened = Inr (Some u)" "loaded_by L c" "loaded_by L c'"
    and "c' = c \<or> reloadGuard (gu_retention u) (Some c') = None"
    and "kv_spec (gu_retention u) K" "fresh_window P"
    and "VerifyGrant J P K (Some (gu_verifier u)) net1 ck1 now1 raw1 p1 t1 req1 s1 = (None, s1')"
    and "t_ApprovalMode t1 = MODE_GRANT" "parse_grant J P net1 ck1 (gs_keys s1) raw1 = (Inr c1, k1)"
    and "gs_bucket s2 = spend_all K (gs_bucket s1') ops"
    and "t2 \<in> set (ct_Defs c')" "t_ApprovalMode t2 = MODE_GRANT"
    and "parse_grant J P net2 ck2 (gs_keys s2) raw2 = (Inr c2, k2)"
    and "gr_ID c2 = gr_ID c1" "now1 \<le> now2"
    and "gr_IssuedAt c2 < now1 \<or> now2 < now1 + gu_retention u"
  shows "fst (VerifyGrant J P K (Some (gu_verifier u)) net2 ck2 now2 raw2 p2 t2 req2 s2) \<noteq> None"
proof -
  note u = grantVerifier_Some[OF assms(1,2)]
  have "outlived (gu_retention u) c'" using assms(3,4) u(5,6) reloadGuard_outlived by blast
  then have "0 < t_MaxGrantAge t2" "t_MaxGrantAge t2 + gf_Skew (gu_verifier u) \<le> gu_retention u"
    using assms(11,12) u(4) by (auto simp: outlived_def gated_def)
  then show ?thesis
    using grant_not_reused[OF assms(5-10,12-15)] grant_not_reused_within[OF assms(5,7-10,12-15)] assms(16)
    by fastforce
qed

section \<open>Pairs\<close>

lemma pair_issuers_Inr:
  "pair_issuers i seen issuers jwks = Inr ts \<Longrightarrow> length issuers = length jwks \<Longrightarrow>
     distinct issuers \<and> set issuers \<inter> set seen = {} \<and>
     ts = map (\<lambda>(k, iss, url). \<lparr>tr_Issuer = iss, tr_KeySet = Some k, tr_JWKS = url\<rparr>)
            (zip [i..<i + length issuers] (zip issuers jwks))"
proof (induction i seen issuers jwks arbitrary: ts rule: pair_issuers.induct)
  case (1 i seen iss issuers url jwks)
  obtain ts' where r: "pair_issuers (Suc i) (iss # seen) issuers jwks = Inr ts'" "\<not> contains_string seen iss"
      "ts = \<lparr>tr_Issuer = iss, tr_KeySet = Some i, tr_JWKS = url\<rparr> # ts'"
    using 1(2) by (auto simp: ebind_Inr_iff split: if_splits)
  have n: "[i..<i + length (iss # issuers)] = i # [Suc i..<Suc i + length issuers]"
    by (simp add: upt_conv_Cons del: upt_Suc)
  show ?case using 1(1)[OF r(2) r(1)] 1(3) r(2,3) unfolding n by auto
qed auto

lemma pair_names: "length a = length ks \<Longrightarrow> length a = length b \<Longrightarrow>
  map tr_Issuer (map (\<lambda>(k, iss, url). \<lparr>tr_Issuer = iss, tr_KeySet = Some k, tr_JWKS = url\<rparr>) (zip ks (zip a b))) = a"
  by (induction a arbitrary: ks b) (auto simp: length_Suc_conv Suc_length_conv)

text \<open>
  Each issuer is paired with the key set written beside it. Startup refuses flags that are missing,
  unequal in number or name an issuer twice; otherwise the pair at each position is the issuer and the
  endpoint at that position with a key set of its own, and the token verifier built from the pairs is
  serviceable exactly when no issuer is the empty name.
\<close>

theorem issuers_paired:
  assumes "trustedIssuers issuers jwks = Inr ts"
  shows "length issuers = length jwks \<and> distinct issuers \<and> length ts = length issuers \<and>
     (\<forall>i < length issuers. ts ! i = \<lparr>tr_Issuer = issuers ! i, tr_KeySet = Some i, tr_JWKS = jwks ! i\<rparr>) \<and>
     (checkTrusted ts = None \<longleftrightarrow> [] \<notin> set issuers)"
proof -
  have len: "length issuers = length jwks" and pairs: "pair_issuers 0 [] issuers jwks = Inr ts"
    using assms by (auto simp: trustedIssuers_def split: if_splits)
  note P = pair_issuers_Inr[OF pairs len]
  have each: "\<forall>i < length issuers. ts ! i = \<lparr>tr_Issuer = issuers ! i, tr_KeySet = Some i, tr_JWKS = jwks ! i\<rparr>"
    using P len by simp
  have names: "map tr_Issuer ts = issuers" using P len pair_names[of issuers "[0..<length issuers]" jwks] by simp
  have "\<forall>t \<in> set ts. tr_KeySet t \<noteq> None" using P by auto
  then have "checkTrusted_from seen ts = None \<longleftrightarrow>
      [] \<notin> set (map tr_Issuer ts) \<and> distinct (map tr_Issuer ts) \<and> set (map tr_Issuer ts) \<inter> set seen = {}" for seen
    by (induction ts arbitrary: seen) auto
  from this[of "[]"] have "checkTrusted ts = None \<longleftrightarrow> [] \<notin> set issuers"
    using conjunct1[OF P] unfolding checkTrusted_def names by simp
  moreover have "length ts = length issuers" by (metis names length_map)
  ultimately show ?thesis using P len each by blast
qed

section \<open>Witnesses\<close>

definition toy_deployment :: config where
  "toy_deployment = \<lparr>cf_Catalogue = ''s3://b/k'', cf_CataloguePoll = 30 * second_ns, cf_NATS = ''n'',
     cf_Listen = '':8080'', cf_MaxTools = 0, cf_JWKSURLs = [''u''], cf_Issuers = [''https://idp''],
     cf_Audience = ''garmd'', cf_HashKeyFile = ''k'', cf_GrantIssuer = ''https://sts'', cf_GrantJWKS = [],
     cf_GrantAudience = [], cf_Audit = True, cf_AuditRetention = 0, cf_LedgerStream = True\<rparr>"

definition toy_setup :: grant_setup where
  "toy_setup = \<lparr>gu_verifier = \<lparr>gf_Keys = True, gf_Issuers = [''https://sts''], gf_Audience = ''garmd'',
      gf_Spent = True, gf_Skew = DefaultSkew\<rparr>, gu_JWKS = ''u'', gu_retention = 960 * second_ns\<rparr>"

lemma toy_catalogue:
  obtains c d where "Load toy_catlib ''artifact'' 7 = Inr c" "loaded_by toy_catlib c" "d \<in> set (ct_Defs c)"
    "t_ApprovalMode d = MODE_GRANT" "t_MaxGrantAge d = 900 * second_ns" "t_MaterialFields d = []"
    "grantVerifier True (Some c) toy_deployment None (Opened None) = Inr (Some toy_setup)"
proof -
  have e: "case Load toy_catlib ''artifact'' 7 of Inl _ \<Rightarrow> False
     | Inr c \<Rightarrow> list_ex (\<lambda>d. t_ApprovalMode d = MODE_GRANT \<and> t_MaxGrantAge d = 900 * second_ns \<and>
                    t_MaterialFields d = []) (ct_Defs c) \<and>
         checkGrantCeilings (Some c) = None \<and> longestGrantAge (Some c) = 900 * second_ns"
    by code_simp
  show ?thesis
  proof (cases "Load toy_catlib ''artifact'' 7")
    case (Inr c)
    have l: "loaded_by toy_catlib c" unfolding loaded_by_def using Inr Load_heap[OF Inr] by metis
    have g: "grantVerifier True (Some c) toy_deployment None (Opened None) = Inr (Some toy_setup)"
      using e Inr
      by (simp add: grantVerifier_def checkGrantFlags_def toy_deployment_def grantJWKS_def grantAudience_def
          toy_setup_def NewJetStream_def retention_err_def CheckRetention_def DefaultSkew_def wrap64_def
          second_ns_def)
    show ?thesis using e Inr that[OF Inr l] g by (auto simp: list_ex_iff)
  qed (use e in simp)
qed

lemma spent_records_outlive_grants_witness:
  "gu_JWKS toy_setup \<noteq> [] \<and> 900 * second_ns + gf_Skew (gu_verifier toy_setup) \<le> gu_retention toy_setup"
proof -
  obtain c d where c: "loaded_by toy_catlib c" "d \<in> set (ct_Defs c)" "t_ApprovalMode d = MODE_GRANT"
    "t_MaxGrantAge d = 900 * second_ns"
    "grantVerifier True (Some c) toy_deployment None (Opened None) = Inr (Some toy_setup)"
    by (rule toy_catalogue)
  show ?thesis using spent_records_outlive_grants[OF c(5,1,1)] c(2-4) by auto
qed

lemma toy_setup_pass:
  assumes "t_ApprovalMode t = MODE_GRANT" "t_MaxGrantAge t = 900 * second_ns" "t_MaterialFields t = []"
  shows "VerifyGrant toy_jose toy_pkg (mem_kv (960 * second_ns)) (Some (gu_verifier toy_setup)) (Body ''keys'')
     (toy_clock 500) 1100 ''tok'' (Some sample_principal) t (Some (Msg 0 [])) toy_gstate = (None, toy_spent)"
proof -
  have "Spend (mem_kv (960 * second_ns)) [] 1100 ''j1'' = (None, [(''j1'', 1100)])" by code_simp
  moreover have "p_Subject sample_principal = ''ada''" by code_simp
  then have "checkShape toy_pkg (gu_verifier toy_setup) toy_grant (Some sample_principal) t 1100 = None"
    by (simp add: checkShape_def toy_pkg_def toy_setup_def toy_grant_def check_caller_def unless_def
        assms DefaultSkew_def second_ns_def contains_string_iff)
  ultimately show ?thesis
    by (simp add: VerifyGrant_def verify_grant_def assms configured_def toy_setup_def
        toy_gstate_def toy_spent_def toy_parse checkMaterial_def
        spend_grant_def classify_grant_def toy_grant_def)
qed

lemma deployment_single_use_witness:
  "\<exists>t. t_ApprovalMode t = MODE_GRANT \<and>
     fst (VerifyGrant toy_jose toy_pkg (mem_kv (960 * second_ns)) (Some (gu_verifier toy_setup)) (Body ''keys'')
       (toy_clock 500) 1700 ''tok'' (Some sample_principal) t (Some (Msg 0 [])) toy_spent) \<noteq> None"
proof -
  obtain c d where c: "loaded_by toy_catlib c" "d \<in> set (ct_Defs c)" "t_ApprovalMode d = MODE_GRANT"
    "t_MaxGrantAge d = 900 * second_ns" "t_MaterialFields d = []"
    "grantVerifier True (Some c) toy_deployment None (Opened None) = Inr (Some toy_setup)"
    by (rule toy_catalogue)
  have ret: "gu_retention toy_setup = 960 * second_ns" by (simp add: toy_setup_def)
  have fresh: "fresh_window toy_pkg" by (auto simp: fresh_window_def toy_pkg_def split: if_splits)
  have parse: "parse_grant toy_jose toy_pkg (Body ''keys'') (toy_clock 500) (gs_keys toy_gstate) ''tok'' = (Inr toy_grant, toy_set)"
    "parse_grant toy_jose toy_pkg (Body ''keys'') (toy_clock 500) (gs_keys toy_spent) ''tok'' = (Inr toy_grant, toy_set)"
    by (simp_all add: toy_gstate_def toy_spent_def toy_parse)
  have b: "gs_bucket toy_spent = spend_all (mem_kv (960 * second_ns)) (gs_bucket toy_spent) []" by simp
  have "fst (VerifyGrant toy_jose toy_pkg (mem_kv (960 * second_ns)) (Some (gu_verifier toy_setup)) (Body ''keys'')
       (toy_clock 500) 1700 ''tok'' (Some sample_principal) d (Some (Msg 0 [])) toy_spent) \<noteq> None"
    by (rule deployment_single_use[OF c(6,1,1) disjI1[OF refl] _ fresh toy_setup_pass[OF c(3-5)] c(3) parse(1) b
          c(2,3) parse(2) refl])
       (simp_all add: ret mem_kv_spec toy_grant_def)
  then show ?thesis using c(3) by blast
qed

lemma issuers_paired_witness:
  "checkTrusted [\<lparr>tr_Issuer = ''a'', tr_KeySet = Some 0, tr_JWKS = ''u''\<rparr>,
     \<lparr>tr_Issuer = ''b'', tr_KeySet = Some 1, tr_JWKS = ''w''\<rparr>] = None"
proof -
  have "trustedIssuers [''a'', ''b''] [''u'', ''w''] =
     Inr [\<lparr>tr_Issuer = ''a'', tr_KeySet = Some 0, tr_JWKS = ''u''\<rparr>,
          \<lparr>tr_Issuer = ''b'', tr_KeySet = Some 1, tr_JWKS = ''w''\<rparr>]"
    by (simp add: trustedIssuers_def)
  from issuers_paired[OF this] show ?thesis by simp
qed

end
