(* ===== verification/Plane.thy ===== *)
theory Plane
  imports Store Mount
begin

text \<open>
  \<open>internal/serve/plane.go\<close>: the governance chain built for one catalogue generation, and the cache of
  the latest one. The descriptors of a generation are its own: the chain of a generation runs in the
  environment \<open>gen_env\<close> over that generation's pool. \<open>buildMu\<close> and the atomic pointer are not modelled:
  \<open>planeFor\<close> is one step. The remote side of the hop is the parameter \<open>hd_Invoke\<close>.
\<close>

section \<open>State\<close>

record 'p plane =
  pl_gen :: "'p gen"
  pl_core :: core
  pl_reg :: registry

text \<open>A transport: the reply to a request, unmarshalled into a message of the descriptor given.\<close>

type_synonym invoker = "hist \<Rightarrow> invocation_context \<Rightarrow> string \<Rightarrow> pmsg \<Rightarrow> md option \<Rightarrow> (go_err + pmsg) call"

record 'p handler =
  hd_Invoke :: invoker
  hd_HashKey :: string
  hd_Recorder :: "recorder option"
  hd_Audit :: "audit_sink option"
  hd_FGA :: "fga_checker option"
  hd_Grants :: "grant_verifier option"
  hd_Notifier :: "notifier option"
  hd_plane :: "'p plane option"

definition ListToolsPath :: string where "ListToolsPath = ''/garm.v1.ToolCatalogService/ListTools''"

datatype plane_err =
    ShadowedListing string string | ChainErr string new_err | MountErr string add_err
  | RegisterErr string register_err

section \<open>Building a chain\<close>

definition gen_env :: "env \<Rightarrow> 'p catalogue \<Rightarrow> env" where
  "gen_env E c = E\<lparr>en_Pool := fs_Pool (ct_Files c)\<rparr>"

fun shadowed :: "tooldef list \<Rightarrow> tooldef option" where
  "shadowed [] = None"
| "shadowed (d # ds) = (if t_FullMethod d = ListToolsPath then Some d else shadowed ds)"

definition core_config_of :: "'p handler \<Rightarrow> 'p catalogue \<Rightarrow> core_config" where
  "core_config_of h c =
     \<lparr>cfg_HashKey = hd_HashKey h, cfg_Compartments = ct_Compartments c, cfg_Recorder = hd_Recorder h,
      cfg_Audit = hd_Audit h, cfg_FGA = hd_FGA h, cfg_Grants = hd_Grants h, cfg_Notifier = hd_Notifier h\<rparr>"

definition requestFactory :: "md option \<Rightarrow> pmsg option" where
  "requestFactory d = map_option (\<lambda>i. Msg i []) d"

text \<open>The hop as a resolver: the transport's error reaches the chain as itself.\<close>

definition hop_resolver :: "'p handler \<Rightarrow> tooldef \<Rightarrow> resolver" where
  "hop_resolver h d = (\<lambda>hist ic req.
     case hd_Invoke h hist ic (t_FullMethod d) req (t_Output d) of
       Panics p \<Rightarrow> Panics p
     | Returns (Inl e) \<Rightarrow> Returns (RErr e)
     | Returns (Inr resp) \<Rightarrow> Returns (RMsg resp))"

fun register_all :: "'p handler \<Rightarrow> tooldef list \<Rightarrow> core \<Rightarrow> plane_err + core" where
  "register_all h [] c = Inr c"
| "register_all h (d # ds) c =
     (case Register c (t_FullMethod d) (requestFactory (t_Input d)) (Some (hop_resolver h d)) of
        (Some e, c') \<Rightarrow> Inl (RegisterErr (t_FullMethod d) e)
      | (None, c') \<Rightarrow> register_all h ds c')"

definition newPlane ::
  "env \<Rightarrow> string + (pmsg \<Rightarrow> vresult) \<Rightarrow> 'p handler \<Rightarrow> 'p gen \<Rightarrow> plane_err + 'p plane" where
  "newPlane E v h g =
     (let c = snd g in
      case shadowed (ct_Defs c) of
        Some d \<Rightarrow> Inl (ShadowedListing (ct_Digest c) (t_FQN d))
      | None \<Rightarrow>
     (case NewCore (gen_env E c) v (core_config_of h c) of
        Inl e \<Rightarrow> Inl (ChainErr (ct_Digest c) e)
      | Inr k \<Rightarrow>
     (case AddTools (gen_env E c) k (ct_Defs c) of
        (Some e, k1) \<Rightarrow> Inl (MountErr (ct_Digest c) e)
      | (None, k1) \<Rightarrow>
     (case register_all h (ct_Defs c) k1 of
        Inl e \<Rightarrow> Inl e
      | Inr k2 \<Rightarrow> Inr \<lparr>pl_gen = g, pl_core = k2, pl_reg = c_reg k2\<rparr>))))"

section \<open>The chain of the generation being served\<close>

definition publish :: "'p handler \<Rightarrow> 'p plane \<Rightarrow> 'p handler" where
  "publish h p =
     (case hd_plane h of
        None \<Rightarrow> h\<lparr>hd_plane := Some p\<rparr>
      | Some cur \<Rightarrow>
          if \<not> ct_LoadedAt (snd (pl_gen p)) < ct_LoadedAt (snd (pl_gen cur))
          then h\<lparr>hd_plane := Some p\<rparr> else h)"

definition build_plane ::
  "env \<Rightarrow> string + (pmsg \<Rightarrow> vresult) \<Rightarrow> 'p handler \<Rightarrow> 'p gen \<Rightarrow> (plane_err + 'p plane) \<times> 'p handler" where
  "build_plane E v h g =
     (case newPlane E v h g of
        Inl e \<Rightarrow> (Inl e, h)
      | Inr p \<Rightarrow> (Inr p, publish h p))"

definition planeFor ::
  "env \<Rightarrow> string + (pmsg \<Rightarrow> vresult) \<Rightarrow> 'p handler \<Rightarrow> 'p gen \<Rightarrow> (plane_err + 'p plane) \<times> 'p handler" where
  "planeFor E v h g =
     (case hd_plane h of
        Some p \<Rightarrow> if fst (pl_gen p) = fst g then (Inr p, h) else build_plane E v h g
      | None \<Rightarrow> build_plane E v h g)"

definition Check ::
  "env \<Rightarrow> string + (pmsg \<Rightarrow> vresult) \<Rightarrow> 'p handler \<Rightarrow> 'p gen \<Rightarrow> plane_err option" where
  "Check E v h g = (case newPlane E v h g of Inl e \<Rightarrow> Some e | Inr _ \<Rightarrow> None)"

definition Prepare ::
  "env \<Rightarrow> string + (pmsg \<Rightarrow> vresult) \<Rightarrow> 'p handler \<Rightarrow> 'p gen \<Rightarrow> plane_err option \<times> 'p handler" where
  "Prepare E v h g =
     (case planeFor E v h g of (Inl e, h') \<Rightarrow> (Some e, h') | (Inr p, h') \<Rightarrow> (None, h'))"

section \<open>What a chain holds\<close>

lemma shadowed_None: "shadowed ds = None \<longleftrightarrow> (\<forall>d \<in> set ds. t_FullMethod d \<noteq> ListToolsPath)"
  by (induction ds) auto

lemma Register_frame:
  assumes "Register c m q f = (r, c')"
  shows "c_tools c' = c_tools c" "c_reg c' = c_reg c" "same_wiring c c'"
  using assms by (auto simp: Register_def same_wiring_def split: if_splits)

lemma Register_done: "Register c m q (Some f) = (None, c') \<Longrightarrow> resolverFor c' m = Some f"
  by (auto simp: Register_def resolverFor_def update_conv split: if_splits)

lemma register_all_ok:
  assumes "register_all h ds c = Inr c'" "core_ok E c"
  shows "core_ok E c' \<and> c_tools c' = c_tools c \<and> c_reg c' = c_reg c \<and> same_wiring c c' \<and>
     (\<forall>k f. resolverFor c k = Some f \<longrightarrow> resolverFor c' k = Some f) \<and>
     (\<forall>d \<in> set ds. resolverFor c' (t_FullMethod d) = Some (hop_resolver h d))"
  using assms
proof (induction ds arbitrary: c)
  case (Cons d ds)
  obtain c1 where r: "Register c (t_FullMethod d) (requestFactory (t_Input d)) (Some (hop_resolver h d)) = (None, c1)"
      "register_all h ds c1 = Inr c'"
    using Cons.prems(1) by (auto split: prod.splits option.splits)
  note IH = Cons.IH[OF r(2) Register_ok[OF Cons.prems(2) r(1)]]
  have frame: "c_tools c1 = c_tools c" "c_reg c1 = c_reg c" "same_wiring c c1"
    using Register_frame[OF r(1)] by auto
  have "resolverFor c1 (t_FullMethod d) = Some (hop_resolver h d)" by (rule Register_done[OF r(1)])
  moreover have "resolverFor c k = Some f \<Longrightarrow> resolverFor c1 k = Some f" for k f
    by (rule Register_keeps[OF r(1)])
  ultimately show ?case using IH frame same_wiring_trans by auto
qed auto

definition plane_for :: "env \<Rightarrow> 'p handler \<Rightarrow> 'p gen \<Rightarrow> 'p plane \<Rightarrow> bool" where
  "plane_for E h g p \<longleftrightarrow>
     pl_gen p = g \<and>
     core_ok (gen_env E (snd g)) (pl_core p) \<and>
     pk_NewRegistry (en_Policy E) (ct_Compartments (snd g)) = Inr (pl_reg p) \<and>
     c_reg (pl_core p) = pl_reg p \<and>
     c_grants (pl_core p) = hd_Grants h \<and> c_audit (pl_core p) = hd_Audit h \<and>
     c_fga (pl_core p) = hd_FGA h \<and> c_notifier (pl_core p) = hd_Notifier h \<and>
     (\<forall>d \<in> set (ct_Defs (snd g)).
        t_FullMethod d \<noteq> ListToolsPath \<and>
        resolverFor (pl_core p) (t_FullMethod d) = Some (hop_resolver h d) \<and>
        (\<exists>u. lookup_tool (pl_core p) (t_FullMethod d) = Some u \<and>
             sameDeclarationAs (fs_Pool (ct_Files (snd g))) d u))"

lemma newPlane_Inr:
  assumes "newPlane E v h g = Inr p"
  shows "plane_for E h g p"
proof -
  let ?E = "gen_env E (snd g)"
  obtain k k1 k2 where k: "shadowed (ct_Defs (snd g)) = None"
      "NewCore ?E v (core_config_of h (snd g)) = Inr k"
      "AddTools ?E k (ct_Defs (snd g)) = (None, k1)" "register_all h (ct_Defs (snd g)) k1 = Inr k2"
      "p = \<lparr>pl_gen = g, pl_core = k2, pl_reg = c_reg k2\<rparr>"
    using assms unfolding newPlane_def Let_def
    by (auto split: option.split_asm sum.split_asm prod.split_asm)
  have ok1: "core_ok ?E k1" using AddTools_ok[OF k(3) NewCore_ok[OF k(2)]] .
  note R = register_all_ok[OF k(4) ok1]
  have new: "pk_NewRegistry (en_Policy E) (ct_Compartments (snd g)) = Inr (c_reg k)"
      "c_grants k = hd_Grants h" "c_audit k = hd_Audit h" "c_fga k = hd_FGA h" "c_notifier k = hd_Notifier h"
    using k(2) by (auto simp: NewCore_def gen_env_def core_config_of_def
        split: if_splits option.splits sum.splits)
  have w: "same_wiring k k2" using AddTools_wiring[OF k(3)] R same_wiring_trans by blast
  have wiring: "c_reg k2 = c_reg k" "c_grants k2 = c_grants k" "c_audit k2 = c_audit k"
      "c_fga k2 = c_fga k" "c_notifier k2 = c_notifier k"
    using w by (simp_all add: same_wiring_def)
  have tools: "\<exists>u. lookup_tool k2 (t_FullMethod d) = Some u \<and>
      sameDeclarationAs (fs_Pool (ct_Files (snd g))) d u" if "d \<in> set (ct_Defs (snd g))" for d
    using AddTools_mounts_all[OF k(3) that] R by (simp add: lookup_tool_def gen_env_def)
  show ?thesis
    unfolding plane_for_def k(5) using k(1) R new wiring tools by (simp add: shadowed_None)
qed

text \<open>What a chain is built from does not include the chain kept.\<close>

lemma hop_resolver_plane [simp]: "hop_resolver (h\<lparr>hd_plane := x\<rparr>) d = hop_resolver h d"
  by (simp add: hop_resolver_def)

lemma plane_for_config [simp]: "plane_for E (h\<lparr>hd_plane := x\<rparr>) g p = plane_for E h g p"
  by (simp add: plane_for_def)

lemma register_all_config [simp]: "register_all (h\<lparr>hd_plane := x\<rparr>) ds c = register_all h ds c"
proof (induction ds arbitrary: c)
  case (Cons d ds)
  show ?case unfolding register_all.simps hop_resolver_plane Cons ..
qed simp

lemma Check_config [simp]: "Check E v (h\<lparr>hd_plane := x\<rparr>) g = Check E v h g"
proof -
  have c: "core_config_of (h\<lparr>hd_plane := x\<rparr>) c = core_config_of h c" for c by (simp add: core_config_of_def)
  show ?thesis unfolding Check_def newPlane_def register_all_config c ..
qed

definition handler_ok :: "env \<Rightarrow> 'p handler \<Rightarrow> bool" where
  "handler_ok E h \<longleftrightarrow> (\<forall>p. hd_plane h = Some p \<longrightarrow> plane_for E h (pl_gen p) p)"

text \<open>An address names one generation.\<close>

definition one_gen :: "'p handler \<Rightarrow> 'p gen \<Rightarrow> bool" where
  "one_gen h g \<longleftrightarrow> (\<forall>q. hd_plane h = Some q \<longrightarrow> fst (pl_gen q) = fst g \<longrightarrow> pl_gen q = g)"

lemma publish_cases:
  obtains (set) "publish h p = h\<lparr>hd_plane := Some p\<rparr>"
      "\<And>q. hd_plane h = Some q \<Longrightarrow> ct_LoadedAt (snd (pl_gen q)) \<le> ct_LoadedAt (snd (pl_gen p))"
  | (kept) q where "publish h p = h" "hd_plane h = Some q"
      "ct_LoadedAt (snd (pl_gen p)) < ct_LoadedAt (snd (pl_gen q))"
  by (cases "hd_plane h"; cases "ct_LoadedAt (snd (pl_gen p)) < ct_LoadedAt (snd (pl_gen (the (hd_plane h))))")
     (auto simp: publish_def)

lemma planeFor_cases:
  assumes "planeFor E v h g = (r, h')"
  obtains (cached) p where "hd_plane h = Some p" "fst (pl_gen p) = fst g" "r = Inr p" "h' = h"
  | (built) p where "newPlane E v h g = Inr p" "r = Inr p" "h' = publish h p"
  | (refused) e where "newPlane E v h g = Inl e" "r = Inl e" "h' = h"
proof (cases "\<exists>p. hd_plane h = Some p \<and> fst (pl_gen p) = fst g")
  case True
  then obtain p where p: "hd_plane h = Some p" "fst (pl_gen p) = fst g" by blast
  have "r = Inr p" "h' = h" using assms unfolding planeFor_def p(1) option.case by (simp_all add: p(2))
  then show ?thesis using cached[OF p] by blast
next
  case False
  have b: "build_plane E v h g = (r, h')"
  proof (cases "hd_plane h")
    case (Some p)
    then have "fst (pl_gen p) \<noteq> fst g" using False by blast
    then show ?thesis using assms unfolding planeFor_def Some option.case by (simp only: if_False)
  qed (use assms in \<open>simp add: planeFor_def\<close>)
  show ?thesis
  proof (cases "newPlane E v h g")
    case (Inl e)
    then show ?thesis using refused[OF Inl] b by (simp add: build_plane_def)
  next
    case (Inr p)
    then show ?thesis using built[OF Inr] b by (simp add: build_plane_def)
  qed
qed

lemma planeFor_ok:
  assumes "handler_ok E h" "one_gen h g" "planeFor E v h g = (r, h')"
  shows "handler_ok E h' \<and> (\<forall>p. r = Inr p \<longrightarrow> plane_for E h g p)"
  using assms(3)
proof (cases rule: planeFor_cases)
  case (cached p)
  then show ?thesis using assms(1,2) by (auto simp: handler_ok_def one_gen_def)
next
  case (built p)
  note P = newPlane_Inr[OF built(1)]
  have "handler_ok E (publish h p)"
    by (cases rule: publish_cases[of h p]) (use P assms(1) in \<open>auto simp: handler_ok_def plane_for_def[of E h g]\<close>)
  then show ?thesis using built P by simp
next
  case (refused e)
  then show ?thesis using assms(1) by simp
qed

text \<open>
  C14: A request is governed by the generation it read. The chain answered for a generation is the one
  built for that very generation: it is over its taxonomy, with the steps this deployment configured;
  every tool of the catalogue is mounted in it under its own declaration and reaches the outside
  only by its own route through the hop, none of them hidden behind the listing endpoint. Refused, it
  changes nothing; and the chain kept for the next request is never older than the one kept before.
\<close>

theorem plane_serves_its_generation:
  assumes "handler_ok E h" "one_gen h g" "planeFor E v h g = (r, h')"
  shows "handler_ok E h' \<and> (\<forall>p. r = Inr p \<longrightarrow> plane_for E h g p) \<and> (\<forall>e. r = Inl e \<longrightarrow> h' = h) \<and>
     (\<forall>q. hd_plane h = Some q \<longrightarrow>
        (\<exists>q'. hd_plane h' = Some q' \<and>
              ct_LoadedAt (snd (pl_gen q)) \<le> ct_LoadedAt (snd (pl_gen q'))))"
proof -
  have "\<exists>q'. hd_plane h' = Some q' \<and> ct_LoadedAt (snd (pl_gen q)) \<le> ct_LoadedAt (snd (pl_gen q'))"
    if q: "hd_plane h = Some q" for q
    using assms(3)
  proof (cases rule: planeFor_cases)
    case (built p)
    then show ?thesis by (cases rule: publish_cases[of h p]) (use q in auto)
  qed (use q in auto)
  moreover have "\<forall>e. r = Inl e \<longrightarrow> h' = h" using assms(3) by (cases rule: planeFor_cases) auto
  ultimately show ?thesis using planeFor_ok[OF assms] by blast
qed

section \<open>A deployment\<close>

definition toy_handler :: "'p handler" where
  "toy_handler =
     \<lparr>hd_Invoke = \<lambda>hist ic route req d. Returns (Inr (Msg 0 [])), hd_HashKey = ''0123456789abcdef'',
      hd_Recorder = Some sample_recorder, hd_Audit = None, hd_FGA = None,
      hd_Grants = Some \<lparr>gv_Verify = \<lambda>hist x p t m. Returns ([], None)\<rparr>, hd_Notifier = None, hd_plane = None\<rparr>"

definition toy_validator :: "string + (pmsg \<Rightarrow> vresult)" where "toy_validator = Inr (\<lambda>m. VOk)"

lemma toy_plane_built:
  "case Load toy_catlib ''artifact'' 7 of Inl _ \<Rightarrow> False
   | Inr c \<Rightarrow> Check sample_env toy_validator toy_handler (3, c) = None"
  by code_simp

lemma plane_serves_its_generation_witness:
  "\<exists>c p. Load toy_catlib ''artifact'' 7 = Inr c \<and>
     fst (planeFor sample_env toy_validator toy_handler (3, c)) = Inr p \<and> plane_for sample_env toy_handler (3, c) p"
proof -
  obtain c where c: "Load toy_catlib ''artifact'' 7 = Inr c"
      "Check sample_env toy_validator toy_handler (3, c) = None"
    using toy_plane_built by (auto split: sum.splits)
  obtain r h' where f: "planeFor sample_env toy_validator toy_handler (3, c) = (r, h')" by (metis surj_pair)
  have "handler_ok sample_env toy_handler" "one_gen toy_handler (3, c)"
    by (simp_all add: handler_ok_def one_gen_def toy_handler_def)
  note T = plane_serves_its_generation[OF this f]
  obtain p where "r = Inr p"
    using f by (cases rule: planeFor_cases) (use c(2) in \<open>auto simp: Check_def\<close>)
  then show ?thesis using T c(1) f by auto
qed

end
