(* ===== verification/Reload.thy ===== *)
theory Reload
  imports Plane GrantConfig
begin

text \<open>
  \<open>internal/reload/reload.go\<close>: replacing the catalogue a process is serving, or refusing to. One poll
  is one step on the poller's state (the object last seen, the object last refused, the store, the
  handler with its chain, the published taxonomy, the log). What the object store answers and the
  readings of the clock are the poll's input; \<open>Admit\<close> is a parameter, \<open>None\<close> when not configured.
\<close>

section \<open>State\<close>

datatype poll_outcome = Unchanged | Swapped | Kept

text \<open>What a refusal is stated as.\<close>

datatype reason =
    StillTooLarge | TooLarge | DoesNotLoad | UnusableTaxonomy | NotCovered | NotGovernable | StoreRefused

record refusal =
  rf_etag :: string
  rf_body :: "string option"
  rf_digest :: string
  rf_reported :: "int option"
  rf_reason :: "reason option"

definition no_refusal :: refusal where
  "no_refusal = \<lparr>rf_etag = [], rf_body = None, rf_digest = [], rf_reported = None, rf_reason = None\<rparr>"

datatype log_line =
    WarnUnchecked | WarnNoETag | WarnUnread | ErrorRefused reason | ErrorChain string | ErrorTaxonomy string
  | InfoReloaded string string

record 'p poller =
  po_etag :: string
  po_last :: refusal
  po_store :: "'p store"
  po_handler :: "'p handler"
  po_taxonomy :: "registry option"
  po_log :: "(int \<times> log_line) list"

text \<open>What one poll observes; \<open>pi_Now\<close> is the clock the report reads.\<close>

record poll_input =
  pi_ETag :: "go_err + string"
  pi_Read :: "go_err + string"
  pi_Load :: int
  pi_Swap :: int
  pi_Sweep :: int
  pi_Before :: nat
  pi_After :: nat
  pi_Now :: int

text \<open>The deployment around the poller.\<close>

record ('d, 'p) deployment =
  de_Env :: env
  de_Validator :: "string + (pmsg \<Rightarrow> vresult)"
  de_Lib :: "('d, 'p) cat_lib"
  de_Admit :: "('p catalogue \<Rightarrow> grant_cfg_err option) option"

section \<open>The record of a refusal\<close>

definition refuse :: "string \<Rightarrow> string option \<Rightarrow> string \<Rightarrow> 'p poller \<Rightarrow> 'p poller" where
  "refuse etag body digest p =
     (let last = (if rf_etag (po_last p) \<noteq> etag then no_refusal else po_last p)
      in p\<lparr>po_last := last\<lparr>rf_etag := etag, rf_body := body, rf_digest := digest\<rparr>\<rparr>)"

definition forget :: "'p poller \<Rightarrow> 'p poller" where
  "forget p = p\<lparr>po_last := no_refusal\<rparr>"

definition repeatRefusalEvery :: int where "repeatRefusalEvery = 3600 * second_ns"

definition say :: "int \<Rightarrow> log_line \<Rightarrow> 'p poller \<Rightarrow> 'p poller" where
  "say now l p = p\<lparr>po_log := (now, l) # po_log p\<rparr>"

definition throttled :: "bool \<Rightarrow> reason \<Rightarrow> int \<Rightarrow> refusal \<Rightarrow> bool" where
  "throttled repeat why now r =
     (repeat \<and> rf_reason r = Some why \<and>
      (case rf_reported r of None \<Rightarrow> False | Some t \<Rightarrow> now - t < repeatRefusalEvery))"

definition report :: "bool \<Rightarrow> reason \<Rightarrow> int \<Rightarrow> 'p poller \<Rightarrow> 'p poller" where
  "report repeat why now p =
     (if throttled repeat why now (po_last p) then p
      else say now (ErrorRefused why)
             (p\<lparr>po_last := (po_last p)\<lparr>rf_reported := Some now, rf_reason := Some why\<rparr>\<rparr>))"

definition serving :: "'p poller \<Rightarrow> string" where
  "serving p = (case so_current (po_store p) of None \<Rightarrow> ''none'' | Some g \<Rightarrow> ct_Digest (snd g))"

section \<open>The pre-flight\<close>

text \<open>What refuses a candidate before the store is touched, in order.\<close>

definition preflight :: "('d, 'p) deployment \<Rightarrow> int \<Rightarrow> string \<Rightarrow> 'p poller \<Rightarrow> reason option" where
  "preflight D now body p =
     (case Load (de_Lib D) body now of
        Inl e \<Rightarrow> Some DoesNotLoad
      | Inr next \<Rightarrow>
     (case pk_NewRegistry (en_Policy (de_Env D)) (ct_Compartments next) of
        Inl e \<Rightarrow> Some UnusableTaxonomy
      | Inr _ \<Rightarrow>
     (case (case de_Admit D of None \<Rightarrow> None | Some f \<Rightarrow> f next) of
        Some e \<Rightarrow> Some NotCovered
      | None \<Rightarrow>
     (case Check (de_Env D) (de_Validator D) (po_handler p) (so_alloc (po_store p), next) of
        Some e \<Rightarrow> Some NotGovernable
      | None \<Rightarrow> None))))"

definition reading_of :: "poll_input \<Rightarrow> string \<Rightarrow> reading" where
  "reading_of i body = \<lparr>rd_Read = Inr body, rd_Before = pi_Before i, rd_After = pi_After i,
     rd_Load = pi_Swap i, rd_Sweep = pi_Sweep i\<rparr>"

text \<open>What follows a swap: the chain of the generation now current, then its taxonomy.\<close>

definition after_swap :: "('d, 'p) deployment \<Rightarrow> int \<Rightarrow> string \<Rightarrow> string \<Rightarrow> 'p gen \<Rightarrow> 'p poller \<Rightarrow> 'p poller" where
  "after_swap D now was etag g p =
     (let p1 = (case Prepare (de_Env D) (de_Validator D) (po_handler p) g of
                  (Some e, h) \<Rightarrow> say now (ErrorChain (ct_Digest (snd g))) (p\<lparr>po_handler := h\<rparr>)
                | (None, h) \<Rightarrow> p\<lparr>po_handler := h\<rparr>);
          p2 = (case pk_NewRegistry (en_Policy (de_Env D)) (ct_Compartments (snd g)) of
                  Inl e \<Rightarrow> say now (ErrorTaxonomy (ct_Digest (snd g)))
                             (p1\<lparr>po_taxonomy := set_registry (po_taxonomy p1) None\<rparr>)
                | Inr reg \<Rightarrow> p1\<lparr>po_taxonomy := set_registry (po_taxonomy p1) (Some reg)\<rparr>)
      in say now (InfoReloaded was (ct_Digest (snd g))) ((forget p2)\<lparr>po_etag := etag\<rparr>))"

text \<open>Judging the bytes in hand.\<close>

definition judge ::
  "('d, 'p) deployment \<Rightarrow> poll_input \<Rightarrow> bool \<Rightarrow> string \<Rightarrow> string \<Rightarrow> 'p poller \<Rightarrow> poll_outcome \<times> 'p poller" where
  "judge D i repeat etag body p =
     (let candidate = (if repeat then rf_digest (po_last p) else DigestOf (de_Lib D) body);
          same = (case so_current (po_store p) of None \<Rightarrow> False | Some g \<Rightarrow> ct_Digest (snd g) = candidate)
      in if same then (Unchanged, (forget p)\<lparr>po_etag := etag\<rparr>)
         else
           (let p1 = refuse etag (Some body) candidate p in
            case preflight D (pi_Load i) body p1 of
              Some why \<Rightarrow> (Kept, report repeat why (pi_Now i) p1)
            | None \<Rightarrow>
                (case store_Reload (de_Lib D) (reading_of i body) (po_store p1) of
                   (Inl e, st) \<Rightarrow> (Kept, report repeat StoreRefused (pi_Now i) (p1\<lparr>po_store := st\<rparr>))
                 | (Inr g, st) \<Rightarrow>
                     (Swapped, after_swap D (pi_Now i) (serving p1) etag g (p1\<lparr>po_store := st\<rparr>)))))"

section \<open>One poll\<close>

definition Once :: "('d, 'p) deployment \<Rightarrow> poll_input \<Rightarrow> 'p poller \<Rightarrow> poll_outcome \<times> 'p poller" where
  "Once D i p =
     (case pi_ETag i of
        Inl e \<Rightarrow> (Kept, say (pi_Now i) WarnUnchecked p)
      | Inr etag \<Rightarrow>
     if etag = [] then (Kept, say (pi_Now i) WarnNoETag p)
     else if etag = po_etag p then (Unchanged, forget p)
     else if rf_etag (po_last p) = etag then
       (case rf_body (po_last p) of
          None \<Rightarrow> (Kept, report True StillTooLarge (pi_Now i) p)
        | Some body \<Rightarrow> judge D i True etag body p)
     else
       (let p1 = forget p in
        case pi_Read i of
          Inl e \<Rightarrow>
            if err_is e STooLarge
            then (Kept, report False TooLarge (pi_Now i) (refuse etag None [] p1))
            else (Kept, say (pi_Now i) WarnUnread p1)
        | Inr body \<Rightarrow> judge D i False etag body p1))"

end
