(* ===== verification/ReloadProps.thy ===== *)
theory ReloadProps
  imports Reload
begin

text \<open>
  What a poll may do to the generation being served: nothing, or replace it by one that passed every
  refusal, with its chain and its taxonomy. The invariant over any sequence of polls, the abstract
  view of the poller as a register that only ever takes admitted artifacts, and what a poll costs.
\<close>

section \<open>Loads differ only in their time\<close>

lemma Load_time: "Load L body now = map_sum id (\<lambda>c. c\<lparr>ct_LoadedAt := now\<rparr>) (Load L body t)"
  unfolding Load_def Let_def by (auto split: sum.split option.split prod.split)

lemma Load_again:
  assumes "Load L body t = Inr c"
  shows "Load L body now = Inr (c\<lparr>ct_LoadedAt := now\<rparr>)"
  using Load_time[of L body now t] assms by simp

lemma loaded_digest: "Load L body now = Inr c \<Longrightarrow> ct_Digest c = DigestOf L body \<and> ct_LoadedAt c = now"
  by (erule Load_Inr) simp

text \<open>Two catalogues that declare the same: what governs them does not depend on the rest.\<close>

definition same_artifact :: "'p catalogue \<Rightarrow> 'p catalogue \<Rightarrow> bool" where
  "same_artifact a b \<longleftrightarrow> ct_Digest a = ct_Digest b \<and> ct_Defs a = ct_Defs b \<and> ct_Files a = ct_Files b \<and>
     ct_Compartments a = ct_Compartments b"

lemma same_artifact_refl [simp]: "same_artifact c c"
  by (simp add: same_artifact_def)

lemma same_artifact_measured [simp]: "same_artifact c (measured a b (c\<lparr>ct_LoadedAt := t\<rparr>))"
  by (simp add: same_artifact_def measured_def)

lemma Check_same:
  assumes "same_artifact a b"
  shows "Check E v h (i, a) = None \<longleftrightarrow> Check E v h (j, b) = None"
proof -
  have "gen_env E a = gen_env E b" "core_config_of h a = core_config_of h b"
    using assms by (simp_all add: same_artifact_def gen_env_def core_config_of_def)
  then show ?thesis using assms
    by (simp add: Check_def newPlane_def Let_def same_artifact_def split: option.split sum.split prod.split)
qed

section \<open>Admission\<close>

text \<open>Everything that may refuse a generation accepts it.\<close>

definition admitted :: "('d, 'p) deployment \<Rightarrow> 'p poller \<Rightarrow> 'p catalogue \<Rightarrow> bool" where
  "admitted D p c \<longleftrightarrow>
     (\<exists>reg. pk_NewRegistry (en_Policy (de_Env D)) (ct_Compartments c) = Inr reg) \<and>
     (\<exists>c'. same_artifact c' c \<and> (\<forall>f. de_Admit D = Some f \<longrightarrow> f c' = None) \<and> loaded_by (de_Lib D) c') \<and>
     Check (de_Env D) (de_Validator D) (po_handler p) (0, c) = None \<and>
     fits (so_maxTools (po_store p)) c"

lemma preflight_None:
  "preflight D now body p = None \<longleftrightarrow>
     (\<exists>c reg. Load (de_Lib D) body now = Inr c \<and>
        pk_NewRegistry (en_Policy (de_Env D)) (ct_Compartments c) = Inr reg \<and>
        (\<forall>f. de_Admit D = Some f \<longrightarrow> f c = None) \<and>
        Check (de_Env D) (de_Validator D) (po_handler p) (so_alloc (po_store p), c) = None)"
  by (auto simp: preflight_def split: sum.splits option.splits)

lemma preflight_admitted:
  assumes "preflight D now body p = None" "Load (de_Lib D) body t = Inr c" "fits (so_maxTools (po_store p)) c"
  shows "admitted D p (measured a b c)"
proof -
  obtain c0 reg where c0: "Load (de_Lib D) body now = Inr c0"
      "pk_NewRegistry (en_Policy (de_Env D)) (ct_Compartments c0) = Inr reg"
      "\<forall>f. de_Admit D = Some f \<longrightarrow> f c0 = None"
      "Check (de_Env D) (de_Validator D) (po_handler p) (so_alloc (po_store p), c0) = None"
    using assms(1) unfolding preflight_None by blast
  have c: "c = c0\<lparr>ct_LoadedAt := t\<rparr>" using Load_again[OF c0(1), of t] assms(2) by simp
  have s: "same_artifact c0 (measured a b c)" unfolding c by simp
  have "Check (de_Env D) (de_Validator D) (po_handler p) (0, measured a b c) = None"
    using Check_same[OF s] c0(4) by blast
  moreover have "loaded_by (de_Lib D) c0" using loaded_by_measured[OF c0(1), of 0 0] by (simp add: measured_def)
  moreover have "ct_Compartments (measured a b c) = ct_Compartments c0" by (simp add: c)
  ultimately show ?thesis using c0(2,3) s assms(3) unfolding admitted_def fits_measured by metis
qed

section \<open>The refusal record changes nothing that serves\<close>

text \<open>What a request sees of the poller's state.\<close>

definition in_service :: "'p poller \<Rightarrow> 'p store \<times> 'p handler \<times> registry option" where
  "in_service p = (po_store p, po_handler p, po_taxonomy p)"

lemma frame_record [simp]:
  "po_store (refuse e b d p) = po_store p" "po_handler (refuse e b d p) = po_handler p"
  "po_taxonomy (refuse e b d p) = po_taxonomy p" "po_etag (refuse e b d p) = po_etag p"
  "po_store (forget p) = po_store p" "po_handler (forget p) = po_handler p"
  "po_taxonomy (forget p) = po_taxonomy p" "po_etag (forget p) = po_etag p"
  "po_store (say t l p) = po_store p" "po_handler (say t l p) = po_handler p"
  "po_taxonomy (say t l p) = po_taxonomy p" "po_etag (say t l p) = po_etag p" "po_last (say t l p) = po_last p"
  by (simp_all add: refuse_def forget_def say_def Let_def)

lemma frame_report [simp]:
  "po_store (report r w t p) = po_store p" "po_handler (report r w t p) = po_handler p"
  "po_taxonomy (report r w t p) = po_taxonomy p" "po_etag (report r w t p) = po_etag p"
  "rf_etag (po_last (report r w t p)) = rf_etag (po_last p)"
  "rf_body (po_last (report r w t p)) = rf_body (po_last p)"
  "rf_digest (po_last (report r w t p)) = rf_digest (po_last p)"
  by (simp_all add: report_def)

lemma refuse_last [simp]:
  "rf_etag (po_last (refuse e b d p)) = e" "rf_body (po_last (refuse e b d p)) = b"
  "rf_digest (po_last (refuse e b d p)) = d"
  by (simp_all add: refuse_def Let_def)

lemma preflight_record [simp]: "preflight D now body (refuse e b d p) = preflight D now body p"
  "preflight D now body (forget p) = preflight D now body p"
  unfolding preflight_def frame_record by (rule refl)+

section \<open>One judgement\<close>

lemma judge_cases:
  assumes "judge D i repeat etag body p = (out, p')"
  obtains (same) g where "out = Unchanged" "in_service p' = in_service p" "po_etag p' = etag"
      "so_current (po_store p) = Some g"
      "ct_Digest (snd g) = (if repeat then rf_digest (po_last p) else DigestOf (de_Lib D) body)"
  | (kept) "out = Kept" "in_service p' = in_service p" "rf_etag (po_last p') = etag" "po_etag p' = po_etag p"
  | (swap) g st where "out = Swapped" "preflight D (pi_Load i) body p = None"
      "store_Reload (de_Lib D) (reading_of i body) (po_store p) = (Inr g, st)"
      "p' = after_swap D (pi_Now i) (serving p) etag g
              ((refuse etag (Some body) (if repeat then rf_digest (po_last p) else DigestOf (de_Lib D) body) p)\<lparr>po_store := st\<rparr>)"
      "\<forall>g. so_current (po_store p) = Some g \<longrightarrow>
         ct_Digest (snd g) \<noteq> (if repeat then rf_digest (po_last p) else DigestOf (de_Lib D) body)"
proof -
  let ?c = "if repeat then rf_digest (po_last p) else DigestOf (de_Lib D) body"
  let ?p1 = "refuse etag (Some body) ?c p"
  have serv: "serving ?p1 = serving p" by (simp add: serving_def)
  show ?thesis
  proof (cases "\<exists>g. so_current (po_store p) = Some g \<and> ct_Digest (snd g) = ?c")
    case True
    then obtain g where g: "so_current (po_store p) = Some g" "ct_Digest (snd g) = ?c" by blast
    then have "out = Unchanged" "p' = (forget p)\<lparr>po_etag := etag\<rparr>"
      using assms by (simp_all add: judge_def Let_def)
    then show ?thesis using same g by (simp add: in_service_def)
  next
    case no: False
    then have n: "\<not> (case so_current (po_store p) of None \<Rightarrow> False | Some g \<Rightarrow> ct_Digest (snd g) = ?c)"
      by (auto split: option.splits)
    show ?thesis
    proof (cases "preflight D (pi_Load i) body p")
      case (Some why)
      then have "out = Kept" "p' = report repeat why (pi_Now i) ?p1"
        using assms n by (simp_all add: judge_def Let_def)
      then show ?thesis using kept by (simp add: in_service_def)
    next
      case None
      obtain r st where st: "store_Reload (de_Lib D) (reading_of i body) (po_store p) = (r, st)"
        by (metis surj_pair)
      show ?thesis
      proof (cases r)
        case (Inl e)
        have "st = po_store p"
          using st Inl by (cases rule: store_Reload_cases[of "de_Lib D" "reading_of i body" "po_store p"]) auto
        moreover have "out = Kept" "p' = report repeat StoreRefused (pi_Now i) (?p1\<lparr>po_store := st\<rparr>)"
          using assms n None st Inl by (simp_all add: judge_def Let_def)
        ultimately show ?thesis using kept by (simp add: in_service_def)
      next
        case (Inr g)
        have "out = Swapped" "p' = after_swap D (pi_Now i) (serving p) etag g (?p1\<lparr>po_store := st\<rparr>)"
          using assms n None st Inr by (simp_all add: judge_def Let_def serv)
        then show ?thesis using swap[OF _ None] st Inr no by blast
      qed
    qed
  qed
qed

section \<open>One poll\<close>

lemma Once_cases:
  assumes "Once D i p = (out, p')"
  obtains (idle) "out \<noteq> Swapped" "in_service p' = in_service p"
  | (swap) etag body g st d repeat where "out = Swapped" "pi_ETag i = Inr etag"
      "etag \<noteq> po_etag p" "preflight D (pi_Load i) body p = None"
      "store_Reload (de_Lib D) (reading_of i body) (po_store p) = (Inr g, st)"
      "p' = after_swap D (pi_Now i) (serving p) etag g ((refuse etag (Some body) d (if repeat then p else forget p))\<lparr>po_store := st\<rparr>)"
      "if repeat then rf_etag (po_last p) = etag \<and> rf_body (po_last p) = Some body else pi_Read i = Inr body"
      "\<forall>g. so_current (po_store p) = Some g \<longrightarrow> ct_Digest (snd g) \<noteq> d"
      "d = (if repeat then rf_digest (po_last p) else DigestOf (de_Lib D) body)"
proof (cases "pi_ETag i")
  case (Inl e)
  then show ?thesis using assms idle by (auto simp: Once_def in_service_def)
next
  case e: (Inr etag)
  show ?thesis
  proof (cases "etag = [] \<or> etag = po_etag p")
    case True
    then show ?thesis using assms idle e by (auto simp: Once_def in_service_def split: if_splits)
  next
    case ne: False
    show ?thesis
    proof (cases "rf_etag (po_last p) = etag")
      case rep: True
      show ?thesis
      proof (cases "rf_body (po_last p)")
        case None
        then show ?thesis using assms idle e ne rep by (auto simp: Once_def in_service_def)
      next
        case (Some body)
        then have "judge D i True etag body p = (out, p')" using assms e ne rep by (simp add: Once_def)
        then show ?thesis
        proof (cases rule: judge_cases)
          case (swap g st)
          then show ?thesis
            using that(2)[of etag body g st "rf_digest (po_last p)" True] e ne rep Some by simp
        qed (use idle in auto)
      qed
    next
      case rep: False
      show ?thesis
      proof (cases "pi_Read i")
        case (Inl x)
        then show ?thesis using assms idle e ne rep
          by (auto simp: Once_def in_service_def Let_def split: if_split_asm)
      next
        case (Inr body)
        then have "judge D i False etag body (forget p) = (out, p')"
          using assms e ne rep by (simp add: Once_def Let_def)
        then show ?thesis
        proof (cases rule: judge_cases)
          case (swap g st)
          then show ?thesis
            using that(2)[of etag body g st "DigestOf (de_Lib D) body" False] e ne Inr
            by (simp add: serving_def)
        next
          case (same g)
          then show ?thesis using idle by (simp add: in_service_def)
        next
          case kept
          then show ?thesis using idle by (simp add: in_service_def)
        qed
      qed
    qed
  qed
qed

text \<open>
  A refusal withdraws nothing. Whatever a poll meets (a store that will not answer, no change, an
  artifact too large, one that does not load, a taxonomy that cannot be built, a generation the
  deployment's configuration or its chain will not cover), unless it reports a swap, the catalogue
  being served, its history, the chain and the published taxonomy are exactly what they were.
\<close>

theorem refusal_keeps_serving:
  assumes "Once D i p = (out, p')" "out \<noteq> Swapped"
  shows "po_store p' = po_store p \<and> po_handler p' = po_handler p \<and> po_taxonomy p' = po_taxonomy p"
  using assms(1) by (cases rule: Once_cases) (use assms(2) in \<open>simp_all add: in_service_def\<close>)

section \<open>A swap\<close>

lemma admitted_handler [simp]:
  "admitted D (p\<lparr>po_handler := (po_handler p)\<lparr>hd_plane := x\<rparr>\<rparr>) c = admitted D p c"
  by (simp add: admitted_def)

definition same_config :: "'p poller \<Rightarrow> 'p poller \<Rightarrow> bool" where
  "same_config p p' \<longleftrightarrow> so_maxTools (po_store p') = so_maxTools (po_store p) \<and>
     po_handler p' = (po_handler p)\<lparr>hd_plane := hd_plane (po_handler p')\<rparr>"

lemma admitted_config:
  assumes "same_config p p'"
  shows "admitted D p' c = admitted D p c"
proof -
  have "so_maxTools (po_store p') = so_maxTools (po_store p)" using assms by (simp add: same_config_def)
  moreover have "Check E v (po_handler p') g = Check E v (po_handler p) g" for E v g
    using assms Check_config unfolding same_config_def by metis
  ultimately show ?thesis by (simp add: admitted_def)
qed

lemma planeFor_config: "planeFor E v h g = (r, h') \<Longrightarrow> h' = h\<lparr>hd_plane := hd_plane h'\<rparr>"
proof -
  assume a: "planeFor E v h g = (r, h')"
  from a show ?thesis
  proof (cases rule: planeFor_cases)
    case (built p)
    show ?thesis unfolding built(3) by (cases rule: publish_cases[of h p]) simp_all
  qed simp_all
qed

text \<open>The generation, the chain and the taxonomy in force are of one artifact.\<close>

definition in_step :: "('d, 'p) deployment \<Rightarrow> 'p poller \<Rightarrow> bool" where
  "in_step D p \<longleftrightarrow>
     (\<exists>g q. so_current (po_store p) = Some g \<and> admitted D p (snd g) \<and>
        hd_plane (po_handler p) = Some q \<and> plane_for (de_Env D) (po_handler p) g q \<and>
        po_taxonomy p = Some (pl_reg q))"

text \<open>The digest kept with the bytes of a refused object is theirs.\<close>

definition remembers :: "('d, 'p) deployment \<Rightarrow> 'p poller \<Rightarrow> bool" where
  "remembers D p \<longleftrightarrow>
     (\<forall>b. rf_body (po_last p) = Some b \<longrightarrow> rf_digest (po_last p) = DigestOf (de_Lib D) b)"

definition poller_ok :: "('d, 'p) deployment \<Rightarrow> 'p poller \<Rightarrow> bool" where
  "poller_ok D p \<longleftrightarrow> store_ok (de_Lib D) (po_store p) \<and> remembers D p \<and> in_step D p"

lemma after_swap_ok:
  assumes plane: "newPlane (de_Env D) (de_Validator D) (po_handler p) g = Inr q"
    and reg: "pk_NewRegistry (en_Policy (de_Env D)) (ct_Compartments (snd g)) = Inr r"
    and fresh: "\<And>q. hd_plane (po_handler p) = Some q \<Longrightarrow> fst (pl_gen q) \<noteq> fst g"
    and newer: "\<And>q. hd_plane (po_handler p) = Some q \<Longrightarrow> ct_LoadedAt (snd (pl_gen q)) \<le> ct_LoadedAt (snd g)"
  shows "po_store (after_swap D now was etag g p) = po_store p"
    "po_handler (after_swap D now was etag g p) = (po_handler p)\<lparr>hd_plane := Some q\<rparr>"
    "po_taxonomy (after_swap D now was etag g p) = Some r"
    "po_etag (after_swap D now was etag g p) = etag"
    "plane_for (de_Env D) (po_handler p) g q" "pl_reg q = r"
proof -
  have P: "plane_for (de_Env D) (po_handler p) g q" by (rule newPlane_Inr[OF plane])
  then have "pl_gen q = g" "pl_reg q = r" using reg by (simp_all add: plane_for_def)
  have "planeFor (de_Env D) (de_Validator D) (po_handler p) g = (Inr q, publish (po_handler p) q)"
  proof (cases "hd_plane (po_handler p)")
    case (Some q')
    then show ?thesis using fresh[OF Some] plane by (simp add: planeFor_def build_plane_def)
  qed (simp add: planeFor_def build_plane_def plane)
  moreover have "publish (po_handler p) q = (po_handler p)\<lparr>hd_plane := Some q\<rparr>"
    using newer \<open>pl_gen q = g\<close> by (auto simp: publish_def not_less split: option.splits)
  ultimately have prep: "Prepare (de_Env D) (de_Validator D) (po_handler p) g =
      (None, (po_handler p)\<lparr>hd_plane := Some q\<rparr>)"
    by (simp add: Prepare_def)
  show "po_store (after_swap D now was etag g p) = po_store p"
    "po_handler (after_swap D now was etag g p) = (po_handler p)\<lparr>hd_plane := Some q\<rparr>"
    "po_taxonomy (after_swap D now was etag g p) = Some r"
    "po_etag (after_swap D now was etag g p) = etag"
    by (simp_all add: after_swap_def Let_def prep reg set_registry_def)
  show "plane_for (de_Env D) (po_handler p) g q" "pl_reg q = r" by fact+
qed

lemma remembers_frame [simp]:
  "remembers D (report r w t p) = remembers D p" "remembers D (say t l p) = remembers D p"
  "remembers D (forget p)" "remembers D (p\<lparr>po_store := st\<rparr>) = remembers D p"
  "remembers D (p\<lparr>po_etag := e\<rparr>) = remembers D p"
  "remembers D (refuse e (Some b) d p) \<longleftrightarrow> d = DigestOf (de_Lib D) b" "remembers D (refuse e None d p)"
  by (simp_all add: remembers_def) (simp_all add: forget_def no_refusal_def)

lemma after_swap_last [simp]: "po_last (after_swap D now was etag g p) = no_refusal"
  by (simp add: after_swap_def Let_def forget_def)

lemma judge_remembers:
  assumes "judge D i repeat etag body p = (out, p')"
    and "repeat \<Longrightarrow> rf_digest (po_last p) = DigestOf (de_Lib D) body"
  shows "remembers D p'"
proof -
  have d: "(if repeat then rf_digest (po_last p) else DigestOf (de_Lib D) body) = DigestOf (de_Lib D) body"
    using assms(2) by simp
  have e: "rf_body (po_last (after_swap D now was etag' g q)) = None" for now was etag' g q
    by (simp add: no_refusal_def)
  have "remembers D (after_swap D now was etag' g q)" for now was etag' g q
    unfolding remembers_def e by simp
  then show ?thesis
    using assms(1) unfolding judge_def Let_def d
    by (auto split: if_split_asm option.split_asm prod.split_asm sum.split_asm)
qed

lemma Once_remembers:
  assumes "remembers D p" "Once D i p = (out, p')"
  shows "remembers D p'"
proof -
  have r: "rf_body (po_last p) = Some b \<Longrightarrow> rf_digest (po_last p) = DigestOf (de_Lib D) b" for b
    using assms(1) by (simp add: remembers_def)
  have j: "judge D i rep etag body q = (out, p') \<Longrightarrow> (rep \<Longrightarrow> rf_digest (po_last q) = DigestOf (de_Lib D) body) \<Longrightarrow>
      remembers D p'" for rep etag body q
    by (rule judge_remembers)
  show ?thesis
    using assms unfolding Once_def Let_def
    by (auto split: sum.split_asm if_split_asm option.split_asm intro: j r)
qed

text \<open>What a swap does, given a clock that does not run backwards.\<close>

lemma swap_parts:
  assumes ok: "poller_ok D p" and once: "Once D i p = (Swapped, p')"
    and clock: "\<And>g. so_current (po_store p) = Some g \<Longrightarrow> ct_LoadedAt (snd g) \<le> pi_Swap i"
  obtains g body c q g0 where
    "so_current (po_store p') = Some g" "so_current (po_store p) = Some g0" "fst g \<noteq> fst g0"
    "pi_Read i = Inr body \<or> rf_body (po_last p) = Some body"
    "Load (de_Lib D) body (pi_Swap i) = Inr c" "same_artifact c (snd g)" "ct_LoadedAt (snd g) = pi_Swap i"
    "ct_Digest (snd g) \<noteq> ct_Digest (snd g0)" "admitted D p (snd g)" "same_config p p'"
    "po_handler p' = (po_handler p)\<lparr>hd_plane := Some q\<rparr>" "plane_for (de_Env D) (po_handler p) g q"
    "po_taxonomy p' = Some (pl_reg q)" "pi_ETag i = Inr (po_etag p')" "store_ok (de_Lib D) (po_store p')"
  using once
proof (cases rule: Once_cases)
  case (swap etag body g st d repeat)
  let ?p1 = "(refuse etag (Some body) d (if repeat then p else forget p))\<lparr>po_store := st\<rparr>"
  obtain g0 q0 where g0: "so_current (po_store p) = Some g0" "hd_plane (po_handler p) = Some q0" "pl_gen q0 = g0"
    using ok by (auto simp: poller_ok_def in_step_def plane_for_def)
  have d: "d = DigestOf (de_Lib D) body"
    using swap(7,9) ok by (auto simp: poller_ok_def remembers_def split: if_splits)
  obtain c where c: "Load (de_Lib D) body (pi_Swap i) = Inr c" "fits (so_maxTools (po_store p)) c"
      "swap_in (pi_Sweep i) (measured (pi_Before i) (pi_After i) c) (po_store p) = (g, st)"
    using swap(5)
  proof (cases rule: store_Reload_cases[of "de_Lib D" "reading_of i body" "po_store p"])
    case (same b c prev)
    then show ?thesis using swap(8) d loaded_digest[OF same(2)] by (auto simp: reading_of_def)
  next
    case (swapped b c g' s')
    then show ?thesis using swap(5) that[of c] by (simp add: reading_of_def)
  qed simp
  note S = swap_in_sel[OF c(3)]
  have sg: "snd g = measured (pi_Before i) (pi_After i) c" "fst g = so_alloc (po_store p)" using S(1) by simp_all
  have adm: "admitted D p (snd g)" unfolding sg(1) by (rule preflight_admitted[OF swap(4) c(1,2)])
  then obtain reg where reg: "pk_NewRegistry (en_Policy (de_Env D)) (ct_Compartments (snd g)) = Inr reg"
      "Check (de_Env D) (de_Validator D) (po_handler p) (0, snd g) = None"
    unfolding admitted_def by blast
  then have "Check (de_Env D) (de_Validator D) (po_handler p) g = None"
    using Check_same[OF same_artifact_refl, of _ _ _ 0 "snd g" "fst g"] by simp
  then obtain q where q: "newPlane (de_Env D) (de_Validator D) (po_handler p) g = Inr q"
    by (auto simp: Check_def split: sum.splits)
  have h: "po_handler ?p1 = po_handler p" by simp
  have alloc: "fst g0 < so_alloc (po_store p)" using ok g0(1) by (auto simp: poller_ok_def store_ok_def)
  have at: "ct_LoadedAt (snd g) = pi_Swap i" using loaded_digest[OF c(1)] sg(1) by simp
  note A = after_swap_ok[of D ?p1 g q reg, unfolded h, OF q reg(1)]
  have A': "po_store p' = st" "po_handler p' = (po_handler p)\<lparr>hd_plane := Some q\<rparr>" "po_taxonomy p' = Some reg"
      "po_etag p' = etag" "plane_for (de_Env D) (po_handler p) g q" "pl_reg q = reg"
    unfolding swap(6) using A g0 alloc sg(2) at clock[OF g0(1)] by auto
  have okst: "store_ok (de_Lib D) st"
    using swap_ok[OF _ loaded_by_measured[OF c(1)] _ c(3)] ok c(2) by (simp add: poller_ok_def)
  have dig: "ct_Digest (snd g) \<noteq> ct_Digest (snd g0)"
    using swap(8) g0(1) d loaded_digest[OF c(1)] sg(1) by auto
  have art: "same_artifact c (snd g)" by (simp add: sg(1) same_artifact_def measured_def)
  show ?thesis
  proof (rule that[of g g0 body c q])
    show "pi_Read i = Inr body \<or> rf_body (po_last p) = Some body" using swap(7) by (auto split: if_splits)
    show "same_config p p'" using A' S by (simp add: same_config_def)
  qed (use A' S g0 alloc sg(2) art c(1) at dig adm swap(2) okst in simp_all)
qed simp

lemma poll_ok:
  assumes "poller_ok D p" "Once D i p = (out, p')"
    and "\<And>g. so_current (po_store p) = Some g \<Longrightarrow> ct_LoadedAt (snd g) \<le> pi_Swap i"
  shows "poller_ok D p'"
proof (cases "out = Swapped")
  case True
  have once: "Once D i p = (Swapped, p')" using assms(2) True by simp
  show ?thesis
  proof (rule swap_parts[OF assms(1) once assms(3)], assumption)
    fix g body c q g0
    assume "so_current (po_store p') = Some g" "admitted D p (snd g)" "same_config p p'"
      "po_handler p' = (po_handler p)\<lparr>hd_plane := Some q\<rparr>" "plane_for (de_Env D) (po_handler p) g q"
      "po_taxonomy p' = Some (pl_reg q)" "store_ok (de_Lib D) (po_store p')"
    then show ?thesis
      using Once_remembers[OF _ assms(2)] assms(1) admitted_config[of p p' D]
      by (auto simp: poller_ok_def in_step_def)
  qed
next
  case False
  have same: "in_service p' = in_service p"
    using assms(2) by (cases rule: Once_cases) (use False in auto)
  then have "same_config p p'" by (simp add: in_service_def same_config_def)
  then show ?thesis
    using same Once_remembers[OF _ assms(2)] assms(1) admitted_config[of p p' D]
    by (simp add: poller_ok_def in_step_def in_service_def)
qed

section \<open>Serving\<close>

text \<open>The artifact in force.\<close>

definition in_force :: "'p poller \<Rightarrow> 'p catalogue option" where
  "in_force p = map_option snd (so_current (po_store p))"

text \<open>
  What the poller promises, without its machinery: a register that holds an artifact, and that a
  poll either leaves alone or sets to another one that was admitted.
\<close>

inductive register_step :: "('c \<Rightarrow> bool) \<Rightarrow> ('c \<Rightarrow> string) \<Rightarrow> 'c \<Rightarrow> poll_outcome \<Rightarrow> 'c \<Rightarrow> bool" where
  hold: "out \<noteq> Swapped \<Longrightarrow> register_step adm digest c out c"
| take: "adm c' \<Longrightarrow> digest c' \<noteq> digest c \<Longrightarrow> register_step adm digest c Swapped c'"

text \<open>
  C13: The poller implements a register of admitted artifacts. Seen through the artifact in force, every
  poll is a step of the abstract machine that either holds what it has or takes another artifact that
  loaded, fits the budget, has a usable taxonomy, is covered by the configuration and can be governed
  by this deployment's chain.
\<close>

theorem poll_refines_register:
  assumes "poller_ok D p" "Once D i p = (out, p')"
    and "\<And>g. so_current (po_store p) = Some g \<Longrightarrow> ct_LoadedAt (snd g) \<le> pi_Swap i"
  shows "\<exists>c c'. in_force p = Some c \<and> in_force p' = Some c' \<and>
     register_step (admitted D p) ct_Digest c out c'"
proof (cases "out = Swapped")
  case True
  have once: "Once D i p = (Swapped, p')" using assms(2) True by simp
  show ?thesis
    by (rule swap_parts[OF assms(1) once assms(3)], assumption)
       (auto simp: in_force_def True intro: register_step.take)
next
  case False
  have "in_service p' = in_service p" using assms(2) by (cases rule: Once_cases) (use False in auto)
  moreover obtain g where "so_current (po_store p) = Some g" using assms(1) by (auto simp: poller_ok_def in_step_def)
  ultimately show ?thesis using False by (auto simp: in_force_def in_service_def intro: register_step.hold)
qed

text \<open>
  A process between boot and shutdown: polls, and requests that ask for the chain of the generation
  they read, which is the current one or one it superseded.
\<close>

inductive serving_step :: "('d, 'p) deployment \<Rightarrow> 'p poller \<Rightarrow> 'p poller \<Rightarrow> bool" for D where
  poll: "(\<And>g. so_current (po_store p) = Some g \<Longrightarrow> ct_LoadedAt (snd g) \<le> pi_Swap i) \<Longrightarrow>
     Once D i p = (out, p') \<Longrightarrow> serving_step D p p'"
| request: "so_current (po_store p) = Some g \<Longrightarrow>
     g' = g \<or> (fst g' \<noteq> fst g \<and> ct_LoadedAt (snd g') < ct_LoadedAt (snd g)) \<Longrightarrow>
     planeFor (de_Env D) (de_Validator D) (po_handler p) g' = (r, h') \<Longrightarrow>
     serving_step D p (p\<lparr>po_handler := h'\<rparr>)"

lemma request_ok:
  assumes "poller_ok D p" "so_current (po_store p) = Some g"
    and "g' = g \<or> (fst g' \<noteq> fst g \<and> ct_LoadedAt (snd g') < ct_LoadedAt (snd g))"
    and "planeFor (de_Env D) (de_Validator D) (po_handler p) g' = (r, h')"
  shows "h' = po_handler p"
proof -
  obtain q where q: "hd_plane (po_handler p) = Some q" "pl_gen q = g"
    using assms(1,2) by (auto simp: poller_ok_def in_step_def plane_for_def)
  show ?thesis
  proof (cases "fst (pl_gen q) = fst g'")
    case True
    then show ?thesis using assms(4) q by (simp add: planeFor_def)
  next
    case ne: False
    from assms(4) show ?thesis
  proof (cases rule: planeFor_cases)
    case (built x)
    have "ct_LoadedAt (snd g') < ct_LoadedAt (snd g)" using assms(3) q ne by auto
    moreover have "pl_gen x = g'" using newPlane_Inr[OF built(1)] by (simp add: plane_for_def)
    ultimately show ?thesis using built(3) q by (simp add: publish_def)
  qed simp_all
  qed
qed

lemma serving_ok:
  assumes "(serving_step D)\<^sup>*\<^sup>* p p'" "poller_ok D p"
  shows "poller_ok D p'"
  using assms
proof (induction rule: rtranclp_induct)
  case (step x y)
  from step.hyps(2) step.IH[OF step.prems] show ?case
  proof (cases rule: serving_step.cases)
    case (poll i out)
    then show ?thesis using poll_ok[OF step.IH[OF step.prems]] by blast
  next
    case (request g g' r h')
    have "h' = po_handler x" using request_ok[OF step.IH[OF step.prems] request(2,3,4)] .
    then show ?thesis using request(1) step.IH[OF step.prems] by simp
  qed
qed

text \<open>
  C12: At every moment the catalogue, the chain and the taxonomy in force are of one generation, and
  that generation was admitted. Whatever polls and requests a process goes through after boot, the
  current catalogue loaded and passed every refusal; the chain kept is the one built for it, over its
  own taxonomy and with every one of its tools mounted under its own declaration; and the taxonomy
  published to the verifier is that chain's.
\<close>

theorem served_always_governed:
  assumes "(serving_step D)\<^sup>*\<^sup>* p p'" "poller_ok D p"
  shows "\<exists>g q. so_current (po_store p') = Some g \<and> loaded_by (de_Lib D) (snd g) \<and>
     admitted D p' (snd g) \<and> hd_plane (po_handler p') = Some q \<and>
     plane_for (de_Env D) (po_handler p') g q \<and> po_taxonomy p' = Some (pl_reg q)"
  using serving_ok[OF assms] by (fastforce simp: poller_ok_def in_step_def store_ok_def)

section \<open>Progress and cost\<close>

lemma judge_serves:
  assumes "preflight D (pi_Load i) body p = None"
    and "\<And>c t. Load (de_Lib D) body t = Inr c \<Longrightarrow> fits (so_maxTools (po_store p)) c"
    and "repeat \<Longrightarrow> rf_digest (po_last p) = DigestOf (de_Lib D) body"
    and "judge D i repeat etag body p = (out, p')"
  shows "out \<noteq> Kept \<and> serving p' = DigestOf (de_Lib D) body"
proof -
  have d: "(if repeat then rf_digest (po_last p) else DigestOf (de_Lib D) body) = DigestOf (de_Lib D) body"
    using assms(3) by simp
  obtain c0 where "Load (de_Lib D) body (pi_Load i) = Inr c0" using assms(1) unfolding preflight_None by blast
  then obtain c where c: "Load (de_Lib D) body (pi_Swap i) = Inr c" using Load_again by blast
  note fit = assms(2)[OF c]
  have store: "\<exists>g st. store_Reload (de_Lib D) (reading_of i body) (po_store p) = (Inr g, st) \<and>
      so_current st = Some g \<and> ct_Digest (snd g) = DigestOf (de_Lib D) body"
  proof (cases rule: store_Reload_cases[of "de_Lib D" "reading_of i body" "po_store p"])
    case (failed e)
    then show ?thesis using c fit
      by (auto simp: store_Reload_def reading_of_def Let_def fits_def split: option.splits if_splits prod.splits)
  next
    case (same b c' prev)
    have "b = body" using same(1) by (simp add: reading_of_def)
    then show ?thesis using same(3-5) loaded_digest[OF same(2)] by auto
  next
    case (swapped b c' g s')
    have "b = body" using swapped(1) by (simp add: reading_of_def)
    then show ?thesis using swapped(6) swap_in_sel(1,2)[OF swapped(5)] loaded_digest[OF swapped(2)] by simp
  qed
  have af: "po_store (after_swap D now was e g q) = po_store q" for now was e g q
    by (simp add: after_swap_def Let_def split: prod.split option.split sum.split)
  from assms(4) show ?thesis
  proof (cases rule: judge_cases)
    case (same g)
    then show ?thesis using d by (simp add: serving_def in_service_def)
  next
    case kept
    have no: "\<not> (case so_current (po_store p) of None \<Rightarrow> False | Some g \<Rightarrow> ct_Digest (snd g) = DigestOf (de_Lib D) body)"
    proof
      assume "case so_current (po_store p) of None \<Rightarrow> False | Some g \<Rightarrow> ct_Digest (snd g) = DigestOf (de_Lib D) body"
      then have "out = Unchanged" using assms(4) unfolding judge_def Let_def d by simp
      then show False using kept(1) by simp
    qed
    then have "out = Swapped" using assms(1,4) store unfolding judge_def Let_def d by auto
    then show ?thesis using kept(1) by simp
  next
    case (swap g st)
    then show ?thesis using store by (auto simp: serving_def af)
  qed
qed

text \<open>
  C39: A good artifact is served after one poll. If the object has changed, its bytes are at hand (read
  by this poll, or held from an earlier refusal) and nothing refuses them any more, then whatever was
  being served before, the poll ends with exactly that artifact in force.
\<close>

theorem good_artifact_served:
  assumes "poller_ok D p" "pi_ETag i = Inr etag" "etag \<noteq> []" "etag \<noteq> po_etag p"
    and "if rf_etag (po_last p) = etag then rf_body (po_last p) = Some body else pi_Read i = Inr body"
    and "preflight D (pi_Load i) body p = None"
    and "\<And>c t. Load (de_Lib D) body t = Inr c \<Longrightarrow> fits (so_maxTools (po_store p)) c"
    and "Once D i p = (out, p')"
  shows "out \<noteq> Kept \<and> serving p' = DigestOf (de_Lib D) body"
proof (cases "rf_etag (po_last p) = etag")
  case True
  then have "judge D i True etag body p = (out, p')" using assms(2-5,8) by (simp add: Once_def)
  moreover have "rf_digest (po_last p) = DigestOf (de_Lib D) body"
    using assms(1,5) True by (simp add: poller_ok_def remembers_def)
  ultimately show ?thesis using judge_serves[of D i body p True etag out p'] assms(6,7) by blast
next
  case False
  then have "judge D i False etag body (forget p) = (out, p')" using assms(2-5,8) by (simp add: Once_def Let_def)
  then show ?thesis using judge_serves[of D i body "forget p" False etag out p'] assms(6,7) by simp
qed

text \<open>
  A refused object is not fetched again. After a poll that had the object's bytes, or learnt that
  they exceed the ceiling, and kept what it serves, a later poll that finds the same object decides
  without reading it: what a read would answer makes no difference.
\<close>

theorem refused_not_refetched:
  assumes "Once D i p = (Kept, p')" "pi_ETag i = Inr etag" "etag \<noteq> []"
    and "\<And>e. pi_Read i = Inl e \<Longrightarrow> err_is e STooLarge"
    and "pi_ETag j = Inr etag"
  shows "Once D (j\<lparr>pi_Read := x\<rparr>) p' = Once D j p'"
proof -
  have "rf_etag (po_last p') = etag \<or> etag = po_etag p'"
  proof (cases "rf_etag (po_last p) = etag")
    case True
    then show ?thesis
      using assms(1-3) by (auto simp: Once_def dest: judge_cases split: if_split_asm option.split_asm elim!: judge_cases)
  next
    case False
    then show ?thesis
      using assms(1-4) by (auto simp: Once_def Let_def split: if_split_asm sum.split_asm elim!: judge_cases)
  qed
  moreover have sel: "pi_ETag (j\<lparr>pi_Read := x\<rparr>) = pi_ETag j" "pi_Load (j\<lparr>pi_Read := x\<rparr>) = pi_Load j"
      "pi_Swap (j\<lparr>pi_Read := x\<rparr>) = pi_Swap j" "pi_Sweep (j\<lparr>pi_Read := x\<rparr>) = pi_Sweep j"
      "pi_Before (j\<lparr>pi_Read := x\<rparr>) = pi_Before j" "pi_After (j\<lparr>pi_Read := x\<rparr>) = pi_After j"
      "pi_Now (j\<lparr>pi_Read := x\<rparr>) = pi_Now j"
    by simp_all
  moreover have "judge D (j\<lparr>pi_Read := x\<rparr>) r e b q = judge D j r e b q" for r e b q
    unfolding judge_def reading_of_def sel ..
  ultimately show ?thesis using assms(3,5) by (auto simp: Once_def split: option.split)
qed

section \<open>The poller at boot\<close>

definition fresh_poller :: "'p store \<Rightarrow> 'p handler \<Rightarrow> registry \<Rightarrow> 'p poller" where
  "fresh_poller st h reg =
     \<lparr>po_etag = [], po_last = no_refusal, po_store = st, po_handler = h, po_taxonomy = Some reg, po_log = []\<rparr>"

lemma boot_ok:
  assumes "store_ok (de_Lib D) st" "so_current st = Some g" "hd_plane h = None"
    and "pk_NewRegistry (en_Policy (de_Env D)) (ct_Compartments (snd g)) = Inr reg"
    and "\<And>f. de_Admit D = Some f \<Longrightarrow> f (snd g) = None"
    and "Prepare (de_Env D) (de_Validator D) h g = (None, h')"
  shows "poller_ok D (fresh_poller st h' reg)"
proof -
  obtain q where f: "planeFor (de_Env D) (de_Validator D) h g = (Inr q, h')"
    using assms(6) by (auto simp: Prepare_def split: prod.splits sum.splits)
  then have q: "newPlane (de_Env D) (de_Validator D) h g = Inr q" "h' = h\<lparr>hd_plane := Some q\<rparr>"
    using assms(3) by (auto simp: planeFor_def build_plane_def publish_def split: sum.splits)
  have P: "plane_for (de_Env D) h g q" by (rule newPlane_Inr[OF q(1)])
  have "Check (de_Env D) (de_Validator D) h g = None" by (simp add: Check_def q(1))
  then have c: "Check (de_Env D) (de_Validator D) h (0, snd g) = None"
    using Check_same[OF same_artifact_refl, of _ _ h "fst g" "snd g" 0] by simp
  have "loaded_by (de_Lib D) (snd g)" "fits (so_maxTools st) (snd g)"
    using assms(1,2) by (auto simp: store_ok_def)
  then have "admitted D (fresh_poller st h' reg) (snd g)"
    unfolding admitted_def using assms(4,5) c
    by (auto simp: fresh_poller_def q(2) intro: exI[of _ "snd g"])
  moreover have "pl_reg q = reg" using P assms(4) by (simp add: plane_for_def)
  ultimately show ?thesis
    using assms(1,2) P by (simp add: poller_ok_def in_step_def remembers_def fresh_poller_def no_refusal_def q(2))
qed

section \<open>Witnesses\<close>

definition toy_de :: "(unit, unit) deployment" where
  "toy_de = \<lparr>de_Env = sample_env, de_Validator = toy_validator, de_Lib = toy_catlib,
     de_Admit = Some (\<lambda>c. reloadGuard (960 * second_ns) (Some c))\<rparr>"

definition toy_poller :: "unit poller" where
  "toy_poller = fresh_poller toy_store
     (snd (Prepare sample_env toy_validator toy_handler (the (so_current toy_store)))) sample_registry"

lemma toy_store_ok: "store_ok toy_catlib toy_store"
  unfolding toy_store_def by (intro store_reach_ok store_reach.intros)

lemma toy_poller_ok: "poller_ok toy_de toy_poller"
  unfolding toy_poller_def
proof (rule boot_ok)
  obtain c where c: "so_current toy_store = Some (0, c)" by (rule toy_store_current)
  show "store_ok (de_Lib toy_de) toy_store" by (simp add: toy_de_def toy_store_ok)
  show "so_current toy_store = Some (the (so_current toy_store))" by (simp add: c)
  show "hd_plane toy_handler = None" by (simp add: toy_handler_def)
  show "pk_NewRegistry (en_Policy (de_Env toy_de)) (ct_Compartments (snd (the (so_current toy_store)))) = Inr sample_registry"
    by (simp add: toy_de_def sample_env_def sample_policy_def)
  have "reloadGuard (960 * second_ns) (Some (snd (the (so_current toy_store)))) = None" by code_simp
  then show "f (snd (the (so_current toy_store))) = None" if "de_Admit toy_de = Some f" for f
    using that by (auto simp: toy_de_def)
  have "fst (Prepare sample_env toy_validator toy_handler (the (so_current toy_store))) = None" by code_simp
  then show "Prepare (de_Env toy_de) (de_Validator toy_de) toy_handler (the (so_current toy_store)) =
      (None, snd (Prepare sample_env toy_validator toy_handler (the (so_current toy_store))))"
    by (simp add: toy_de_def prod_eq_iff)
qed

definition toy_poll :: "string \<Rightarrow> string \<Rightarrow> int \<Rightarrow> poll_input" where
  "toy_poll etag body now = \<lparr>pi_ETag = Inr etag, pi_Read = Inr body, pi_Load = now, pi_Swap = now,
     pi_Sweep = now, pi_Before = 0, pi_After = 0, pi_Now = now\<rparr>"

lemma toy_clock:
  "so_current (po_store toy_poller) = Some g \<Longrightarrow> ct_LoadedAt (snd g) \<le> pi_Swap (toy_poll e b 1000)"
  by (rule toy_store_current) (auto simp: toy_poller_def fresh_poller_def toy_poll_def)

lemma toy_polled:
  "fst (Once toy_de (toy_poll ''v2'' ''other'' 1000) toy_poller) = Swapped"
  "serving (snd (Once toy_de (toy_poll ''v2'' ''other'' 1000) toy_poller)) = ''sha256:05''"
  "fst (Once toy_de (toy_poll ''v2'' ''bad'' 1000) toy_poller) = Kept"
  by code_simp+

lemma refusal_keeps_serving_witness:
  "po_store (snd (Once toy_de (toy_poll ''v2'' ''bad'' 1000) toy_poller)) = po_store toy_poller"
  using refusal_keeps_serving[of toy_de "toy_poll ''v2'' ''bad'' 1000" toy_poller Kept] toy_polled(3)
  by (metis poll_outcome.distinct(5) prod.collapse)

lemma poll_refines_register_witness:
  "\<exists>c c'. in_force toy_poller = Some c \<and> in_force (snd (Once toy_de (toy_poll ''v2'' ''other'' 1000) toy_poller)) = Some c' \<and>
     register_step (admitted toy_de toy_poller) ct_Digest c Swapped c'"
proof -
  have "Once toy_de (toy_poll ''v2'' ''other'' 1000) toy_poller =
      (Swapped, snd (Once toy_de (toy_poll ''v2'' ''other'' 1000) toy_poller))"
    using toy_polled(1) by (simp add: prod_eq_iff)
  from poll_refines_register[OF toy_poller_ok this toy_clock] show ?thesis .
qed

lemma served_always_governed_witness:
  "\<exists>g (q :: unit plane). so_current (po_store (snd (Once toy_de (toy_poll ''v2'' ''other'' 1000) toy_poller))) = Some g \<and>
     po_taxonomy (snd (Once toy_de (toy_poll ''v2'' ''other'' 1000) toy_poller)) = Some (pl_reg q)"
proof -
  have "Once toy_de (toy_poll ''v2'' ''other'' 1000) toy_poller =
      (Swapped, snd (Once toy_de (toy_poll ''v2'' ''other'' 1000) toy_poller))"
    using toy_polled(1) by (simp add: prod_eq_iff)
  from serving_step.poll[OF toy_clock this]
  have "(serving_step toy_de)\<^sup>*\<^sup>* toy_poller (snd (Once toy_de (toy_poll ''v2'' ''other'' 1000) toy_poller))" by blast
  from served_always_governed[OF this toy_poller_ok] show ?thesis by blast
qed

lemma good_artifact_served_witness:
  "serving (snd (Once toy_de (toy_poll ''v2'' ''other'' 1000) toy_poller)) = DigestOf toy_catlib ''other''"
proof -
  have pre: "preflight toy_de 1000 ''other'' toy_poller = None" by code_simp
  have last: "po_etag toy_poller = []" "rf_etag (po_last toy_poller) = []" "so_maxTools (po_store toy_poller) = 0"
    by (simp_all add: toy_poller_def fresh_poller_def no_refusal_def) code_simp
  obtain out p' where o: "Once toy_de (toy_poll ''v2'' ''other'' 1000) toy_poller = (out, p')" by (metis surj_pair)
  have "out \<noteq> Kept \<and> serving p' = DigestOf (de_Lib toy_de) ''other''"
    by (rule good_artifact_served[OF toy_poller_ok, of "toy_poll ''v2'' ''other'' 1000" "''v2''"])
       (use pre last o in \<open>simp_all add: toy_poll_def fits_def\<close>)
  then show ?thesis using o by (simp add: toy_de_def)
qed

lemma refused_not_refetched_witness:
  "Once toy_de ((toy_poll ''v2'' ''bad'' 2000)\<lparr>pi_Read := Inr ''other''\<rparr>)
     (snd (Once toy_de (toy_poll ''v2'' ''bad'' 1000) toy_poller)) =
   Once toy_de (toy_poll ''v2'' ''bad'' 2000) (snd (Once toy_de (toy_poll ''v2'' ''bad'' 1000) toy_poller))"
  by (rule refused_not_refetched[of _ "toy_poll ''v2'' ''bad'' 1000" toy_poller _ "''v2''"])
     (use toy_polled(3) in \<open>simp_all add: prod_eq_iff toy_poll_def\<close>)

end
