(* ===== verification/Transport.thy ===== *)
theory Transport
  imports Plugins "HOL-Library.List_Lexorder" "HOL-Library.Char_ord" "HOL-Library.Product_Lexorder"
    "HOL-Library.Multiset" "HOL-Library.AList"
begin

text \<open>
  \<open>internal/transport/transport.go\<close>: a discovery round and what may be concluded from it; and
  \<open>internal/transport/nats/nats.go\<close>: the adapter that calls a tool (\<open>Invoke\<close>; its place behind the
  chain is theory \<open>Hop\<close>) and that asks the plane what is running (\<open>ping\<close>, \<open>info\<close>, \<open>collect\<close>, \<open>Services\<close>).

  The broker is a parameter: the replies one question drew, in the order they were read, and whether
  the collection window had closed when reading ended. Goroutines of one round finish in the order
  \<open>dn_order\<close> gives. Durations bound how long the broker is listened to, so they are inside it.
\<close>

section \<open>Rounds\<close>

record service =
  sv_Name :: string
  sv_Instance :: string
  sv_Version :: string
  sv_Identity :: string
  sv_Subjects :: "string list"

record round =
  rn_Services :: "service list"
  rn_Enumeration :: "go_err option"
  rn_Partial :: "(string \<times> go_err) list"

definition ConcludesAbsence :: "round \<Rightarrow> bool" where
  "ConcludesAbsence r = (rn_Enumeration r = None)"

definition Complete :: "round \<Rightarrow> string \<Rightarrow> bool" where
  "Complete r name =
     (if rn_Enumeration r \<noteq> None then False else map_of (rn_Partial r) name = None)"

section \<open>One scatter-gather\<close>

datatype reply = Data string | NoResponders | ReplyErr string

text \<open>What one question drew: it could not be asked, or the replies and whether the window closed.\<close>

type_synonym gathered = "string + (reply list \<times> bool)"

datatype short = Interrupted string | WindowClosed nat

fun collect_loop :: "(string \<Rightarrow> 's \<Rightarrow> 's) \<Rightarrow> bool \<Rightarrow> nat \<Rightarrow> 's \<Rightarrow> reply list \<Rightarrow> 's \<times> nat \<times> short option" where
  "collect_loop f ended heard s [] =
     (s, heard, if heard > 0 \<and> ended then Some (WindowClosed heard) else None)"
| "collect_loop f ended heard s (NoResponders # rs) =
     (s, heard, if heard > 0 \<and> ended then Some (WindowClosed heard) else None)"
| "collect_loop f ended heard s (ReplyErr e # rs) = (s, heard, Some (Interrupted e))"
| "collect_loop f ended heard s (Data d # rs) = collect_loop f ended (heard + 1) (f d s) rs"

definition collect ::
  "(string \<Rightarrow> 's \<Rightarrow> 's) \<Rightarrow> 's \<Rightarrow> gathered \<Rightarrow> 's \<times> nat \<times> short option \<times> string option" where
  "collect f s g =
     (case g of
        Inl e \<Rightarrow> (s, 0, None, Some e)
      | Inr (rs, ended) \<Rightarrow> (case collect_loop f ended 0 s rs of (s', n, inc) \<Rightarrow> (s', n, inc, None)))"

section \<open>Enumeration\<close>

text \<open>
  The subjects of the two questions, the broker's answers, the library's decoding of a reply, whether
  the caller is gone after either half, and the order in which the per-service rounds finish.
\<close>

record discovery =
  dn_ping_subject :: "string + string"
  dn_info_subject :: "string \<Rightarrow> string + string"
  dn_ask :: "string \<Rightarrow> gathered"
  dn_decode_ping :: "string \<Rightarrow> (string \<times> string) option"
  dn_decode_info :: "string \<Rightarrow> service option"
  dn_gone_early :: "go_err option"
  dn_gone_late :: "go_err option"
  dn_order :: "string list \<Rightarrow> string list"

record enumeration =
  en_instances :: "(string \<times> string list) list"
  en_seen :: "string list"

definition ping_key :: "string \<Rightarrow> string \<Rightarrow> string" where
  "ping_key name i = name @ [CHR 0x00] @ i"

definition instances_of :: "enumeration \<Rightarrow> string \<Rightarrow> string list" where
  "instances_of e name = (case map_of (en_instances e) name of Some ids \<Rightarrow> ids | None \<Rightarrow> [])"

definition ping_reply :: "(string \<Rightarrow> (string \<times> string) option) \<Rightarrow> string \<Rightarrow> enumeration \<Rightarrow> enumeration" where
  "ping_reply decode d e =
     (case decode d of
        None \<Rightarrow> e
      | Some (name, i) \<Rightarrow>
          if name = [] \<or> ping_key name i \<in> set (en_seen e) then e
          else \<lparr>en_instances = AList.update name (instances_of e name @ [i]) (en_instances e),
                en_seen = ping_key name i # en_seen e\<rparr>)"

definition incomplete_round :: "string \<Rightarrow> go_err" where
  "incomplete_round what = Wrapped what [Sentinel SIncompleteRound]"

definition ping :: "discovery \<Rightarrow> go_err + (enumeration \<times> go_err option)" where
  "ping D =
     (case dn_ping_subject D of
        Inl e \<Rightarrow> Inl (Plain e)
      | Inr subject \<Rightarrow>
          (case collect (ping_reply (dn_decode_ping D)) \<lparr>en_instances = [], en_seen = []\<rparr>
                  (dn_ask D subject) of
             (e, heard, incomplete, failed) \<Rightarrow>
               (case failed of
                  Some x \<Rightarrow> Inl (Plain x)
                | None \<Rightarrow>
                    (case incomplete of
                       Some x \<Rightarrow> Inr (e, Some (incomplete_round ''the plane-wide enumeration''))
                     | None \<Rightarrow> Inr (e, None)))))"

section \<open>One service\<close>

definition info_reply :: "(string \<Rightarrow> service option) \<Rightarrow> string \<Rightarrow> service list \<Rightarrow> service list" where
  "info_reply decode d out =
     (case decode d of
        None \<Rightarrow> out
      | Some s \<Rightarrow> if sv_Instance s \<in> set (map sv_Instance out) then out else out @ [s])"

definition info :: "discovery \<Rightarrow> string \<Rightarrow> string list \<Rightarrow> service list \<times> go_err option" where
  "info D name want =
     (case dn_info_subject D name of
        Inl e \<Rightarrow> ([], Some (incomplete_round ''building the discovery subject''))
      | Inr subject \<Rightarrow>
          (case collect (info_reply (dn_decode_info D)) [] (dn_ask D subject) of
             (out, heard, incomplete, failed) \<Rightarrow>
               if failed \<noteq> None then (out, Some (incomplete_round ''could not be asked''))
               else if incomplete \<noteq> None then (out, Some (incomplete_round ''the round was cut short''))
               else if length out < length want
                 then (out, Some (incomplete_round ''fewer instances answered than the enumeration counted''))
               else (out, None)))"

section \<open>The round\<close>

text \<open>One goroutine's result, added under the lock.\<close>

definition add_service :: "discovery \<Rightarrow> enumeration \<Rightarrow> string \<Rightarrow> round \<Rightarrow> round" where
  "add_service D e name r =
     (case info D name (instances_of e name) of
        (svcs, incomplete) \<Rightarrow>
          r\<lparr>rn_Services := rn_Services r @ svcs,
            rn_Partial := (case incomplete of
                             None \<Rightarrow> rn_Partial r
                           | Some x \<Rightarrow> AList.update name x (rn_Partial r))\<rparr>)"

definition Services :: "discovery \<Rightarrow> go_err + round" where
  "Services D =
     (case ping D of
        Inl e \<Rightarrow> Inl e
      | Inr (e, enumErr) \<Rightarrow>
     (case dn_gone_early D of
        Some g \<Rightarrow> Inl g
      | None \<Rightarrow>
     (let names = sort (map fst (en_instances e));
          r = fold (add_service D e) (dn_order D names)
                \<lparr>rn_Services = [], rn_Enumeration = enumErr, rn_Partial = []\<rparr>
      in case dn_gone_late D of
           Some g \<Rightarrow> Inl g
         | None \<Rightarrow> Inr (r\<lparr>rn_Services := sort_key (\<lambda>s. (sv_Name s, sv_Instance s)) (rn_Services r)\<rparr>))))"

section \<open>Calling a tool\<close>

text \<open>
  The context's deadline, the invocation context the chain put on it, and the library: marshalling,
  the header encoding, the subject of a route, and the broker's reply (its error header or its data).
\<close>

text \<open>\<open>BusReply code msg data\<close>: the two error headers of the reply (empty when absent) and its payload.\<close>

datatype bus_reply = NobodyListening | BusErr string | BusReply string string string

record wire_call =
  wc_deadline :: "int option"
  wc_context :: "invocation_context option"
  wc_new_id :: string

record bus =
  bu_Marshal :: "pmsg \<Rightarrow> string + string"
  bu_Encode :: "invocation_context \<Rightarrow> int option \<Rightarrow> string + string"
  bu_Subject :: "string \<Rightarrow> string"
  bu_Request :: "hist \<Rightarrow> string \<Rightarrow> string \<Rightarrow> string \<Rightarrow> bus_reply"
  bu_Unmarshal :: "md option \<Rightarrow> string \<Rightarrow> string + pmsg"

definition no_invocation :: invocation_context where
  "no_invocation = \<lparr>ic_Tenant = [], ic_CorrelationId = [], ic_Subject = [], ic_Kind = 0, ic_Agent = [],
     ic_CallId = [], ic_Act = []\<rparr>"

definition invocationFor :: "wire_call \<Rightarrow> invocation_context \<times> int option" where
  "invocationFor w =
     (let ic = (case wc_context w of Some up \<Rightarrow> up | None \<Rightarrow> no_invocation);
          ic' = (if ic_CallId ic = [] then ic\<lparr>ic_CallId := wc_new_id w\<rparr> else ic)
      in (ic', wc_deadline w))"

definition nats_Invoke :: "bus \<Rightarrow> hist \<Rightarrow> wire_call \<Rightarrow> string \<Rightarrow> pmsg \<Rightarrow> md option \<Rightarrow> go_err + pmsg" where
  "nats_Invoke B hist w procedure req out =
     (case bu_Marshal B req of
        Inl e \<Rightarrow> Inl (Wrapped (''marshalling the request for '' @ procedure) [Plain e])
      | Inr body \<Rightarrow>
     (case bu_Encode B (fst (invocationFor w)) (snd (invocationFor w)) of
        Inl e \<Rightarrow> Inl (Wrapped (''encoding the invocation context for '' @ procedure) [Plain e])
      | Inr encoded \<Rightarrow>
     (case bu_Request B hist (bu_Subject B procedure) encoded body of
        NobodyListening \<Rightarrow> Inl (Wrapped procedure [Sentinel SUnreachable])
      | BusErr e \<Rightarrow> Inl (Wrapped (''calling '' @ procedure) [Plain e])
      | BusReply code msg data \<Rightarrow>
     if code \<noteq> [] then Inl (CodedError code msg)
     else (case bu_Unmarshal B out data of
        Inl e \<Rightarrow> Inl (Wrapped (procedure @ '' replied with something that is not its declared response'') [Plain e])
      | Inr resp \<Rightarrow> Inr resp))))"

section \<open>What a round knows\<close>

definition names_of :: "enumeration \<Rightarrow> string list" where
  "names_of e = map fst (en_instances e)"

lemma ping_reply_distinct: "distinct (names_of e) \<Longrightarrow> distinct (names_of (ping_reply g d e))"
  by (auto simp: ping_reply_def names_of_def distinct_update split: option.split)

lemma collect_loop_inv:
  assumes "\<And>d s. I s \<Longrightarrow> I (f d s)" "I s"
  shows "I (fst (collect_loop f ended n s rs))"
  using assms(2)
proof (induction rs arbitrary: s n)
  case (Cons x rs)
  then show ?case by (cases x) (auto intro: assms(1))
qed simp

lemma collect_inv:
  assumes "\<And>d s. I s \<Longrightarrow> I (f d s)" "I s"
  shows "I (fst (collect f s g))"
proof (cases g)
  case (Inr p)
  obtain rs ended where p: "p = (rs, ended)" by (cases p)
  have "I (fst (collect_loop f ended 0 s rs))" by (rule collect_loop_inv[of I f, OF assms])
  then show ?thesis
    by (cases "collect_loop f ended 0 s rs") (simp add: collect_def Inr p)
qed (simp add: collect_def assms(2))

lemma ping_distinct:
  assumes "ping D = Inr (e, en)"
  shows "distinct (names_of e)"
proof -
  obtain subject heard inc where "collect (ping_reply (dn_decode_ping D)) \<lparr>en_instances = [], en_seen = []\<rparr>
      (dn_ask D subject) = (e, heard, inc, None)"
    using assms by (auto simp: ping_def split: sum.splits prod.splits option.splits)
  then show ?thesis
    using collect_inv[of "\<lambda>e. distinct (names_of e)" "ping_reply (dn_decode_ping D)"
        "\<lparr>en_instances = [], en_seen = []\<rparr>" "dn_ask D subject"] ping_reply_distinct
    by (simp add: names_of_def)
qed

lemma info_distinct: "distinct (map sv_Instance (fst (info D name want)))"
proof -
  have "distinct (map sv_Instance (fst (collect (info_reply (dn_decode_info D)) [] g)))" for g
    by (rule collect_inv) (auto simp: info_reply_def split: option.split)
  then show ?thesis by (auto simp: info_def split: sum.split prod.split) (metis fst_conv)+
qed

lemma info_full: "snd (info D name want) = None \<Longrightarrow> length want \<le> length (fst (info D name want))"
  by (auto simp: info_def split: sum.splits prod.splits if_splits)

lemma add_service_fields:
  "rn_Services (add_service D e n r) = rn_Services r @ fst (info D n (instances_of e n))"
  "rn_Enumeration (add_service D e n r) = rn_Enumeration r"
  "map_of (rn_Partial (add_service D e n r)) k =
     (if k = n \<and> snd (info D n (instances_of e n)) \<noteq> None then snd (info D n (instances_of e n))
      else map_of (rn_Partial r) k)"
  by (auto simp: add_service_def update_conv split: prod.split option.split)

lemma add_services:
  assumes "distinct ns"
  shows "mset (rn_Services (fold (add_service D e) ns r)) =
      mset (rn_Services r) + (\<Sum>n \<in># mset ns. mset (fst (info D n (instances_of e n))))"
    and "rn_Enumeration (fold (add_service D e) ns r) = rn_Enumeration r"
    and "map_of (rn_Partial (fold (add_service D e) ns r)) k =
      (if k \<in> set ns \<and> snd (info D k (instances_of e k)) \<noteq> None then snd (info D k (instances_of e k))
       else map_of (rn_Partial r) k)"
proof -
  show "mset (rn_Services (fold (add_service D e) ns r)) =
      mset (rn_Services r) + (\<Sum>n \<in># mset ns. mset (fst (info D n (instances_of e n))))"
    by (induction ns arbitrary: r) (auto simp: add_service_fields)
  show "rn_Enumeration (fold (add_service D e) ns r) = rn_Enumeration r"
    by (induction ns arbitrary: r) (auto simp: add_service_fields)
  show "map_of (rn_Partial (fold (add_service D e) ns r)) k =
      (if k \<in> set ns \<and> snd (info D k (instances_of e k)) \<noteq> None then snd (info D k (instances_of e k))
       else map_of (rn_Partial r) k)"
    using assms by (induction ns arbitrary: r) (auto simp: add_service_fields)
qed

definition fair_order :: "discovery \<Rightarrow> bool" where
  "fair_order D \<longleftrightarrow> (\<forall>ns. mset (dn_order D ns) = mset ns)"

lemma Services_parts:
  assumes "Services D = Inr r" "fair_order D"
  obtains e where "ping D = Inr (e, rn_Enumeration r)"
    "mset (rn_Services r) = (\<Sum>n \<in># mset (names_of e). mset (fst (info D n (instances_of e n))))"
    "sorted (map (\<lambda>s. (sv_Name s, sv_Instance s)) (rn_Services r))"
    "\<forall>k. map_of (rn_Partial r) k =
       (if k \<in> set (names_of e) then snd (info D k (instances_of e k)) else None)"
proof -
  obtain e en where p: "ping D = Inr (e, en)"
    using assms(1) by (auto simp: Services_def split: sum.splits)
  let ?ns = "dn_order D (sort (names_of e))"
  let ?r = "fold (add_service D e) ?ns \<lparr>rn_Services = [], rn_Enumeration = en, rn_Partial = []\<rparr>"
  have r: "r = ?r\<lparr>rn_Services := sort_key (\<lambda>s. (sv_Name s, sv_Instance s)) (rn_Services ?r)\<rparr>"
    using assms(1) by (simp add: Services_def p Let_def names_of_def split: option.splits)
  have ms: "mset ?ns = mset (names_of e)" using assms(2) by (simp add: fair_order_def)
  then have d: "distinct ?ns" using ping_distinct[OF p] by (metis mset_eq_imp_distinct_iff)
  have st: "set ?ns = set (names_of e)" by (rule mset_eq_setD[OF ms])
  note A = add_services[OF d, of D e "\<lparr>rn_Services = [], rn_Enumeration = en, rn_Partial = []\<rparr>"]
  show ?thesis
  proof (rule that[of e])
    show "ping D = Inr (e, rn_Enumeration r)" using p A(2) by (simp add: r)
    show "mset (rn_Services r) = (\<Sum>n \<in># mset (names_of e). mset (fst (info D n (instances_of e n))))"
      using A(1) unfolding ms by (simp add: r)
    show "sorted (map (\<lambda>s. (sv_Name s, sv_Instance s)) (rn_Services r))" by (simp add: r)
    show "\<forall>k. map_of (rn_Partial r) k =
       (if k \<in> set (names_of e) then snd (info D k (instances_of e k)) else None)"
      using A(3) unfolding st by (simp add: r)
  qed
qed

text \<open>
  C35: A service said to be heard in full was. When a round succeeds, the instances it lists are those
  that answered, each service asked by its own name once; and a name the enumeration counted, of which
  the round is \<open>Complete\<close>, had at least as many distinct instances answer as were counted. This holds
  in whatever order the concurrent questions finish.
\<close>

theorem complete_means_heard:
  assumes "Services D = Inr r" "fair_order D"
  shows "\<exists>e. ping D = Inr (e, rn_Enumeration r) \<and>
     set (rn_Services r) = (\<Union>n \<in> set (names_of e). set (fst (info D n (instances_of e n)))) \<and>
     (\<forall>n \<in> set (names_of e). Complete r n \<longrightarrow>
        length (instances_of e n) \<le> length (fst (info D n (instances_of e n))) \<and>
        distinct (map sv_Instance (fst (info D n (instances_of e n)))))"
proof -
  obtain e where e: "ping D = Inr (e, rn_Enumeration r)"
      "mset (rn_Services r) = (\<Sum>n \<in># mset (names_of e). mset (fst (info D n (instances_of e n))))"
      "sorted (map (\<lambda>s. (sv_Name s, sv_Instance s)) (rn_Services r))"
      "\<forall>k. map_of (rn_Partial r) k =
         (if k \<in> set (names_of e) then snd (info D k (instances_of e k)) else None)"
    using Services_parts[OF assms] by blast
  have "set (rn_Services r) = (\<Union>n \<in> set (names_of e). set (fst (info D n (instances_of e n))))"
    using arg_cong[OF e(2), of set_mset] by simp
  moreover have "length (instances_of e n) \<le> length (fst (info D n (instances_of e n)))"
    if "n \<in> set (names_of e)" "Complete r n" for n
    using that e(4) by (intro info_full) (simp add: Complete_def split: if_split_asm)
  ultimately show ?thesis using e(1) info_distinct by blast
qed

section \<open>A small plane\<close>

text \<open>Two services; the reply of the second one to its own question is lost.\<close>

definition toy_info :: "string \<Rightarrow> service option" where
  "toy_info d =
     (if d = ''A'' then Some \<lparr>sv_Name = ''orders'', sv_Instance = ''1'', sv_Version = ''1'',
        sv_Identity = ''aaaa'', sv_Subjects = [''shop.Orders.Get'']\<rparr> else None)"

definition toy_plane :: discovery where
  "toy_plane =
     \<lparr>dn_ping_subject = Inr ''PING'', dn_info_subject = Inr,
      dn_ask = (\<lambda>q. if q = ''PING'' then Inr ([Data ''p1'', Data ''p2''], False)
                    else if q = ''orders'' then Inr ([Data ''A''], False) else Inr ([], False)),
      dn_decode_ping = (\<lambda>d. if d = ''p1'' then Some (''stock'', ''7'') else Some (''orders'', ''1'')),
      dn_decode_info = toy_info, dn_gone_early = None, dn_gone_late = None, dn_order = rev\<rparr>"

lemma toy_plane_round:
  "Services toy_plane = Inr \<lparr>rn_Services = [the (toy_info ''A'')], rn_Enumeration = None,
     rn_Partial = [(''stock'', incomplete_round ''fewer instances answered than the enumeration counted'')]\<rparr>"
  by code_simp

lemma complete_means_heard_witness:
  "\<exists>r e. Services toy_plane = Inr r \<and> ping toy_plane = Inr (e, rn_Enumeration r) \<and>
     Complete r ''orders'' \<and> \<not> Complete r ''stock''"
proof -
  note r = toy_plane_round
  have f: "fair_order toy_plane" by (simp add: fair_order_def toy_plane_def)
  have "Complete (projr (Services toy_plane)) ''orders''" "\<not> Complete (projr (Services toy_plane)) ''stock''"
    by (simp_all add: r Complete_def)
  then show ?thesis using complete_means_heard[OF r f] unfolding r by auto
qed

end
