(* ===== verification/Reconcile.thy ===== *)
theory Reconcile
  imports Transport CatalogueProps
begin

text \<open>
  \<open>internal/serve/reconcile.go\<close>: the sweep that compares what is running with what the catalogue
  declares, the quarantine it keeps, and what a round that was not heard in full may change of it.

  \<open>subj\<close> is \<open>wire.Subject\<close> of the contracts module. A sweep writes log lines when it has a logger; they
  are listed in the order of the code, the ranges over Go maps in the order the model keeps them.
  The ticker of \<open>Run\<close> is the sequence of sweeps \<open>sweeps\<close> runs.
\<close>

section \<open>State\<close>

datatype verdict =
    NoHashRecorded string string
  | NoIdentity string string
  | OtherContract string string string string

fun verdict_text :: "verdict \<Rightarrow> string" where
  "verdict_text (NoHashRecorded pkg svc) =
     ''the catalogue records no descriptor hash for '' @ pkg @ '', so nothing can be verified against '' @
     svc @ ''; rebuild it with a garm that stamps one''"
| "verdict_text (NoIdentity svc pkg) =
     svc @ '' advertises no descriptor hash, so it cannot be shown to implement '' @ pkg @
     ''; it was built with a runtime that does not publish one''"
| "verdict_text (OtherContract svc pkg got want) =
     svc @ '' implements a different contract from the catalogue for '' @ pkg @ '' (advertises '' @ got @
     '', catalogue declares '' @ want @ '')''"

text \<open>A verdict per quarantined package, the packages something serves, and the time of the last sweep.\<close>

record reconciler =
  rq_quarantined :: "(string \<times> verdict) list"
  rq_seen :: "string list"
  rq_last :: "int option"

definition Quarantined :: "reconciler \<Rightarrow> string \<Rightarrow> verdict option" where
  "Quarantined r pkg = map_of (rq_quarantined r) pkg"

definition pkgOfFQN :: "string \<Rightarrow> string" where
  "pkgOfFQN fqn = (case last_cut_byte (CHR ''.'') fqn of Some pkg \<Rightarrow> pkg | None \<Rightarrow> fqn)"

text \<open>The first twelve bytes and an ellipsis in UTF-8.\<close>

definition short_hash :: "string \<Rightarrow> string" where
  "short_hash h = (if length h > 12 then take 12 h @ [CHR 0xE2, CHR 0x80, CHR 0xA6] else h)"

section \<open>One sweep\<close>

definition pkg_of :: "(string \<Rightarrow> string) \<Rightarrow> tooldef list \<Rightarrow> (string \<times> string) list" where
  "pkg_of subj ds = fold (\<lambda>d. AList.update (subj (t_FullMethod d)) (pkgOfFQN (t_FQN d))) ds []"

definition declared_hash :: "'p catalogue \<Rightarrow> string \<Rightarrow> string" where
  "declared_hash c pkg = (case map_of (ct_DescriptorHashes c) pkg of Some h \<Rightarrow> h | None \<Rightarrow> [])"

definition verdict_on :: "'p catalogue \<Rightarrow> string \<Rightarrow> service \<Rightarrow> verdict option" where
  "verdict_on c pkg svc =
     (let want = declared_hash c pkg
      in if want = [] then Some (NoHashRecorded pkg (sv_Name svc))
         else if sv_Identity svc = [] then Some (NoIdentity (sv_Name svc) pkg)
         else if sv_Identity svc \<noteq> want
           then Some (OtherContract (sv_Name svc) pkg (short_hash (sv_Identity svc)) (short_hash want))
         else None)"

record tally =
  ta_bad :: "(string \<times> verdict) list"
  ta_seen :: "string list"
  ta_service :: "(string \<times> string) list"

definition hear_subject ::
  "'p catalogue \<Rightarrow> (string \<times> string) list \<Rightarrow> service \<Rightarrow> string \<Rightarrow> tally \<Rightarrow> tally" where
  "hear_subject c pkgs svc subject t =
     (case map_of pkgs subject of
        None \<Rightarrow> t
      | Some pkg \<Rightarrow>
          \<lparr>ta_bad = (case verdict_on c pkg svc of
                       None \<Rightarrow> ta_bad t
                     | Some v \<Rightarrow> AList.update pkg v (ta_bad t)),
           ta_seen = List.insert pkg (ta_seen t),
           ta_service = AList.update pkg (sv_Name svc) (ta_service t)\<rparr>)"

definition hear_service :: "'p catalogue \<Rightarrow> (string \<times> string) list \<Rightarrow> service \<Rightarrow> tally \<Rightarrow> tally" where
  "hear_service c pkgs svc t = fold (hear_subject c pkgs svc) (sv_Subjects svc) t"

definition pkg_service :: "tally \<Rightarrow> string \<Rightarrow> string" where
  "pkg_service t pkg = (case map_of (ta_service t) pkg of Some n \<Rightarrow> n | None \<Rightarrow> [])"

text \<open>The verdicts that stand because the round is no evidence against them.\<close>

definition carry ::
  "round \<Rightarrow> tally \<Rightarrow> string \<times> verdict \<Rightarrow> (string \<times> verdict) list \<Rightarrow> (string \<times> verdict) list" where
  "carry rn t = (\<lambda>(pkg, why) bad.
     if map_of bad pkg \<noteq> None then bad
     else if \<not> Complete rn (pkg_service t pkg) then AList.update pkg why bad
     else bad)"

definition carry_over :: "round \<Rightarrow> tally \<Rightarrow> (string \<times> verdict) list \<Rightarrow> (string \<times> verdict) list" where
  "carry_over rn t prev = fold (carry rn t) prev (ta_bad t)"

datatype sweep_line =
    SweepFailed go_err | EnumerationShort go_err | HeardInPart string go_err
  | RefusingToRoute string verdict | MismatchResolved string

definition sweep_lines ::
  "round \<Rightarrow> (string \<times> verdict) list \<Rightarrow> (string \<times> verdict) list \<Rightarrow> sweep_line list" where
  "sweep_lines rn prev bad =
     (case rn_Enumeration rn of Some e \<Rightarrow> [EnumerationShort e] | None \<Rightarrow> []) @
     map (\<lambda>(n, e). HeardInPart n e) (rn_Partial rn) @
     map (\<lambda>(pkg, why). RefusingToRoute pkg why)
       (filter (\<lambda>(pkg, why). map_of prev pkg \<noteq> Some why) bad) @
     map (\<lambda>(pkg, why). MismatchResolved pkg) (filter (\<lambda>(pkg, why). map_of bad pkg = None) prev)"

definition sweep ::
  "(string \<Rightarrow> string) \<Rightarrow> 'p catalogue option \<Rightarrow> go_err + round \<Rightarrow> int \<Rightarrow> reconciler \<Rightarrow>
     reconciler \<times> sweep_line list" where
  "sweep subj cat disc now r =
     (case cat of
        None \<Rightarrow> (r, [])
      | Some c \<Rightarrow>
     (case disc of
        Inl e \<Rightarrow> (r, [SweepFailed e])
      | Inr rn \<Rightarrow>
          (let t = fold (hear_service c (pkg_of subj (ct_Defs c))) (rn_Services rn)
                     \<lparr>ta_bad = [], ta_seen = [], ta_service = []\<rparr>;
               bad = carry_over rn t (rq_quarantined r);
               seen = (if \<not> ConcludesAbsence rn then fold List.insert (rq_seen r) (ta_seen t)
                       else ta_seen t)
           in (\<lparr>rq_quarantined = bad, rq_seen = seen, rq_last = Some now\<rparr>,
               sweep_lines rn (rq_quarantined r) bad))))"

text \<open>The sweeps of a process: the catalogue current at each, what discovery answered, and the time.\<close>

fun sweeps ::
  "(string \<Rightarrow> string) \<Rightarrow> ('p catalogue option \<times> (go_err + round) \<times> int) list \<Rightarrow> reconciler \<Rightarrow> reconciler" where
  "sweeps subj [] r = r"
| "sweeps subj ((cat, disc, now) # xs) r = sweeps subj xs (fst (sweep subj cat disc now r))"

section \<open>What a sweep decides\<close>

text \<open>A service answers for a package when one of its subjects is one of that package's routes.\<close>

definition answers_for :: "(string \<times> string) list \<Rightarrow> string \<Rightarrow> service \<Rightarrow> bool" where
  "answers_for pkgs pkg svc \<longleftrightarrow> (\<exists>s \<in> set (sv_Subjects svc). map_of pkgs s = Some pkg)"

definition carrier :: "(string \<times> string) list \<Rightarrow> string \<Rightarrow> service list \<Rightarrow> string" where
  "carrier pkgs pkg svcs =
     (case rev (filter (answers_for pkgs pkg) svcs) of [] \<Rightarrow> [] | s # _ \<Rightarrow> sv_Name s)"

definition agrees :: "'p catalogue \<Rightarrow> string \<Rightarrow> service \<Rightarrow> bool" where
  "agrees c pkg svc \<longleftrightarrow> declared_hash c pkg \<noteq> [] \<and> sv_Identity svc = declared_hash c pkg"

lemma verdict_on_None: "verdict_on c pkg svc = None \<longleftrightarrow> agrees c pkg svc"
  by (auto simp: verdict_on_def agrees_def Let_def)

lemma hear_subject_fields:
  "map_of (ta_bad (hear_subject c pkgs svc s t)) k =
     (if map_of pkgs s = Some k \<and> \<not> agrees c k svc then verdict_on c k svc else map_of (ta_bad t) k)"
  "set (ta_seen (hear_subject c pkgs svc s t)) =
     set (ta_seen t) \<union> {k. map_of pkgs s = Some k}"
  "map_of (ta_service (hear_subject c pkgs svc s t)) k =
     (if map_of pkgs s = Some k then Some (sv_Name svc) else map_of (ta_service t) k)"
  using verdict_on_None[of c k svc]
  by (auto simp: hear_subject_def update_conv split: option.splits)

lemma hear_service_fields:
  "map_of (ta_bad (hear_service c pkgs svc t)) k =
     (if answers_for pkgs k svc \<and> \<not> agrees c k svc then verdict_on c k svc else map_of (ta_bad t) k)"
  "set (ta_seen (hear_service c pkgs svc t)) = set (ta_seen t) \<union> {k. answers_for pkgs k svc}"
  "map_of (ta_service (hear_service c pkgs svc t)) k =
     (if answers_for pkgs k svc then Some (sv_Name svc) else map_of (ta_service t) k)"
proof -
  have "map_of (ta_bad (fold (hear_subject c pkgs svc) ss t)) k =
     (if (\<exists>s \<in> set ss. map_of pkgs s = Some k) \<and> \<not> agrees c k svc then verdict_on c k svc
      else map_of (ta_bad t) k)" for ss
    by (induction ss arbitrary: t) (auto simp: hear_subject_fields)
  then show "map_of (ta_bad (hear_service c pkgs svc t)) k =
     (if answers_for pkgs k svc \<and> \<not> agrees c k svc then verdict_on c k svc else map_of (ta_bad t) k)"
    by (simp add: hear_service_def answers_for_def)
  have "set (ta_seen (fold (hear_subject c pkgs svc) ss t)) =
     set (ta_seen t) \<union> {k. \<exists>s \<in> set ss. map_of pkgs s = Some k}" for ss
    by (induction ss arbitrary: t) (auto simp: hear_subject_fields)
  then show "set (ta_seen (hear_service c pkgs svc t)) = set (ta_seen t) \<union> {k. answers_for pkgs k svc}"
    by (simp add: hear_service_def answers_for_def)
  have "map_of (ta_service (fold (hear_subject c pkgs svc) ss t)) k =
     (if \<exists>s \<in> set ss. map_of pkgs s = Some k then Some (sv_Name svc) else map_of (ta_service t) k)" for ss
    by (induction ss arbitrary: t) (auto simp: hear_subject_fields)
  then show "map_of (ta_service (hear_service c pkgs svc t)) k =
     (if answers_for pkgs k svc then Some (sv_Name svc) else map_of (ta_service t) k)"
    by (simp add: hear_service_def answers_for_def)
qed

lemma carrier_Cons_last:
  "carrier pkgs k (svcs @ [s]) = (if answers_for pkgs k s then sv_Name s else carrier pkgs k svcs)"
  by (simp add: carrier_def)

definition tally_of :: "'p catalogue \<Rightarrow> (string \<times> string) list \<Rightarrow> service list \<Rightarrow> tally" where
  "tally_of c pkgs svcs = fold (hear_service c pkgs) svcs \<lparr>ta_bad = [], ta_seen = [], ta_service = []\<rparr>"

lemma tally_fields:
  "map_of (ta_bad (tally_of c pkgs svcs)) k = None \<longleftrightarrow>
     (\<forall>svc \<in> set svcs. answers_for pkgs k svc \<longrightarrow> agrees c k svc)"
  "set (ta_seen (tally_of c pkgs svcs)) = {k. \<exists>svc \<in> set svcs. answers_for pkgs k svc}"
  "pkg_service (tally_of c pkgs svcs) k = carrier pkgs k svcs"
proof -
  show "map_of (ta_bad (tally_of c pkgs svcs)) k = None \<longleftrightarrow>
     (\<forall>svc \<in> set svcs. answers_for pkgs k svc \<longrightarrow> agrees c k svc)"
    by (induction svcs rule: rev_induct)
       (auto simp: tally_of_def hear_service_fields verdict_on_None)
  show "set (ta_seen (tally_of c pkgs svcs)) = {k. \<exists>svc \<in> set svcs. answers_for pkgs k svc}"
    by (induction svcs rule: rev_induct) (auto simp: tally_of_def hear_service_fields)
  show "pkg_service (tally_of c pkgs svcs) k = carrier pkgs k svcs"
    by (induction svcs rule: rev_induct)
       (auto simp: tally_of_def hear_service_fields pkg_service_def carrier_Cons_last,
        simp add: carrier_def)
qed

lemma carry_eq:
  "map_of (carry rn t (p, why) b) k =
     (case map_of b k of
        Some v \<Rightarrow> Some v
      | None \<Rightarrow> if p = k \<and> \<not> Complete rn (pkg_service t k) then Some why else None)"
  by (cases "map_of b p"; cases "Complete rn (pkg_service t p)")
     (auto simp: carry_def update_conv split: option.split)

lemma carry_over_eq:
  "map_of (carry_over rn t prev) k =
     (case map_of (ta_bad t) k of
        Some v \<Rightarrow> Some v
      | None \<Rightarrow> if Complete rn (pkg_service t k) then None else map_of prev k)"
proof -
  have "map_of (fold (carry rn t) ps b) k =
     (case map_of b k of
        Some v \<Rightarrow> Some v
      | None \<Rightarrow> if Complete rn (pkg_service t k) then None else map_of ps k)" for ps b
  proof (induction ps arbitrary: b)
    case (Cons p ps)
    obtain pkg why where p: "p = (pkg, why)" by (cases p)
    show ?case by (cases "map_of b k") (simp_all add: p Cons.IH carry_eq)
  qed (simp split: option.split)
  then show ?thesis by (simp add: carry_over_def)
qed

lemma sweep_heard:
  assumes "sweep subj (Some c) (Inr rn) now r = (r', ls)"
  defines "pkgs \<equiv> pkg_of subj (ct_Defs c)"
  shows "Quarantined r' k = (case map_of (ta_bad (tally_of c pkgs (rn_Services rn))) k of
      Some v \<Rightarrow> Some v
    | None \<Rightarrow> if Complete rn (carrier pkgs k (rn_Services rn)) then None else Quarantined r k)"
    and "set (rq_seen r') = {k. \<exists>svc \<in> set (rn_Services rn). answers_for pkgs k svc} \<union>
      (if rn_Enumeration rn = None then {} else set (rq_seen r))"
    and "rq_last r' = Some now"
proof -
  have seen: "set (fold List.insert xs ys) = set xs \<union> set ys" for xs ys :: "string list"
    by (induction xs arbitrary: ys) auto
  let ?t = "tally_of c pkgs (rn_Services rn)"
  have "\<lparr>rq_quarantined = carry_over rn ?t (rq_quarantined r),
      rq_seen = (if \<not> ConcludesAbsence rn then fold List.insert (rq_seen r) (ta_seen ?t) else ta_seen ?t),
      rq_last = Some now\<rparr> = r'"
    using assms(1) unfolding sweep_def Let_def tally_of_def pkgs_def option.case sum.case prod.inject
    by (rule conjunct1)
  note r' = this[symmetric]
  show "Quarantined r' k = (case map_of (ta_bad ?t) k of
      Some v \<Rightarrow> Some v
    | None \<Rightarrow> if Complete rn (carrier pkgs k (rn_Services rn)) then None else Quarantined r k)"
    unfolding r' Quarantined_def reconciler.simps carry_over_eq tally_fields(3) ..
  show "set (rq_seen r') = {k. \<exists>svc \<in> set (rn_Services rn). answers_for pkgs k svc} \<union>
      (if rn_Enumeration rn = None then {} else set (rq_seen r))"
    by (auto simp: r' ConcludesAbsence_def seen tally_fields(2))
  show "rq_last r' = Some now" by (simp add: r')
qed

lemma sweep_refuses:
  assumes "sweep subj (Some c) (Inr rn) now r = (r', ls)"
  shows "Quarantined r' pkg \<noteq> None \<longleftrightarrow>
     (\<exists>svc \<in> set (rn_Services rn). answers_for (pkg_of subj (ct_Defs c)) pkg svc \<and> \<not> agrees c pkg svc) \<or>
     Quarantined r pkg \<noteq> None \<and>
     \<not> Complete rn (carrier (pkg_of subj (ct_Defs c)) pkg (rn_Services rn))"
proof -
  have "map_of (ta_bad (tally_of c (pkg_of subj (ct_Defs c)) (rn_Services rn))) pkg = None \<longleftrightarrow>
      \<not> (\<exists>svc \<in> set (rn_Services rn). answers_for (pkg_of subj (ct_Defs c)) pkg svc \<and> \<not> agrees c pkg svc)"
    unfolding tally_fields by blast
  then show ?thesis unfolding sweep_heard(1)[OF assms, of pkg]
    by (cases "map_of (ta_bad (tally_of c (pkg_of subj (ct_Defs c)) (rn_Services rn))) pkg") auto
qed



section \<open>How long a verdict stands\<close>

text \<open>
  A sweep that gives no licence to lift: no catalogue, discovery failed, the enumeration was short, an
  instance that disagrees was heard, or the service last heard for the package was heard in part.
\<close>

definition no_licence :: "(string \<Rightarrow> string) \<Rightarrow> string \<Rightarrow> 'p catalogue option \<Rightarrow> go_err + round \<Rightarrow> bool" where
  "no_licence subj pkg cat disc \<longleftrightarrow>
     (case cat of
        None \<Rightarrow> True
      | Some c \<Rightarrow>
          (case disc of
             Inl _ \<Rightarrow> True
           | Inr rn \<Rightarrow>
               (let pkgs = pkg_of subj (ct_Defs c)
                in rn_Enumeration rn \<noteq> None \<or>
                   (\<exists>svc \<in> set (rn_Services rn). answers_for pkgs pkg svc \<and> \<not> agrees c pkg svc) \<or>
                   map_of (rn_Partial rn) (carrier pkgs pkg (rn_Services rn)) \<noteq> None)))"

lemma sweep_keeps:
  assumes "Quarantined r pkg \<noteq> None"
  shows "Quarantined (fst (sweep subj cat disc now r)) pkg \<noteq> None \<longleftrightarrow> no_licence subj pkg cat disc"
proof (cases cat)
  case (Some c)
  show ?thesis
  proof (cases disc)
    case (Inr rn)
    obtain r' ls where s: "sweep subj (Some c) (Inr rn) now r = (r', ls)" by fastforce
    show ?thesis using assms
      unfolding Some Inr s fst_conv sweep_refuses[OF s] no_licence_def Let_def Complete_def option.case sum.case
      by auto
  qed (use Some assms in \<open>simp add: sweep_def no_licence_def\<close>)
qed (use assms in \<open>simp add: sweep_def no_licence_def\<close>)

lemma sweeps_keep:
  assumes "Quarantined r pkg \<noteq> None" "\<forall>(cat, disc, now) \<in> set xs. no_licence subj pkg cat disc"
  shows "Quarantined (sweeps subj xs r) pkg \<noteq> None"
  using assms
proof (induction xs arbitrary: r)
  case (Cons x xs)
  obtain cat disc now where x: "x = (cat, disc, now)" by (cases x)
  have "Quarantined (fst (sweep subj cat disc now r)) pkg \<noteq> None"
    using sweep_keeps[OF Cons.prems(1), of subj cat disc now] Cons.prems(2) by (simp add: x)
  from Cons.IH[OF this] Cons.prems(2) show ?case by (simp add: x)
qed simp

text \<open>
  A quarantine is lifted only on evidence. However many sweeps pass, a package refused before is
  refused after every one of them until a sweep that ran over a loaded catalogue, enumerated the whole
  plane, heard no instance that disagrees, and did not hear the service it last met for the package
  only in part; a failed sweep, or one that could not enumerate the plane, never lifts anything.
\<close>

theorem quarantine_stands:
  assumes "Quarantined r pkg \<noteq> None"
  shows "Quarantined (sweeps subj xs r) pkg = None \<longrightarrow>
     (\<exists>(cat, disc, now) \<in> set xs. \<exists>c rn. cat = Some c \<and> disc = Inr rn \<and> rn_Enumeration rn = None \<and>
        (\<forall>svc \<in> set (rn_Services rn).
           answers_for (pkg_of subj (ct_Defs c)) pkg svc \<longrightarrow> agrees c pkg svc) \<and>
        map_of (rn_Partial rn) (carrier (pkg_of subj (ct_Defs c)) pkg (rn_Services rn)) = None)"
proof
  assume "Quarantined (sweeps subj xs r) pkg = None"
  then obtain cat disc now where "(cat, disc, now) \<in> set xs" "\<not> no_licence subj pkg cat disc"
    using sweeps_keep[OF assms, of xs subj] by fastforce
  then show "\<exists>(cat, disc, now) \<in> set xs. \<exists>c rn. cat = Some c \<and> disc = Inr rn \<and> rn_Enumeration rn = None \<and>
        (\<forall>svc \<in> set (rn_Services rn).
           answers_for (pkg_of subj (ct_Defs c)) pkg svc \<longrightarrow> agrees c pkg svc) \<and>
        map_of (rn_Partial rn) (carrier (pkg_of subj (ct_Defs c)) pkg (rn_Services rn)) = None"
    by (intro bexI[of _ "(cat, disc, now)"]) (auto simp: no_licence_def Let_def split: option.splits sum.splits)
qed

section \<open>A reply that is lost\<close>

text \<open>
  What a lost reply does. The code's comment asks that a verdict not be lifted while the service it
  is about was heard only in part. But a package nothing answered for this round is looked up under the
  empty service name, of which a round with a full enumeration is always complete: so a quarantine is
  lifted by any such round in which no instance answered for the package, even when the round itself
  marks the package's own service as heard in part, because the reply of the one instance still running
  the wrong contract was the reply that was lost.
\<close>

theorem lost_reply_lifts_quarantine:
  assumes "sweep subj (Some c) (Inr rn) now r = (r', ls)" "rn_Enumeration rn = None"
    and "\<forall>svc \<in> set (rn_Services rn). \<not> answers_for (pkg_of subj (ct_Defs c)) pkg svc"
    and "map_of (rn_Partial rn) [] = None"
  shows "Quarantined r' pkg = None"
proof -
  have "carrier (pkg_of subj (ct_Defs c)) pkg (rn_Services rn) = []"
    using assms(3) by (simp add: carrier_def filter_False)
  then show ?thesis using sweep_refuses[OF assms(1), of pkg] assms(2-4) by (simp add: Complete_def)
qed

section \<open>A deployment\<close>

text \<open>A tool of package \<open>shop\<close>, served by a micro service \<open>stock\<close> that runs another contract.\<close>

definition toy_tool :: tooldef where
  "toy_tool = zero_tool\<lparr>t_FullMethod := ''/shop.Stock/Get'', t_FQN := ''shop.Stock''\<rparr>"

definition toy_contract :: "unit catalogue" where
  "toy_contract =
     \<lparr>ct_Digest = ''d'', ct_SchemaVersion = 1, ct_Files = toy_files, ct_Defs = [toy_tool],
      ct_Compartments = [], ct_ToolSets = [], ct_FieldDocs = [],
      ct_DescriptorHashes = [(''shop'', ''0123456789abcdef'')], ct_Provenance = (), ct_Bytes = 0,
      ct_HeapBytes = 0, ct_LoadedAt = 0\<rparr>"

definition stock_info :: "string \<Rightarrow> service option" where
  "stock_info d = Some \<lparr>sv_Name = ''stock'', sv_Instance = ''7'', sv_Version = ''1'', sv_Identity = d,
     sv_Subjects = [''/shop.Stock/Get'']\<rparr>"

text \<open>The plane with that one instance, its answers to the two questions given.\<close>

definition one_instance :: "reply list \<Rightarrow> reply list \<Rightarrow> discovery" where
  "one_instance pings infos =
     \<lparr>dn_ping_subject = Inr ''PING'', dn_info_subject = Inr,
      dn_ask = (\<lambda>q. Inr (if q = ''PING'' then pings else infos, False)),
      dn_decode_ping = (\<lambda>d. Some (''stock'', ''7'')), dn_decode_info = stock_info,
      dn_gone_early = None, dn_gone_late = None, dn_order = id\<rparr>"

definition fresh_reconciler :: reconciler where
  "fresh_reconciler = \<lparr>rq_quarantined = [], rq_seen = [], rq_last = None\<rparr>"

definition wrong_contract :: "go_err + round" where
  "wrong_contract = Services (one_instance [Data ''x''] [Data ''fedcba9876543210''])"

definition reply_lost :: "go_err + round" where
  "reply_lost = Services (one_instance [Data ''x''] [])"

definition refused_stock :: reconciler where
  "refused_stock = sweeps id [(Some toy_contract, wrong_contract, 1)] fresh_reconciler"

lemma toy_sweeps:
  "Quarantined refused_stock ''shop'' = Some (OtherContract ''stock'' ''shop''
     (short_hash ''fedcba9876543210'') (short_hash ''0123456789abcdef''))"
  "Quarantined (sweeps id [(Some toy_contract, Inl (Plain ''closed''), 2), (None, reply_lost, 3)] refused_stock)
     ''shop'' \<noteq> None"
  "reply_lost = Inr \<lparr>rn_Services = [], rn_Enumeration = None, rn_Partial =
     [(''stock'', incomplete_round ''fewer instances answered than the enumeration counted'')]\<rparr>"
  by code_simp+


lemma quarantine_stands_witness:
  "Quarantined (sweeps id [(Some toy_contract, Inl (Plain ''closed''), 2), (None, reply_lost, 3)] refused_stock)
     ''shop'' \<noteq> None"
  using quarantine_stands[of refused_stock "''shop''" id
      "[(Some toy_contract, Inl (Plain ''closed''), 2), (None, reply_lost, 3)]"] toy_sweeps(1)
  by auto

lemma lost_reply_lifts_quarantine_witness:
  "Quarantined refused_stock ''shop'' \<noteq> None \<and>
   (\<exists>rn. reply_lost = Inr rn \<and> map_of (rn_Partial rn) ''stock'' \<noteq> None \<and>
      Quarantined (fst (sweep id (Some toy_contract) (Inr rn) 2 refused_stock)) ''shop'' = None)"
proof -
  obtain r' ls where s: "sweep id (Some toy_contract) (Inr (projr reply_lost)) 2 refused_stock = (r', ls)" by fastforce
  have "Quarantined r' ''shop'' = None"
    by (rule lost_reply_lifts_quarantine[OF s]) (simp_all add: toy_sweeps(3))
  then show ?thesis using toy_sweeps(1) s by (simp add: toy_sweeps(3))
qed

end
