(* ===== verification/Serve.thy ===== *)
theory Serve
  imports Plane Chain Reconcile Verify Catalog
begin

text \<open>
  \<open>internal/serve/serve.go\<close> and \<open>internal/serve/listtools.go\<close>: the HTTP surface. One request is one
  step on the handler's state (the chain kept) and the effects so far; it answers with a response or
  panics, which \<open>net/http\<close> turns into an aborted connection. Connection handling is the library's: the
  request arrives with its method, path, the headers the handler reads and its body (or the error of
  reading it). The body the handler writes is a value, before the JSON encoder; ages are whole seconds.
\<close>

section \<open>Requests and responses\<close>

record http_request =
  hq_Method :: string
  hq_Path :: string
  hq_Grant :: string
  hq_ContentType :: string
  hq_Authorization :: string
  hq_Body :: "string + string"

record list_item =
  li_FQN :: string
  li_Method :: string
  li_Title :: string
  li_Description :: string
  li_Verb :: string
  li_Sets :: "string list"
  li_Audience :: "string list"
  li_ApprovalMode :: string
  li_MaterialFields :: "string list"
  li_WhenToUse :: string
  li_WhenNotToUse :: string
  li_OnError :: string
  li_InputSchema :: json

datatype body =
    ErrorBody string string
  | GrantBody string string string "string list" int
  | ViolationsBody string string "violation list"
  | ToolRefusedBody string string string
  | ListBody string "list_item list"
  | WireBody string

record response =
  hr_Status :: int
  hr_ContentType :: string
  hr_EventID :: "string option"
  hr_Digest :: "string option"
  hr_Body :: body

datatype serve_line =
    ChainNotBuilt string | ContractMismatch string verdict | NoInputSchema string
  | GrantUncheckable string | DeclaredUnreachable string string | CallFailed string

text \<open>
  Library functions the surface calls: decoding and encoding a message (as JSON or not), decoding the
  body of a listing request, the names of generated enums and of connect's codes, and \<open>connect.CodeOf\<close>.
\<close>

record surface =
  sf_Unmarshal :: "md \<Rightarrow> bool \<Rightarrow> string \<Rightarrow> string + pmsg"
  sf_Marshal :: "bool \<Rightarrow> pmsg option \<Rightarrow> string + string"
  sf_ListBody :: "string \<Rightarrow> string option"
  sf_VerbName :: "verb \<Rightarrow> string"
  sf_ModeName :: "approval_mode \<Rightarrow> string"
  sf_CodeName :: "ccode \<Rightarrow> string"
  sf_CodeOf :: "go_err \<Rightarrow> ccode"

definition contentProto :: string where "contentProto = ''application/proto''"
definition contentJSON :: string where "contentJSON = ''application/json''"
definition maxRequestBytes :: int where "maxRequestBytes = 16 * 2 ^ 20"

section \<open>Refusals on the wire\<close>

text \<open>\<open>writeErr\<close>; the event id is set on the response before it, when there is one.\<close>

definition writeErr :: "string option \<Rightarrow> int \<Rightarrow> string \<Rightarrow> string \<Rightarrow> response" where
  "writeErr eid status code msg =
     \<lparr>hr_Status = status, hr_ContentType = contentJSON, hr_EventID = eid, hr_Digest = None,
      hr_Body = ErrorBody code msg\<rparr>"

definition setEventID :: "string option \<Rightarrow> string option" where
  "setEventID eid = (case eid of Some i \<Rightarrow> if i = [] then None else Some i | None \<Rightarrow> None)"

definition codeToAnswerWith :: "surface \<Rightarrow> go_err \<Rightarrow> ccode" where
  "codeToAnswerWith F e =
     (let code = CodeOf (sf_CodeOf F) e in if code = CodeUnknown then CodeInternal else code)"

fun httpStatusFor :: "ccode \<Rightarrow> int" where
  "httpStatusFor CodeInvalidArgument = 400"
| "httpStatusFor CodeUnauthenticated = 401"
| "httpStatusFor CodePermissionDenied = 403"
| "httpStatusFor CodeNotFound = 404"
| "httpStatusFor CodeUnimplemented = 404"
| "httpStatusFor CodeUnavailable = 503"
| "httpStatusFor _ = 500"

definition scrubbedMessage :: "surface \<Rightarrow> go_err \<Rightarrow> string" where
  "scrubbedMessage F e =
     (case ScrubError (sf_CodeOf F) (Some e) of Some (ConnectErr c (Plain m) ds) \<Rightarrow> m | _ \<Rightarrow> [])"

definition refuse_wire :: "surface \<Rightarrow> string option \<Rightarrow> go_err \<Rightarrow> response" where
  "refuse_wire F eid e =
     (let code = codeToAnswerWith F e
      in writeErr eid (httpStatusFor code) (sf_CodeName F code) (scrubbedMessage F (ConnectErr code e [])))"

text \<open>\<open>int(d.Seconds())\<close>; the rounding of the float64 in between is not modelled.\<close>

definition whole_seconds :: "int \<Rightarrow> int" where
  "whole_seconds d = (if d < 0 then - ((- d) div 1000000000) else d div 1000000000)"

definition writeGrantRequired :: "string option \<Rightarrow> tooldef \<Rightarrow> response" where
  "writeGrantRequired eid d =
     \<lparr>hr_Status = 403, hr_ContentType = contentJSON, hr_EventID = eid, hr_Digest = None,
      hr_Body = GrantBody ''grant_required'' ''a human grant is required'' (t_FQN d) (t_MaterialFields d)
        (whole_seconds (t_MaxGrantAge d))\<rparr>"

definition writeViolations :: "surface \<Rightarrow> string option \<Rightarrow> violation list \<Rightarrow> response" where
  "writeViolations F eid vs =
     \<lparr>hr_Status = 400, hr_ContentType = contentJSON, hr_EventID = eid, hr_Digest = None,
      hr_Body = ViolationsBody (sf_CodeName F CodeInvalidArgument)
        (scrubbedMessage F (ConnectErr CodeInvalidArgument (ValidationRefusal vs) [])) vs\<rparr>"

text \<open>\<open>strconv.Atoi\<close>, without the range of \<open>int\<close>: a number out of range is no status either.\<close>

fun digits_value :: "int \<Rightarrow> string \<Rightarrow> int option" where
  "digits_value n [] = Some n"
| "digits_value n (b # bs) =
     (let v = int (of_char b :: nat) - 48
      in if 0 \<le> v \<and> v \<le> 9 then digits_value (10 * n + v) bs else None)"

definition atoi :: "string \<Rightarrow> int option" where
  "atoi s =
     (case s of
        [] \<Rightarrow> None
      | b # bs \<Rightarrow>
          if b = CHR ''-'' then (if bs = [] then None else map_option uminus (digits_value 0 bs))
          else if b = CHR ''+'' then (if bs = [] then None else digits_value 0 bs)
          else digits_value 0 s)"

definition refused_status :: "string \<Rightarrow> int" where
  "refused_status code =
     (case atoi code of
        None \<Rightarrow> 500
      | Some status \<Rightarrow> if status < 400 \<or> status > 599 then 500 else status)"

definition writeToolRefused :: "string option \<Rightarrow> string \<Rightarrow> response" where
  "writeToolRefused eid code =
     \<lparr>hr_Status = refused_status code, hr_ContentType = contentJSON, hr_EventID = eid, hr_Digest = None,
      hr_Body = ToolRefusedBody ''tool_refused'' code (refusal_message code)\<rparr>"

definition writeChainErr ::
  "surface \<Rightarrow> string option \<Rightarrow> tooldef \<Rightarrow> go_err \<Rightarrow> response \<times> serve_line list" where
  "writeChainErr F eid d e =
     (if err_is e SGrantRequired then (writeGrantRequired eid d, [])
      else case as_validation e of
        Some vs \<Rightarrow> (writeViolations F eid vs, [])
      | None \<Rightarrow>
     (case as_refusal e of
        Some code \<Rightarrow> (writeToolRefused eid code, [])
      | None \<Rightarrow>
     if err_is e SGrantRefused \<or> err_is e SGrantUnavailable
     then (refuse_wire F eid (ConnectErr CodePermissionDenied e []),
           if err_is e SGrantUnavailable then [GrantUncheckable (t_FQN d)] else [])
     else if err_is e SUnreachable
     then (writeErr eid 503 ''unavailable'' (t_FQN d @ '' is declared but no service is serving it''),
           [DeclaredUnreachable (t_FQN d) (Service d)])
     else (refuse_wire F eid e,
           if codeToAnswerWith F e = CodeInternal then [CallFailed (t_FQN d)] else [])))"

section \<open>Who is calling\<close>

text \<open>
  \<open>Principals\<close> reads the request and the taxonomy pinned for it; \<open>None\<close> is a handler without one.
\<close>

type_synonym principals = "(registry \<Rightarrow> http_request \<Rightarrow> go_err + principal option) option"

definition principal_of :: "principals \<Rightarrow> registry \<Rightarrow> http_request \<Rightarrow> go_err + principal" where
  "principal_of who reg q =
     (case who of
        None \<Rightarrow> Inl (Plain ''this build has no way to identify a caller'')
      | Some f \<Rightarrow>
          (case f reg q of
             Inl e \<Rightarrow> Inl e
           | Inr None \<Rightarrow> Inl (Plain ''the principal source returned no principal and no error'')
           | Inr (Some p) \<Rightarrow> Inr p))"

section \<open>The listing\<close>

definition jsonSchemaDraft :: string where
  "jsonSchemaDraft = ''https://json-schema.org/draft/2020-12/schema''"

definition withDraft :: "json \<Rightarrow> json" where
  "withDraft s =
     (case s of
        JObj kvs \<Rightarrow> JObj (AList.update ''$schema'' (JStr jsonSchemaDraft) kvs)
      | _ \<Rightarrow> JObj [(''$schema'', JStr jsonSchemaDraft)])"

text \<open>\<open>io.LimitReader\<close>: what lies past the limit is not read.\<close>

fun limited :: "int \<Rightarrow> string \<Rightarrow> string" where
  "limited n [] = []"
| "limited n (b # bs) = (if n \<le> 0 then [] else b # limited (n - 1) bs)"

definition audienceAsked :: "surface \<Rightarrow> http_request \<Rightarrow> string + string" where
  "audienceAsked F q =
     (case hq_Body q of
        Inl e \<Rightarrow> Inr []
      | Inr raw \<Rightarrow>
          (let b = limited 4096 raw
           in if b = [] then Inr []
              else (case sf_ListBody F b of
                 None \<Rightarrow> Inl ''the request body is not a JSON object''
               | Some asked \<Rightarrow>
                   (case normalise_audience asked of
                      None \<Rightarrow> Inl ''audience must be one of PERSON, AGENT, RUNNER''
                    | Some name \<Rightarrow> Inr name))))"

definition list_item_of :: "surface \<Rightarrow> tooldef \<Rightarrow> json \<Rightarrow> list_item" where
  "list_item_of F d sch =
     \<lparr>li_FQN = t_FQN d, li_Method = t_FullMethod d, li_Title = t_Title d, li_Description = t_Description d,
      li_Verb = sf_VerbName F (t_Verb d), li_Sets = t_Sets d, li_Audience = t_Audience d,
      li_ApprovalMode = sf_ModeName F (t_ApprovalMode d), li_MaterialFields = t_MaterialFields d,
      li_WhenToUse = t_WhenToUse d, li_WhenNotToUse = t_WhenNotToUse d, li_OnError = t_OnError d,
      li_InputSchema = withDraft sch\<rparr>"

fun list_items ::
  "surface \<Rightarrow> env \<Rightarrow> principal \<Rightarrow> tooldef list \<Rightarrow> core \<Rightarrow> (string + list_item list) \<times> core" where
  "list_items F E p [] c = (Inr [], c)"
| "list_items F E p (d # ds) c =
     (case SchemaFor E c d (Some p) of
        (Inl e, c1) \<Rightarrow> (Inl (t_FQN d), c1)
      | (Inr (sin, sout), c1) \<Rightarrow>
          (case list_items F E p ds c1 of
             (Inl e, c2) \<Rightarrow> (Inl e, c2)
           | (Inr items, c2) \<Rightarrow> (Inr (list_item_of F d sin # items), c2)))"

definition listTools ::
  "surface \<Rightarrow> env \<Rightarrow> http_request \<Rightarrow> string \<Rightarrow> principal \<Rightarrow> core \<Rightarrow> response \<times> serve_line list \<times> core" where
  "listTools F E q digest p c =
     (case audienceAsked F q of
        Inl msg \<Rightarrow> (writeErr None 400 ''invalid_argument'' msg, [], c)
      | Inr want \<Rightarrow>
          (case list_items F E p (Catalog E c (Some p) (no_filter\<lparr>f_Audience := want\<rparr>)) c of
             (Inl fqn, c1) \<Rightarrow>
               (writeErr None 500 ''internal'' ''the catalogue could not be projected'', [NoInputSchema fqn], c1)
           | (Inr items, c1) \<Rightarrow>
               (\<lparr>hr_Status = 200, hr_ContentType = contentJSON, hr_EventID = None, hr_Digest = Some digest,
                 hr_Body = ListBody digest items\<rparr>, [], c1)))"

section \<open>The handler\<close>

datatype http_answer = Written response | Aborted panic

text \<open>What a request leaves behind: the handler (its chain's memo tables included), the effects, log lines.\<close>

record 'p served =
  sd_Answer :: http_answer
  sd_Handler :: "'p handler"
  sd_Hist :: hist
  sd_Lines :: "serve_line list"

definition lookup_route :: "tooldef list \<Rightarrow> string \<Rightarrow> tooldef option" where
  "lookup_route ds path = List.find (\<lambda>d. t_FullMethod d = path) ds"

text \<open>The core is shared by every request on the same chain; a chain no longer kept is dropped.\<close>

definition keep_core :: "'p handler \<Rightarrow> 'p plane \<Rightarrow> core \<Rightarrow> 'p handler" where
  "keep_core h p c =
     (case hd_plane h of
        None \<Rightarrow> h
      | Some q \<Rightarrow> if fst (pl_gen q) = fst (pl_gen p) then h\<lparr>hd_plane := Some (q\<lparr>pl_core := c\<rparr>)\<rparr> else h)"

definition request_ctx :: "http_request \<Rightarrow> gctx" where
  "request_ctx q = \<lparr>x_EventID = True, x_Redactions = False, x_Invocation = None, x_Grant = hq_Grant q\<rparr>"

definition written :: "'p handler \<Rightarrow> hist \<Rightarrow> response \<times> serve_line list \<Rightarrow> 'p served" where
  "written h hist a =
     \<lparr>sd_Answer = Written (fst a), sd_Handler = h, sd_Hist = hist, sd_Lines = snd a\<rparr>"

definition read_body :: "http_request \<Rightarrow> string option" where
  "read_body q =
     (case hq_Body q of
        Inl e \<Rightarrow> None
      | Inr raw \<Rightarrow> if int (length raw) > maxRequestBytes then None else Some raw)"

text \<open>Steps 2 to 10 and the answer: everything after the request was decoded.\<close>

definition call_tool ::
  "surface \<Rightarrow> env \<Rightarrow> rule_pkg \<Rightarrow> 'p handler \<Rightarrow> hist \<Rightarrow> 'p plane \<Rightarrow> principal \<Rightarrow> tooldef \<Rightarrow> http_request \<Rightarrow>
     bool \<Rightarrow> pmsg \<Rightarrow> 'p served" where
  "call_tool F E K h hist pl p d q asJSON req =
     (let r = Invoke E K (pl_core pl) hist (request_ctx q) (Some p) (t_FullMethod d) (Some req);
          h' = keep_core h pl (o_core r);
          eid = setEventID (o_eventID r)
      in case o_answer r of
           Repanicked z \<Rightarrow> \<lparr>sd_Answer = Aborted z, sd_Handler = h', sd_Hist = o_hist r, sd_Lines = []\<rparr>
         | Refused e \<Rightarrow> written h' (o_hist r) (writeChainErr F eid d e)
         | Answered resp \<Rightarrow>
             (case sf_Marshal F asJSON resp of
                Inl e \<Rightarrow> written h' (o_hist r) (writeErr eid 500 ''internal'' ''the reply could not be encoded'', [])
              | Inr out \<Rightarrow>
                  written h' (o_hist r)
                    (\<lparr>hr_Status = 200, hr_ContentType = (if asJSON then contentJSON else contentProto),
                      hr_EventID = eid, hr_Digest = Some (ct_Digest (snd (pl_gen pl))),
                      hr_Body = WireBody out\<rparr>, [])))"

text \<open>A known caller at a path: the listing, or a tool of the catalogue.\<close>

definition route ::
  "surface \<Rightarrow> env \<Rightarrow> rule_pkg \<Rightarrow> reconciler option \<Rightarrow> 'p handler \<Rightarrow> hist \<Rightarrow> 'p plane \<Rightarrow> 'p gen \<Rightarrow> principal \<Rightarrow>
     http_request \<Rightarrow> 'p served" where
  "route F E K rc h hist pl g p q =
     (if hq_Path q = ListToolsPath then
        (case listTools F E q (ct_Digest (snd (pl_gen pl))) p (pl_core pl) of
           (resp, ls, c) \<Rightarrow> written (keep_core h pl c) hist (resp, ls))
      else case lookup_route (ct_Defs (snd g)) (hq_Path q) of
        None \<Rightarrow>
          written h hist (writeErr None 404 ''unimplemented'' (''no tool is served at '' @ hq_Path q), [])
      | Some d \<Rightarrow>
     (case Option.bind rc (\<lambda>r. Quarantined r (pkgOfFQN (t_FQN d))) of
        Some why \<Rightarrow>
          written h hist (writeErr None 503 ''unavailable'' (t_FQN d @ '' is not being served: '' @ verdict_text why),
                          [ContractMismatch (t_FQN d) why])
      | None \<Rightarrow>
     (case read_body q of
        None \<Rightarrow>
          written h hist (writeErr None 413 ''invalid_argument''
                            ''request body is too large or could not be read'', [])
      | Some raw \<Rightarrow>
     (case t_Input d of
        None \<Rightarrow> \<lparr>sd_Answer = Aborted (PanicWith ''nil descriptor''), sd_Handler = h, sd_Hist = hist, sd_Lines = []\<rparr>
      | Some i \<Rightarrow>
     (let asJSON = has_prefix (hq_ContentType q) contentJSON
      in case sf_Unmarshal F i asJSON raw of
           Inl e \<Rightarrow> written h hist (writeErr None 400 ''invalid_argument'' (''request does not match '' @ full_name (en_Pool E) i @ '': '' @ e), [])
         | Inr req \<Rightarrow> call_tool F E K h hist pl p d q asJSON req)))))"

definition ServeHTTP ::
  "surface \<Rightarrow> env \<Rightarrow> string + (pmsg \<Rightarrow> vresult) \<Rightarrow> rule_pkg \<Rightarrow> principals \<Rightarrow> reconciler option \<Rightarrow>
     'p gen option \<Rightarrow> 'p handler \<Rightarrow> hist \<Rightarrow> http_request \<Rightarrow> 'p served" where
  "ServeHTTP F E v K who rc current h hist q =
     (if hq_Method q \<noteq> ''POST''
      then written h hist (writeErr None 405 ''unimplemented'' ''a tool call is a POST'', [])
      else case current of
        None \<Rightarrow> written h hist (writeErr None 503 ''unavailable'' ''no catalogue is loaded'', [])
      | Some g \<Rightarrow>
     (case planeFor E v h g of
        (Inl e, h1) \<Rightarrow>
          written h1 hist (writeErr None 503 ''unavailable'' ''this catalogue cannot be served'',
                           [ChainNotBuilt (ct_Digest (snd g))])
      | (Inr pl, h1) \<Rightarrow>
     (case principal_of who (pl_reg pl) q of
        Inl cause \<Rightarrow>
          (case Unauthenticated (gen_env E (snd g)) (pl_core pl) hist (request_ctx q) (hq_Path q) (Some cause) of
             (e, hist', eid) \<Rightarrow> written h1 hist' (refuse_wire F (setEventID eid) e, []))
      | Inr p \<Rightarrow> route F (gen_env E (snd g)) K rc h1 hist pl g p q)))"

end
