(* ===== verification/ChainMemo.thy ===== *)
theory ChainMemo
  imports ChainProps
begin

text \<open>
  What a call leaves in the core: its memo tables (which message types hold cards, which schemas were
  projected) stay true of the descriptors and plans they were computed from, on every path of the
  chain, and nothing else of the core changes. So the invariant of a core and of the schema cache
  survives every request, and the theorems that assume them hold at every call of a process.
\<close>

definition sound :: "env \<Rightarrow> core \<Rightarrow> bool" where
  "sound E c \<longleftrightarrow> memo_ok E c \<and> schemas_ok E c"

text \<open>A step that keeps the tables sound.\<close>

locale memo_step =
  fixes E :: env and m :: "'a st"
  assumes keeps: "m s = (r, s') \<Longrightarrow> sound E (s_core s) \<Longrightarrow> sound E (s_core s')"
begin

lemma keeps_snd: "sound E (s_core s) \<Longrightarrow> sound E (s_core (snd (m s)))"
  using keeps by (cases "m s") auto

end

named_theorems memo_intros \<open>composition of steps that keep the memo tables\<close>

lemma memo_untouched:
  assumes "\<And>s. s_core (snd (m s)) = s_core s"
  shows "memo_step E m"
proof
  fix s r s' assume "m s = (r, s')" "sound E (s_core s)"
  then show "sound E (s_core s')" using assms[of s] by simp
qed

lemma memo_sbind [memo_intros]:
  assumes "memo_step E m" "\<And>a. memo_step E (f a)"
  shows "memo_step E (sbind m f)"
proof
  fix s r s' assume run: "sbind m f s = (r, s')" "sound E (s_core s)"
  obtain r1 s1 where r1: "m s = (r1, s1)" by (cases "m s")
  note one = memo_step.keeps[OF assms(1) r1 run(2)]
  show "sound E (s_core s')"
  proof (cases r1)
    case (Ok a)
    then have "f a s1 = (r, s')" using run r1 by (simp add: sbind_def)
    from memo_step.keeps[OF assms(2) this one] show ?thesis .
  qed (use run r1 one in \<open>auto simp: sbind_def\<close>)
qed

lemma memo_then [memo_intros]: "memo_step E m \<Longrightarrow> memo_step E k \<Longrightarrow> memo_step E (then_do m k)"
  unfolding then_do_def by (rule memo_sbind)

lemma memo_sret [memo_intros]: "memo_step E (sret a)"
  by (rule memo_untouched) (simp add: sret_def)

lemma memo_ask [memo_intros]: "memo_step E (ask e q)"
  by (rule memo_untouched) (simp add: ask_def split: call.split)

lemma memo_refuse [memo_intros]: "memo_step E (srefuse f e)"
  by (rule memo_untouched) (simp add: srefuse_def)

lemma memo_at:
  assumes "\<And>s. memo_step E (f s)"
  shows "memo_step E (\<lambda>s. f s s)"
  by standard (use memo_step.keeps[OF assms] in blast)

section \<open>The steps\<close>

lemma memo_lookup [memo_intros]: "memo_step E (lookupStep F p procedure)"
  by (rule memo_untouched) (auto simp: lookupStep_def srefuse_def Let_def split: option.split)

lemma memo_message [memo_intros]: "memo_step E (messageStep reqo)"
  unfolding messageStep_def by (cases reqo) (auto intro!: memo_intros)

lemma memo_sibling [memo_intros]: "memo_step E (siblingStep procedure known req)"
  by (rule memo_untouched) (auto simp: siblingStep_def srefuse_def)

lemma memo_writes [memo_intros]: "memo_step E (checkInputWrites F p req)"
  by (rule memo_untouched) (auto simp: checkInputWrites_def srefuse_def split: option.split)

lemma memo_fgaPre [memo_intros]: "memo_step E (fgaPre p req)"
  by (rule memo_untouched) (auto simp: fgaPre_def step_defs split: option.split call.split)

lemma memo_grant [memo_intros]: "memo_step E (verifyGrant x p req)"
  by (rule memo_untouched) (auto simp: verifyGrant_def step_defs split: option.split call.split prod.split)

lemma memo_availability [memo_intros]: "memo_step E checkAvailability"
  by (rule memo_untouched) (auto simp: checkAvailability_def step_defs split: option.split call.split prod.split)

lemma memo_intent [memo_intros]: "memo_step E auditIntent"
  by (rule memo_untouched) (auto simp: auditIntent_def step_defs Let_def split: option.split call.split)

lemma memo_resolve [memo_intros]: "memo_step E (resolveStep F x p procedure req fn)"
  by (rule memo_untouched)
    (auto simp: resolveStep_def resolve_def step_defs split: option.split call.split ranswer.split)

lemma memo_fgaPost [memo_intros]: "memo_step E (fgaPost p resp)"
  by (rule memo_untouched) (auto simp: fgaPost_def step_defs split: option.split call.split fga_post.split)

lemma memo_sanitized [memo_intros]: "memo_step E (note_sanitized x rs paths)"
  by (rule memo_untouched) (simp add: note_sanitized_def)

lemma memo_mark [memo_intros]: "memo_step E (mark_ok a)"
  by (rule memo_untouched) (simp add: mark_ok_def)

lemma SchemaFor_sound: "SchemaFor E c t po = (r, c') \<Longrightarrow> sound E c \<Longrightarrow> sound E c'"
  using SchemaFor_ok[of E c t po r c'] unfolding sound_def
  by (auto simp: memo_ok_def SchemaFor_def split: option.splits prod.splits)

lemma admitted_sound: "admittedViolations E K c t p raws = (vs, c') \<Longrightarrow> sound E c \<Longrightarrow> sound E c'"
  unfolding admittedViolations_def by (auto split: sum.splits prod.splits dest: SchemaFor_sound)

lemma memo_validate [memo_intros]: "memo_step E (validateInput E R p req)"
  by standard
    (auto simp: validateInput_def srefuse_def split: option.splits vresult.splits prod.splits
      dest: admitted_sound)

lemma cardsIn_sound: "cardsIn E c d = (b, c') \<Longrightarrow> sound E c \<Longrightarrow> sound E c'"
proof -
  assume a: "cardsIn E c d = (b, c')" "sound E c"
  have "c_schemas c' = c_schemas c" "c_plans c' = c_plans c"
    using a(1) by (auto simp: cardsIn_def split: option.splits)
  then have "schema_entry_ok E c' = schema_entry_ok E c" "c_schemas c' = c_schemas c"
    by (auto simp: schema_entry_ok_def fun_eq_iff)
  then show "sound E c'" using a cardsIn_ok[OF a(1)] by (simp add: sound_def schemas_ok_def)
qed

lemma memo_project [memo_intros]: "memo_step E (projectStep E x p rs resp paths)"
proof
  fix s r s' assume run: "projectStep E x p rs resp paths s = (r, s')" "sound E (s_core s)"
  obtain b c' where c: "cardsIn E (s_core s) (pm_desc resp) = (b, c')"
    by (cases "cardsIn E (s_core s) (pm_desc resp)")
  have "s_core s' = c'"
    using run(1) c
    by (cases b) (auto simp: projectStep_def note_sanitized_def step_defs split: prod.splits option.splits if_splits)
  then show "sound E (s_core s')" using cardsIn_sound[OF c run(2)] by simp
qed

lemma memo_sanitize [memo_intros]: "memo_step E (sanitize E x p resp)"
proof
  fix s r s' assume run: "sanitize E x p resp s = (r, s')" "sound E (s_core s)"
  show "sound E (s_core s')"
  proof (cases "PlanFor (s_core s) (pm_desc resp)")
    case None
    then show ?thesis using run by (auto simp: sanitize_def srefuse_def)
  next
    case (Some pl)
    let ?rs = "pk_Resolve (en_Policy E) pl (fst (Shape p)) (snd (Shape p))"
    obtain m paths where sz:
      "pk_Sanitize (en_Policy E) resp ?rs (c_hashKey (s_core s)) (p_Tenant p) = (m, paths)"
      by (metis surj_pair)
    have "projectStep E x p ?rs m paths (s\<lparr>s_hist := ESanitize resp # s_hist s\<rparr>) = (r, s')"
      using run(1) Some sz by (simp add: sanitize_def Let_def)
    from memo_step.keeps[OF memo_project this] run(2) show ?thesis by simp
  qed
qed

lemma memo_front [memo_intros]: "memo_step E (chain_front E R x p procedure reqo)"
  unfolding chain_front_def by (intro memo_intros) (auto intro: memo_intros)

lemma memo_back [memo_intros]: "memo_step E (chain_back E x p respo)"
  unfolding chain_back_def by (cases respo) (auto intro!: memo_intros)

lemma memo_body: "memo_step E (chain_body E R x po procedure reqo fn)"
proof (cases po)
  case None
  then show ?thesis by (simp add: chain_body_def memo_refuse)
next
  case (Some p)
  show ?thesis unfolding chain_body_def Some option.case by (intro memo_intros)
qed

interpretation body: memo_step E "chain_body E R x po procedure reqo fn" for E R x po procedure reqo fn
  by (rule memo_body)

section \<open>The core after a call\<close>

lemma bare_all:
  assumes "bare c' = bare c"
  shows "c_hashKey c' = c_hashKey c" "c_reg c' = c_reg c" "c_recorder c' = c_recorder c"
    "c_audit c' = c_audit c" "c_fga c' = c_fga c" "c_grants c' = c_grants c" "c_notifier c' = c_notifier c"
    "c_plans c' = c_plans c" "c_need c' = c_need c" "c_tools c' = c_tools c"
    "c_resolvers c' = c_resolvers c" "c_validator c' = c_validator c"
  using assms by (cases c; cases c'; simp add: bare_def)+

lemma core_ok_bare:
  assumes "bare c' = bare c" "core_ok E c" "memo_ok E c'"
  shows "core_ok E c'"
proof -
  note b = bare_all[OF assms(1)]
  have "same_wiring c' c" by (simp add: same_wiring_def b)
  then have "entry_ok c' r t \<longleftrightarrow> entry_ok c r t" for r t
    using governance_cong[of c' c t] by (simp add: entry_ok_def need_of_def b)
  then show ?thesis using assms(2,3) by (simp add: core_ok_def memo_ok_def b)
qed

lemma invoke_core:
  "bare (o_core (invoke E R c h x po procedure reqo fn)) = bare c"
  "sound E c \<Longrightarrow> sound E (o_core (invoke E R c h x po procedure reqo fn))"
proof -
  obtain r s where run: "chain_body E R x po procedure reqo fn (start E c h po procedure) = (r, s)"
    by (metis surj_pair)
  have o: "o_core (invoke E R c h x po procedure reqo fn) = s_core s"
    by (cases rule: finish_cases[of r s x]) (simp add: invoke_def run)
  show "bare (o_core (invoke E R c h x po procedure reqo fn)) = bare c"
    using body_law[OF run] unfolding o by (simp add: framed_def)
  show "sound E (o_core (invoke E R c h x po procedure reqo fn))" if "sound E c"
    using body.keeps[OF run] that unfolding o by simp
qed

lemma Invoke_ok:
  assumes "core_ok E c" "schemas_ok E c"
  shows "core_ok E (o_core (Invoke E R c h x po procedure reqo))"
    "schemas_ok E (o_core (Invoke E R c h x po procedure reqo))"
    "bare (o_core (Invoke E R c h x po procedure reqo)) = bare c"
proof -
  have "sound E c" using assms core_ok_memo by (simp add: sound_def)
  then have s: "sound E (o_core (Invoke E R c h x po procedure reqo))"
    unfolding Invoke_def by (rule invoke_core(2))
  show b: "bare (o_core (Invoke E R c h x po procedure reqo)) = bare c"
    unfolding Invoke_def by (rule invoke_core(1))
  show "core_ok E (o_core (Invoke E R c h x po procedure reqo))"
    using core_ok_bare[OF b assms(1)] s by (simp add: sound_def)
  show "schemas_ok E (o_core (Invoke E R c h x po procedure reqo))" using s by (simp add: sound_def)
qed

end
