(* ===== verification/ServeProps.thy ===== *)
theory ServeProps
  imports Serve ChainMemo
begin

text \<open>
  What the HTTP surface guarantees: its state stays governed, a tool is reached by no other route than
  the chain of the pinned generation, a caller nobody knows learns nothing, a refusal carries none of
  the error's own words, a listing is the caller's catalogue, a quarantined tool is not called; and one
  place where the surface tells a caller more than its comments promise.
\<close>

section \<open>The state between requests\<close>

definition surface_ok :: "env \<Rightarrow> 'p handler \<Rightarrow> bool" where
  "surface_ok E h \<longleftrightarrow> handler_ok E h \<and>
     (\<forall>p. hd_plane h = Some p \<longrightarrow> schemas_ok (gen_env E (snd (pl_gen p))) (pl_core p))"

lemma AddTools_schemas: "AddTools E c ts = (r, c') \<Longrightarrow> c_schemas c' = c_schemas c"
proof (induction ts arbitrary: c)
  case (Cons t ts)
  obtain r1 c1 where a: "add_tool E t c = (r1, c1)" by (rule prod.exhaust)
  have "c_schemas c1 = c_schemas c"
    using a by (cases rule: add_tool_cases) (auto dest: add_messages_frame)
  then show ?case using Cons a by (cases r1) auto
qed simp

lemma register_all_schemas: "register_all h ds c = Inr c' \<Longrightarrow> c_schemas c' = c_schemas c"
proof (induction ds arbitrary: c)
  case (Cons d ds)
  then show ?case
    by (auto simp: Register_def split: prod.splits option.splits if_split_asm)
qed simp

lemma newPlane_schemas:
  assumes "newPlane E v h g = Inr p"
  shows "c_schemas (pl_core p) = []"
proof -
  let ?E = "gen_env E (snd g)"
  obtain k k1 k2 where k: "NewCore ?E v (core_config_of h (snd g)) = Inr k"
      "AddTools ?E k (ct_Defs (snd g)) = (None, k1)" "register_all h (ct_Defs (snd g)) k1 = Inr k2"
      "p = \<lparr>pl_gen = g, pl_core = k2, pl_reg = c_reg k2\<rparr>"
    using assms unfolding newPlane_def Let_def
    by (auto split: option.split_asm sum.split_asm prod.split_asm)
  have "c_schemas k = []" using k(1) by (auto simp: NewCore_def split: if_splits option.splits sum.splits)
  then show ?thesis using AddTools_schemas[OF k(2)] register_all_schemas[OF k(3)] k(4) by simp
qed

lemma planeFor_surface:
  assumes "surface_ok E h" "one_gen h g" "planeFor E v h g = (r, h')"
  shows "surface_ok E h' \<and> (\<forall>p. r = Inr p \<longrightarrow> plane_for E h g p \<and>
     schemas_ok (gen_env E (snd g)) (pl_core p) \<and> one_gen h' g)"
proof -
  have ok: "handler_ok E h" using assms(1) by (simp add: surface_ok_def)
  note P = planeFor_ok[OF ok assms(2,3)]
  from assms(3) show ?thesis
  proof (cases rule: planeFor_cases)
    case (cached p)
    then have "pl_gen p = g" using assms(2) by (simp add: one_gen_def)
    then show ?thesis using cached P assms(1,2) by (auto simp: surface_ok_def)
  next
    case (built p)
    have s: "schemas_ok X (pl_core p)" for X by (rule schemas_ok_empty) (rule newPlane_schemas[OF built(1)])
    have g: "pl_gen p = g" using P built(2) by (simp add: plane_for_def)
    show ?thesis
      by (cases rule: publish_cases[of h p]) (use P built s g assms(1,2) in \<open>auto simp: surface_ok_def one_gen_def\<close>)
  next
    case (refused e)
    then show ?thesis using assms(1) by simp
  qed
qed

lemma keep_core_surface:
  assumes "surface_ok E h" "plane_for E h g p" "one_gen h g"
    and "bare c = bare (pl_core p)" "core_ok (gen_env E (snd g)) c" "schemas_ok (gen_env E (snd g)) c"
  shows "surface_ok E (keep_core h p c)"
proof (cases "\<exists>q. hd_plane h = Some q \<and> fst (pl_gen q) = fst (pl_gen p)")
  case True
  then obtain q where q: "hd_plane h = Some q" "fst (pl_gen q) = fst (pl_gen p)" by blast
  have pg: "pl_gen p = g" using assms(2) by (simp add: plane_for_def)
  then have qg: "pl_gen q = g" using q assms(3) by (simp add: one_gen_def)
  have "plane_for E h g q" using assms(1) q(1) qg by (auto simp: surface_ok_def handler_ok_def)
  then have reg: "pl_reg q = pl_reg p" using assms(2) by (simp add: plane_for_def)
  note b = bare_all[OF assms(4)]
  have "plane_for E h g (q\<lparr>pl_core := c\<rparr>)"
    using assms(2,5) qg reg by (simp add: plane_for_def b resolverFor_def lookup_tool_def)
  moreover have "keep_core h p c = h\<lparr>hd_plane := Some (q\<lparr>pl_core := c\<rparr>)\<rparr>"
    using q by (simp add: keep_core_def)
  ultimately show ?thesis using assms(6) qg by (simp add: surface_ok_def handler_ok_def)
next
  case False
  then have "keep_core h p c = h" by (auto simp: keep_core_def split: option.split)
  then show ?thesis using assms(1) by simp
qed

lemma planeFor_moves: "planeFor E v h g = (r, h') \<Longrightarrow> \<exists>x. h' = h\<lparr>hd_plane := x\<rparr>"
proof (cases rule: planeFor_cases)
  assume "planeFor E v h g = (r, h')"
  then show "planeFor E v h g = (r, h')" .
next
  fix p assume "h' = h"
  then show ?thesis by (intro exI[of _ "hd_plane h"]) simp
next
  fix p assume "h' = publish h p"
  then show ?thesis
    by (cases rule: publish_cases[of h p]) (auto intro: exI[of _ "hd_plane h"])
next
  assume "h' = h"
  then show ?thesis by (intro exI[of _ "hd_plane h"]) simp
qed

section \<open>The paths of a request\<close>

lemma lookup_route_iff:
  "lookup_route ds path = Some d \<Longrightarrow> d \<in> set ds \<and> t_FullMethod d = path"
  by (auto simp: lookup_route_def find_Some_iff)

lemma lookup_route_None: "lookup_route ds path = None \<longleftrightarrow> (\<forall>d \<in> set ds. t_FullMethod d \<noteq> path)"
  by (auto simp: lookup_route_def find_None_iff)

lemma written_sel [simp]:
  "sd_Answer (written h hist a) = Written (fst a)" "sd_Handler (written h hist a) = h"
  "sd_Hist (written h hist a) = hist" "sd_Lines (written h hist a) = snd a"
  by (simp_all add: written_def)

lemma ServeHTTP_cases:
  obtains (not_post) resp where "hq_Method q \<noteq> ''POST''"
      "ServeHTTP F E v K who rc current h hist q = written h hist (resp, [])"
  | (empty) resp where "hq_Method q = ''POST''" "current = None"
      "ServeHTTP F E v K who rc current h hist q = written h hist (resp, [])"
  | (unbuilt) g e h1 resp ls where "current = Some g" "planeFor E v h g = (Inl e, h1)"
      "ServeHTTP F E v K who rc current h hist q = written h1 hist (resp, ls)"
  | (stranger) g pl h1 cause e hist' eid where "hq_Method q = ''POST''" "current = Some g"
      "planeFor E v h g = (Inr pl, h1)" "principal_of who (pl_reg pl) q = Inl cause"
      "Unauthenticated (gen_env E (snd g)) (pl_core pl) hist (request_ctx q) (hq_Path q) (Some cause) = (e, hist', eid)"
      "ServeHTTP F E v K who rc current h hist q = written h1 hist' (refuse_wire F (setEventID eid) e, [])"
  | (known) g pl h1 p where "hq_Method q = ''POST''" "current = Some g"
      "planeFor E v h g = (Inr pl, h1)" "principal_of who (pl_reg pl) q = Inr p"
      "ServeHTTP F E v K who rc current h hist q = route F (gen_env E (snd g)) K rc h1 hist pl g p q"
proof (cases "hq_Method q = ''POST''")
  case False
  show ?thesis by (rule not_post[OF False]) (simp add: ServeHTTP_def False)
next
  case post: True
  show ?thesis
  proof (cases current)
    case None
    show ?thesis by (rule empty[OF post None]) (simp add: ServeHTTP_def post None)
  next
  case (Some g)
  note g = post Some
  obtain r h1 where p: "planeFor E v h g = (r, h1)" by (metis surj_pair)
  show ?thesis
  proof (cases r)
    case (Inl e)
    show ?thesis by (rule unbuilt[OF g(2)]) (use p Inl g in \<open>simp_all add: ServeHTTP_def\<close>)
  next
    case (Inr pl)
    note p = p[unfolded Inr]
    show ?thesis
    proof (cases "principal_of who (pl_reg pl) q")
      case (Inl cause)
      obtain e hist' eid where u: "Unauthenticated (gen_env E (snd g)) (pl_core pl) hist (request_ctx q)
          (hq_Path q) (Some cause) = (e, hist', eid)" by (metis surj_pair)
      show ?thesis
        by (rule stranger[OF g p Inl u]) (use g p Inl u in \<open>simp add: ServeHTTP_def\<close>)
    next
      case (Inr pr)
      show ?thesis by (rule known[OF g p Inr]) (use g p Inr in \<open>simp add: ServeHTTP_def\<close>)
    qed
  qed
  qed
qed

lemma route_cases:
  obtains (listing) resp ls c where "hq_Path q = ListToolsPath"
      "listTools F E q (ct_Digest (snd (pl_gen pl))) p (pl_core pl) = (resp, ls, c)"
      "route F E K rc h hist pl g p q = written (keep_core h pl c) hist (resp, ls)"
  | (absent) "hq_Path q \<noteq> ListToolsPath" "\<forall>d \<in> set (ct_Defs (snd g)). t_FullMethod d \<noteq> hq_Path q"
      "route F E K rc h hist pl g p q =
         written h hist (writeErr None 404 ''unimplemented'' (''no tool is served at '' @ hq_Path q), [])"
  | (quarantined) d r why where "lookup_route (ct_Defs (snd g)) (hq_Path q) = Some d"
      "rc = Some r" "Quarantined r (pkgOfFQN (t_FQN d)) = Some why"
      "route F E K rc h hist pl g p q =
         written h hist (writeErr None 503 ''unavailable'' (t_FQN d @ '' is not being served: '' @ verdict_text why),
                          [ContractMismatch (t_FQN d) why])"
  | (unread) d where "lookup_route (ct_Defs (snd g)) (hq_Path q) = Some d"
      "sd_Handler (route F E K rc h hist pl g p q) = h" "sd_Hist (route F E K rc h hist pl g p q) = hist"
  | (call) d raw i req where "hq_Path q \<noteq> ListToolsPath" "lookup_route (ct_Defs (snd g)) (hq_Path q) = Some d"
      "\<forall>r. rc = Some r \<longrightarrow> Quarantined r (pkgOfFQN (t_FQN d)) = None"
      "read_body q = Some raw" "t_Input d = Some i"
      "sf_Unmarshal F i (has_prefix (hq_ContentType q) contentJSON) raw = Inr req"
      "route F E K rc h hist pl g p q =
         call_tool F E K h hist pl p d q (has_prefix (hq_ContentType q) contentJSON) req"
proof (cases "hq_Path q = ListToolsPath")
  case True
  obtain resp ls c where l: "listTools F E q (ct_Digest (snd (pl_gen pl))) p (pl_core pl) = (resp, ls, c)"
    by (metis surj_pair)
  show ?thesis by (rule listing[OF True l]) (simp add: route_def True l)
next
  case path: False
  show ?thesis
  proof (cases "lookup_route (ct_Defs (snd g)) (hq_Path q)")
    case None
    have "\<forall>d \<in> set (ct_Defs (snd g)). t_FullMethod d \<noteq> hq_Path q"
      using None unfolding lookup_route_None .
    then show ?thesis by (rule absent[OF path]) (simp add: route_def path None)
  next
    case d: (Some d)
    show ?thesis
    proof (cases "Option.bind rc (\<lambda>r. Quarantined r (pkgOfFQN (t_FQN d)))")
      case (Some why)
      then obtain r where "rc = Some r" "Quarantined r (pkgOfFQN (t_FQN d)) = Some why"
        by (cases rc) auto
      then show ?thesis by (intro quarantined[OF d]) (simp_all add: route_def path d)
    next
      case None
      then have free: "\<forall>r. rc = Some r \<longrightarrow> Quarantined r (pkgOfFQN (t_FQN d)) = None"
        by (cases rc) auto
      show ?thesis
      proof (cases "\<exists>raw i req. read_body q = Some raw \<and> t_Input d = Some i \<and>
          sf_Unmarshal F i (has_prefix (hq_ContentType q) contentJSON) raw = Inr req")
        case True
        then obtain raw i req where c: "read_body q = Some raw" "t_Input d = Some i"
          "sf_Unmarshal F i (has_prefix (hq_ContentType q) contentJSON) raw = Inr req" by blast
        show ?thesis
          by (rule call[OF path d free c]) (simp add: route_def path d None c)
      next
        case False
        have "sd_Handler (route F E K rc h hist pl g p q) = h \<and> sd_Hist (route F E K rc h hist pl g p q) = hist"
        proof (cases "read_body q")
          case raw: (Some raw)
          show ?thesis
          proof (cases "t_Input d")
            case i: (Some i)
            obtain e where "sf_Unmarshal F i (has_prefix (hq_ContentType q) contentJSON) raw = Inl e"
              using False raw i by (cases "sf_Unmarshal F i (has_prefix (hq_ContentType q) contentJSON) raw") auto
            then show ?thesis by (simp add: route_def path d None raw i Let_def)
          qed (simp add: route_def path d None raw)
        qed (simp add: route_def path d None)
        then show ?thesis by (intro unread[OF d]) auto
      qed
    qed
  qed
qed

section \<open>The surface keeps its state\<close>

lemma list_items_core:
  "list_items F E p ds c = (r, c') \<Longrightarrow> bare c' = bare c \<and> (sound E c \<longrightarrow> sound E c')"
proof (induction ds arbitrary: r c c')
  case (Cons d ds)
  obtain s1 c1 where s: "SchemaFor E c d (Some p) = (s1, c1)" by (metis surj_pair)
  obtain r2 c2 where l: "list_items F E p ds c1 = (r2, c2)" by (metis surj_pair)
  have "c' = c1 \<or> c' = c2"
    using Cons.prems s l by (auto split: sum.splits prod.splits)
  then show ?case
    using Cons.IH[OF l] SchemaFor_bare[OF s] SchemaFor_sound[OF s] by auto
qed simp

lemma listTools_core:
  "listTools F E q digest p c = (resp, ls, c') \<Longrightarrow> bare c' = bare c \<and> (sound E c \<longrightarrow> sound E c')"
  using list_items_core[of F E p _ c]
  by (auto simp: listTools_def split: sum.splits prod.splits)

lemma call_tool_sel:
  "sd_Handler (call_tool F E K h hist pl p d q asJSON req) =
     keep_core h pl (o_core (Invoke E K (pl_core pl) hist (request_ctx q) (Some p) (t_FullMethod d) (Some req)))"
  "sd_Hist (call_tool F E K h hist pl p d q asJSON req) =
     o_hist (Invoke E K (pl_core pl) hist (request_ctx q) (Some p) (t_FullMethod d) (Some req))"
  unfolding call_tool_def Let_def by (simp_all split: answer.split sum.split)

lemma plane_sound:
  "plane_for E h g p \<Longrightarrow> schemas_ok (gen_env E (snd g)) (pl_core p) \<Longrightarrow> sound (gen_env E (snd g)) (pl_core p)"
  unfolding plane_for_def sound_def using core_ok_memo by blast

lemma keep_sound:
  assumes "surface_ok E h" "plane_for E h g p" "one_gen h g" "schemas_ok (gen_env E (snd g)) (pl_core p)"
    and "bare c = bare (pl_core p)" "sound (gen_env E (snd g)) (pl_core p) \<longrightarrow> sound (gen_env E (snd g)) c"
  shows "surface_ok E (keep_core h p c)"
proof -
  have s: "sound (gen_env E (snd g)) c" using plane_sound[OF assms(2,4)] assms(6) by blast
  have "core_ok (gen_env E (snd g)) c"
    using core_ok_bare[OF assms(5)] assms(2) s by (simp add: plane_for_def sound_def)
  then show ?thesis using keep_core_surface[OF assms(1-3,5)] s by (simp add: sound_def)
qed

lemma plane_for_moved: "planeFor E v h g = (r, h1) \<Longrightarrow> plane_for E h1 g p = plane_for E h g p"
  using planeFor_moves[of E v h g r h1] by auto

text \<open>
  Requests keep the surface governed. Whatever a request is and however it ends, the chain the
  handler keeps is still one built for its generation, over its taxonomy and with the configured steps,
  every tool of the catalogue mounted under its own declaration; what a call memoises (card types,
  projected schemas) is true; and nothing but the chain kept changes of the handler.
\<close>

theorem serving_keeps_governance:
  assumes "surface_ok E h" "\<And>g. current = Some g \<Longrightarrow> one_gen h g"
  shows "surface_ok E (sd_Handler (ServeHTTP F E v K who rc current h hist q)) \<and>
     (\<exists>x. sd_Handler (ServeHTTP F E v K who rc current h hist q) = h\<lparr>hd_plane := x\<rparr>)"
proof -
  have self: "\<exists>x. h = h\<lparr>hd_plane := x\<rparr>" by (rule exI[of _ "hd_plane h"]) simp
  have kept: "\<exists>x. keep_core h1 pl c = h\<lparr>hd_plane := x\<rparr>" if "h1 = h\<lparr>hd_plane := y\<rparr>" for h1 pl c y
    using that unfolding keep_core_def by (auto split: option.split)
  show ?thesis
  proof (cases rule: ServeHTTP_cases[of q F E v K who rc current h hist])
    case (known g pl h1 p)
    note P = planeFor_surface[OF assms(1) assms(2)[OF known(2)] known(3)]
    obtain y where y: "h1 = h\<lparr>hd_plane := y\<rparr>" using planeFor_moves[OF known(3)] by blast
    have pl: "plane_for E h1 g pl" using P plane_for_moved[OF known(3)] by blast
    have keep: "surface_ok E (keep_core h1 pl c)"
      if "bare c = bare (pl_core pl)" "sound (gen_env E (snd g)) (pl_core pl) \<longrightarrow> sound (gen_env E (snd g)) c" for c
      using keep_sound[OF _ pl _ _ that] P by blast
    show ?thesis
    proof (cases rule: route_cases[of q F "gen_env E (snd g)" pl p K rc h1 hist g])
      case (listing resp ls c)
      have "surface_ok E (keep_core h1 pl c)"
        using listTools_core[OF listing(2)] by (intro keep) auto
      then show ?thesis using known(5) listing(3) kept[OF y] by simp
    next
      case (call d raw i req)
      have "surface_ok E (keep_core h1 pl (o_core (Invoke (gen_env E (snd g)) K (pl_core pl) hist (request_ctx q)
          (Some p) (t_FullMethod d) (Some req))))"
        by (rule keep) (auto simp: Invoke_def invoke_core)
      then show ?thesis using known(5) call(7) kept[OF y] by (simp add: call_tool_sel)
    qed (use known(5) P y in auto)
  next
    case (unbuilt g e h1 resp ls)
    then show ?thesis
      using planeFor_surface[OF assms(1) assms(2)[OF unbuilt(1)] unbuilt(2)] planeFor_moves[OF unbuilt(2)] by simp
  next
    case (stranger g pl h1 cause e hist' eid)
    then show ?thesis
      using planeFor_surface[OF assms(1) assms(2)[OF stranger(2)] stranger(3)] planeFor_moves[OF stranger(3)] by simp
  qed (use assms(1) self in simp_all)
qed

section \<open>One way to a tool\<close>

lemma Unauthenticated_row:
  assumes "Unauthenticated E c h x procedure cause = (e, h', eid)" "x_EventID x"
  shows "e = Sentinel SUnauthenticated" "eid = Some (en_NewEventID E h)"
    "\<exists>es ev. h' = es @ ERecord ev # h \<and> (\<forall>a \<in> set es. closing_effect a) \<and> ev_ID ev = en_NewEventID E h \<and>
       ev_Outcome ev = OutcomeDenied \<and> ev_ErrorDetail ev = DUnauthenticated procedure cause"
proof -
  let ?ev = "because (DUnauthenticated procedure cause) (newEvent E c h None procedure)"
  have u: "e = Sentinel SUnauthenticated" "h' = recordRow c ?ev h" "eid = Some (ev_ID ?ev)"
    using assms by (auto simp: Unauthenticated_def Let_def)
  obtain es where "h' = es @ ERecord ?ev # h" "\<forall>a \<in> set es. after_row a"
    using recordRow_grown[of ?ev h c] by (auto simp: u(2) grown_def)
  then show "\<exists>es ev. h' = es @ ERecord ev # h \<and> (\<forall>a \<in> set es. closing_effect a) \<and> ev_ID ev = en_NewEventID E h \<and>
       ev_Outcome ev = OutcomeDenied \<and> ev_ErrorDetail ev = DUnauthenticated procedure cause"
    by (intro exI[of _ es] exI[of _ ?ev]) (auto simp: after_row_def because_def)
  show "e = Sentinel SUnauthenticated" by (rule u(1))
  show "eid = Some (en_NewEventID E h)" using u(3) by (simp add: because_def)
qed

lemma gen_env_sel [simp]:
  "en_NewEventID (gen_env E c) = en_NewEventID E" "en_Policy (gen_env E c) = en_Policy E"
  "en_Pool (gen_env E c) = fs_Pool (ct_Files c)"
  by (simp_all add: gen_env_def)

text \<open>
  C15: There is one way to a tool. If a request made the resolver run, it was a POST to the route of a
  tool of the generation the request read, by a caller identified under that generation's taxonomy, the
  tool's package not quarantined, the body read within bounds and decoded as the tool's input; and
  everything it did is one run of the chain built for that generation, for that caller, that route and
  that message, with the tool's own hop as the resolver.
\<close>

theorem tool_only_behind_chain:
  assumes "surface_ok E h" "\<And>g. current = Some g \<Longrightarrow> one_gen h g"
    and "sd_Hist (ServeHTTP F E v K who rc current h hist q) = es @ hist"
    and "EResolve procedure m ic \<in> set es"
  shows "\<exists>g pl h1 p d raw i req. hq_Method q = ''POST'' \<and> current = Some g \<and>
     planeFor E v h g = (Inr pl, h1) \<and> plane_for E h g pl \<and>
     principal_of who (pl_reg pl) q = Inr p \<and>
     d \<in> set (ct_Defs (snd g)) \<and> t_FullMethod d = hq_Path q \<and>
     (\<forall>r. rc = Some r \<longrightarrow> Quarantined r (pkgOfFQN (t_FQN d)) = None) \<and>
     hq_Body q = Inr raw \<and> int (length raw) \<le> maxRequestBytes \<and> t_Input d = Some i \<and>
     sf_Unmarshal F i (has_prefix (hq_ContentType q) contentJSON) raw = Inr req \<and>
     es @ hist = o_hist (invoke (gen_env E (snd g)) K (pl_core pl) hist (request_ctx q) (Some p)
       (hq_Path q) (Some req) (resolverFor (pl_core pl) (hq_Path q))) \<and>
     (\<exists>d' \<in> set (ct_Defs (snd g)). t_FullMethod d' = hq_Path q \<and>
        resolverFor (pl_core pl) (hq_Path q) = Some (hop_resolver h d'))"
proof (cases rule: ServeHTTP_cases[of q F E v K who rc current h hist])
  case (stranger g pl h1 cause e hist' eid)
  have "\<forall>a \<in> set es. closing_effect a \<or> is_row a"
    using Unauthenticated_row(3)[OF stranger(5)] stranger(6) assms(3) by (auto simp: request_ctx_def)
  then show ?thesis using assms(4) by auto
next
  case (known g pl h1 p)
  note P = planeFor_surface[OF assms(1) assms(2)[OF known(2)] known(3)]
  show ?thesis
  proof (cases rule: route_cases[of q F "gen_env E (snd g)" pl p K rc h1 hist g])
    case (call d raw i req)
    note d = lookup_route_iff[OF call(2)]
    have raw: "hq_Body q = Inr raw" "int (length raw) \<le> maxRequestBytes"
      using call(4) by (auto simp: read_body_def split: sum.splits if_split_asm)
    have pl: "plane_for E h g pl" using P by blast
    then have res: "resolverFor (pl_core pl) (t_FullMethod d) = Some (hop_resolver h d)"
      using d unfolding plane_for_def by blast
    have run: "es @ hist = o_hist (invoke (gen_env E (snd g)) K (pl_core pl) hist (request_ctx q) (Some p)
        (hq_Path q) (Some req) (resolverFor (pl_core pl) (hq_Path q)))"
      using assms(3) known(5) call(7) d by (simp add: call_tool_sel Invoke_def)
    have "resolverFor (pl_core pl) (hq_Path q) = Some (hop_resolver h d)" using res d by simp
    then have hop: "\<exists>d' \<in> set (ct_Defs (snd g)). t_FullMethod d' = hq_Path q \<and>
        resolverFor (pl_core pl) (hq_Path q) = Some (hop_resolver h d')" using d by blast
    show ?thesis
      by (intro exI conjI) (rule known(1-4) pl d[THEN conjunct1] d[THEN conjunct2] call(3,5,6) raw run hop)+
  qed (use assms(3,4) known(5) in auto)
qed (use assms(3,4) in auto)

section \<open>Callers nobody knows\<close>

lemma scrubbed_connect:
  "codeOf_spec (sf_CodeOf F) \<Longrightarrow> scrubbedMessage F (ConnectErr k e ds) = static_message k"
  by (simp add: scrubbedMessage_def ScrubError_def Let_def codeOf_spec_def)

lemma refuse_wire_code:
  "codeOf_spec (sf_CodeOf F) \<Longrightarrow> codeToAnswerWith F e = k \<Longrightarrow>
     refuse_wire F eid e = writeErr eid (httpStatusFor k) (sf_CodeName F k) (static_message k)"
  by (simp add: refuse_wire_def scrubbed_connect)

lemma answer_code:
  "codeOf_spec (sf_CodeOf F) \<Longrightarrow> codeFor e = Some k \<Longrightarrow> k \<noteq> CodeUnknown \<Longrightarrow> codeToAnswerWith F e = k"
  by (simp add: codeToAnswerWith_def CodeOf_chain)

text \<open>
  C33: A caller nobody knows learns nothing about what is served. When step 1 fails, the answer is one
  fixed refusal (401, the code and its static sentence, the id of the row) whatever the path, the body,
  the grant and the cause were; the row says which path was tried and why, and nothing else happens.
\<close>

theorem stranger_learns_nothing:
  assumes "codeOf_spec (sf_CodeOf F)" "hq_Method q = ''POST''" "current = Some g"
    and "planeFor E v h g = (Inr pl, h1)" "principal_of who (pl_reg pl) q = Inl cause"
  shows "sd_Answer (ServeHTTP F E v K who rc current h hist q) =
       Written (writeErr (setEventID (Some (en_NewEventID E hist))) 401
         (sf_CodeName F CodeUnauthenticated) ''unauthenticated'') \<and>
     (\<exists>es ev. sd_Hist (ServeHTTP F E v K who rc current h hist q) = es @ ERecord ev # hist \<and>
        (\<forall>a \<in> set es. closing_effect a) \<and> ev_ID ev = en_NewEventID E hist \<and>
        ev_Outcome ev = OutcomeDenied \<and> ev_ErrorDetail ev = DUnauthenticated (hq_Path q) (Some cause))"
proof -
  obtain e hist' eid where u: "Unauthenticated (gen_env E (snd g)) (pl_core pl) hist (request_ctx q)
      (hq_Path q) (Some cause) = (e, hist', eid)" by (metis surj_pair)
  have s: "ServeHTTP F E v K who rc current h hist q =
      written h1 hist' (refuse_wire F (setEventID eid) e, [])"
    using assms(2-5) u by (simp add: ServeHTTP_def)
  note U = Unauthenticated_row[OF u] 
  have x: "x_EventID (request_ctx q)" by (simp add: request_ctx_def)
  have "refuse_wire F (setEventID eid) e = writeErr (setEventID (Some (en_NewEventID E hist))) 401
      (sf_CodeName F CodeUnauthenticated) ''unauthenticated''"
    using refuse_wire_code[OF assms(1) answer_code[OF assms(1)], of "Sentinel SUnauthenticated" CodeUnauthenticated]
      U(1,2)[OF x] by (simp add: static_message_def staticMessages_def)
  then show ?thesis using U(3)[OF x] by (simp add: s)
qed

section \<open>Refusals\<close>

definition err_status :: "int \<Rightarrow> bool" where "err_status s \<longleftrightarrow> 400 \<le> s \<and> s \<le> 599"

lemma httpStatusFor_range: "err_status (httpStatusFor k)"
  by (cases k) (simp_all add: err_status_def)

lemma refused_status_range: "err_status (refused_status c)"
  by (auto simp: refused_status_def err_status_def split: option.split)

text \<open>
  C18: A refusal carries none of the error's own words. Whatever error the chain refuses with, the
  response is an error status and its body is one of five shapes, each built from what the surface
  knows: the fields to ask an approval for, the violations the chain admitted, the code of the tool's
  refusal with the daemon's sentence for it, the tool's name when nothing serves it, or a code with its
  static sentence and status. A tool's own code from the table is answered as that very status.
\<close>

theorem refusal_is_scrubbed:
  assumes "codeOf_spec (sf_CodeOf F)" "r = fst (writeChainErr F eid d e)"
  shows "err_status (hr_Status r) \<and> hr_EventID r = eid \<and> hr_Digest r = None \<and>
     (hr_Body r = GrantBody ''grant_required'' ''a human grant is required'' (t_FQN d) (t_MaterialFields d)
          (whole_seconds (t_MaxGrantAge d)) \<and> hr_Status r = 403 \<and> err_is e SGrantRequired \<or>
      (\<exists>vs. as_validation e = Some vs \<and> hr_Status r = 400 \<and>
          hr_Body r = ViolationsBody (sf_CodeName F CodeInvalidArgument) ''invalid argument'' vs) \<or>
      (\<exists>c. as_refusal e = Some c \<and> hr_Status r = refused_status c \<and>
          hr_Body r = ToolRefusedBody ''tool_refused'' c (refusal_message c)) \<or>
      err_is e SUnreachable \<and> hr_Status r = 503 \<and>
          hr_Body r = ErrorBody ''unavailable'' (t_FQN d @ '' is declared but no service is serving it'') \<or>
      (\<exists>k. hr_Status r = httpStatusFor k \<and> hr_Body r = ErrorBody (sf_CodeName F k) (static_message k))) \<and>
     map refused_status (map fst toolRefusals) = [400, 403, 404, 409, 415, 422, 429, 502, 504]"
proof -
  have wire: "refuse_wire F eid x = writeErr eid (httpStatusFor (codeToAnswerWith F x))
      (sf_CodeName F (codeToAnswerWith F x)) (static_message (codeToAnswerWith F x))" for x
    using refuse_wire_code[OF assms(1) refl] .
  have table: "map (refused_status \<circ> fst) toolRefusals = [400, 403, 404, 409, 415, 422, 429, 502, 504]"
    by code_simp
  have vbody: "hr_Body (writeViolations F eid vs) =
      ViolationsBody (sf_CodeName F CodeInvalidArgument) ''invalid argument'' vs" for vs
    by (simp add: writeViolations_def scrubbed_connect[OF assms(1)] static_message_def staticMessages_def)
  consider (grant) "err_is e SGrantRequired"
    | (violations) vs where "\<not> err_is e SGrantRequired" "as_validation e = Some vs"
    | (tool) c where "\<not> err_is e SGrantRequired" "as_validation e = None" "as_refusal e = Some c"
    | (other) "\<not> err_is e SGrantRequired" "as_validation e = None" "as_refusal e = None"
    by (cases "as_validation e"; cases "as_refusal e") auto
  then show ?thesis
  proof cases
    case grant
    then show ?thesis
      by (simp add: assms(2) writeChainErr_def writeGrantRequired_def err_status_def table)
  next
    case violations
    then show ?thesis
      by (simp add: assms(2) writeChainErr_def vbody table) (simp add: writeViolations_def err_status_def)
  next
    case tool
    then show ?thesis
      by (simp add: assms(2) writeChainErr_def writeToolRefused_def refused_status_range table)
  next
    case other
    then show ?thesis
      by (auto simp: assms(2) writeChainErr_def wire writeErr_def err_status_def table
          httpStatusFor_range[unfolded err_status_def])
  qed
qed

section \<open>Denied and absent\<close>

lemma call_unseen:
  assumes "codeOf_spec (sf_CodeOf F)" "lookup_tool (pl_core pl) (t_FullMethod d) = Some t"
    and "\<not> Visible E (pl_core pl) (Some p) t" "c_audit (pl_core pl) = None"
  shows "sd_Answer (call_tool F E K h hist pl p d q asJSON req) =
     Written (writeErr (setEventID (Some (en_NewEventID E hist))) 404 (sf_CodeName F CodeNotFound) ''not found'')"
proof -
  let ?row = "unseen_row E (pl_core pl) hist p (t_FullMethod d) t"
  let ?s = "(start E (pl_core pl) hist (Some p) (t_FullMethod d))\<lparr>s_tool := t, s_ev := ?row\<rparr>"
  let ?run = "Invoke E K (pl_core pl) hist (request_ctx q) (Some p) (t_FullMethod d) (Some req)"
  have run: "?run = finish (request_ctx q) (Fail (Sentinel SNotFound)) ?s"
    unfolding Invoke_def by (rule invoke_unseen[OF assms(2,3)])
  have id: "ev_ID ?row = en_NewEventID E hist" by (simp add: unseen_row_def because_def)
  have "o_answer ?run = Refused (Sentinel SNotFound) \<and> o_eventID ?run = Some (en_NewEventID E hist)"
    unfolding run
    by (cases rule: finish_cases[of "Fail (Sentinel SNotFound) :: pmsg option step" ?s "request_ctx q"])
       (auto simp: settle_def auditOutcome_def assms(4) request_ctx_def id)
  moreover have "fst (writeChainErr F eid d (Sentinel SNotFound)) =
      writeErr eid 404 (sf_CodeName F CodeNotFound) ''not found''" for eid
    using refuse_wire_code[OF assms(1) answer_code[OF assms(1), of "Sentinel SNotFound" CodeNotFound], of eid]
    by (simp add: writeChainErr_def static_message_def staticMessages_def)
  ultimately show ?thesis by (simp add: call_tool_def Let_def)
qed

text \<open>
  What tells a denied tool from an absent one. The handler's comments ask that the answer for a tool
  the caller may not see and the answer for a tool that is not there be indistinguishable to anyone
  probing. They share only the status 404: an identified caller gets the code \<open>unimplemented\<close>, a
  sentence naming the path and no event id for an absent route, and the code \<open>not_found\<close>, another
  sentence and the id of a ledger row for one that exists and is denied to it. So a caller can
  enumerate the routes of tools it may not see.
\<close>

theorem denied_told_from_absent:
  assumes "codeOf_spec (sf_CodeOf F)" "surface_ok E h" "one_gen h g" "hd_Audit h = None"
    and "planeFor E v h g = (Inr pl, h1)"
    and "hq_Method q = ''POST''" "principal_of who (pl_reg pl) q = Inr p"
    and "hq_Path q \<noteq> ListToolsPath" "\<forall>d \<in> set (ct_Defs (snd g)). t_FullMethod d \<noteq> hq_Path q"
    and "hq_Method q' = ''POST''" "principal_of who (pl_reg pl) q' = Inr p"
    and "lookup_route (ct_Defs (snd g)) (hq_Path q') = Some d"
    and "\<And>r. rc = Some r \<Longrightarrow> Quarantined r (pkgOfFQN (t_FQN d)) = None"
    and "read_body q' = Some raw" "t_Input d = Some i"
    and "sf_Unmarshal F i (has_prefix (hq_ContentType q') contentJSON) raw = Inr req"
    and "lookup_tool (pl_core pl) (hq_Path q') = Some t"
    and "\<not> Visible (gen_env E (snd g)) (pl_core pl) (Some p) t"
  shows "sd_Answer (ServeHTTP F E v K who rc (Some g) h hist q) =
       Written (writeErr None 404 ''unimplemented'' (''no tool is served at '' @ hq_Path q)) \<and>
     sd_Answer (ServeHTTP F E v K who rc (Some g) h hist q') =
       Written (writeErr (setEventID (Some (en_NewEventID E hist))) 404 (sf_CodeName F CodeNotFound) ''not found'')"
proof -
  have pl: "plane_for E h g pl" using planeFor_surface[OF assms(2,3,5)] by blast
  have audit: "c_audit (pl_core pl) = None" using pl assms(4) by (simp add: plane_for_def)
  note d = lookup_route_iff[OF assms(12)]
  have listing: "hq_Path q' \<noteq> ListToolsPath" using pl d unfolding plane_for_def by metis
  have absent: "lookup_route (ct_Defs (snd g)) (hq_Path q) = None" using assms(9) by (simp add: lookup_route_None)
  have "sd_Answer (route F (gen_env E (snd g)) K rc h1 hist pl g p q) =
      Written (writeErr None 404 ''unimplemented'' (''no tool is served at '' @ hq_Path q))"
    by (simp add: route_def assms(8) absent)
  moreover have "route F (gen_env E (snd g)) K rc h1 hist pl g p q' = call_tool F (gen_env E (snd g)) K h1 hist pl p d q'
      (has_prefix (hq_ContentType q') contentJSON) req"
  proof -
    have "Option.bind rc (\<lambda>r. Quarantined r (pkgOfFQN (t_FQN d))) = None" using assms(13) by (cases rc) auto
    then show ?thesis by (simp add: route_def listing assms(12,14-16) Let_def)
  qed
  moreover have "lookup_tool (pl_core pl) (t_FullMethod d) = Some t" using assms(17) d by simp
  from call_unseen[OF assms(1) this assms(18) audit, of K h1 hist q' "has_prefix (hq_ContentType q') contentJSON" req]
  have "sd_Answer (call_tool F (gen_env E (snd g)) K h1 hist pl p d q' (has_prefix (hq_ContentType q') contentJSON) req) =
      Written (writeErr (setEventID (Some (en_NewEventID E hist))) 404 (sf_CodeName F CodeNotFound) ''not found'')"
    by simp
  ultimately show ?thesis using assms(5-7,10,11) by (simp add: ServeHTTP_def)
qed

section \<open>The listing\<close>

lemma list_items_mounted:
  assumes "\<forall>t \<in> set ts. planned (c_plans c) (t_Input t) \<and> planned (c_plans c) (t_Output t)" "schemas_ok E c"
  shows "\<exists>items. fst (list_items F E p ts c) = Inr items \<and>
     list_all2 (\<lambda>t it. \<exists>i pl docs. t_Input t = Some i \<and> c_plans c i = Some pl \<and>
       it = list_item_of F t (project_schema E pl (Shape p) docs a_Write)) ts items"
  using assms
proof (induction ts arbitrary: c)
  case (Cons t ts)
  obtain i out pi po where t: "t_Input t = Some i" "c_plans c i = Some pi" "t_Output t = Some out"
      "c_plans c out = Some po"
    using Cons.prems(1) by (auto simp: planned_def split: option.splits)
  obtain sin sout c1 where s: "SchemaFor E c t (Some p) = (Inr (sin, sout), c1)"
    by (cases "cache_get (c_schemas c) (i, Shape p, False) (\<lambda>u. ProjectInput E pi (Shape p) (t_FieldDocs t))";
        cases "cache_get (snd (cache_get (c_schemas c) (i, Shape p, False)
            (\<lambda>u. ProjectInput E pi (Shape p) (t_FieldDocs t)))) (out, Shape p, True)
            (\<lambda>u. ProjectOutput E po (Shape p) (t_FieldDocs t))")
       (simp add: SchemaFor_def PlanFor_def t)
  have plans: "c_plans c1 = c_plans c" using bare_all(8)[OF SchemaFor_bare[OF s]] .
  obtain items where items: "fst (list_items F E p ts c1) = Inr items"
     "list_all2 (\<lambda>t it. \<exists>i pl docs. t_Input t = Some i \<and> c_plans c i = Some pl \<and>
       it = list_item_of F t (project_schema E pl (Shape p) docs a_Write)) ts items"
    using Cons.IH[of c1] Cons.prems(1) SchemaFor_ok[OF Cons.prems(2) s] unfolding plans by auto
  have "fst (list_items F E p (t # ts) c) = Inr (list_item_of F t sin # items)"
    using items(1) by (cases "list_items F E p ts c1") (simp add: s)
  then show ?case using SchemaFor_input[OF Cons.prems(2) s] items(2) by auto
qed simp

text \<open>
  C34: A listing is the caller's catalogue. Asked by an identified caller for an audience that is one, the
  endpoint always answers, with no ledger row: the digest of the generation the request read, and one
  entry per tool mounted in its chain that step 2 would let this caller reach and that is for that
  audience, sorted by name, each with the input schema cut down to what this caller may write.
\<close>

theorem listing_is_the_catalogue:
  assumes "surface_ok E h" "one_gen h g" "planeFor E v h g = (Inr pl, h1)"
    and "hq_Method q = ''POST''" "principal_of who (pl_reg pl) q = Inr p" "hq_Path q = ListToolsPath"
    and "audienceAsked F q = Inr want"
  defines "ts \<equiv> Catalog (gen_env E (snd g)) (pl_core pl) (Some p) (no_filter\<lparr>f_Audience := want\<rparr>)"
  shows "\<exists>items. sd_Answer (ServeHTTP F E v K who rc (Some g) h hist q) =
       Written \<lparr>hr_Status = 200, hr_ContentType = contentJSON, hr_EventID = None,
                hr_Digest = Some (ct_Digest (snd g)), hr_Body = ListBody (ct_Digest (snd g)) items\<rparr> \<and>
     list_all2 (\<lambda>t it. \<exists>i plan docs. t_Input t = Some i \<and> c_plans (pl_core pl) i = Some plan \<and>
       it = list_item_of F t (project_schema (gen_env E (snd g)) plan (Shape p) docs a_Write)) ts items \<and>
     set ts = {t \<in> set (mounted (pl_core pl)).
       Visible (gen_env E (snd g)) (pl_core pl) (Some p) t \<and> audience_admits (t_Audience t) want} \<and>
     sorted (map t_FQN ts) \<and>
     sd_Hist (ServeHTTP F E v K who rc (Some g) h hist q) = hist"
proof -
  let ?E = "gen_env E (snd g)" and ?c = "pl_core pl"
  have P: "plane_for E h g pl" "schemas_ok ?E ?c" using planeFor_surface[OF assms(1-3)] by blast+
  then have gen: "pl_gen pl = g" and ok: "core_ok ?E ?c" by (simp_all add: plane_for_def)
  have ts: "set ts = {t \<in> set (mounted ?c). Visible ?E ?c (Some p) t \<and> audience_admits (t_Audience t) want}"
    by (simp add: ts_def Catalog_def catalog_in_set matches_iff no_filter_def)
  have "planned (c_plans ?c) (t_Input t) \<and> planned (c_plans ?c) (t_Output t)" if "t \<in> set ts" for t
    using that ok unfolding ts core_ok_def by (fastforce simp: entry_ok_def)
  then obtain items where items: "fst (list_items F ?E p ts ?c) = Inr items"
     "list_all2 (\<lambda>t it. \<exists>i pl docs. t_Input t = Some i \<and> c_plans ?c i = Some pl \<and>
       it = list_item_of F t (project_schema ?E pl (Shape p) docs a_Write)) ts items"
    using list_items_mounted[OF _ P(2)] by blast
  obtain c1 where l: "list_items F ?E p ts ?c = (Inr items, c1)"
    using items(1) by (cases "list_items F ?E p ts ?c") simp
  have "sd_Answer (ServeHTTP F E v K who rc (Some g) h hist q) =
       Written \<lparr>hr_Status = 200, hr_ContentType = contentJSON, hr_EventID = None,
                hr_Digest = Some (ct_Digest (snd g)), hr_Body = ListBody (ct_Digest (snd g)) items\<rparr> \<and>
      sd_Hist (ServeHTTP F E v K who rc (Some g) h hist q) = hist"
    using assms(3-6) l unfolding ts_def by (simp add: ServeHTTP_def route_def listTools_def assms(7) gen)
  moreover have "sorted (map t_FQN ts)" unfolding ts_def Catalog_def by (rule catalog_in_sorted)
  ultimately show ?thesis using items(2) ts by blast
qed

section \<open>Quarantine\<close>

text \<open>
  A tool whose service was heard running another contract is not called. Once a sweep heard an
  instance that disagrees with the catalogue, and while no later sweep had licence to lift the verdict,
  no request whose route is a tool of that package makes the resolver run, in whatever generation.
\<close>

theorem mismatch_is_not_called:
  assumes "sweep subj (Some c) (Inr rn) now r = (r1, ls)"
    and "svc \<in> set (rn_Services rn)" "answers_for (pkg_of subj (ct_Defs c)) pkg svc" "\<not> agrees c pkg svc"
    and "\<forall>(cat, disc, now) \<in> set xs. no_licence subj pkg cat disc"
    and "\<And>g d. current = Some g \<Longrightarrow> lookup_route (ct_Defs (snd g)) (hq_Path q) = Some d \<Longrightarrow> pkgOfFQN (t_FQN d) = pkg"
    and "sd_Hist (ServeHTTP F E v K who (Some (sweeps subj xs r1)) current h hist q) = es @ hist"
  shows "EResolve procedure m ic \<notin> set es"
proof -
  have "Quarantined r1 pkg \<noteq> None" using sweep_refuses[OF assms(1), of pkg] assms(2-4) by blast
  then have bad: "Quarantined (sweeps subj xs r1) pkg \<noteq> None" by (rule sweeps_keep[OF _ assms(5)])
  let ?rc = "Some (sweeps subj xs r1)"
  show ?thesis
  proof (cases rule: ServeHTTP_cases[of q F E v K who ?rc current h hist])
    case (stranger g pl h1 cause e hist' eid)
    have "\<forall>a \<in> set es. closing_effect a \<or> is_row a"
      using Unauthenticated_row(3)[OF stranger(5)] stranger(6) assms(7) by (auto simp: request_ctx_def)
    then show ?thesis by auto
  next
    case (known g pl h1 p)
    show ?thesis
    proof (cases rule: route_cases[of q F "gen_env E (snd g)" pl p K ?rc h1 hist g])
      case (call d raw i req)
      then show ?thesis using bad assms(6)[OF known(2) call(2)] by auto
    qed (use assms(7) known(5) in auto)
  qed (use assms(7) in auto)
qed

section \<open>A process, evaluated\<close>

definition toy_surface :: surface where
  "toy_surface =
     \<lparr>sf_Unmarshal = (\<lambda>i js raw. if raw = ''?'' then Inl ''bad'' else Inr (Msg i [])),
      sf_Marshal = (\<lambda>js m. Inr ''reply''),
      sf_ListBody = (\<lambda>raw. if raw = ''{}'' then Some [] else None),
      sf_VerbName = (\<lambda>v. ''VERB''), sf_ModeName = (\<lambda>m. ''MODE''),
      sf_CodeName = (\<lambda>k. if k = CodeNotFound then ''not_found'' else if k = CodeUnimplemented
         then ''unimplemented'' else ''code''),
      sf_CodeOf = (\<lambda>e. case as_connect e of Some (c, _) \<Rightarrow> c | None \<Rightarrow> CodeUnknown)\<rparr>"

definition toy_who :: principals where
  "toy_who = Some (\<lambda>reg q. if hq_Authorization q = ''alice'' then Inr (Some sample_principal)
                          else Inl (Plain ''no token''))"

definition toy_request :: "string \<Rightarrow> string \<Rightarrow> http_request" where
  "toy_request path auth = \<lparr>hq_Method = ''POST'', hq_Path = path, hq_Grant = [],
     hq_ContentType = contentProto, hq_Authorization = auth, hq_Body = Inr ''{}''\<rparr>"

definition toy_gen :: "unit gen" where
  "toy_gen = (3, projr (Load toy_catlib ''artifact'' 7))"

abbreviation toy_serve :: "reconciler option \<Rightarrow> http_request \<Rightarrow> unit served" where
  "toy_serve rc q \<equiv> ServeHTTP toy_surface sample_env toy_validator sample_rules toy_who rc (Some toy_gen)
     toy_handler [] q"

lemma toy_surface_spec: "codeOf_spec (sf_CodeOf toy_surface)"
  by (simp add: codeOf_spec_def toy_surface_def)

lemma toy_handler_ok: "surface_ok sample_env toy_handler" "one_gen toy_handler g" "hd_Audit toy_handler = None"
  by (simp_all add: surface_ok_def handler_ok_def one_gen_def toy_handler_def)

text \<open>A tool that answers, one the caller may not see, one that is not there; and no caller.\<close>

definition answer_key :: "http_answer \<Rightarrow> int \<times> string \<times> bool" where
  "answer_key a =
     (case a of
        Aborted z \<Rightarrow> (0, [], False)
      | Written r \<Rightarrow> (hr_Status r, (case hr_Body r of ErrorBody c m \<Rightarrow> c | WireBody b \<Rightarrow> b | _ \<Rightarrow> []), hr_EventID r \<noteq> None))"

lemma toy_answers:
  "answer_key (sd_Answer (toy_serve None (toy_request ''/a.S/GetIt'' ''alice''))) = (200, ''reply'', True)"
  "answer_key (sd_Answer (toy_serve None (toy_request ''/a.S/Pay'' ''alice''))) = (404, ''not_found'', True)"
  "answer_key (sd_Answer (toy_serve None (toy_request ''/a.S/No'' ''alice''))) = (404, ''unimplemented'', False)"
  "answer_key (sd_Answer (toy_serve None (toy_request ''/a.S/Pay'' ''bob''))) = (401, ''code'', True)"
  by code_simp+

lemma serving_keeps_governance_witness:
  "surface_ok sample_env (sd_Handler (toy_serve None (toy_request ''/a.S/GetIt'' ''alice'')))"
  using serving_keeps_governance[OF toy_handler_ok(1,2), where current = "Some toy_gen"] by blast

fun effect_resolves :: "effect \<Rightarrow> bool" where
  "effect_resolves (EResolve procedure m ic) = True"
| "effect_resolves _ = False"

lemma toy_resolves: "list_ex effect_resolves (sd_Hist (toy_serve None (toy_request ''/a.S/GetIt'' ''alice'')))"
  by code_simp

lemma tool_only_behind_chain_witness:
  "\<exists>d \<in> set (ct_Defs (snd toy_gen)). t_FullMethod d = ''/a.S/GetIt'' \<and>
     (\<exists>pl h1. planeFor sample_env toy_validator toy_handler toy_gen = (Inr pl, h1) \<and>
        plane_for sample_env toy_handler toy_gen pl)"
proof -
  let ?q = "toy_request ''/a.S/GetIt'' ''alice''"
  obtain procedure m ic where r: "EResolve procedure m ic \<in> set (sd_Hist (toy_serve None ?q))"
    using toy_resolves by (auto simp: list_ex_iff elim: effect_resolves.elims)
  show ?thesis
    using tool_only_behind_chain[OF toy_handler_ok(1,2) _ r, where current = "Some toy_gen" and hist = "[]"
        and F = toy_surface and v = toy_validator and K = sample_rules and who = toy_who and rc = None and q = ?q]
    by (auto simp: toy_request_def)
qed

lemma toy_plane_denies:
  "case fst (planeFor sample_env toy_validator toy_handler toy_gen) of
     Inl _ \<Rightarrow> False
   | Inr pl \<Rightarrow>
       (case lookup_tool (pl_core pl) ''/a.S/Pay'' of
          None \<Rightarrow> False
        | Some t \<Rightarrow> \<not> Visible (gen_env sample_env (snd toy_gen)) (pl_core pl) (Some sample_principal) t)"
  "map_option t_Input (lookup_route (ct_Defs (snd toy_gen)) ''/a.S/Pay'') = Some (Some 0)"
  "lookup_route (ct_Defs (snd toy_gen)) ''/a.S/No'' = None"
  by code_simp+

lemma toy_plane_for:
  obtains pl h1 t where "planeFor sample_env toy_validator toy_handler toy_gen = (Inr pl, h1)"
    "lookup_tool (pl_core pl) ''/a.S/Pay'' = Some t"
    "\<not> Visible (gen_env sample_env (snd toy_gen)) (pl_core pl) (Some sample_principal) t"
  using toy_plane_denies(1)
  by (cases "planeFor sample_env toy_validator toy_handler toy_gen") (auto split: sum.splits option.splits)

lemma toy_principal:
  "principal_of toy_who reg (toy_request path ''alice'') = Inr sample_principal"
  "principal_of toy_who reg (toy_request path ''bob'') = Inl (Plain ''no token'')"
  by (simp_all add: principal_of_def toy_who_def toy_request_def)

lemma stranger_learns_nothing_witness:
  "sd_Answer (toy_serve None (toy_request ''/a.S/Pay'' ''bob'')) =
   sd_Answer (toy_serve None (toy_request ''/nowhere'' ''bob''))"
proof -
  obtain pl h1 where p: "planeFor sample_env toy_validator toy_handler toy_gen = (Inr pl, h1)"
    by (rule toy_plane_for)
  note S = stranger_learns_nothing[OF toy_surface_spec, where g = toy_gen and current = "Some toy_gen", OF _ refl p toy_principal(2)]
  show ?thesis using S[of "''/a.S/Pay''"] S[of "''/nowhere''"] by (simp add: toy_request_def)
qed

lemma refusal_is_scrubbed_witness:
  "err_status (hr_Status (fst (writeChainErr toy_surface None sample_tool (ToolRefusal ''409'')))) \<and>
   hr_EventID (fst (writeChainErr toy_surface None sample_tool (ToolRefusal ''409''))) = None"
  using refusal_is_scrubbed[OF toy_surface_spec refl, of None sample_tool "ToolRefusal ''409''"] by blast

lemma denied_told_from_absent_witness:
  "sd_Answer (toy_serve None (toy_request ''/a.S/No'' ''alice'')) \<noteq>
   sd_Answer (toy_serve None (toy_request ''/a.S/Pay'' ''alice''))"
proof -
  obtain pl h1 t where p: "planeFor sample_env toy_validator toy_handler toy_gen = (Inr pl, h1)"
    "lookup_tool (pl_core pl) ''/a.S/Pay'' = Some t"
    "\<not> Visible (gen_env sample_env (snd toy_gen)) (pl_core pl) (Some sample_principal) t"
    by (rule toy_plane_for)
  obtain d where d: "lookup_route (ct_Defs (snd toy_gen)) ''/a.S/Pay'' = Some d" "t_Input d = Some 0"
    using toy_plane_denies(2) by auto
  have sel: "hq_Path (toy_request path auth) = path" "hq_Method (toy_request path auth) = ''POST''"
    "read_body (toy_request path auth) = Some ''{}''"
    "sf_Unmarshal toy_surface i js ''{}'' = Inr (Msg i [])" for path auth i js
    by (simp_all add: toy_request_def read_body_def maxRequestBytes_def toy_surface_def)
  have absent: "\<forall>d \<in> set (ct_Defs (snd toy_gen)). t_FullMethod d \<noteq> ''/a.S/No''"
    using toy_plane_denies(3) by (simp add: lookup_route_None)
  have "sd_Answer (toy_serve None (toy_request ''/a.S/No'' ''alice'')) =
       Written (writeErr None 404 ''unimplemented'' (''no tool is served at '' @ ''/a.S/No'')) \<and>
     sd_Answer (toy_serve None (toy_request ''/a.S/Pay'' ''alice'')) =
       Written (writeErr (setEventID (Some (en_NewEventID sample_env []))) 404
         (sf_CodeName toy_surface CodeNotFound) ''not found'')"
    using denied_told_from_absent[OF toy_surface_spec toy_handler_ok p(1), of
        "toy_request ''/a.S/No'' ''alice''" toy_who sample_principal "toy_request ''/a.S/Pay'' ''alice''" d None "''{}''" 0 "Msg 0 []" t sample_rules "[]"]
    by (simp add: sel toy_principal absent d p(2,3) ListToolsPath_def)
  then show ?thesis by (simp add: writeErr_def)
qed

lemma listing_is_the_catalogue_witness:
  "\<exists>items. sd_Answer (toy_serve None (toy_request ListToolsPath ''alice'')) =
       Written \<lparr>hr_Status = 200, hr_ContentType = contentJSON, hr_EventID = None,
                hr_Digest = Some (ct_Digest (snd toy_gen)), hr_Body = ListBody (ct_Digest (snd toy_gen)) items\<rparr>"
proof -
  obtain pl h1 where p: "planeFor sample_env toy_validator toy_handler toy_gen = (Inr pl, h1)"
    by (rule toy_plane_for)
  have a: "audienceAsked toy_surface (toy_request ListToolsPath ''alice'') = Inr AudienceUnspecified"
    by code_simp
  show ?thesis
    using listing_is_the_catalogue[OF toy_handler_ok(1,2) p _ toy_principal(1) _ a,
        where K = sample_rules and rc = None and hist = "[]"]
    by (auto simp: toy_request_def)
qed

text \<open>A round in which the service of package \<open>a\<close> advertises what the catalogue does not record.\<close>

definition stray_round :: round where
  "stray_round = \<lparr>rn_Services = [\<lparr>sv_Name = ''a'', sv_Instance = ''1'', sv_Version = ''1'', sv_Identity = ''x'',
     sv_Subjects = [''/a.S/GetIt'']\<rparr>], rn_Enumeration = None, rn_Partial = []\<rparr>"

definition stray_reconciler :: reconciler where
  "stray_reconciler = fst (sweep id (Some (snd toy_gen)) (Inr stray_round) 1 fresh_reconciler)"

lemma stray_facts:
  "answers_for (pkg_of id (ct_Defs (snd toy_gen))) ''a'' (hd (rn_Services stray_round))"
  "\<not> agrees (snd toy_gen) ''a'' (hd (rn_Services stray_round))"
  "map_option (\<lambda>d. pkgOfFQN (t_FQN d)) (lookup_route (ct_Defs (snd toy_gen)) ''/a.S/GetIt'') = Some ''a''"
  by code_simp+

lemma mismatch_is_not_called_witness:
  "\<forall>procedure m ic. EResolve procedure m ic \<notin>
     set (sd_Hist (toy_serve (Some stray_reconciler) (toy_request ''/a.S/GetIt'' ''alice'')))"
proof (intro allI)
  fix procedure m ic
  let ?q = "toy_request ''/a.S/GetIt'' ''alice''"
  obtain r1 ls where s: "sweep id (Some (snd toy_gen)) (Inr stray_round) 1 fresh_reconciler = (r1, ls)"
    by fastforce
  have r1: "r1 = stray_reconciler" using s by (simp add: stray_reconciler_def)
  have pkg: "pkgOfFQN (t_FQN d) = ''a''"
    if "Some toy_gen = Some g" "lookup_route (ct_Defs (snd g)) (hq_Path ?q) = Some d" for g d
    using that stray_facts(3) by (simp add: toy_request_def)
  show "EResolve procedure m ic \<notin> set (sd_Hist (toy_serve (Some stray_reconciler) ?q))"
    by (rule mismatch_is_not_called[OF s _ stray_facts(1,2), where current = "Some toy_gen" and q = ?q
          and xs = "[]" and hist = "[]" and F = toy_surface and v = toy_validator and K = sample_rules
          and who = toy_who and E = sample_env and h = toy_handler, OF _ _ pkg])
       (simp_all add: stray_round_def r1)
qed

end
