(* ===== verification/Recorder.thy ===== *)
theory Recorder
  imports Plugins "HOL-Library.AList" "HOL-Library.Multiset"
begin

text \<open>
  \<open>internal/record/jetstream/recorder.go\<close>: the ledger publisher that batches rows per subject, bounds
  every batch by count and bytes, caps what it holds and degrades to a fallback. Its mutex makes
  \<open>Record\<close>, sealing and popping atomic; publishing happens outside it. So the operations are functions
  on the state the mutex guards, and \<open>recorder_step\<close> interleaves them with the flusher goroutine (\<open>run\<close>)
  and \<open>Close\<close>, whose program counter is \<open>jr_worker\<close>.

  Library code is the parameter \<open>ledger_lib\<close>: the conversions of \<open>contracts/ledger\<close>, the subject of a
  row, and the encoded sizes of protobuf. A publish answers whether it was acknowledged and, whatever it
  answered, the stream may hold the batch.
\<close>

section \<open>State\<close>

record 'p ledger_lib =
  ll_ToProto :: "event \<Rightarrow> 'p"
  ll_FromProto :: "'p \<Rightarrow> event"
  ll_Subject :: "string \<Rightarrow> string \<Rightarrow> string"
  ll_Size :: "'p \<Rightarrow> nat"
  ll_SizeTag :: "nat \<Rightarrow> nat"
  ll_SizeBytes :: "nat \<Rightarrow> nat"

record 'p batch =
  ba_subject :: string
  ba_id :: string
  ba_events :: "'p list"
  ba_bytes :: nat

record rec_config =
  jc_maxEvents :: int
  jc_maxBytes :: int
  jc_maxBuffered :: int

text \<open>The flusher: waiting, draining the ready batches (finally, or not), in a publish, or returned.\<close>

datatype 'p worker = Idle | Draining bool | Sending bool "'p batch" | Returned | Finished

record 'p recorder =
  jr_open :: "(string \<times> 'p batch) list"
  jr_ready :: "'p batch list"
  jr_buffered :: int
  jr_closed :: bool
  jr_wake :: bool
  jr_worker :: "'p worker"
  jr_stream :: "'p batch list"
  jr_fallback :: "event list"

section \<open>Construction\<close>

definition DefaultMaxEvents :: int where "DefaultMaxEvents = 256"
definition DefaultMaxBytes :: int where "DefaultMaxBytes = 512 * 1024"

definition orInt :: "int \<Rightarrow> int \<Rightarrow> int" where
  "orInt v d = (if v \<le> 0 then d else v)"

text \<open>
  The durations: how long a row may sit unpublished, how long one publish and the final flush may take.
  They bound the moments at which \<open>recorder_step\<close> ticks and a publish answers.
\<close>

record rec_timers =
  rt_Interval :: int
  rt_PublishTimeout :: int
  rt_CloseTimeout :: int

definition DefaultInterval :: int where "DefaultInterval = 200 * 10 ^ 6"
definition DefaultPublishTimeout :: int where "DefaultPublishTimeout = 10 * 10 ^ 9"
definition DefaultCloseTimeout :: int where "DefaultCloseTimeout = 5 * 10 ^ 9"

definition orDuration :: "int \<Rightarrow> int \<Rightarrow> int" where
  "orDuration v d = (if v \<le> 0 then d else v)"

definition New_timers :: "rec_timers \<Rightarrow> rec_timers" where
  "New_timers cfg = \<lparr>rt_Interval = orDuration (rt_Interval cfg) DefaultInterval,
     rt_PublishTimeout = orDuration (rt_PublishTimeout cfg) DefaultPublishTimeout,
     rt_CloseTimeout = orDuration (rt_CloseTimeout cfg) DefaultCloseTimeout\<rparr>"

lemma timers_positive:
  "0 < rt_Interval (New_timers cfg)" "0 < rt_PublishTimeout (New_timers cfg)" "0 < rt_CloseTimeout (New_timers cfg)"
  by (simp_all add: New_timers_def orDuration_def DefaultInterval_def DefaultPublishTimeout_def DefaultCloseTimeout_def)

definition rec_New :: "bool \<Rightarrow> bool \<Rightarrow> rec_config \<Rightarrow> string + (rec_config \<times> 'p recorder)" where
  "rec_New js fallback cfg =
     (if \<not> js then Inl ''a ledger publisher needs a JetStream publisher''
      else if \<not> fallback then Inl ''a ledger publisher needs a fallback Recorder''
      else (let n = orInt (jc_maxEvents cfg) DefaultMaxEvents
            in Inr (\<lparr>jc_maxEvents = n, jc_maxBytes = orInt (jc_maxBytes cfg) DefaultMaxBytes,
                     jc_maxBuffered = orInt (jc_maxBuffered cfg) (8 * n)\<rparr>,
                    \<lparr>jr_open = [], jr_ready = [], jr_buffered = 0, jr_closed = False, jr_wake = False,
                     jr_worker = Idle, jr_stream = [], jr_fallback = []\<rparr>)))"

section \<open>The operations under the mutex\<close>

definition batchEventsField :: nat where "batchEventsField = 1"

definition framedSize :: "'p ledger_lib \<Rightarrow> 'p \<Rightarrow> nat" where
  "framedSize L p = ll_SizeTag L batchEventsField + ll_SizeBytes L (ll_Size L p)"

text \<open>The id a row keeps: its own, or one minted now (\<open>new_id\<close>).\<close>

definition with_id :: "string \<Rightarrow> event \<Rightarrow> event" where
  "with_id new_id ev = (if ev_ID ev = [] then ev\<lparr>ev_ID := new_id\<rparr> else ev)"

definition over_bound :: "rec_config \<Rightarrow> nat \<Rightarrow> 'p batch \<Rightarrow> bool" where
  "over_bound cfg sz b \<longleftrightarrow>
     int (ba_bytes b + sz) > jc_maxBytes cfg \<or> int (length (ba_events b) + 1) > jc_maxEvents cfg"

definition enqueue ::
  "'p ledger_lib \<Rightarrow> rec_config \<Rightarrow> string \<Rightarrow> string \<Rightarrow> 'p \<Rightarrow> 'p recorder \<Rightarrow> 'p recorder" where
  "enqueue L cfg batch_id subject p r =
     (let sz = framedSize L p;
          fresh = \<lparr>ba_subject = subject, ba_id = batch_id, ba_events = [], ba_bytes = 0\<rparr>;
          (ready, b) =
            (case map_of (jr_open r) subject of
               None \<Rightarrow> (jr_ready r, fresh)
             | Some b \<Rightarrow> if over_bound cfg sz b then (jr_ready r @ [b], fresh) else (jr_ready r, b));
          b' = b\<lparr>ba_events := ba_events b @ [p], ba_bytes := ba_bytes b + sz\<rparr>
      in r\<lparr>jr_open := AList.update subject b' (jr_open r), jr_ready := ready,
           jr_buffered := jr_buffered r + 1, jr_wake := (jr_wake r \<or> ready \<noteq> [])\<rparr>)"

definition Record :: "'p ledger_lib \<Rightarrow> rec_config \<Rightarrow> string \<Rightarrow> string \<Rightarrow> event \<Rightarrow> 'p recorder \<Rightarrow> 'p recorder" where
  "Record L cfg new_id batch_id ev0 r =
     (let ev = with_id new_id ev0
      in if jr_closed r \<or> jr_buffered r \<ge> jc_maxBuffered cfg
         then r\<lparr>jr_fallback := jr_fallback r @ [ev]\<rparr>
         else enqueue L cfg batch_id (ll_Subject L (ev_Tenant ev) (ev_App ev)) (ll_ToProto L ev) r)"

definition sealAll :: "'p recorder \<Rightarrow> 'p recorder" where
  "sealAll r = r\<lparr>jr_ready := jr_ready r @ filter (\<lambda>b. ba_events b \<noteq> []) (map snd (jr_open r)), jr_open := []\<rparr>"

text \<open>The end of \<open>publish\<close>: did the stream store the batch, and did the publish report success.\<close>

definition published :: "'p ledger_lib \<Rightarrow> bool \<Rightarrow> bool \<Rightarrow> 'p batch \<Rightarrow> 'p recorder \<Rightarrow> 'p recorder" where
  "published L stored acked b r =
     r\<lparr>jr_stream := (if stored then jr_stream r @ [b] else jr_stream r),
       jr_fallback := (if acked then jr_fallback r
                       else jr_fallback r @ map (ll_FromProto L) (ba_events b)),
       jr_buffered := jr_buffered r - int (length (ba_events b))\<rparr>"

section \<open>The goroutines\<close>

text \<open>
  An acknowledged batch is stored. \<open>stop\<close> is closed with the flag, so the flusher may return whenever it
  is idle and the recorder is closed; \<open>Close\<close> then seals and drains what is left.
\<close>

inductive recorder_step ::
  "'p ledger_lib \<Rightarrow> rec_config \<Rightarrow> 'p recorder \<Rightarrow> event list \<Rightarrow> 'p recorder \<Rightarrow> bool" for L cfg where
  call: "recorder_step L cfg r [with_id new_id ev] (Record L cfg new_id batch_id ev r)"
| tick: "jr_worker r = Idle \<Longrightarrow> recorder_step L cfg r [] ((sealAll r)\<lparr>jr_worker := Draining False\<rparr>)"
| wake: "jr_worker r = Idle \<Longrightarrow> jr_wake r \<Longrightarrow>
    recorder_step L cfg r [] (r\<lparr>jr_wake := False, jr_worker := Draining False\<rparr>)"
| pop: "jr_worker r = Draining fin \<Longrightarrow> jr_ready r = b # bs \<Longrightarrow>
    recorder_step L cfg r [] (r\<lparr>jr_ready := bs, jr_worker := Sending fin b\<rparr>)"
| publish: "jr_worker r = Sending fin b \<Longrightarrow> (acked \<longrightarrow> stored) \<Longrightarrow>
    recorder_step L cfg r [] ((published L stored acked b r)\<lparr>jr_worker := Draining fin\<rparr>)"
| drained: "jr_worker r = Draining False \<Longrightarrow> jr_ready r = [] \<Longrightarrow>
    recorder_step L cfg r [] (r\<lparr>jr_worker := Idle\<rparr>)"
| close: "recorder_step L cfg r [] (r\<lparr>jr_closed := True\<rparr>)"
| stop: "jr_worker r = Idle \<Longrightarrow> jr_closed r \<Longrightarrow> recorder_step L cfg r [] (r\<lparr>jr_worker := Returned\<rparr>)"
| flush: "jr_worker r = Returned \<Longrightarrow>
    recorder_step L cfg r [] ((sealAll r)\<lparr>jr_worker := Draining True\<rparr>)"
| finish: "jr_worker r = Draining True \<Longrightarrow> jr_ready r = [] \<Longrightarrow>
    recorder_step L cfg r [] (r\<lparr>jr_worker := Finished\<rparr>)"

inductive_cases recorder_stepE: "recorder_step L cfg r es r'"

lemmas recorder_step_cases = recorder_stepE [consumes 1, case_names call tick wake pop publish drained close stop flush finish]

text \<open>A run: the rows recorded along it, oldest first.\<close>

inductive recorder_run ::
  "'p ledger_lib \<Rightarrow> rec_config \<Rightarrow> 'p recorder \<Rightarrow> event list \<Rightarrow> 'p recorder \<Rightarrow> bool" for L cfg where
  start: "recorder_run L cfg r [] r"
| more: "recorder_run L cfg r es r1 \<Longrightarrow> recorder_step L cfg r1 fs r2 \<Longrightarrow> recorder_run L cfg r (es @ fs) r2"

section \<open>What a state holds\<close>

fun in_flight :: "'p worker \<Rightarrow> 'p batch list" where
  "in_flight (Sending fin b) = [b]"
| "in_flight _ = []"

definition held :: "'p recorder \<Rightarrow> 'p batch list" where
  "held r = map snd (jr_open r) @ jr_ready r @ in_flight (jr_worker r)"

definition rows :: "'p batch list \<Rightarrow> 'p multiset" where
  "rows bs = (\<Sum>b \<in># mset bs. mset (ba_events b))"

lemma rows_simps [simp]:
  "rows [] = {#}" "rows (b # bs) = mset (ba_events b) + rows bs" "rows (xs @ ys) = rows xs + rows ys"
  by (simp_all add: rows_def)

lemma rows_nonempty [simp]: "rows (filter (\<lambda>b. ba_events b \<noteq> []) bs) = rows bs"
  by (induction bs) auto

lemma rows_update:
  assumes "distinct (map fst xs)"
  shows "rows (map snd (AList.update k b xs)) + (case map_of xs k of None \<Rightarrow> {#} | Some o' \<Rightarrow> mset (ba_events o')) =
     rows (map snd xs) + mset (ba_events b)"
  using assms
proof (induction xs)
  case (Cons x xs)
  obtain k' b' where x: "x = (k', b')" by (cases x)
  show ?case
  proof (cases "k' = k")
    case False
    have "rows (map snd (AList.update k b xs)) + (case map_of xs k of None \<Rightarrow> {#} | Some o' \<Rightarrow> mset (ba_events o')) =
        rows (map snd xs) + mset (ba_events b)"
      using Cons by simp
    then show ?thesis using False by (simp add: x)
  qed (use Cons.prems in \<open>simp add: x\<close>)
qed simp

text \<open>One batch: one subject, its rows' size, within the bounds unless it holds a single row.\<close>

definition batch_ok :: "'p ledger_lib \<Rightarrow> rec_config \<Rightarrow> 'p batch \<Rightarrow> bool" where
  "batch_ok L cfg b \<longleftrightarrow>
     (\<forall>p \<in> set (ba_events b). \<exists>ev. p = ll_ToProto L ev \<and> ba_subject b = ll_Subject L (ev_Tenant ev) (ev_App ev)) \<and>
     ba_bytes b = sum_list (map (framedSize L) (ba_events b)) \<and>
     (length (ba_events b) \<le> 1 \<or>
      int (length (ba_events b)) \<le> jc_maxEvents cfg \<and> int (ba_bytes b) \<le> jc_maxBytes cfg)"

definition store_ok :: "'p ledger_lib \<Rightarrow> rec_config \<Rightarrow> 'p recorder \<Rightarrow> bool" where
  "store_ok L cfg r \<longleftrightarrow>
     distinct (map fst (jr_open r)) \<and>
     (\<forall>(s, b) \<in> set (jr_open r). ba_subject b = s) \<and>
     (\<forall>b \<in> set (held r) \<union> set (jr_stream r). batch_ok L cfg b) \<and>
     jr_buffered r = int (size (rows (held r))) \<and>
     jr_buffered r \<le> max 0 (jc_maxBuffered cfg)"

text \<open>After the flusher returned the recorder is closed; once \<open>Close\<close> has sealed, nothing is open.\<close>

fun phase_ok :: "'p worker \<Rightarrow> bool \<Rightarrow> bool \<Rightarrow> bool \<Rightarrow> bool" where
  "phase_ok Returned closed none_open none_ready = closed"
| "phase_ok (Draining True) closed none_open none_ready = (closed \<and> none_open)"
| "phase_ok (Sending True b) closed none_open none_ready = (closed \<and> none_open)"
| "phase_ok Finished closed none_open none_ready = (closed \<and> none_open \<and> none_ready)"
| "phase_ok _ closed none_open none_ready = True"

definition recorder_ok :: "'p ledger_lib \<Rightarrow> rec_config \<Rightarrow> 'p recorder \<Rightarrow> bool" where
  "recorder_ok L cfg r \<longleftrightarrow> store_ok L cfg r \<and>
     phase_ok (jr_worker r) (jr_closed r) (jr_open r = []) (jr_ready r = [])"

lemma store_ok_moved:
  assumes "store_ok L cfg r" "jr_open r' = jr_open r \<or> jr_open r' = []" "rows (held r') = rows (held r)"
    and "set (held r') \<subseteq> set (held r)" "jr_stream r' = jr_stream r" "jr_buffered r' = jr_buffered r"
  shows "store_ok L cfg r'"
  using assms unfolding store_ok_def by auto

section \<open>The operations keep the invariant\<close>

lemma rows_update_none:
  "distinct (map fst xs) \<Longrightarrow> map_of xs k = None \<Longrightarrow>
     rows (map snd (AList.update k b xs)) = rows (map snd xs) + mset (ba_events b)"
  using rows_update[of xs k b] by simp

lemma rows_update_some:
  "distinct (map fst xs) \<Longrightarrow> map_of xs k = Some a \<Longrightarrow>
     rows (map snd (AList.update k b xs)) + mset (ba_events a) = rows (map snd xs) + mset (ba_events b)"
  using rows_update[of xs k b] by simp

lemma set_update_pair: "(k', c) \<in> set (AList.update k b xs) \<Longrightarrow> (k', c) = (k, b) \<or> (k', c) \<in> set xs"
  by (induction xs) (auto split: if_splits)

lemma set_update_snd:
  "x \<in> set (map snd (AList.update k b xs)) \<Longrightarrow> x = b \<or> x \<in> set (map snd xs)"
  using set_update_pair[of _ x k b xs] by force

lemma enqueue_rows:
  assumes "distinct (map fst (jr_open r))"
  shows "rows (held (enqueue L cfg i s p r)) = rows (held r) + {#p#}"
proof (cases "map_of (jr_open r) s")
  case None
  then show ?thesis using rows_update_none[OF assms None]
    by (simp add: enqueue_def held_def Let_def)
next
  case (Some b)
  let ?f = "\<lparr>ba_subject = s, ba_id = i, ba_events = [p], ba_bytes = framedSize L p\<rparr>"
  let ?b = "b\<lparr>ba_events := ba_events b @ [p], ba_bytes := ba_bytes b + framedSize L p\<rparr>"
  show ?thesis
  proof (cases "over_bound cfg (framedSize L p) b")
    case True
    then show ?thesis using rows_update_some[OF assms Some, of ?f] Some
      by (simp add: enqueue_def held_def Let_def ac_simps)
  next
    case False
    have "rows (map snd (AList.update s ?b (jr_open r))) = rows (map snd (jr_open r)) + {#p#}"
      using rows_update_some[OF assms Some, of ?b] by simp
    then show ?thesis using False Some by (simp add: enqueue_def held_def Let_def)
  qed
qed

lemma batch_ok_snoc:
  assumes "batch_ok L cfg b" "\<not> over_bound cfg (framedSize L (ll_ToProto L ev)) b"
    and "ba_subject b = ll_Subject L (ev_Tenant ev) (ev_App ev)"
  shows "batch_ok L cfg (b\<lparr>ba_events := ba_events b @ [ll_ToProto L ev],
     ba_bytes := ba_bytes b + framedSize L (ll_ToProto L ev)\<rparr>)"
  using assms by (auto simp: batch_ok_def over_bound_def)

lemma batch_ok_single:
  "batch_ok L cfg \<lparr>ba_subject = ll_Subject L (ev_Tenant ev) (ev_App ev), ba_id = i,
     ba_events = [ll_ToProto L ev], ba_bytes = framedSize L (ll_ToProto L ev)\<rparr>"
  by (auto simp: batch_ok_def)

lemma enqueue_ok:
  fixes ev L
  defines "s \<equiv> ll_Subject L (ev_Tenant ev) (ev_App ev)"
  assumes "store_ok L cfg r" "jr_buffered r < jc_maxBuffered cfg"
  shows "store_ok L cfg (enqueue L cfg i s (ll_ToProto L ev) r)"
proof -
  let ?p = "ll_ToProto L ev" and ?r = "enqueue L cfg i s (ll_ToProto L ev) r"
  have open_ok: "distinct (map fst (jr_open r))" "\<And>k b. (k, b) \<in> set (jr_open r) \<Longrightarrow> ba_subject b = k"
    and all_ok: "\<And>b. b \<in> set (held r) \<union> set (jr_stream r) \<Longrightarrow> batch_ok L cfg b"
    and count: "jr_buffered r = int (size (rows (held r)))"
    using assms(2) by (auto simp: store_ok_def)
  obtain b where b: "jr_open ?r = AList.update s b (jr_open r)" "ba_subject b = s" "batch_ok L cfg b"
    and ready: "set (jr_ready ?r) \<subseteq> set (jr_ready r) \<union> set (map snd (jr_open r))"
  proof (cases "map_of (jr_open r) s")
    case None
    show ?thesis
      by (rule that[of "\<lparr>ba_subject = s, ba_id = i, ba_events = [?p], ba_bytes = framedSize L ?p\<rparr>"])
         (use None batch_ok_single[of L cfg ev i] in \<open>auto simp: enqueue_def Let_def s_def\<close>)
  next
    case (Some o')
    have o: "(s, o') \<in> set (jr_open r)" by (rule map_of_SomeD[OF Some])
    show ?thesis
    proof (cases "over_bound cfg (framedSize L ?p) o'")
      case True
      show ?thesis
        by (rule that[of "\<lparr>ba_subject = s, ba_id = i, ba_events = [?p], ba_bytes = framedSize L ?p\<rparr>"])
           (use Some True o batch_ok_single[of L cfg ev i] in \<open>force simp: enqueue_def Let_def s_def\<close>)+
    next
      case False
      have "batch_ok L cfg o'" using o all_ok by (force simp: held_def)
      then show ?thesis
        by (intro that[of "o'\<lparr>ba_events := ba_events o' @ [?p], ba_bytes := ba_bytes o' + framedSize L ?p\<rparr>"])
           (use Some False open_ok(2)[OF o] batch_ok_snoc[of L cfg o' ev] in \<open>auto simp: enqueue_def Let_def s_def\<close>)
    qed
  qed
  have frame: "jr_stream ?r = jr_stream r" "jr_worker ?r = jr_worker r" "jr_closed ?r = jr_closed r"
      "jr_buffered ?r = jr_buffered r + 1"
    by (simp_all add: enqueue_def Let_def split: prod.split)
  have "distinct (map fst (jr_open ?r))" unfolding b(1) by (rule distinct_update[OF open_ok(1)])
  moreover have "\<forall>(k, c) \<in> set (jr_open ?r). ba_subject c = k"
    using open_ok(2) b(1,2) by (auto dest: set_update_pair)
  moreover have "batch_ok L cfg c" if "c \<in> set (held ?r) \<union> set (jr_stream ?r)" for c
    using that ready all_ok b(1,3) set_update_snd[of c s b "jr_open r"] unfolding held_def frame
    by fastforce
  moreover have "jr_buffered ?r = int (size (rows (held ?r)))"
    by (simp add: enqueue_rows[OF open_ok(1)] frame count)
  ultimately show ?thesis using assms(3) unfolding store_ok_def frame by auto
qed

lemma seal_held: "jr_worker r \<in> {Idle, Returned} \<Longrightarrow>
    rows (held ((sealAll r)\<lparr>jr_worker := Draining fin\<rparr>)) = rows (held r) \<and>
    set (held ((sealAll r)\<lparr>jr_worker := Draining fin\<rparr>)) \<subseteq> set (held r)"
  by (auto simp: held_def sealAll_def)

lemma seal_ok:
  assumes "jr_worker r \<in> {Idle, Returned}" "store_ok L cfg r"
  shows "store_ok L cfg ((sealAll r)\<lparr>jr_worker := Draining fin\<rparr>)"
  by (rule store_ok_moved[OF assms(2)]) (use seal_held[OF assms(1)] in \<open>simp_all add: sealAll_def\<close>)

lemma idle_ok:
  assumes "store_ok L cfg r" "in_flight w = in_flight (jr_worker r)"
  shows "store_ok L cfg (r\<lparr>jr_worker := w\<rparr>)" "store_ok L cfg (r\<lparr>jr_wake := x, jr_worker := w\<rparr>)"
    "store_ok L cfg (r\<lparr>jr_closed := c\<rparr>)" "store_ok L cfg (r\<lparr>jr_fallback := fb\<rparr>)"
  by (rule store_ok_moved[OF assms(1)]; simp add: held_def assms(2))+

lemma published_ok:
  assumes "store_ok L cfg r" "jr_worker r = Sending fin b"
  shows "store_ok L cfg ((published L stored acked b r)\<lparr>jr_worker := Draining fin\<rparr>)" (is "store_ok L cfg ?r")
proof -
  have r: "rows (held r) = rows (held ?r) + mset (ba_events b)" "set (held r) = insert b (set (held ?r))"
    using assms(2) by (auto simp: held_def published_def)
  have s: "set (jr_stream ?r) \<subseteq> insert b (set (jr_stream r))" by (auto simp: published_def)
  have o: "jr_open ?r = jr_open r" "jr_buffered ?r = jr_buffered r - int (length (ba_events b))"
    by (simp_all add: published_def)
  have "\<forall>c \<in> set (held ?r) \<union> set (jr_stream ?r). batch_ok L cfg c"
    using assms(1) r(2) s unfolding store_ok_def by blast
  moreover have "jr_buffered ?r = int (size (rows (held ?r)))" "jr_buffered ?r \<le> max 0 (jc_maxBuffered cfg)"
    using assms(1) r(1) unfolding o store_ok_def by simp_all
  ultimately show ?thesis using assms(1) unfolding store_ok_def o by blast
qed

lemma step_ok:
  assumes "recorder_step L cfg r es r'" "recorder_ok L cfg r"
  shows "recorder_ok L cfg r'"
proof -
  have st: "store_ok L cfg r" and ph: "phase_ok (jr_worker r) (jr_closed r) (jr_open r = []) (jr_ready r = [])"
    using assms(2) by (simp_all add: recorder_ok_def)
  from assms(1) show ?thesis
  proof (cases rule: recorder_step_cases)
    case (call new_id ev batch_id)
    show ?thesis
    proof (cases "jr_closed r \<or> jr_buffered r \<ge> jc_maxBuffered cfg")
      case True
      then have "r' = r\<lparr>jr_fallback := jr_fallback r @ [with_id new_id ev]\<rparr>"
        using call by (simp add: Record_def Let_def)
      then show ?thesis using idle_ok(4)[OF st refl] ph by (simp add: recorder_ok_def)
    next
      case False
      let ?e = "with_id new_id ev"
      let ?r = "enqueue L cfg batch_id (ll_Subject L (ev_Tenant ?e) (ev_App ?e)) (ll_ToProto L ?e) r"
      have "r' = ?r" using call False by (simp add: Record_def Let_def)
      moreover have "store_ok L cfg ?r" using enqueue_ok[OF st] False by simp
      moreover have "jr_worker ?r = jr_worker r" "jr_closed ?r = jr_closed r"
        by (simp_all add: enqueue_def Let_def split: prod.split)
      moreover have "phase_ok (jr_worker r) False a c" for a c
        using ph False by (cases "(jr_worker r, False, a, c)" rule: phase_ok.cases) auto
      ultimately show ?thesis using False by (simp add: recorder_ok_def)
    qed
  next
    case tick
    then show ?thesis using seal_ok[OF _ st, of False] by (simp add: recorder_ok_def)
  next
    case wake
    then show ?thesis using idle_ok(2)[OF st] by (simp add: recorder_ok_def)
  next
    case (pop fin b bs)
    have "store_ok L cfg r'"
      by (rule store_ok_moved[OF st]) (use pop in \<open>auto simp: held_def ac_simps\<close>)
    then show ?thesis using pop ph by (cases fin) (simp_all add: recorder_ok_def)
  next
    case (publish fin b acked stored)
    have "jr_open r' = jr_open r" "jr_closed r' = jr_closed r" "jr_worker r' = Draining fin"
      by (simp_all add: publish(2) published_def)
    then show ?thesis using published_ok[OF st publish(3)] ph publish(2,3)
      by (cases fin) (simp_all add: recorder_ok_def)
  next
    case drained
    then show ?thesis using idle_ok(1)[OF st] by (simp add: recorder_ok_def)
  next
    case close
    have "phase_ok (jr_worker r) True (jr_open r = []) (jr_ready r = [])"
      using ph by (cases "(jr_worker r, True, jr_open r = [], jr_ready r = [])" rule: phase_ok.cases) auto
    then show ?thesis using idle_ok(3)[OF st refl] close by (simp add: recorder_ok_def)
  next
    case stop
    then show ?thesis using idle_ok(1)[OF st] by (simp add: recorder_ok_def)
  next
    case flush
    then show ?thesis using seal_ok[OF _ st, of True] ph by (simp add: recorder_ok_def sealAll_def)
  next
    case finish
    then show ?thesis using idle_ok(1)[OF st] ph by (simp add: recorder_ok_def)
  qed
qed

lemma run_ok: "recorder_run L cfg r es r' \<Longrightarrow> recorder_ok L cfg r \<Longrightarrow> recorder_ok L cfg r'"
  by (induction rule: recorder_run.induct) (auto intro: step_ok)

lemma rec_New_ok: "rec_New js fb cfg0 = Inr (cfg, r) \<Longrightarrow> recorder_ok L cfg r"
  by (auto simp: rec_New_def Let_def recorder_ok_def store_ok_def held_def split: if_splits)

section \<open>Every row is somewhere\<close>

definition faithful :: "'p ledger_lib \<Rightarrow> bool" where
  "faithful L \<longleftrightarrow> (\<forall>ev. ll_FromProto L (ll_ToProto L ev) = ev)"

definition accounted :: "'p ledger_lib \<Rightarrow> 'p recorder \<Rightarrow> event multiset" where
  "accounted L r = mset (jr_fallback r) + image_mset (ll_FromProto L) (rows (held r) + rows (jr_stream r))"

lemma step_accounted:
  assumes "recorder_step L cfg r es r'" "recorder_ok L cfg r" "faithful L"
  shows "accounted L r + mset es \<subseteq># accounted L r'"
  using assms(1)
proof (cases rule: recorder_step_cases)
  case (call new_id ev batch_id)
  have d: "distinct (map fst (jr_open r))" using assms(2) by (simp add: recorder_ok_def store_ok_def)
  have "jr_fallback (enqueue L cfg i s p r) = jr_fallback r" "jr_stream (enqueue L cfg i s p r) = jr_stream r" for i s p
    by (simp_all add: enqueue_def Let_def split: prod.split)
  then have "accounted L (enqueue L cfg i s (ll_ToProto L e) r) = accounted L r + {#e#}" for i s e
    using assms(3) by (simp add: accounted_def enqueue_rows[OF d] faithful_def)
  moreover have "accounted L (r\<lparr>jr_fallback := jr_fallback r @ [e]\<rparr>) = accounted L r + {#e#}" for e
    by (simp add: accounted_def held_def)
  ultimately show ?thesis unfolding call Record_def Let_def by simp
next
  case tick
  then show ?thesis using seal_held[of r False] by (simp add: accounted_def sealAll_def)
next
  case flush
  then show ?thesis using seal_held[of r True] by (simp add: accounted_def sealAll_def)
next
  case (publish fin b acked stored)
  then show ?thesis by (auto simp: accounted_def held_def published_def)
qed (auto simp: accounted_def held_def)

lemma run_accounted:
  assumes "recorder_run L cfg r es r'" "recorder_ok L cfg r" "faithful L"
  shows "accounted L r + mset es \<subseteq># accounted L r'"
  using assms(1,2)
proof (induction rule: recorder_run.induct)
  case (more r es r1 fs r2)
  have "accounted L r1 + mset fs \<subseteq># accounted L r2"
    by (rule step_accounted[OF more.hyps(2) run_ok[OF more.hyps(1) more.prems] assms(3)])
  moreover have "accounted L r + mset es + mset fs \<subseteq># accounted L r1 + mset fs"
    using more.IH[OF more.prems] by simp
  ultimately have "accounted L r + mset es + mset fs \<subseteq># accounted L r2" by (rule subset_mset.order_trans[rotated])
  then show ?case by (simp add: add.assoc)
qed simp

text \<open>
  C17: The ledger loses no row and mixes no tenants. Whatever calls, ticks, flushes, publishes (failing,
  or reporting failure for a batch that was stored) and shutdown interleave, every row recorded is held
  in a batch, in a batch the stream stored, or at the fallback; once \<open>Close\<close> has returned nothing is held.
  Every batch has the rows of one subject only, and respects both bounds unless it is a single row; and
  the number held is what the recorder counts and never exceeds the cap.
\<close>

theorem no_row_is_lost:
  assumes "rec_New js fb cfg0 = Inr (cfg, r0)" "recorder_run L cfg r0 es r" "faithful L"
  shows "mset es \<subseteq># mset (jr_fallback r) + image_mset (ll_FromProto L) (rows (held r) + rows (jr_stream r)) \<and>
     (jr_worker r = Finished \<longrightarrow> held r = []) \<and>
     (\<forall>b \<in> set (held r) \<union> set (jr_stream r). batch_ok L cfg b) \<and>
     int (size (rows (held r))) = jr_buffered r \<and> jr_buffered r \<le> jc_maxBuffered cfg"
proof -
  have cap: "0 < jc_maxBuffered cfg"
    using assms(1) by (auto simp: rec_New_def Let_def orInt_def DefaultMaxEvents_def split: if_splits)
  note ok = run_ok[OF assms(2) rec_New_ok[OF assms(1)]]
  have "mset es \<subseteq># accounted L r"
    using run_accounted[OF assms(2) rec_New_ok[OF assms(1)] assms(3)]
    by (meson mset_subset_eq_add_right subset_mset.order_trans)
  moreover have "held r = []" if "jr_worker r = Finished"
    using that ok by (auto simp: recorder_ok_def held_def)
  ultimately show ?thesis using ok cap unfolding recorder_ok_def store_ok_def accounted_def by auto
qed

section \<open>Shutdown\<close>

fun steps_left :: "'p worker \<Rightarrow> nat \<Rightarrow> nat \<Rightarrow> nat option" where
  "steps_left Returned ready opened = Some (2 + 2 * (ready + opened))"
| "steps_left (Draining True) ready opened = Some (1 + 2 * ready)"
| "steps_left (Sending True b) ready opened = Some (2 + 2 * ready)"
| "steps_left Finished ready opened = Some 0"
| "steps_left _ ready opened = None"

definition remaining :: "'p recorder \<Rightarrow> nat option" where
  "remaining r = steps_left (jr_worker r) (length (jr_ready r)) (length (jr_open r))"

lemma steps_left_Some:
  "steps_left w a b = Some n \<Longrightarrow> w \<in> {Returned, Finished, Draining True} \<union> range (Sending True)"
  by (induction w a b rule: steps_left.induct) auto

lemma sealed_ready: "length (jr_ready (sealAll r)) \<le> length (jr_ready r) + length (jr_open r)"
  using length_filter_le[of _ "map snd (jr_open r)"] by (simp add: sealAll_def)

text \<open>What is left shrinks with every step, or stays with a call that goes to the fallback.\<close>

lemma step_remaining:
  assumes "jr_closed r" "remaining r = Some n" "recorder_step L cfg r es r'"
  shows "(\<exists>m < n. remaining r' = Some m) \<or> remaining r' = Some n \<and> held r' = held r"
  using assms(3)
proof (cases rule: recorder_step_cases)
  case (call new_id ev batch_id)
  then show ?thesis using assms(1,2) by (simp add: Record_def Let_def held_def remaining_def)
next
  case flush
  then show ?thesis using assms(2) sealed_ready[of r] by (simp add: remaining_def)
next
  case (pop fin b bs)
  then show ?thesis using assms(2) by (cases fin) (auto simp: remaining_def)
next
  case (publish fin b acked stored)
  then show ?thesis using assms(2) by (cases fin) (auto simp: published_def remaining_def)
qed (use assms(2) in \<open>auto simp: held_def remaining_def\<close>)

text \<open>Until nothing is left, \<open>Close\<close> can step: it seals and drains, pops, publishes, or is done.\<close>

lemma close_steps:
  assumes "remaining r = Some n" "0 < n"
  shows "\<exists>r' m. recorder_step L cfg r [] r' \<and> remaining r' = Some m \<and> m < n"
proof -
  consider (ret) "jr_worker r = Returned" | (drain) "jr_worker r = Draining True" | (send) b where "jr_worker r = Sending True b"
    using steps_left_Some[OF assms(1)[unfolded remaining_def]] assms by (auto simp: remaining_def)
  then show ?thesis
  proof cases
    case ret
    show ?thesis
      by (intro exI conjI, rule recorder_step.flush[OF ret])
         (use assms(1) ret sealed_ready[of r] in \<open>auto simp: remaining_def\<close>)
  next
    case drain
    show ?thesis
    proof (cases "jr_ready r")
      case Nil
      show ?thesis
        by (intro exI conjI, rule recorder_step.finish[OF drain Nil])
           (use assms(1) drain in \<open>auto simp: remaining_def\<close>)
    next
      case (Cons b bs)
      show ?thesis
        by (intro exI conjI, rule recorder_step.pop[OF drain Cons])
           (use assms(1) drain Cons in \<open>auto simp: remaining_def\<close>)
    qed
  next
    case (send b)
    show ?thesis
      by (intro exI conjI, rule recorder_step.publish[OF send, of False False])
         (use assms(1) send in \<open>auto simp: remaining_def published_def\<close>)
  qed
qed

text \<open>
  C36: Close comes to an end. Once the flusher has returned, every further step of the recorder either
  brings \<open>Close\<close> strictly nearer its end or is a call that goes to the fallback and leaves the distance
  as it is; and until the end a step of \<open>Close\<close> is always possible. So \<open>Close\<close> returns after at most as
  many of its own steps as \<open>remaining\<close> says, however many calls keep arriving and publishes fail.
\<close>

theorem close_ends:
  assumes "recorder_ok L cfg r" "remaining r = Some n"
  shows "(\<forall>es r'. recorder_step L cfg r es r' \<longrightarrow>
       (\<exists>m < n. remaining r' = Some m) \<or> remaining r' = Some n \<and> held r' = held r) \<and>
     (0 < n \<longrightarrow> (\<exists>r' m. recorder_step L cfg r [] r' \<and> remaining r' = Some m \<and> m < n))"
proof -
  have "jr_closed r"
    using assms(1) steps_left_Some[OF assms(2)[unfolded remaining_def]] by (auto simp: recorder_ok_def)
  then show ?thesis using step_remaining[OF _ assms(2)] close_steps[OF assms(2)] by blast
qed

section \<open>A recorder, run\<close>

definition toy_lib :: "event ledger_lib" where
  "toy_lib = \<lparr>ll_ToProto = id, ll_FromProto = id, ll_Subject = (\<lambda>t a. t @ ''.'' @ a), ll_Size = (\<lambda>p. 10),
     ll_SizeTag = (\<lambda>n. 1), ll_SizeBytes = (\<lambda>n. n + 1)\<rparr>"

definition toy_row :: "string \<Rightarrow> string \<Rightarrow> event" where
  "toy_row i tenant =
     \<lparr>ev_App = ''garmd'', ev_ID = i, ev_Time = 0, ev_Tool = ''t'', ev_Outcome = OutcomeOK, ev_Tenant = tenant,
      ev_PrincipalSubject = [], ev_PrincipalKind = [], ev_PrincipalActor = [], ev_ChainDepth = 0,
      ev_ClearanceEffective = [], ev_CompartmentsEffective = [], ev_ExecutionSubject = [], ev_ErrorKind = [],
      ev_ErrorDetail = DNone, ev_Tags = [], ev_RedactionPlan = [], ev_RedactionCount = 0, ev_DisclosedCount = 0\<rparr>"

definition toy_cfg :: rec_config where
  "toy_cfg = \<lparr>jc_maxEvents = 2, jc_maxBytes = 100, jc_maxBuffered = 2\<rparr>"

definition toy_start :: "event recorder" where
  "toy_start = \<lparr>jr_open = [], jr_ready = [], jr_buffered = 0, jr_closed = False, jr_wake = False,
     jr_worker = Idle, jr_stream = [], jr_fallback = []\<rparr>"

lemma toy_New: "rec_New True True toy_cfg = Inr (toy_cfg, toy_start)"
  by (simp add: rec_New_def toy_cfg_def toy_start_def orInt_def)

text \<open>Two tenants' rows are held, the third row finds the buffer full; one batch is stored, one fails.\<close>

definition toy_held :: "event recorder" where
  "toy_held = Record toy_lib toy_cfg ''n'' ''b3'' (toy_row ''3'' ''acme'')
     (Record toy_lib toy_cfg ''n'' ''b2'' (toy_row [] ''beta'')
       (Record toy_lib toy_cfg ''n'' ''b1'' (toy_row ''1'' ''acme'') toy_start))"

definition toy_closing :: "event recorder" where
  "toy_closing = (sealAll (toy_held\<lparr>jr_closed := True, jr_worker := Returned\<rparr>))\<lparr>jr_worker := Draining True\<rparr>"

lemma toy_closing_state:
  "map ba_subject (jr_ready toy_closing) = [''acme.garmd'', ''beta.garmd'']"
  "jr_fallback toy_closing = [toy_row ''3'' ''acme'']" "remaining toy_closing = Some 5"
  by code_simp+

lemma toy_run: "recorder_run toy_lib toy_cfg toy_start
    [toy_row ''1'' ''acme'', toy_row ''n'' ''beta'', toy_row ''3'' ''acme''] toy_closing"
proof -
  have w: "jr_worker toy_held = Idle" by code_simp
  have ids: "with_id ''n'' (toy_row ''1'' ''acme'') = toy_row ''1'' ''acme''"
    "with_id ''n'' (toy_row [] ''beta'') = toy_row ''n'' ''beta''"
    "with_id ''n'' (toy_row ''3'' ''acme'') = toy_row ''3'' ''acme''"
    by (simp_all add: with_id_def toy_row_def)
  note call = recorder_step.call[of toy_lib toy_cfg]
  have "recorder_run toy_lib toy_cfg toy_start
     ([] @ [with_id ''n'' (toy_row ''1'' ''acme'')] @ [with_id ''n'' (toy_row [] ''beta'')] @
      [with_id ''n'' (toy_row ''3'' ''acme'')]) toy_held"
    unfolding toy_held_def append_assoc[symmetric]
    by (rule recorder_run.more[OF _ call])+ (rule recorder_run.start)
  then have "recorder_run toy_lib toy_cfg toy_start
     (([] @ [with_id ''n'' (toy_row ''1'' ''acme'')] @ [with_id ''n'' (toy_row [] ''beta'')] @
      [with_id ''n'' (toy_row ''3'' ''acme'')]) @ [] @ [] @ []) toy_closing"
    unfolding toy_closing_def append_assoc[symmetric]
    by (intro recorder_run.more[OF _ recorder_step.flush] recorder_run.more[OF _ recorder_step.stop, of _ _ _ _ "toy_held\<lparr>jr_closed := True\<rparr>", simplified]
        recorder_run.more[OF _ recorder_step.close]) (simp_all add: w)
  then show ?thesis by (simp add: ids)
qed

lemma no_row_is_lost_witness:
  "rows (held toy_closing) = {#toy_row ''1'' ''acme'', toy_row ''n'' ''beta''#} \<and>
   mset [toy_row ''1'' ''acme'', toy_row ''n'' ''beta'', toy_row ''3'' ''acme''] \<subseteq>#
     mset (jr_fallback toy_closing) + rows (held toy_closing)"
proof -
  have s: "jr_stream toy_closing = []" by code_simp
  have f: "faithful toy_lib" by (simp add: faithful_def toy_lib_def)
  have h: "map ba_events (held toy_closing) = [[toy_row ''1'' ''acme''], [toy_row ''n'' ''beta'']]" by code_simp
  then obtain a b where ab: "held toy_closing = [a, b]" "ba_events a = [toy_row ''1'' ''acme'']" "ba_events b = [toy_row ''n'' ''beta'']"
    by (auto simp: map_eq_Cons_conv)
  have "rows (held toy_closing) = {#toy_row ''1'' ''acme'', toy_row ''n'' ''beta''#}" by (simp add: ab)
  then show ?thesis
    using no_row_is_lost[OF toy_New toy_run f] by (simp add: s toy_lib_def)
qed

lemma close_ends_witness:
  "\<exists>r' m. recorder_step toy_lib toy_cfg toy_closing [] r' \<and> remaining r' = Some m \<and> m < 5"
proof -
  have "recorder_ok toy_lib toy_cfg toy_closing" by (rule run_ok[OF toy_run rec_New_ok[OF toy_New]])
  then show ?thesis using close_ends[OF _ toy_closing_state(3), of toy_lib toy_cfg] by simp
qed

end
