(* ===== verification/AuditSink.thy ===== *)
theory AuditSink
  imports ChainProps
begin

text \<open>
  \<open>internal/audit/jetstream/sink.go\<close>: the audit record, one synchronous publish per write, and the
  refusal to start against a stream that loses records. The encoding of a row, the subject of a tenant
  and the texts of the outcomes are the parameter \<open>audit_lib\<close>; the server is a function \<open>pub\<close> on its
  own state. The timeout is the server's answer here: a publish that is not acknowledged is an error.

  \<open>sink_seam\<close> is this sink as the chain holds it: what the stream has at a moment is what the writes
  before that moment, in order, made of it.
\<close>

section \<open>The sink\<close>

record audit_lib =
  au_Marshal :: "event \<Rightarrow> go_err + string"
  au_Subject :: "string \<Rightarrow> string \<Rightarrow> string"
  au_OutcomeText :: "outcome \<Rightarrow> string"

record sink_config =
  sc_JS :: bool
  sc_Retention :: int
  sc_Timeout :: int

record sink =
  sk_retention :: int
  sk_timeout :: int

definition defaultTimeout :: int where "defaultTimeout = 5 * 10 ^ 9"

definition sink_New :: "sink_config \<Rightarrow> string + sink" where
  "sink_New cfg =
     (if \<not> sc_JS cfg then Inl ''an audit Sink needs a JetStream publisher; nil would make every audited call refuse, which is safe and useless''
      else Inr \<lparr>sk_retention = sc_Retention cfg,
                sk_timeout = (if sc_Timeout cfg \<le> 0 then defaultTimeout else sc_Timeout cfg)\<rparr>)"

text \<open>Subject, message id, payload: the error of the publish, if any, and the server afterwards.\<close>

type_synonym 's publish = "'s \<Rightarrow> string \<Rightarrow> string \<Rightarrow> string \<Rightarrow> go_err option \<times> 's"

definition msgID :: "audit_lib \<Rightarrow> event \<Rightarrow> string" where
  "msgID L ev = ev_ID ev @ ''.'' @ au_OutcomeText L (ev_Outcome ev)"

text \<open>A backstop: the chain has given the row its id.\<close>

definition identified :: "string \<Rightarrow> event \<Rightarrow> event" where
  "identified i ev = (if ev_ID ev = [] then ev\<lparr>ev_ID := i\<rparr> else ev)"

definition sink_Write :: "audit_lib \<Rightarrow> 's publish \<Rightarrow> string \<Rightarrow> event \<Rightarrow> 's \<Rightarrow> go_err option \<times> 's" where
  "sink_Write L pub new_id ev0 s =
     (let ev = identified new_id ev0
      in case au_Marshal L ev of
           Inl e \<Rightarrow> (Some (Wrapped ''marshalling the audit record'' [e]), s)
         | Inr payload \<Rightarrow>
             (case pub s (au_Subject L (ev_Tenant ev) (ev_App ev)) (msgID L ev) payload of
                (Some e, s') \<Rightarrow> (Some (Wrapped ''publishing the audit record'' [e]), s')
              | (None, s') \<Rightarrow> (None, s')))"

definition Retention :: "sink \<Rightarrow> int" where "Retention k = sk_retention k"

section \<open>The stream at startup\<close>

datatype discard = DiscardOld | DiscardNew
datatype storage = FileStorage | MemoryStorage

record stream_config =
  st_Discard :: discard
  st_Storage :: storage
  st_Replicas :: int

datatype stream_lookup = StreamNotFound | LookupErr go_err | InfoErr go_err | StreamIs stream_config

datatype assert_err = StreamUnread go_err | ConfigUnread go_err | DiscardsRecords | NotOnFile
datatype assert_warning = NoStreamYet | NotReplicated int

definition AssertStream :: "stream_lookup \<Rightarrow> assert_err option \<times> assert_warning list" where
  "AssertStream found =
     (case found of
        StreamNotFound \<Rightarrow> (None, [NoStreamYet])
      | LookupErr e \<Rightarrow> (Some (StreamUnread e), [])
      | InfoErr e \<Rightarrow> (Some (ConfigUnread e), [])
      | StreamIs cfg \<Rightarrow>
          if st_Discard cfg \<noteq> DiscardNew then (Some DiscardsRecords, [])
          else if st_Storage cfg \<noteq> FileStorage then (Some NotOnFile, [])
          else (None, if st_Replicas cfg < 3 then [NotReplicated (st_Replicas cfg)] else []))"

lemma AssertStream_lossless:
  "fst (AssertStream (StreamIs cfg)) = None \<longleftrightarrow> st_Discard cfg = DiscardNew \<and> st_Storage cfg = FileStorage"
  by (simp add: AssertStream_def)

section \<open>The sink in the chain\<close>

text \<open>The server after the writes of a history, newest first.\<close>

fun stream_after :: "audit_lib \<Rightarrow> 's publish \<Rightarrow> string \<Rightarrow> 's \<Rightarrow> hist \<Rightarrow> 's" where
  "stream_after L pub i s [] = s"
| "stream_after L pub i s (EAuditIntent ev # h) = snd (sink_Write L pub i ev (stream_after L pub i s h))"
| "stream_after L pub i s (EAuditOutcome ev # h) = snd (sink_Write L pub i ev (stream_after L pub i s h))"
| "stream_after L pub i s (_ # h) = stream_after L pub i s h"

definition sink_seam :: "audit_lib \<Rightarrow> 's publish \<Rightarrow> string \<Rightarrow> 's \<Rightarrow> sink \<Rightarrow> audit_sink" where
  "sink_seam L pub i s k =
     \<lparr>as_Write = (\<lambda>h ev. Returns (fst (sink_Write L pub i ev (stream_after L pub i s h)))),
      as_Retention = Retention k\<rparr>"

section \<open>What the server keeps\<close>

text \<open>
  The documented behaviour of a stream with a duplicate window: it takes nothing but what is published,
  and an acknowledged publish is held, or was acknowledged as the duplicate of a message held under the
  same id. \<open>msgs\<close> is everything the stream has taken.
\<close>

type_synonym message = "string \<times> string \<times> string"

definition js_spec :: "'s publish \<Rightarrow> ('s \<Rightarrow> message list) \<Rightarrow> bool" where
  "js_spec pub msgs \<longleftrightarrow>
     (\<forall>s sub i p. set (msgs s) \<subseteq> set (msgs (snd (pub s sub i p))) \<and>
        set (msgs (snd (pub s sub i p))) \<subseteq> insert (sub, i, p) (set (msgs s)) \<and>
        (fst (pub s sub i p) = None \<longrightarrow> i \<in> (fst \<circ> snd) ` set (msgs (snd (pub s sub i p)))))"

definition plain_outcomes :: "audit_lib \<Rightarrow> bool" where
  "plain_outcomes L \<longleftrightarrow> inj (au_OutcomeText L) \<and> (\<forall>out. CHR ''.'' \<notin> set (au_OutcomeText L out))"

text \<open>Only this id of the two is the other record of a call, however identifiers look.\<close>

lemma msgID_inj:
  assumes "plain_outcomes L" "msgID L a = msgID L b"
  shows "ev_ID a = ev_ID b \<and> ev_Outcome a = ev_Outcome b"
proof -
  have cut: "last_cut_byte CHR ''.'' (msgID L e) = Some (ev_ID e)" for e
    using assms(1) last_cut_byte_append by (simp add: msgID_def plain_outcomes_def)
  have i: "ev_ID a = ev_ID b" using cut[of a] cut[of b] assms(2) by simp
  then have "au_OutcomeText L (ev_Outcome a) = au_OutcomeText L (ev_Outcome b)"
    using assms(2) by (simp add: msgID_def)
  then show ?thesis using i assms(1) by (auto simp: plain_outcomes_def dest: injD)
qed

definition message_of :: "audit_lib \<Rightarrow> event \<Rightarrow> message \<Rightarrow> bool" where
  "message_of L ev m \<longleftrightarrow>
     (case m of (sub, i, p) \<Rightarrow>
        sub = au_Subject L (ev_Tenant ev) (ev_App ev) \<and> i = msgID L ev \<and> au_Marshal L ev = Inr p)"

text \<open>The rows a history sent to the sink, under the ids they were published with.\<close>

definition sent :: "string \<Rightarrow> hist \<Rightarrow> event set" where
  "sent i h = {identified i ev | ev. EAuditIntent ev \<in> set h \<or> EAuditOutcome ev \<in> set h}"

definition genuine :: "audit_lib \<Rightarrow> event set \<Rightarrow> message list \<Rightarrow> bool" where
  "genuine L W ms \<longleftrightarrow> (\<forall>m \<in> set ms. \<exists>ev \<in> W. message_of L ev m)"

lemma sink_Write_cases:
  obtains (unencoded) e where "au_Marshal L (identified i ev) = Inl e"
      "sink_Write L pub i ev s = (Some (Wrapped ''marshalling the audit record'' [e]), s)"
  | (published) p r s' where "au_Marshal L (identified i ev) = Inr p"
      "pub s (au_Subject L (ev_Tenant (identified i ev)) (ev_App (identified i ev))) (msgID L (identified i ev)) p = (r, s')"
      "sink_Write L pub i ev s = (map_option (\<lambda>e. Wrapped ''publishing the audit record'' [e]) r, s')"
proof (cases "au_Marshal L (identified i ev)")
  case (Inl e)
  show ?thesis by (rule unencoded[OF Inl]) (simp add: sink_Write_def Inl)
next
  case (Inr p)
  obtain r s' where p: "pub s (au_Subject L (ev_Tenant (identified i ev)) (ev_App (identified i ev)))
      (msgID L (identified i ev)) p = (r, s')" by (metis surj_pair)
  show ?thesis by (rule published[OF Inr p]) (cases r; simp add: sink_Write_def Inr p)
qed

text \<open>One write: the stream only grows, by this row alone, and a write that reports success left a row under its id.\<close>

lemma write_stream:
  assumes "js_spec pub msgs" "genuine L W (msgs s)" "sink_Write L pub i ev s = (r, s')"
  shows "set (msgs s) \<subseteq> set (msgs s')"
    and "genuine L (insert (identified i ev) W) (msgs s')"
    and "r = None \<Longrightarrow> msgID L (identified i ev) \<in> (fst \<circ> snd) ` set (msgs s')"
proof -
  let ?e = "identified i ev"
  have "set (msgs s) \<subseteq> set (msgs s') \<and> genuine L (insert ?e W) (msgs s') \<and>
      (r = None \<longrightarrow> msgID L ?e \<in> (fst \<circ> snd) ` set (msgs s'))"
  proof (cases rule: sink_Write_cases[of L i ev pub s])
    case (unencoded e)
    then show ?thesis using assms(2,3) by (auto simp: genuine_def)
  next
    case (published p q t)
    let ?sub = "au_Subject L (ev_Tenant ?e) (ev_App ?e)"
    have t: "t = s'" "r = None \<longrightarrow> q = None" using assms(3) published(3) by auto
    have J: "set (msgs s) \<subseteq> set (msgs s')" "set (msgs s') \<subseteq> insert (?sub, msgID L ?e, p) (set (msgs s))"
        "q = None \<longrightarrow> msgID L ?e \<in> (fst \<circ> snd) ` set (msgs s')"
      using assms(1) published(2) unfolding js_spec_def t(1) by (metis fst_conv snd_conv)+
    have "message_of L ?e (?sub, msgID L ?e, p)" using published(1) by (simp add: message_of_def)
    then have "genuine L (insert ?e W) (msgs s')" using J(2) assms(2) unfolding genuine_def by blast
    then show ?thesis using J t(2) by blast
  qed
  then show "set (msgs s) \<subseteq> set (msgs s')" "genuine L (insert ?e W) (msgs s')"
    "r = None \<Longrightarrow> msgID L ?e \<in> (fst \<circ> snd) ` set (msgs s')" by auto
qed

section \<open>An audited call\<close>

lemma sent_simps [simp]:
  "sent i [] = {}"
  "sent i (EAuditIntent ev # h) = insert (identified i ev) (sent i h)"
  "sent i (EAuditOutcome ev # h) = insert (identified i ev) (sent i h)"
  by (auto simp: sent_def)

fun is_audit :: "effect \<Rightarrow> bool" where
  "is_audit (EAuditIntent ev) = True"
| "is_audit (EAuditOutcome ev) = True"
| "is_audit _ = False"

lemma sent_other: "\<not> is_audit e \<Longrightarrow> sent i (e # h) = sent i h"
  by (cases e) (auto simp: sent_def)

lemma stream_after_other: "\<not> is_audit e \<Longrightarrow> stream_after L pub i s (e # h) = stream_after L pub i s h"
  by (cases e) auto

lemma sent_quiet: "\<forall>e \<in> set l. \<not> is_audit e \<Longrightarrow> sent i (l @ h) = sent i h"
  by (induction l) (auto simp: sent_other)

lemma audit_cases:
  obtains (audit) ev where "e = EAuditIntent ev \<or> e = EAuditOutcome ev"
    "stream_after L pub i s (e # h) = snd (sink_Write L pub i ev (stream_after L pub i s h))"
    "sent i (e # h) = insert (identified i ev) (sent i h)"
  | (other) "stream_after L pub i s (e # h) = stream_after L pub i s h" "sent i (e # h) = sent i h"
proof (cases "is_audit e")
  case True
  then show ?thesis by (cases e) (auto intro: audit)
next
  case False
  show ?thesis by (rule other[OF stream_after_other[OF False] sent_other[OF False]])
qed

text \<open>Whatever the history, the stream holds rows that were sent, and what it took it keeps.\<close>

lemma stream_genuine:
  assumes "js_spec pub msgs" "genuine L W (msgs s)"
  shows "genuine L (W \<union> sent i h) (msgs (stream_after L pub i s h))"
proof (induction h)
  case (Cons e h)
  show ?case
  proof (cases rule: audit_cases[of e L pub i s h])
    case (audit ev)
    show ?thesis unfolding audit(2,3)
      using write_stream(2)[OF assms(1) Cons prod.collapse[symmetric], of i ev] by simp
  qed (use Cons in simp)
qed (use assms(2) in simp)

lemma stream_grows:
  assumes "js_spec pub msgs" "genuine L W (msgs s)"
  shows "set (msgs (stream_after L pub i s h)) \<subseteq> set (msgs (stream_after L pub i s (es @ h)))"
proof (induction es)
  case (Cons e es)
  show ?case
  proof (cases rule: audit_cases[of e L pub i s "es @ h"])
    case (audit ev)
    show ?thesis
      using Cons write_stream(1)[OF assms(1) stream_genuine[OF assms, of i "es @ h"] prod.collapse[symmetric], of i ev]
      by (simp add: audit(2)) 
  qed (use Cons in simp)
qed simp

lemma front_gates_unaudited:
  assumes "front_gates E c x p procedure req i h h'"
  obtains l where "intent_gate c (tool_of c procedure) i (l @ h) h'" "\<forall>e \<in> set l. \<not> is_audit e"
proof -
  obtain h1 h2 h3 where g: "fga_gate c p (tool_of c procedure) req h h1"
    "grant_gate c x p (tool_of c procedure) req h1 h2"
    "if lookup_tool c procedure = None then h3 = h2 else up_gate c (tool_of c procedure) h2 h3"
    "intent_gate c (tool_of c procedure) i h3 h'"
    using assms unfolding front_gates_def by blast
  obtain l1 where "h1 = l1 @ h" "\<forall>e \<in> set l1. \<not> is_audit e"
    using g(1) by (auto simp: fga_gate_def split: option.splits)
  moreover obtain l2 where "h2 = l2 @ h1" "\<forall>e \<in> set l2. \<not> is_audit e"
    using g(2) by (auto simp: grant_gate_def split: option.splits)
  moreover obtain l3 where "h3 = l3 @ h2" "\<forall>e \<in> set l3. \<not> is_audit e"
    using g(3) by (auto simp: up_gate_def split: option.splits if_splits)
  ultimately have "h3 = (l3 @ l2 @ l1) @ h" "\<forall>e \<in> set (l3 @ l2 @ l1). \<not> is_audit e" by auto
  then show thesis using that g(4) by blast
qed

text \<open>What an acknowledged write leaves, when no other row goes by its id and outcome.\<close>

lemma written_alone:
  assumes "js_spec pub msgs" "genuine L W (msgs s)" "plain_outcomes L"
    and "sink_Write L pub i ev s = (None, s')" "ev_ID ev \<noteq> []"
    and "\<And>w. w \<in> W \<Longrightarrow> ev_ID w = ev_ID ev \<Longrightarrow> ev_Outcome w \<noteq> ev_Outcome ev"
  shows "\<exists>m \<in> set (msgs s'). message_of L ev m"
proof -
  have e: "identified i ev = ev" using assms(5) by (simp add: identified_def)
  note w = write_stream[OF assms(1,2,4), unfolded e]
  obtain m where m: "m \<in> set (msgs s')" "fst (snd m) = msgID L ev" using w(3) by auto
  then obtain w' where w': "w' \<in> insert ev W" "message_of L w' m" using w(2) unfolding genuine_def by blast
  then have "msgID L w' = msgID L ev" using m(2) by (auto simp: message_of_def)
  from msgID_inj[OF assms(3) this] have "w' = ev" using w'(1) assms(6) by auto
  then show ?thesis using m(1) w'(2) by blast
qed

text \<open>
  C11: A fail-closed tool runs only once its record is kept. Take this sink on a stream that keeps what
  it acknowledges and dedupes by message id. When the resolver of a fail-closed audited tool ran, the
  stream already held, before it ran and still at the end of the call, the intent row of this very
  call: its subject is that of the row's tenant, its payload that row encoded, its message id the id of
  the call with the outcome. And a later row of the same call, with another outcome, is not taken for a
  duplicate of it: when its write succeeds, the stream holds both.
\<close>

theorem intent_is_durable:
  assumes "js_spec pub msgs" "plain_outcomes L" "genuine L W (msgs s0)"
    and "o_hist (invoke E R c h x po procedure reqo fn) = es @ h" "EResolve pr m ic \<in> set es"
    and "c_audit c = Some (sink_seam L pub i s0 k)"
    and "t_AuditLevel (tool_of c procedure) = LEVEL_AUDIT" "t_AuditFailClosed (tool_of c procedure)"
    and "en_NewEventID E h \<noteq> []" "\<And>w. w \<in> W \<union> sent i h \<Longrightarrow> ev_ID w \<noteq> en_NewEventID E h"
  shows "\<exists>post pre row msg. es = post @ EResolve procedure m ic # EAuditIntent row # pre \<and>
     ev_Outcome row = OutcomeIntent \<and> ev_ID row = en_NewEventID E h \<and> message_of L row msg \<and>
     msg \<in> set (msgs (stream_after L pub i s0 (EAuditIntent row # pre @ h))) \<and>
     msg \<in> set (msgs (stream_after L pub i s0 (es @ h))) \<and>
     (\<forall>ev s'. ev_ID ev = ev_ID row \<and> ev_Outcome ev \<noteq> OutcomeIntent \<and>
        sink_Write L pub i ev (stream_after L pub i s0 (EAuditIntent row # pre @ h)) = (None, s') \<longrightarrow>
        msg \<in> set (msgs s') \<and> (\<exists>msg' \<in> set (msgs s'). message_of L ev msg'))"
  using assms(4,5)
proof (cases rule: invoke_resolves)
  case (1 p post pre ev c' h1 q)
  obtain pre' where gate: "intent_gate c (tool_of c procedure) (en_NewEventID E h) (pre' @ h) (pre @ h)"
      and quiet: "\<forall>e \<in> set pre'. \<not> is_audit e"
    using front_gates_unaudited[OF 1(7)] .
  let ?at = "\<lambda>g. stream_after L pub i s0 g"
  obtain row where row: "ev_ID row = en_NewEventID E h" "ev_Outcome row = OutcomeIntent"
      "fst (sink_Write L pub i row (?at (pre' @ h))) = None" "pre = EAuditIntent row # pre'"
    using gate assms(6-8) unfolding intent_gate_def by (auto simp: sink_seam_def)
  let ?s = "?at (EAuditIntent row # pre' @ h)"
  have old: "ev_ID w \<noteq> ev_ID row" if "w \<in> W \<union> sent i (pre' @ h)" for w
    using that assms(10) row(1) by (simp add: sent_quiet[OF quiet])
  have w: "sink_Write L pub i row (?at (pre' @ h)) = (None, ?s)" using row(3) by (simp add: prod_eq_iff)
  note G = stream_genuine[OF assms(1,3), of i "pre' @ h"]
  have ne: "ev_ID row \<noteq> []" using row(1) assms(9) by simp
  obtain msg where msg: "msg \<in> set (msgs ?s)" "message_of L row msg"
    using written_alone[OF assms(1) G assms(2) w ne] old by blast
  have "es @ h = (post @ [EResolve procedure m ic]) @ EAuditIntent row # pre' @ h" using 1(5) row(4) by simp
  then have kept: "msg \<in> set (msgs (?at (es @ h)))"
    using stream_grows[OF assms(1,3), of i "EAuditIntent row # pre' @ h" "post @ [EResolve procedure m ic]"] msg(1) by auto
  have both: "msg \<in> set (msgs s') \<and> (\<exists>msg' \<in> set (msgs s'). message_of L e msg')"
    if e: "ev_ID e = ev_ID row" "ev_Outcome e \<noteq> OutcomeIntent" "sink_Write L pub i e ?s = (None, s')" for e s'
  proof -
    note G' = stream_genuine[OF assms(1,3), of i "EAuditIntent row # pre' @ h"]
    have "ev_Outcome w \<noteq> ev_Outcome e" if "w \<in> W \<union> sent i (EAuditIntent row # pre' @ h)" "ev_ID w = ev_ID e" for w
      using that old e(1,2) row(2) ne by (auto simp: identified_def)
    then show ?thesis
      using written_alone[OF assms(1) G' assms(2) e(3)] write_stream(1)[OF assms(1) G' e(3)] msg(1) e(1) ne by auto
  qed
  show ?thesis
    by (rule exI[of _ post], rule exI[of _ pre'], rule exI[of _ row], rule exI[of _ msg])
       (use 1(5) row msg kept both in auto)
qed

section \<open>A stream that dedupes\<close>

text \<open>It takes a message unless it holds one under the same id, and acknowledges both.\<close>

definition toy_audit_lib :: audit_lib where
  "toy_audit_lib = \<lparr>au_Marshal = (\<lambda>ev. Inr (ev_Tool ev)), au_Subject = (\<lambda>t a. t @ ''/'' @ a),
     au_OutcomeText = (\<lambda>out. case out of OutcomeDenied \<Rightarrow> ''denied'' | OutcomeOK \<Rightarrow> ''ok''
        | OutcomeError \<Rightarrow> ''error'' | OutcomeIntent \<Rightarrow> ''intent'')\<rparr>"

definition toy_publish :: "message list publish" where
  "toy_publish ms sub i p = (None, if i \<in> set (map (fst \<circ> snd) ms) then ms else ms @ [(sub, i, p)])"

definition toy_sink :: sink where "toy_sink = \<lparr>sk_retention = 0, sk_timeout = defaultTimeout\<rparr>"

lemma toy_sink_New: "sink_New \<lparr>sc_JS = True, sc_Retention = 0, sc_Timeout = 0\<rparr> = Inr toy_sink"
  by (simp add: sink_New_def toy_sink_def)

lemma toy_js_spec: "js_spec toy_publish id"
  by (auto simp: js_spec_def toy_publish_def)

lemma toy_plain: "plain_outcomes toy_audit_lib"
  by (auto simp: plain_outcomes_def toy_audit_lib_def inj_def split: outcome.splits)

definition audited_core :: core where
  "audited_core = chain_core\<lparr>c_audit := Some (sink_seam toy_audit_lib toy_publish [] [] toy_sink)\<rparr>"

abbreviation audited_call :: call_result where
  "audited_call \<equiv> invoke chain_env sample_rules audited_core [] chain_ctx (Some sample_principal)
     ''/p.S/Card'' (Some (Msg 3 [])) (Some chain_resolver)"

lemma audited_call_hist: "o_hist audited_call = o_hist sample_call"
  by code_simp

lemma audited_call_stream:
  "map (fst \<circ> snd) (stream_after toy_audit_lib toy_publish [] [] (o_hist audited_call)) = [''ev.intent'', ''ev.ok'']"
  by code_simp

lemma intent_is_durable_witness:
  "\<exists>row msg. ev_Outcome row = OutcomeIntent \<and> message_of toy_audit_lib row msg \<and>
     msg \<in> set (stream_after toy_audit_lib toy_publish [] [] (o_hist audited_call))"
proof -
  have core: "c_audit audited_core = Some (sink_seam toy_audit_lib toy_publish [] [] toy_sink)"
      "tool_of audited_core ''/p.S/Card'' = tool_of chain_core ''/p.S/Card''"
    by (simp_all add: audited_core_def tool_of_def lookup_tool_def)
  have g: "genuine toy_audit_lib {} (id [])" by (simp add: genuine_def)
  have h: "en_NewEventID chain_env [] \<noteq> []" by code_simp
  note hist = trans[OF audited_call_hist sample_call_hist]
  obtain es where es: "o_hist audited_call = es @ []" "EResolve ''/p.S/Card'' (Msg 3 []) sample_ic \<in> set es"
    using hist by auto
  show ?thesis
    using intent_is_durable[OF toy_js_spec toy_plain g es core(1) _ _ h] chain_core_audited(2,3) es(1)
    by (auto simp: core(2))
qed

end
