(* ===== verification/Startup.thy ===== *)
theory Startup
  imports AuditSink ReloadProps
begin

text \<open>
  The root package's \<open>serve.go\<close> and \<open>internal/authn/metadata.go\<close>: what a process does between its
  configuration and its listener, in order, and what it closes on every way out. Each thing the world
  answers (files, the object store, the broker, the issuers, the listener) is a field of \<open>world\<close>;
  the libraries and the seams are \<open>build\<close>. The startup report is theory \<open>Report\<close>; the log is not modelled.

  What runs from then on is the poller state of \<open>Reload\<close> with \<open>Serve\<close>'s handler in it: \<open>ru_polled\<close>
  says whether a poller goroutine is started on it.
\<close>

section \<open>The hash key\<close>

text \<open>\<open>bytes.TrimSpace\<close>: the UTF-8 encodings of the runes \<open>unicode.IsSpace\<close> holds of.\<close>

definition space_runes :: "string list" where
  "space_runes =
    [[CHR 0x09], [CHR 0x0A], [CHR 0x0B], [CHR 0x0C], [CHR 0x0D], [CHR 0x20], [CHR 0xC2, CHR 0x85],
     [CHR 0xC2, CHR 0xA0], [CHR 0xE1, CHR 0x9A, CHR 0x80], [CHR 0xE2, CHR 0x80, CHR 0x80],
     [CHR 0xE2, CHR 0x80, CHR 0x81], [CHR 0xE2, CHR 0x80, CHR 0x82],
     [CHR 0xE2, CHR 0x80, CHR 0x83], [CHR 0xE2, CHR 0x80, CHR 0x84],
     [CHR 0xE2, CHR 0x80, CHR 0x85], [CHR 0xE2, CHR 0x80, CHR 0x86],
     [CHR 0xE2, CHR 0x80, CHR 0x87], [CHR 0xE2, CHR 0x80, CHR 0x88],
     [CHR 0xE2, CHR 0x80, CHR 0x89], [CHR 0xE2, CHR 0x80, CHR 0x8A],
     [CHR 0xE2, CHR 0x80, CHR 0xA8], [CHR 0xE2, CHR 0x80, CHR 0xA9],
     [CHR 0xE2, CHR 0x80, CHR 0xAF], [CHR 0xE2, CHR 0x81, CHR 0x9F], [CHR 0xE3, CHR 0x80, CHR 0x80]]"

function strip_prefixes :: "string list \<Rightarrow> string \<Rightarrow> string" where
  "strip_prefixes ws s =
     (case List.find (\<lambda>w. w \<noteq> [] \<and> has_prefix s w) ws of
        None \<Rightarrow> s
      | Some w \<Rightarrow> strip_prefixes ws (drop (length w) s))"
  by pat_completeness auto
termination
  by (relation "measure (length \<circ> snd)") (auto simp: find_Some_iff has_prefix_conv)

declare strip_prefixes.simps [simp del]

definition TrimSpace :: "string \<Rightarrow> string" where
  "TrimSpace s = rev (strip_prefixes (map rev space_runes) (rev (strip_prefixes space_runes s)))"

datatype key_err = NoKeyFile | KeyUnread go_err | KeyTooShort string nat

definition readHashKey :: "(string \<Rightarrow> go_err + string) \<Rightarrow> string \<Rightarrow> key_err + string" where
  "readHashKey read path =
     (if path = [] then Inl NoKeyFile
      else (case read path of
        Inl e \<Rightarrow> Inl (KeyUnread e)
      | Inr raw \<Rightarrow>
          (let key = TrimSpace raw
           in if length key < 16 then Inl (KeyTooShort path (length key)) else Inr key)))"

section \<open>What an issuer says it mints\<close>

definition permittedAlgorithms :: "string list" where
  "permittedAlgorithms = [''ES256'', ''ES384'', ''ES512'', ''RS256'', ''RS384'', ''RS512'', ''PS256'', ''PS384'', ''PS512'']"

fun anyPermitted :: "string list \<Rightarrow> bool" where
  "anyPermitted [] = False"
| "anyPermitted (a # algs) = (contains_string permittedAlgorithms a \<or> anyPermitted algs)"

record issuer_meta =
  im_Issuer :: string
  im_GarmAudience :: string
  im_Algs :: "string list"

text \<open>Building the request, making it, and the answer: a status and the document, if it decodes.\<close>

datatype meta_answer = RequestUnbuilt go_err | Unanswered go_err | Answer int "go_err + issuer_meta"

datatype disagreement = OtherIssuer string string | OtherAudience string string | NoCommonAlgorithm "string list"

datatype meta_err =
  JWKSUnparsed go_err | JWKSIncomplete string | MetadataRequest go_err | Disagree "disagreement list" string

definition metadataURLFor :: "(string \<Rightarrow> go_err + (string \<times> string)) \<Rightarrow> string \<Rightarrow> meta_err + string" where
  "metadataURLFor parse jwksURL =
     (case parse jwksURL of
        Inl e \<Rightarrow> Inl (JWKSUnparsed e)
      | Inr (scheme, host) \<Rightarrow>
          if scheme = [] \<or> host = [] then Inl (JWKSIncomplete jwksURL)
          else Inr (scheme @ ''://'' @ host @ ''/.well-known/oauth-authorization-server''))"

definition disagreements :: "string \<Rightarrow> string \<Rightarrow> issuer_meta \<Rightarrow> disagreement list" where
  "disagreements issuer audience m =
     (if im_Issuer m \<noteq> [] \<and> im_Issuer m \<noteq> issuer then [OtherIssuer issuer (im_Issuer m)] else []) @
     (if im_GarmAudience m \<noteq> [] \<and> im_GarmAudience m \<noteq> audience
      then [OtherAudience audience (im_GarmAudience m)] else []) @
     (if im_Algs m \<noteq> [] \<and> \<not> anyPermitted (im_Algs m) then [NoCommonAlgorithm (im_Algs m)] else [])"

definition CheckIssuerMetadata ::
  "(string \<Rightarrow> go_err + (string \<times> string)) \<Rightarrow> (string \<Rightarrow> meta_answer) \<Rightarrow> string \<Rightarrow> string \<Rightarrow> string \<Rightarrow>
     meta_err option" where
  "CheckIssuerMetadata parse fetch jwksURL issuer audience =
     (case metadataURLFor parse jwksURL of
        Inl e \<Rightarrow> Some e
      | Inr url \<Rightarrow>
          (case fetch url of
             RequestUnbuilt e \<Rightarrow> Some (MetadataRequest e)
           | Unanswered e \<Rightarrow> None
           | Answer status doc \<Rightarrow>
               if status = 404 then None
               else if status \<noteq> 200 then None
               else (case doc of
                       Inl e \<Rightarrow> None
                     | Inr m \<Rightarrow>
                         let bad = disagreements issuer audience m
                         in if bad = [] then None else Some (Disagree bad url))))"

text \<open>Every issuer, in order; the first to disagree stops the process.\<close>

fun checkIssuers ::
  "(string \<Rightarrow> go_err + (string \<times> string)) \<Rightarrow> (string \<Rightarrow> meta_answer) \<Rightarrow> string \<Rightarrow> trusted_issuer list \<Rightarrow>
     meta_err option" where
  "checkIssuers parse fetch audience [] = None"
| "checkIssuers parse fetch audience (t # ts) =
     (case CheckIssuerMetadata parse fetch (tr_JWKS t) (tr_Issuer t) audience of
        Some e \<Rightarrow> Some e
      | None \<Rightarrow> checkIssuers parse fetch audience ts)"

section \<open>The two recording paths\<close>

datatype boot_event = Connected | Disconnected | LedgerOpened | LedgerClosed | Listening | Drained

datatype records_err = NoJetStream go_err | CannotAudit assert_err | NoSink string

definition closeRecord :: "bool \<Rightarrow> boot_event list" where
  "closeRecord batched = (if batched then [LedgerClosed] else [])"

text \<open>
  Is the ledger batched, and the sink; the batcher's constructor refuses only a missing publisher or
  fallback, and both are given.
\<close>

definition records ::
  "config \<Rightarrow> go_err option \<Rightarrow> stream_lookup \<Rightarrow> boot_event list \<times> (records_err + (bool \<times> sink option))" where
  "records cfg js found =
     (if \<not> cf_LedgerStream cfg \<and> \<not> cf_Audit cfg then ([], Inr (False, None))
      else (case js of
        Some e \<Rightarrow> ([], Inl (NoJetStream e))
      | None \<Rightarrow>
          (let batched = cf_LedgerStream cfg;
               opened = (if batched then [LedgerOpened] else [])
           in if \<not> cf_Audit cfg then (opened, Inr (batched, None))
              else (case fst (AssertStream found) of
                Some e \<Rightarrow> (opened @ closeRecord batched, Inl (CannotAudit e))
              | None \<Rightarrow>
                  (case sink_New \<lparr>sc_JS = True, sc_Retention = cf_AuditRetention cfg, sc_Timeout = 0\<rparr> of
                     Inl m \<Rightarrow> (opened @ closeRecord batched, Inl (NoSink m))
                   | Inr k \<Rightarrow> (opened, Inr (batched, Some k)))))))"

section \<open>The process\<close>

text \<open>The libraries, and the implementations behind the seams.\<close>

record ('d, 'p, 's) build =
  bl_Env :: env
  bl_Validator :: "string + (pmsg \<Rightarrow> vresult)"
  bl_CatLib :: "('d, 'p) cat_lib"
  bl_ParseURL :: "string \<Rightarrow> go_err + (string \<times> string)"
  bl_Invoke :: invoker
  bl_Slog :: recorder
  bl_Ledger :: recorder
  bl_Grants :: "gverifier \<Rightarrow> grant_verifier"
  bl_AuditLib :: audit_lib
  bl_Publish :: "'s publish"
  bl_Stream :: 's
  bl_NewID :: string

record world =
  wo_File :: "string \<Rightarrow> go_err + string"
  wo_S3 :: "go_err option"
  wo_Reading :: reading
  wo_NATS :: "go_err option"
  wo_GrantJS :: "go_err option"
  wo_Bucket :: bucket_open
  wo_JS :: "go_err option"
  wo_AuditStream :: stream_lookup
  wo_Metadata :: "string \<Rightarrow> meta_answer"
  wo_Listen :: "go_err option"

datatype boot_err =
    CatalogueRequired | IssuersErr issuers_err | HashKeyErr key_err | SourceErr source_err | CatalogueErr store_err
  | NATSErr go_err | GrantsErr grant_cfg_err | RecordsErr records_err | TaxonomyErr string
  | IssuerErr meta_err | Unservable plane_err

record 'p running =
  ru_Trusted :: "trusted_issuer list"
  ru_Verifier :: verifier
  ru_Source :: boot_source
  ru_Grants :: "grant_setup option"
  ru_Sink :: "sink option"
  ru_Polled :: bool
  ru_State :: "'p poller"

datatype 'p ending = NotStarted boot_err | Ran "'p running" "go_err option"

text \<open>Before anything is connected: identity, the key, the source, the catalogue.\<close>

definition load_boot ::
  "('d, 'p, 's) build \<Rightarrow> world \<Rightarrow> config \<Rightarrow>
     boot_err + (trusted_issuer list \<times> string \<times> boot_source \<times> 'p gen \<times> 'p store)" where
  "load_boot B W cfg =
     (if cf_Catalogue cfg = [] then Inl CatalogueRequired
      else (case trustedIssuers (cf_Issuers cfg) (cf_JWKSURLs cfg) of
        Inl e \<Rightarrow> Inl (IssuersErr e)
      | Inr trusted \<Rightarrow>
     (case readHashKey (wo_File W) (cf_HashKeyFile cfg) of
        Inl e \<Rightarrow> Inl (HashKeyErr e)
      | Inr key \<Rightarrow>
     (case catalogueSource (wo_S3 W) (cf_Catalogue cfg) of
        Inl e \<Rightarrow> Inl (SourceErr e)
      | Inr src \<Rightarrow>
     (case store_Reload (bl_CatLib B) (wo_Reading W) (NewStore 0 0 (cf_MaxTools cfg)) of
        (Inl e, _) \<Rightarrow> Inl (CatalogueErr e)
      | (Inr g, store) \<Rightarrow> Inr (trusted, key, src, g, store))))))"

definition boot_handler ::
  "('d, 'p, 's) build \<Rightarrow> string \<Rightarrow> bool \<Rightarrow> sink option \<Rightarrow> grant_setup option \<Rightarrow> 'p handler" where
  "boot_handler B key batched sink grants =
     \<lparr>hd_Invoke = bl_Invoke B, hd_HashKey = key,
      hd_Recorder = Some (if batched then bl_Ledger B else bl_Slog B),
      hd_Audit = map_option (sink_seam (bl_AuditLib B) (bl_Publish B) (bl_NewID B) (bl_Stream B)) sink,
      hd_FGA = None,
      hd_Grants = map_option (\<lambda>u. bl_Grants B (gu_verifier u)) grants,
      hd_Notifier = None, hd_plane = None\<rparr>"

definition polled :: "config \<Rightarrow> boot_source \<Rightarrow> bool" where
  "polled cfg src = ((case src of FromObject _ _ \<Rightarrow> True | FromFile _ \<Rightarrow> False) \<and> cf_CataloguePoll cfg > 0)"

text \<open>Between the recording paths and the listener.\<close>

definition assemble ::
  "('d, 'p, 's) build \<Rightarrow> world \<Rightarrow> config \<Rightarrow> trusted_issuer list \<Rightarrow> string \<Rightarrow> boot_source \<Rightarrow> 'p gen \<Rightarrow> 'p store \<Rightarrow>
     grant_setup option \<Rightarrow> bool \<Rightarrow> sink option \<Rightarrow> boot_err + 'p running" where
  "assemble B W cfg trusted key src g store grants batched sink =
     (case pk_NewRegistry (en_Policy (bl_Env B)) (ct_Compartments (snd g)) of
        Inl e \<Rightarrow> Inl (TaxonomyErr e)
      | Inr reg \<Rightarrow>
     (case checkIssuers (bl_ParseURL B) (wo_Metadata W) (cf_Audience cfg) trusted of
        Some e \<Rightarrow> Inl (IssuerErr e)
      | None \<Rightarrow>
     (case Prepare (bl_Env B) (bl_Validator B) (boot_handler B key batched sink grants) g of
        (Some e, _) \<Rightarrow> Inl (Unservable e)
      | (None, h) \<Rightarrow>
          Inr \<lparr>ru_Trusted = trusted,
               ru_Verifier = NewVerifier \<lparr>vc_Trusted = trusted, vc_KeySet = None, vc_Issuers = [],
                  vc_Audience = cf_Audience cfg, vc_Compartments = None,
                  vc_CompartmentSource = Some (Some reg), vc_Skew = 0\<rparr>,
               ru_Source = src, ru_Grants = grants, ru_Sink = sink, ru_Polled = polled cfg src,
               ru_State = fresh_poller store h reg\<rparr>)))"

text \<open>With a connection: what is opened is closed on every way out, the ledger before the connection.\<close>

definition serve_connected ::
  "('d, 'p, 's) build \<Rightarrow> world \<Rightarrow> config \<Rightarrow> trusted_issuer list \<Rightarrow> string \<Rightarrow> boot_source \<Rightarrow> 'p gen \<Rightarrow> 'p store \<Rightarrow>
     boot_event list \<times> 'p ending" where
  "serve_connected B W cfg trusted key src g store =
     (case grantVerifier True (Some (snd g)) cfg (wo_GrantJS W) (wo_Bucket W) of
        Inl e \<Rightarrow> ([], NotStarted (GrantsErr e))
      | Inr grants \<Rightarrow>
     (case records cfg (wo_JS W) (wo_AuditStream W) of
        (es, Inl e) \<Rightarrow> (es, NotStarted (RecordsErr e))
      | (es, Inr (batched, sink)) \<Rightarrow>
     (case assemble B W cfg trusted key src g store grants batched sink of
        Inl e \<Rightarrow> (es @ closeRecord batched, NotStarted e)
      | Inr r \<Rightarrow>
          (es @ Listening # (if wo_Listen W = None then [Drained] else []) @ closeRecord batched,
           Ran r (wo_Listen W)))))"

definition Serve ::
  "('d, 'p, 's) build \<Rightarrow> world \<Rightarrow> config \<Rightarrow> boot_event list \<times> 'p ending" where
  "Serve B W cfg =
     (case load_boot B W cfg of
        Inl e \<Rightarrow> ([], NotStarted e)
      | Inr (trusted, key, src, g, store) \<Rightarrow>
     (case wo_NATS W of
        Some e \<Rightarrow> ([], NotStarted (NATSErr e))
      | None \<Rightarrow>
          (case serve_connected B W cfg trusted key src g store of
             (es, r) \<Rightarrow> (Connected # es @ [Disconnected], r))))"

text \<open>What the poller of a process polls for: with step 5 on, nothing the bucket cannot outlast.\<close>

definition deployment_of :: "('d, 'p, 's) build \<Rightarrow> 'p running \<Rightarrow> ('d, 'p) deployment" where
  "deployment_of B r =
     \<lparr>de_Env = bl_Env B, de_Validator = bl_Validator B, de_Lib = bl_CatLib B,
      de_Admit = map_option (\<lambda>u c. reloadGuard (gu_retention u) (Some c)) (ru_Grants r)\<rparr>"

end
