(* ===== verification/StartupProps.thy ===== *)
theory StartupProps
  imports Startup
begin

text \<open>
  What holds of a process that starts: the key it redacts with, the resources it releases on every way
  out, and that reaching the listener is enough for \<open>Reload\<close>'s invariant, so that everything it ever
  serves is governed by what it was configured with.
\<close>

section \<open>The hash key\<close>

abbreviation leading :: "string list \<Rightarrow> string \<Rightarrow> string option" where
  "leading ws s \<equiv> List.find (\<lambda>w. w \<noteq> [] \<and> has_prefix s w) ws"

lemma strip_none: "leading ws s = None \<Longrightarrow> strip_prefixes ws s = s"
  by (simp only: strip_prefixes.simps[of ws s] option.case)

lemma strip_some: "leading ws s = Some w \<Longrightarrow> strip_prefixes ws s = strip_prefixes ws (drop (length w) s)"
  by (simp only: strip_prefixes.simps[of ws s] option.case)

lemma strip_done: "(\<forall>w \<in> set ws. w \<noteq> [] \<longrightarrow> \<not> has_prefix s w) \<Longrightarrow> strip_prefixes ws s = s"
  by (rule strip_none) (auto simp: find_None_iff)

lemma strip_free: "\<forall>w \<in> set ws. w \<noteq> [] \<longrightarrow> \<not> has_prefix (strip_prefixes ws s) w"
proof (induction ws s rule: strip_prefixes.induct)
  case (1 ws s)
  show ?case
  proof (cases "leading ws s")
    case None
    then show ?thesis unfolding strip_none[OF None] by (auto simp: find_None_iff)
  next
    case (Some w)
    show ?thesis unfolding strip_some[OF Some] by (rule 1[OF Some])
  qed
qed

lemma strip_suffix: "\<exists>a. s = a @ strip_prefixes ws s"
proof (induction ws s rule: strip_prefixes.induct)
  case (1 ws s)
  show ?case
  proof (cases "leading ws s")
    case None
    then show ?thesis unfolding strip_none[OF None] by simp
  next
    case (Some w)
    obtain a where "drop (length w) s = a @ strip_prefixes ws s" using 1[OF Some] unfolding strip_some[OF Some] by blast
    then have "s = (take (length w) s @ a) @ strip_prefixes ws s" by (metis append.assoc append_take_drop_id)
    then show ?thesis by blast
  qed
qed

text \<open>No space is left at either end, and trimming again changes nothing.\<close>

lemma TrimSpace_inner: "\<exists>a b. s = a @ TrimSpace s @ b"
proof -
  let ?l = "strip_prefixes space_runes s"
  obtain a where a: "s = a @ ?l" using strip_suffix by blast
  obtain b where "rev ?l = b @ strip_prefixes (map rev space_runes) (rev ?l)" using strip_suffix by blast
  then have "?l = TrimSpace s @ rev b" by (metis TrimSpace_def rev_append rev_rev_ident)
  then show ?thesis using a by metis
qed

lemma TrimSpace_idem [simp]: "TrimSpace (TrimSpace s) = TrimSpace s"
proof -
  let ?l = "strip_prefixes space_runes s"
  let ?r = "strip_prefixes (map rev space_runes) (rev ?l)"
  obtain b where b: "rev ?l = b @ ?r" using strip_suffix by blast
  then have l: "?l = rev ?r @ rev b" by (metis rev_append rev_rev_ident)
  have "\<not> has_prefix (rev ?r) w" if "w \<in> set space_runes" "w \<noteq> []" for w
  proof
    assume "has_prefix (rev ?r) w"
    then have "has_prefix ?l w" by (subst l) (auto simp: has_prefix_conv)
    then show False using strip_free[of space_runes s] that by blast
  qed
  then have "strip_prefixes space_runes (rev ?r) = rev ?r" by (intro strip_done) blast
  moreover have "strip_prefixes (map rev space_runes) ?r = ?r" by (rule strip_done) (rule strip_free)
  ultimately show ?thesis by (simp add: TrimSpace_def)
qed

lemma readHashKey_Inr:
  "readHashKey read path = Inr key \<longleftrightarrow>
     path \<noteq> [] \<and> (\<exists>raw. read path = Inr raw \<and> key = TrimSpace raw) \<and> 16 \<le> length key"
  by (auto simp: readHashKey_def Let_def split: sum.splits)

text \<open>
  A process starts with a usable redaction key or with none: the key is what the file holds without the
  white space around it, at least sixteen bytes of it; replicas whose files differ by white space at
  the ends only, a trailing newline above all, redact alike.
\<close>

lemma hash_key_exact:
  assumes "readHashKey read path = Inr key"
  shows "16 \<le> length key \<and> TrimSpace key = key \<and>
     (\<forall>read' path'. path' \<noteq> [] \<and> read' path' = Inr key \<longrightarrow> readHashKey read' path' = Inr key)"
  using assms by (auto simp: readHashKey_Inr)

lemma hash_key_newline:
  "readHashKey (\<lambda>p. Inr (''0123456789abcdef'' @ [CHR 0xE2, CHR 0x80, CHR 0x89, CHR 0x0D, CHR 0x0A])) ''k'' = Inr ''0123456789abcdef''"
  "readHashKey (\<lambda>p. Inr ''  short key        '') ''k'' = Inl (KeyTooShort ''k'' 9)"
  by code_simp+

section \<open>What an issuer says\<close>

lemma anyPermitted_iff: "anyPermitted algs \<longleftrightarrow> (\<exists>a \<in> set algs. a \<in> set permittedAlgorithms)"
  by (induction algs) auto

text \<open>An issuer that answers nothing usable is unchecked; one that states something is held to it.\<close>

lemma CheckIssuerMetadata_None:
  assumes "metadataURLFor parse url = Inr u" "fetch u = Answer 200 (Inr m)"
  shows "CheckIssuerMetadata parse fetch url iss aud = None \<longleftrightarrow>
     (im_Issuer m = [] \<or> im_Issuer m = iss) \<and> (im_GarmAudience m = [] \<or> im_GarmAudience m = aud) \<and>
     (im_Algs m = [] \<or> (\<exists>a \<in> set (im_Algs m). a \<in> set permittedAlgorithms))"
  using assms by (auto simp: CheckIssuerMetadata_def disagreements_def Let_def anyPermitted_iff)

lemma checkIssuers_None:
  "checkIssuers parse fetch aud ts = None \<longleftrightarrow>
     (\<forall>t \<in> set ts. CheckIssuerMetadata parse fetch (tr_JWKS t) (tr_Issuer t) aud = None)"
  by (induction ts) (auto split: option.splits)

section \<open>What is released\<close>

lemma records_events:
  assumes "records cfg js found = (es, r)"
  shows "\<exists>batched. es = (if batched then [LedgerOpened] else []) @ (case r of Inl e \<Rightarrow> closeRecord batched | Inr _ \<Rightarrow> [])"
    and "r = Inr (batched, sink) \<Longrightarrow> es = (if batched then [LedgerOpened] else []) \<and> batched = cf_LedgerStream cfg"
  using assms
  by (auto simp: records_def closeRecord_def Let_def split: if_splits option.splits sum.splits
      intro: exI[of _ True] exI[of _ False])

lemma connected_events:
  assumes "serve_connected B W cfg trusted key src g store = (es, r)"
  shows "\<exists>batched. es = (if batched then [LedgerOpened] else []) @
      (case r of NotStarted e \<Rightarrow> [] | Ran u None \<Rightarrow> [Listening, Drained] | Ran u (Some e) \<Rightarrow> [Listening]) @
      closeRecord batched"
proof (cases "grantVerifier True (Some (snd g)) cfg (wo_GrantJS W) (wo_Bucket W)")
  case (Inl e)
  then show ?thesis using assms by (auto simp: serve_connected_def closeRecord_def intro!: exI[of _ False])
next
  case (Inr grants)
  obtain fs q where q: "records cfg (wo_JS W) (wo_AuditStream W) = (fs, q)" by (metis surj_pair)
  show ?thesis
  proof (cases q)
    case recs: (Inl e)
    have "serve_connected B W cfg trusted key src g store = (fs, NotStarted (RecordsErr e))"
      by (simp add: serve_connected_def Inr q recs)
    then show ?thesis using assms records_events(1)[OF q] by (simp add: recs)
  next
    case recs: (Inr x)
    obtain batched sink where x: "x = (batched, sink)" by (cases x)
    have es: "fs = (if batched then [LedgerOpened] else [])" using records_events(2)[OF q recs[unfolded x]] by blast
    have c: "serve_connected B W cfg trusted key src g store =
        (case assemble B W cfg trusted key src g store grants batched sink of
           Inl e \<Rightarrow> (fs @ closeRecord batched, NotStarted e)
         | Inr u \<Rightarrow> (fs @ Listening # (if wo_Listen W = None then [Drained] else []) @ closeRecord batched,
                    Ran u (wo_Listen W)))"
      by (simp add: serve_connected_def Inr q recs x)
    show ?thesis
      using assms unfolding c es
      by (cases "assemble B W cfg trusted key src g store grants batched sink"; cases "wo_Listen W")
         (auto intro!: exI[of _ batched])
  qed
qed

text \<open>
  C22: Whatever stops a process, what it opened is closed, once and in order. Refused before the broker
  answers, it opened nothing. From then on the last thing it does is to close the connection, and just
  before that, if the ledger was batched, to flush it: after the listener when there was one, and after
  the calls in flight drained when the listener ended by shutdown. It listens only when nothing refused.
\<close>

theorem what_is_opened_is_closed:
  "fst (Serve B W cfg) = [] \<and> (\<exists>e. snd (Serve B W cfg) = NotStarted e) \<or>
   (\<exists>batched. fst (Serve B W cfg) =
      Connected # (if batched then [LedgerOpened] else []) @
      (case snd (Serve B W cfg) of
         NotStarted e \<Rightarrow> [] | Ran u None \<Rightarrow> [Listening, Drained] | Ran u (Some e) \<Rightarrow> [Listening]) @
      (if batched then [LedgerClosed] else []) @ [Disconnected])"
proof (cases "load_boot B W cfg")
  case (Inl e)
  then show ?thesis by (simp add: Serve_def)
next
  case (Inr x)
  obtain trusted key src g store where x: "x = (trusted, key, src, g, store)" by (cases x) auto
  show ?thesis
  proof (cases "wo_NATS W")
    case None
    obtain es r where c: "serve_connected B W cfg trusted key src g store = (es, r)" by (metis surj_pair)
    have s: "Serve B W cfg = (Connected # es @ [Disconnected], r)" by (simp add: Serve_def Inr x None c)
    show ?thesis using connected_events[OF c] unfolding s by (auto simp: closeRecord_def)
  qed (simp add: Serve_def Inr x)
qed

section \<open>What a process that listens serves\<close>

text \<open>The parts of a process that reached its listener.\<close>

lemma Serve_Ran:
  assumes "snd (Serve B W cfg) = Ran r e"
  obtains trusted key g store reg batched h where
    "trustedIssuers (cf_Issuers cfg) (cf_JWKSURLs cfg) = Inr trusted"
    "readHashKey (wo_File W) (cf_HashKeyFile cfg) = Inr key"
    "catalogueSource (wo_S3 W) (cf_Catalogue cfg) = Inr (ru_Source r)"
    "store_Reload (bl_CatLib B) (wo_Reading W) (NewStore 0 0 (cf_MaxTools cfg)) = (Inr g, store)"
    "grantVerifier True (Some (snd g)) cfg (wo_GrantJS W) (wo_Bucket W) = Inr (ru_Grants r)"
    "snd (records cfg (wo_JS W) (wo_AuditStream W)) = Inr (batched, ru_Sink r)"
    "pk_NewRegistry (en_Policy (bl_Env B)) (ct_Compartments (snd g)) = Inr reg"
    "checkIssuers (bl_ParseURL B) (wo_Metadata W) (cf_Audience cfg) trusted = None"
    "Prepare (bl_Env B) (bl_Validator B) (boot_handler B key batched (ru_Sink r) (ru_Grants r)) g = (None, h)"
    "ru_State r = fresh_poller store h reg" "ru_Trusted r = trusted"
    "vr_cfgErr (ru_Verifier r) = checkTrusted trusted"
proof -
  obtain trusted key src g store where l: "load_boot B W cfg = Inr (trusted, key, src, g, store)"
      "snd (serve_connected B W cfg trusted key src g store) = Ran r e"
    using assms by (auto simp: Serve_def split: sum.splits option.splits prod.splits)
  have load: "trustedIssuers (cf_Issuers cfg) (cf_JWKSURLs cfg) = Inr trusted"
    "readHashKey (wo_File W) (cf_HashKeyFile cfg) = Inr key"
    "catalogueSource (wo_S3 W) (cf_Catalogue cfg) = Inr src"
    "store_Reload (bl_CatLib B) (wo_Reading W) (NewStore 0 0 (cf_MaxTools cfg)) = (Inr g, store)"
    using l(1) by (auto simp: load_boot_def split: if_splits sum.splits prod.splits)
  obtain grants batched sink where c: "grantVerifier True (Some (snd g)) cfg (wo_GrantJS W) (wo_Bucket W) = Inr grants"
      "snd (records cfg (wo_JS W) (wo_AuditStream W)) = Inr (batched, sink)"
      "assemble B W cfg trusted key src g store grants batched sink = Inr r"
    using l(2) by (auto simp: serve_connected_def split: sum.splits prod.splits)
  obtain reg h where a: "pk_NewRegistry (en_Policy (bl_Env B)) (ct_Compartments (snd g)) = Inr reg"
      "checkIssuers (bl_ParseURL B) (wo_Metadata W) (cf_Audience cfg) trusted = None"
      "Prepare (bl_Env B) (bl_Validator B) (boot_handler B key batched sink grants) g = (None, h)"
      "ru_State r = fresh_poller store h reg" "ru_Trusted r = trusted" "ru_Source r = src"
      "ru_Grants r = grants" "ru_Sink r = sink"
      "vr_cfgErr (ru_Verifier r) = checkTrusted trusted"
    using c(3) by (auto simp: assemble_def NewVerifier_def fold_pair_def split: sum.splits option.splits prod.splits)
  show thesis by (rule that) (use load c a in simp_all)
qed

lemma records_sink:
  assumes "snd (records cfg js found) = Inr (batched, Some k)"
  shows "sk_retention k = cf_AuditRetention cfg \<and> cf_Audit cfg \<and> fst (AssertStream found) = None"
  using assms by (auto simp: records_def sink_New_def Let_def split: if_splits option.splits sum.splits)

lemma serving_config:
  assumes "(serving_step D)\<^sup>*\<^sup>* p p'" "poller_ok D p"
  shows "\<exists>v. po_handler p' = (po_handler p)\<lparr>hd_plane := v\<rparr>"
  using assms
proof (induction rule: rtranclp_induct)
  case base
  show ?case by (rule exI[of _ "hd_plane (po_handler p)"]) simp
next
  case (step x y)
  have ok: "poller_ok D x" by (rule serving_ok[OF step.hyps(1) step.prems])
  obtain v where v: "po_handler x = (po_handler p)\<lparr>hd_plane := v\<rparr>" using step.IH[OF step.prems] by blast
  have "po_handler y = (po_handler x)\<lparr>hd_plane := hd_plane (po_handler y)\<rparr>"
    using step.hyps(2)
  proof (cases rule: serving_step.cases)
    case (poll i out)
    show ?thesis
    proof (cases "out = Swapped")
      case True
      have once: "Once D i x = (Swapped, y)" using poll True by simp
      show ?thesis by (rule swap_parts[OF ok once poll(1)]) (assumption, simp add: same_config_def)
    next
      case False
      from poll(2) have "in_service y = in_service x" by (cases rule: Once_cases) (use False in simp_all)
      then show ?thesis by (simp add: in_service_def)
    qed
  next
    case (request g g' r h')
    then show ?thesis using planeFor_config[OF request(4)] by simp
  qed
  from this[unfolded v] show ?case by (intro exI[of _ "hd_plane (po_handler y)"]) simp
qed

lemma boot_admits:
  assumes "grantVerifier True (Some c) cfg js opened = Inr (Some u)"
  shows "reloadGuard (gu_retention u) (Some c) = None"
  using assms unfolding grantVerifier_def reloadGuard_def Let_def
  by (auto split: option.split_asm if_split_asm sum.split_asm)

lemma boot_store:
  assumes "store_Reload L rd (NewStore k ttl m) = (Inr g, store)"
  shows "store_ok L store \<and> so_current store = Some g \<and> loaded_by L (snd g)"
proof -
  have "store_reach L store" using store_reach.reload[OF store_reach.new, of L rd k ttl m] assms by simp
  then have ok: "store_ok L store" by (rule store_reach_ok)
  moreover have "so_current store = Some g"
    using assms
  proof (cases rule: store_Reload_cases[of L rd "NewStore k ttl m"])
    case (swapped body c g' s')
    then show ?thesis using assms swap_in_sel[OF swapped(5)] by simp
  qed (simp_all add: NewStore_def Let_def)
  ultimately show ?thesis by (auto simp: store_ok_def)
qed

text \<open>A process that listens satisfies the invariant its polls and requests keep.\<close>

lemma started_ok:
  assumes "snd (Serve B W cfg) = Ran r e"
  shows "poller_ok (deployment_of B r) (ru_State r)"
proof -
  obtain trusted key g store reg batched h where b:
    "store_Reload (bl_CatLib B) (wo_Reading W) (NewStore 0 0 (cf_MaxTools cfg)) = (Inr g, store)"
    "grantVerifier True (Some (snd g)) cfg (wo_GrantJS W) (wo_Bucket W) = Inr (ru_Grants r)"
    "pk_NewRegistry (en_Policy (bl_Env B)) (ct_Compartments (snd g)) = Inr reg"
    "Prepare (bl_Env B) (bl_Validator B) (boot_handler B key batched (ru_Sink r) (ru_Grants r)) g = (None, h)"
    "ru_State r = fresh_poller store h reg"
    by (rule Serve_Ran[OF assms])
  let ?D = "deployment_of B r"
  have D: "de_Env ?D = bl_Env B" "de_Validator ?D = bl_Validator B" "de_Lib ?D = bl_CatLib B"
      "de_Admit ?D = map_option (\<lambda>u c. reloadGuard (gu_retention u) (Some c)) (ru_Grants r)"
    by (simp_all add: deployment_of_def)
  have plane: "hd_plane (boot_handler B key batched (ru_Sink r) (ru_Grants r)) = None" by (simp add: boot_handler_def)
  have "store_ok (de_Lib ?D) store \<and> so_current store = Some g" using boot_store[OF b(1)] D(3) by simp
  moreover have "f (snd g) = None" if "de_Admit ?D = Some f" for f
    using that boot_admits b(2) unfolding D(4) by (cases "ru_Grants r") auto
  ultimately show ?thesis
    unfolding b(5) using b(3,4) boot_ok[OF _ _ plane, of ?D store g reg h] unfolding D(1,2) by blast
qed

lemma mounted_governed:
  assumes "plane_for E h g q" "d \<in> set (ct_Defs (snd g))"
  shows "t_ApprovalMode d = MODE_GRANT \<Longrightarrow> hd_Grants h \<noteq> None"
    and "t_ApprovalMode d = MODE_NOTIFY \<Longrightarrow> hd_Notifier h \<noteq> None"
    and "t_AuditLevel d = LEVEL_AUDIT \<or> t_AuditFailClosed d \<Longrightarrow> hd_Audit h \<noteq> None"
    and "t_HasAuthorization d \<Longrightarrow> hd_FGA h \<noteq> None"
proof -
  obtain u where u: "lookup_tool (pl_core q) (t_FullMethod d) = Some u"
      "sameDeclarationAs (fs_Pool (ct_Files (snd g))) d u"
    using assms by (auto simp: plane_for_def)
  have "entry_ok (pl_core q) (t_FullMethod d) u"
    using assms(1) u(1) by (auto simp: plane_for_def core_ok_def lookup_tool_def dest!: map_of_SomeD)
  then have m: "unimplementedGovernance (pl_core q) u = []" by (simp add: entry_ok_def)
  have same: "t_ApprovalMode u = t_ApprovalMode d" "t_AuditLevel u = t_AuditLevel d"
      "t_HasAuthorization u = t_HasAuthorization d" "t_AuditFailClosed u = t_AuditFailClosed d"
    using u(2) by (simp_all add: sameDeclarationAs_def)
  have c: "c_grants (pl_core q) = hd_Grants h" "c_audit (pl_core q) = hd_Audit h"
      "c_fga (pl_core q) = hd_FGA h" "c_notifier (pl_core q) = hd_Notifier h"
    using assms(1) by (simp_all add: plane_for_def)
  show "t_ApprovalMode d = MODE_GRANT \<Longrightarrow> hd_Grants h \<noteq> None"
    "t_ApprovalMode d = MODE_NOTIFY \<Longrightarrow> hd_Notifier h \<noteq> None"
    "t_HasAuthorization d \<Longrightarrow> hd_FGA h \<noteq> None"
    using m same c by (auto simp: unimplementedGovernance_def approval_missing_def split: if_splits)
  show "t_AuditLevel d = LEVEL_AUDIT \<or> t_AuditFailClosed d \<Longrightarrow> hd_Audit h \<noteq> None"
    using m same c by (auto simp: unimplementedGovernance_def level_missing_def fail_closed_missing_def split: if_splits)
qed

text \<open>What was configured is what the handler holds from then on.\<close>

lemma started_config:
  assumes "snd (Serve B W cfg) = Ran r e" "(serving_step (deployment_of B r))\<^sup>*\<^sup>* (ru_State r) p"
  obtains "readHashKey (wo_File W) (cf_HashKeyFile cfg) = Inr (hd_HashKey (po_handler p))"
    "hd_FGA (po_handler p) = None" "hd_Notifier (po_handler p) = None"
    "hd_Grants (po_handler p) = map_option (\<lambda>u. bl_Grants B (gu_verifier u)) (ru_Grants r)"
    "hd_Audit (po_handler p) = map_option (sink_seam (bl_AuditLib B) (bl_Publish B) (bl_NewID B) (bl_Stream B)) (ru_Sink r)"
proof -
  obtain trusted key g0 store reg batched h where b:
    "readHashKey (wo_File W) (cf_HashKeyFile cfg) = Inr key"
    "Prepare (bl_Env B) (bl_Validator B) (boot_handler B key batched (ru_Sink r) (ru_Grants r)) g0 = (None, h)"
    "ru_State r = fresh_poller store h reg"
    by (rule Serve_Ran[OF assms(1)])
  let ?h = "boot_handler B key batched (ru_Sink r) (ru_Grants r)"
  obtain v where "po_handler p = (po_handler (ru_State r))\<lparr>hd_plane := v\<rparr>"
    using serving_config[OF assms(2) started_ok[OF assms(1)]] by blast
  moreover obtain w where "h = ?h\<lparr>hd_plane := w\<rparr>"
    using b(2) planeFor_config by (fastforce simp: Prepare_def split: prod.splits sum.splits)
  ultimately have conf: "po_handler p = ?h\<lparr>hd_plane := v\<rparr>" by (simp add: b(3) fresh_poller_def)
  show thesis by (rule that) (simp_all add: conf boot_handler_def b(1))
qed

lemma started_grants:
  assumes "snd (Serve B W cfg) = Ran r e" "ru_Grants r = Some u" "admitted (deployment_of B r) p c"
  shows "gf_Issuers (gu_verifier u) = [cf_GrantIssuer cfg] \<and> outlived (gu_retention u) c"
proof -
  obtain trusted key g store reg batched h where b:
    "store_Reload (bl_CatLib B) (wo_Reading W) (NewStore 0 0 (cf_MaxTools cfg)) = (Inr g, store)"
    "grantVerifier True (Some (snd g)) cfg (wo_GrantJS W) (wo_Bucket W) = Inr (ru_Grants r)"
    by (rule Serve_Ran[OF assms(1)])
  have "loaded_by (bl_CatLib B) (snd g)" using boot_store[OF b(1)] by blast
  note G = grantVerifier_Some[OF b(2)[unfolded assms(2)] this]
  obtain c' where c': "same_artifact c' c" "reloadGuard (gu_retention u) (Some c') = None" "loaded_by (bl_CatLib B) c'"
    using assms(2,3) by (auto simp: admitted_def deployment_of_def)
  have "outlived (gu_retention u) c'" by (rule reloadGuard_outlived[OF c'(2,3) G(5)])
  then show ?thesis using c'(1) G(4) by (simp add: outlived_def same_artifact_def)
qed

lemma started_sink:
  assumes "snd (Serve B W cfg) = Ran r e" "ru_Sink r = Some k"
  shows "Retention k = cf_AuditRetention cfg \<and>
     (\<forall>sc. wo_AuditStream W = StreamIs sc \<longrightarrow> st_Discard sc = DiscardNew \<and> st_Storage sc = FileStorage)"
proof -
  obtain trusted key g store reg batched h where
    "snd (records cfg (wo_JS W) (wo_AuditStream W)) = Inr (batched, ru_Sink r)"
    by (rule Serve_Ran[OF assms(1)])
  note R = records_sink[OF this[unfolded assms(2)]]
  have "st_Discard sc = DiscardNew \<and> st_Storage sc = FileStorage" if "wo_AuditStream W = StreamIs sc" for sc
    using R unfolding that by (simp only: AssertStream_lossless)
  then show ?thesis using R by (simp add: Retention_def)
qed

text \<open>
  C9: What a process serves is governed by what it was started with. Take a process that reached its
  listener, and any polls and requests since. The chain in force is the one of the catalogue in force;
  hash redactions are keyed by the trimmed contents, sixteen bytes at least, of the key file; a tool
  that asks for an approval is served only with step 5 configured, and the record of a spent approval
  outlasts it; an audited or fail-closed tool is served only with the sink, under the retention the
  operator asserted and, if the audit stream exists, on one that neither discards nor lives in memory;
  and no tool asking for instance authorization or notification is served at all.
\<close>

theorem started_process_governs:
  assumes "snd (Serve B W cfg) = Ran r e" "(serving_step (deployment_of B r))\<^sup>*\<^sup>* (ru_State r) p"
  shows "\<exists>g q. so_current (po_store p) = Some g \<and> hd_plane (po_handler p) = Some q \<and>
     plane_for (bl_Env B) (po_handler p) g q \<and> po_taxonomy p = Some (pl_reg q) \<and>
     readHashKey (wo_File W) (cf_HashKeyFile cfg) = Inr (hd_HashKey (po_handler p)) \<and>
     (\<forall>d \<in> set (ct_Defs (snd g)).
        \<not> t_HasAuthorization d \<and> t_ApprovalMode d \<noteq> MODE_NOTIFY \<and>
        (t_ApprovalMode d = MODE_GRANT \<longrightarrow>
           (\<exists>u. ru_Grants r = Some u \<and> c_grants (pl_core q) = Some (bl_Grants B (gu_verifier u)) \<and>
                gf_Issuers (gu_verifier u) = [cf_GrantIssuer cfg] \<and>
                0 < t_MaxGrantAge d \<and> t_MaxGrantAge d + DefaultSkew \<le> gu_retention u)) \<and>
        (t_AuditLevel d = LEVEL_AUDIT \<or> t_AuditFailClosed d \<longrightarrow>
           (\<exists>k. c_audit (pl_core q) = Some (sink_seam (bl_AuditLib B) (bl_Publish B) (bl_NewID B) (bl_Stream B) k) \<and>
                Retention k = cf_AuditRetention cfg \<and>
                (\<forall>sc. wo_AuditStream W = StreamIs sc \<longrightarrow>
                   st_Discard sc = DiscardNew \<and> st_Storage sc = FileStorage))))"
proof -
  let ?h = "po_handler p"
  have "poller_ok (deployment_of B r) p" by (rule serving_ok[OF assms(2) started_ok[OF assms(1)]])
  then obtain g q where p: "so_current (po_store p) = Some g" "hd_plane ?h = Some q"
      "plane_for (bl_Env B) ?h g q" "po_taxonomy p = Some (pl_reg q)" "admitted (deployment_of B r) p (snd g)"
    by (auto simp: poller_ok_def in_step_def deployment_of_def)
  obtain seams: "readHashKey (wo_File W) (cf_HashKeyFile cfg) = Inr (hd_HashKey ?h)"
      "hd_FGA ?h = None" "hd_Notifier ?h = None"
      "hd_Grants ?h = map_option (\<lambda>u. bl_Grants B (gu_verifier u)) (ru_Grants r)"
      "hd_Audit ?h = map_option (sink_seam (bl_AuditLib B) (bl_Publish B) (bl_NewID B) (bl_Stream B)) (ru_Sink r)"
    by (rule started_config[OF assms])
  have c: "c_grants (pl_core q) = hd_Grants ?h" "c_audit (pl_core q) = hd_Audit ?h"
    using p(3) by (simp_all add: plane_for_def)
  have grants: "\<exists>u. ru_Grants r = Some u \<and> c_grants (pl_core q) = Some (bl_Grants B (gu_verifier u)) \<and>
      gf_Issuers (gu_verifier u) = [cf_GrantIssuer cfg] \<and>
      0 < t_MaxGrantAge d \<and> t_MaxGrantAge d + DefaultSkew \<le> gu_retention u"
    if d: "d \<in> set (ct_Defs (snd g))" "t_ApprovalMode d = MODE_GRANT" for d
  proof -
    obtain u where u: "ru_Grants r = Some u" using mounted_governed(1)[OF p(3) d] seams(4) by auto
    have "c_grants (pl_core q) = Some (bl_Grants B (gu_verifier u))" by (simp add: c seams u)
    then show ?thesis using started_grants[OF assms(1) u p(5)] d u by (auto simp: outlived_def gated_def)
  qed
  have audited: "\<exists>k. c_audit (pl_core q) = Some (sink_seam (bl_AuditLib B) (bl_Publish B) (bl_NewID B) (bl_Stream B) k) \<and>
      Retention k = cf_AuditRetention cfg \<and>
      (\<forall>sc. wo_AuditStream W = StreamIs sc \<longrightarrow> st_Discard sc = DiscardNew \<and> st_Storage sc = FileStorage)"
    if d: "d \<in> set (ct_Defs (snd g))" "t_AuditLevel d = LEVEL_AUDIT \<or> t_AuditFailClosed d" for d
  proof -
    obtain k where k: "ru_Sink r = Some k" using mounted_governed(3)[OF p(3) d] seams(5) by auto
    have "c_audit (pl_core q) = Some (sink_seam (bl_AuditLib B) (bl_Publish B) (bl_NewID B) (bl_Stream B) k)"
      by (simp add: c seams k)
    then show ?thesis using started_sink[OF assms(1) k] by blast
  qed
  have never: "\<not> t_HasAuthorization d \<and> t_ApprovalMode d \<noteq> MODE_NOTIFY" if "d \<in> set (ct_Defs (snd g))" for d
    using mounted_governed(2,4)[OF p(3) that] seams(2,3) by blast
  show ?thesis
    by (rule exI[of _ g], rule exI[of _ q]) (intro conjI ballI impI p(1-4) seams(1) grants audited; use never in blast)
qed

section \<open>An issuer without a name\<close>

text \<open>
  \<open>serve.go\<close> means identity to be refused before anything is loaded or bound. Startup never asks the
  verifier it builds whether its configuration is usable: one empty \<open>--issuer\<close>, as an unset variable
  leaves it, starts a process that refuses every token.
\<close>

lemma nameless_issuer_starts:
  assumes "snd (Serve B W cfg) = Ran r e"
  shows "vr_cfgErr (ru_Verifier r) = None \<longleftrightarrow> [] \<notin> set (cf_Issuers cfg)"
proof -
  obtain trusted key g store reg batched h where b:
    "trustedIssuers (cf_Issuers cfg) (cf_JWKSURLs cfg) = Inr trusted"
    "vr_cfgErr (ru_Verifier r) = checkTrusted trusted"
    by (rule Serve_Ran[OF assms])
  from issuers_paired[OF b(1)] show ?thesis unfolding b(2) by simp
qed

section \<open>A process, started\<close>

definition toy_build :: "(unit, unit, message list) build" where
  "toy_build = \<lparr>bl_Env = sample_env, bl_Validator = toy_validator, bl_CatLib = toy_catlib,
     bl_ParseURL = (\<lambda>u. Inr (''https'', ''idp'')), bl_Invoke = (\<lambda>hist ic route req d. Returns (Inr (Msg 0 []))),
     bl_Slog = sample_recorder, bl_Ledger = sample_recorder,
     bl_Grants = (\<lambda>v. \<lparr>gv_Verify = \<lambda>hist x p t m. Returns ([], None)\<rparr>),
     bl_AuditLib = toy_audit_lib, bl_Publish = toy_publish, bl_Stream = [], bl_NewID = ''n''\<rparr>"

definition toy_world :: world where
  "toy_world = \<lparr>wo_File = (\<lambda>p. Inr ''0123456789abcdef ''), wo_S3 = None, wo_Reading = toy_reading ''artifact'' 7,
     wo_NATS = None, wo_GrantJS = None, wo_Bucket = Opened None, wo_JS = None,
     wo_AuditStream = StreamIs \<lparr>st_Discard = DiscardNew, st_Storage = FileStorage, st_Replicas = 1\<rparr>,
     wo_Metadata = (\<lambda>u. Answer 200 (Inr \<lparr>im_Issuer = ''https://idp'', im_GarmAudience = ''garmd'', im_Algs = []\<rparr>)),
     wo_Listen = None\<rparr>"

lemma toy_started: "case snd (Serve toy_build toy_world toy_deployment) of NotStarted x \<Rightarrow> False | Ran r e \<Rightarrow> ru_Polled r"
  by code_simp

definition lossy_world :: world where
  "lossy_world = toy_world\<lparr>wo_AuditStream :=
     StreamIs \<lparr>st_Discard = DiscardOld, st_Storage = FileStorage, st_Replicas = 3\<rparr>\<rparr>"

lemma toy_events:
  "fst (Serve toy_build toy_world toy_deployment) =
     [Connected, LedgerOpened, Listening, Drained, LedgerClosed, Disconnected]"
  "fst (Serve toy_build lossy_world toy_deployment) = [Connected, LedgerOpened, LedgerClosed, Disconnected]"
  "case snd (Serve toy_build lossy_world toy_deployment) of
     NotStarted (RecordsErr (CannotAudit DiscardsRecords)) \<Rightarrow> True | _ \<Rightarrow> False"
  "case snd (Serve toy_build toy_world (toy_deployment\<lparr>cf_Issuers := [''https://other'']\<rparr>)) of
     NotStarted (IssuerErr (Disagree [OtherIssuer _ _] _)) \<Rightarrow> True | _ \<Rightarrow> False"
  by code_simp+

lemma started_process_governs_witness:
  "\<exists>r e g q. snd (Serve toy_build toy_world toy_deployment) = Ran r e \<and>
     so_current (po_store (ru_State r)) = Some g \<and> plane_for sample_env (po_handler (ru_State r)) g q \<and>
     hd_HashKey (po_handler (ru_State r)) = ''0123456789abcdef''"
proof -
  obtain r e where r: "snd (Serve toy_build toy_world toy_deployment) = Ran r e"
    using toy_started by (auto split: ending.splits)
  have k: "readHashKey (wo_File toy_world) (cf_HashKeyFile toy_deployment) = Inr ''0123456789abcdef''" by code_simp
  have e: "bl_Env toy_build = sample_env" by (simp add: toy_build_def)
  show ?thesis using started_process_governs[OF r rtranclp.rtrancl_refl] r k by (auto simp: e)
qed

end
