(* ===== verification/Check.thy ===== *)
theory Check
  imports StartupProps
begin

text \<open>
  \<open>cmd/garmd/check.go\<close>: would a catalogue mount on a deployment with given capabilities? It runs the
  daemon's own load and mount behind assumed seams, and is held here to the daemon's start: what it
  reports is what the start would have met. This is its verdict, what it prints is theory \<open>Report\<close>; the
  key is thirty-two random bytes and nothing reads it.
\<close>

section \<open>The command\<close>

record check_opts =
  co_catalogue :: string
  co_maxTools :: int
  co_withGrants :: bool
  co_withFGA :: bool
  co_withNotifier :: bool
  co_auditRetention :: int

definition assumedGrants :: grant_verifier where
  "assumedGrants = \<lparr>gv_Verify = \<lambda>hist x p t m. Returns ([], None)\<rparr>"

definition assumedFGA :: fga_checker where
  "assumedFGA = \<lparr>fga_Pre = \<lambda>hist p t m. Returns None, fga_Post = \<lambda>hist p t m. Returns (PostSame m)\<rparr>"

definition assumedNotifier :: notifier where
  "assumedNotifier = \<lparr>nf_Notify = \<lambda>hist ev. Returns ()\<rparr>"

definition assumedAudit :: "int \<Rightarrow> audit_sink" where
  "assumedAudit retention = \<lparr>as_Write = \<lambda>hist ev. Returns None, as_Retention = retention\<rparr>"

definition discardRecorder :: recorder where
  "discardRecorder = \<lparr>rc_Record = \<lambda>hist ev. Returns ()\<rparr>"

definition check_handler :: "string \<Rightarrow> check_opts \<Rightarrow> 'p handler" where
  "check_handler key co =
     \<lparr>hd_Invoke = (\<lambda>hist ic route m d. Panics (PanicWith ''nil Invoker'')), hd_HashKey = key,
      hd_Recorder = Some discardRecorder,
      hd_Audit = (if co_auditRetention co > 0 then Some (assumedAudit (co_auditRetention co)) else None),
      hd_FGA = (if co_withFGA co then Some assumedFGA else None),
      hd_Grants = (if co_withGrants co then Some assumedGrants else None),
      hd_Notifier = (if co_withNotifier co then Some assumedNotifier else None), hd_plane = None\<rparr>"

datatype check_err = NothingToCheck | WouldNotLoad store_err | WouldNotMount plane_err

definition runCheck ::
  "env \<Rightarrow> string + (pmsg \<Rightarrow> vresult) \<Rightarrow> ('d, 'p) cat_lib \<Rightarrow> string \<Rightarrow> reading \<Rightarrow> check_opts \<Rightarrow> check_err option" where
  "runCheck E v L key rd co =
     (if co_catalogue co = [] then Some NothingToCheck
      else (case store_Reload L rd (NewStore 0 0 (co_maxTools co)) of
        (Inl e, store) \<Rightarrow> Some (WouldNotLoad e)
      | (Inr g, store) \<Rightarrow>
          (case Prepare E v (check_handler key co) g of
             (Some e, h) \<Rightarrow> Some (WouldNotMount e)
           | (None, h) \<Rightarrow> None)))"

section \<open>What mounting looks at\<close>

text \<open>Two cores that mounting cannot tell apart: their seams are there or not alike.\<close>

definition same_audit :: "audit_sink option \<Rightarrow> audit_sink option \<Rightarrow> bool" where
  "same_audit a b \<longleftrightarrow> map_option as_Retention a = map_option as_Retention b"

definition alike :: "core \<Rightarrow> core \<Rightarrow> bool" where
  "alike c d \<longleftrightarrow>
     c_reg c = c_reg d \<and> c_plans c = c_plans d \<and> c_tools c = c_tools d \<and> c_need c = c_need d \<and>
     set (map fst (c_resolvers c)) = set (map fst (c_resolvers d)) \<and>
     same_audit (c_audit c) (c_audit d) \<and> (c_fga c = None \<longleftrightarrow> c_fga d = None) \<and>
     (c_grants c = None \<longleftrightarrow> c_grants d = None) \<and> (c_notifier c = None \<longleftrightarrow> c_notifier d = None)"

lemma alike_governance:
  assumes "alike c d"
  shows "unimplementedGovernance c t = unimplementedGovernance d t"
proof -
  have a: "map_option as_Retention (c_audit c) = map_option as_Retention (c_audit d)"
    using assms by (simp add: alike_def same_audit_def)
  then have n: "c_audit c = None \<longleftrightarrow> c_audit d = None" by (metis map_option_is_None)
  have "retain_missing c t = retain_missing d t"
    using a by (cases "c_audit c"; cases "c_audit d") (simp_all add: retain_missing_def Let_def)
  moreover have "approval_missing c t = approval_missing d t" "c_fga c = None \<longleftrightarrow> c_fga d = None"
    using assms by (simp_all add: alike_def approval_missing_def)
  ultimately show ?thesis
    by (simp add: unimplementedGovernance_def level_missing_def fail_closed_missing_def n)
qed

lemma alike_messages:
  assumes "alike c d" "add_messages E name ds c = (r, c')" "add_messages E name ds d = (q, d')"
  shows "r = q \<and> alike c' d'"
  using assms
proof (induction E name ds c arbitrary: d rule: add_messages.induct)
  case (3 E name x ds c)
  have e: "c_plans d = c_plans c" "c_reg d = c_reg c" using 3(3) by (simp_all add: alike_def)
  show ?case
  proof (cases "c_plans c x = None")
    case False
    then show ?thesis using 3(1)[of d] 3(3-5) by (simp add: e)
  next
    case new: True
    show ?thesis
    proof (cases "pk_Compile (en_Policy E) x (c_reg c)")
      case (Inl msg)
      then show ?thesis using 3(3-5) new by (auto simp: e)
    next
      case (Inr plan)
      have "alike (c\<lparr>c_plans := (c_plans c)(x \<mapsto> plan), c_cards := (c_cards c)(x \<mapsto> contains_card (en_Pool E) x)\<rparr>)
          (d\<lparr>c_plans := (c_plans d)(x \<mapsto> plan), c_cards := (c_cards d)(x \<mapsto> contains_card (en_Pool E) x)\<rparr>)"
        using 3(3) by (simp add: alike_def)
      then show ?thesis using 3(2)[OF _ Inr] 3(4,5) new Inr by (simp add: e)
    qed
  qed
qed auto

lemma alike_add:
  assumes "alike c d" "add_tool E t c = (r, c')" "add_tool E t d = (q, d')"
  shows "r = q \<and> alike c' d'"
proof -
  have g: "unimplementedGovernance d t = unimplementedGovernance c t" using alike_governance[OF assms(1)] by simp
  have tl: "c_tools d = c_tools c" using assms(1) by (simp add: alike_def)
  then have k: "conflicting P d t = conflicting P c t" for P by (simp add: conflicting_def)
  obtain r1 c1 q1 d1 where m: "add_messages E (t_Name t) [t_Input t, t_Output t] c = (r1, c1)"
      "add_messages E (t_Name t) [t_Input t, t_Output t] d = (q1, d1)" by (metis surj_pair)
  note M = alike_messages[OF assms(1) m]
  have reg: "c_reg d1 = c_reg c1" using M by (simp add: alike_def)
  have step: "alike (c1\<lparr>c_need := (c_need c1)(t_FullMethod t \<mapsto> need),
        c_tools := AList.update (t_FullMethod t) t (c_tools c1)\<rparr>)
      (d1\<lparr>c_need := (c_need d1)(t_FullMethod t \<mapsto> need),
        c_tools := AList.update (t_FullMethod t) t (c_tools d1)\<rparr>)" for need
    using M by (simp add: alike_def)
  show ?thesis
  proof (cases "unimplementedGovernance c t \<noteq> [] \<or> conflicting (en_Pool E) c t")
    case True
    then show ?thesis using assms by (auto simp: add_tool_def g k tl split: if_split_asm)
  next
    case False
    show ?thesis
    proof (cases r1)
      case (Some e)
      then show ?thesis using assms(2,3) m M False unfolding add_tool_def g k
        by (simp only: if_False simp_thms de_Morgan_disj prod.case option.case) auto
    next
      case None
      then show ?thesis using assms(2,3) m M False step unfolding add_tool_def g k
        by (cases "rg_Set (c_reg c1) (t_Compartments t)")
           (simp_all only: if_False simp_thms de_Morgan_disj prod.case option.case sum.case reg, auto)
    qed
  qed
qed

lemma alike_AddTools:
  "alike c d \<Longrightarrow> AddTools E c ts = (r, c') \<Longrightarrow> AddTools E d ts = (q, d') \<Longrightarrow> r = q \<and> alike c' d'"
proof (induction ts arbitrary: c d)
  case (Cons t ts)
  obtain r1 c1 q1 d1 where m: "add_tool E t c = (r1, c1)" "add_tool E t d = (q1, d1)" by (metis surj_pair)
  note A = alike_add[OF Cons.prems(1) m]
  show ?case
  proof (cases r1)
    case None
    then show ?thesis using Cons.IH[of c1 d1] A m Cons.prems(2,3) by auto
  qed (use A m Cons.prems(2,3) in auto)
qed auto

lemma alike_Register:
  assumes "alike c d" "Register c m q (Some f) = (r, c')" "Register d m q (Some f') = (r', d')"
  shows "r = r' \<and> alike c' d'"
proof -
  have k: "map_of (c_resolvers d) m = None \<longleftrightarrow> map_of (c_resolvers c) m = None"
    using assms(1) by (simp add: alike_def map_of_eq_None_iff)
  have reg': "alike (c\<lparr>c_resolvers := AList.update m x (c_resolvers c)\<rparr>) (d\<lparr>c_resolvers := AList.update m y (c_resolvers d)\<rparr>)" for x y
    using assms(1) by (simp add: alike_def dom_update)
  consider "m = []" | "m \<noteq> []" "q = None" | "m \<noteq> []" "q \<noteq> None" "map_of (c_resolvers c) m \<noteq> None"
    | (new) "m \<noteq> []" "q \<noteq> None" "map_of (c_resolvers c) m = None" by blast
  then show ?thesis
  proof cases
    case new
    then have "r = None" "r' = None" "alike c' d'" using assms(2,3) k reg' by (auto simp: Register_def)
    then show ?thesis by simp
  qed (use assms k in \<open>auto simp: Register_def\<close>)
qed

lemma alike_register_all:
  "alike c d \<Longrightarrow>
     (\<exists>e. register_all h ds c = Inl e \<and> register_all h' ds d = Inl e) \<or>
     (\<exists>c' d'. register_all h ds c = Inr c' \<and> register_all h' ds d = Inr d')"
proof (induction ds arbitrary: c d)
  case (Cons t ds)
  obtain r c1 r' d1 where R: "Register c (t_FullMethod t) (requestFactory (t_Input t)) (Some (hop_resolver h t)) = (r, c1)"
      "Register d (t_FullMethod t) (requestFactory (t_Input t)) (Some (hop_resolver h' t)) = (r', d1)"
    by (metis surj_pair)
  note A = alike_Register[OF Cons.prems R]
  show ?case
  proof (cases r)
    case None
    then have "register_all h (t # ds) c = register_all h ds c1" "register_all h' (t # ds) d = register_all h' ds d1"
      using R A by simp_all
    then show ?thesis using Cons.IH[of c1 d1] A by simp
  qed (use R A in simp)
qed simp

definition same_caps :: "'p handler \<Rightarrow> 'p handler \<Rightarrow> bool" where
  "same_caps h h' \<longleftrightarrow>
     hd_HashKey h \<noteq> [] \<and> hd_HashKey h' \<noteq> [] \<and> hd_Recorder h \<noteq> None \<and> hd_Recorder h' \<noteq> None \<and>
     same_audit (hd_Audit h) (hd_Audit h') \<and> (hd_FGA h = None \<longleftrightarrow> hd_FGA h' = None) \<and>
     (hd_Grants h = None \<longleftrightarrow> hd_Grants h' = None) \<and> (hd_Notifier h = None \<longleftrightarrow> hd_Notifier h' = None)"

lemma alike_NewCore:
  assumes "same_caps h h'"
  shows "(\<exists>e. NewCore E v (core_config_of h x) = Inl e \<and> NewCore E v (core_config_of h' x) = Inl e) \<or>
     (\<exists>c d. NewCore E v (core_config_of h x) = Inr c \<and> NewCore E v (core_config_of h' x) = Inr d \<and> alike c d)"
  using assms
  by (auto simp: same_caps_def NewCore_def core_config_of_def alike_def split: sum.splits)

text \<open>Deployments with the same capabilities accept the same catalogues, with the same refusal for the others.\<close>

lemma same_caps_Check:
  assumes "same_caps h h'"
  shows "Check E v h g = Check E v h' g"
proof (cases "shadowed (ct_Defs (snd g))")
  case None
  let ?E = "gen_env E (snd g)"
  from alike_NewCore[OF assms, of ?E v "snd g"] show ?thesis
  proof (elim disjE exE conjE)
    fix c d assume n: "NewCore ?E v (core_config_of h (snd g)) = Inr c" "NewCore ?E v (core_config_of h' (snd g)) = Inr d" "alike c d"
    obtain r c1 r' d1 where m: "AddTools ?E c (ct_Defs (snd g)) = (r, c1)" "AddTools ?E d (ct_Defs (snd g)) = (r', d1)"
      by (metis surj_pair)
    note A = alike_AddTools[OF n(3) m]
    show ?thesis
    proof (cases r)
      case None
      then show ?thesis using n m A \<open>shadowed _ = None\<close> alike_register_all[of c1 d1 h "ct_Defs (snd g)" h']
        by (auto simp: Check_def newPlane_def)
    qed (use n m A None in \<open>simp add: Check_def newPlane_def\<close>)
  qed (use None in \<open>simp add: Check_def newPlane_def\<close>)
qed (simp add: Check_def newPlane_def)

lemma Prepare_fresh: "hd_plane h = None \<Longrightarrow> fst (Prepare E v h g) = Check E v h g"
  by (cases "newPlane E v h g") (simp_all add: Prepare_def planeFor_def build_plane_def Check_def)

section \<open>The check and the start\<close>

text \<open>The options describe the deployment: its budget, its seams, its artifact.\<close>

definition describes :: "check_opts \<Rightarrow> config \<Rightarrow> bool" where
  "describes co cfg \<longleftrightarrow>
     co_catalogue co \<noteq> [] \<and> co_maxTools co = cf_MaxTools cfg \<and>
     co_withGrants co = (cf_GrantIssuer cfg \<noteq> []) \<and> \<not> co_withFGA co \<and> \<not> co_withNotifier co \<and>
     (if cf_Audit cfg then co_auditRetention co = cf_AuditRetention cfg \<and> 0 < cf_AuditRetention cfg
      else co_auditRetention co \<le> 0)"

lemma grants_on: "grantVerifier c cat cfg js opened = Inr grants \<Longrightarrow> grants = None \<longleftrightarrow> cf_GrantIssuer cfg = []"
  unfolding grantVerifier_def Let_def by (auto split: option.split_asm if_split_asm sum.split_asm)

lemma records_caps:
  assumes "snd (records cfg js found) = Inr (batched, k)"
  shows "map_option Retention k = (if cf_Audit cfg then Some (cf_AuditRetention cfg) else None)"
  using assms by (auto simp: records_def sink_New_def Retention_def Let_def split: if_splits option.splits sum.splits)

lemma described_caps:
  assumes "describes co cfg" "readHashKey read path = Inr key" "key' \<noteq> []"
    and "grantVerifier True cat cfg js opened = Inr grants" "snd (records cfg js' found) = Inr (batched, k)"
  shows "same_caps (boot_handler B key batched k grants) (check_handler key' co)"
proof -
  have "key \<noteq> []" using assms(2) by (auto simp: readHashKey_Inr)
  moreover have "same_audit (map_option (sink_seam (bl_AuditLib B) (bl_Publish B) (bl_NewID B) (bl_Stream B)) k)
      (if co_auditRetention co > 0 then Some (assumedAudit (co_auditRetention co)) else None)"
    using records_caps[OF assms(5)] assms(1)
    by (cases k) (auto simp: same_audit_def describes_def sink_seam_def assumedAudit_def split: if_splits)
  ultimately show ?thesis using assms(1,3) grants_on[OF assms(4)]
    by (simp add: same_caps_def boot_handler_def check_handler_def describes_def)
qed

lemma runCheck_eq:
  assumes "co_catalogue co \<noteq> []"
  shows "runCheck E v L key rd co =
     (case fst (store_Reload L rd (NewStore 0 0 (co_maxTools co))) of
        Inl e \<Rightarrow> Some (WouldNotLoad e)
      | Inr g \<Rightarrow> map_option WouldNotMount (Check E v (check_handler key co) g))"
proof -
  have p: "hd_plane (check_handler key co) = None" by (simp add: check_handler_def)
  have m: "(case Prepare E v (check_handler key co) g of (Some e, h) \<Rightarrow> Some (WouldNotMount e) | (None, h) \<Rightarrow> None) =
      map_option WouldNotMount (Check E v (check_handler key co) g)" for g
    using Prepare_fresh[OF p, of E v g] by (cases "Prepare E v (check_handler key co) g") (auto split: option.split)
  show ?thesis using assms
    by (cases "store_Reload L rd (NewStore 0 0 (co_maxTools co))") (simp add: runCheck_def m split: sum.split)
qed

text \<open>Where a start got to when it refused the catalogue.\<close>

lemma Serve_CatalogueErr:
  assumes "snd (Serve B W cfg) = NotStarted (CatalogueErr e)"
  shows "fst (store_Reload (bl_CatLib B) (wo_Reading W) (NewStore 0 0 (cf_MaxTools cfg))) = Inl e"
  using assms
  by (auto simp: Serve_def load_boot_def serve_connected_def assemble_def
      split: sum.splits option.splits prod.splits if_splits)

lemma Serve_prepared:
  assumes "snd (Serve B W cfg) = NotStarted (Unservable e) \<and> x = Some e \<or> snd (Serve B W cfg) = Ran r l \<and> x = None"
  obtains key g grants batched k js found store where
    "readHashKey (wo_File W) (cf_HashKeyFile cfg) = Inr key"
    "store_Reload (bl_CatLib B) (wo_Reading W) (NewStore 0 0 (cf_MaxTools cfg)) = (Inr g, store)"
    "grantVerifier True (Some (snd g)) cfg (wo_GrantJS W) (wo_Bucket W) = Inr grants"
    "snd (records cfg (wo_JS W) (wo_AuditStream W)) = Inr (batched, k)"
    "Check (bl_Env B) (bl_Validator B) (boot_handler B key batched k grants) g = x"
proof -
  obtain trusted key src g store where l: "load_boot B W cfg = Inr (trusted, key, src, g, store)"
      "snd (serve_connected B W cfg trusted key src g store) = snd (Serve B W cfg)"
    using assms by (auto simp: Serve_def load_boot_def split: sum.splits option.splits prod.splits if_splits)
  have load: "readHashKey (wo_File W) (cf_HashKeyFile cfg) = Inr key"
    "store_Reload (bl_CatLib B) (wo_Reading W) (NewStore 0 0 (cf_MaxTools cfg)) = (Inr g, store)"
    using l(1) by (auto simp: load_boot_def split: if_splits sum.splits prod.splits)
  obtain grants batched k where c: "grantVerifier True (Some (snd g)) cfg (wo_GrantJS W) (wo_Bucket W) = Inr grants"
      "snd (records cfg (wo_JS W) (wo_AuditStream W)) = Inr (batched, k)"
      "assemble B W cfg trusted key src g store grants batched k = Inl (Unservable e) \<and> x = Some e \<or>
       assemble B W cfg trusted key src g store grants batched k = Inr r \<and> x = None"
    using l(2) assms by (auto simp: serve_connected_def split: sum.splits prod.splits)
  have "fst (Prepare (bl_Env B) (bl_Validator B) (boot_handler B key batched k grants) g) = x"
    using c(3) by (auto simp: assemble_def split: sum.splits option.splits prod.splits)
  then have "Check (bl_Env B) (bl_Validator B) (boot_handler B key batched k grants) g = x"
    using Prepare_fresh[of "boot_handler B key batched k grants" "bl_Env B" "bl_Validator B" g] by (simp add: boot_handler_def)
  then show thesis using that load c(1,2) by blast
qed

text \<open>
  C38: The check is the start's own answer about the artifact. For options that describe the deployment
  (the same budget of tools; approvals assumed exactly when an issuer of them is configured; no
  authorization and no notification, which no flag of the daemon supplies; the audit sink's retention
  when there is one, and none otherwise) and the same artifact: a start that reaches its listener is
  one the check passes, and a start that refuses the catalogue, at its load or because the deployment
  cannot apply its governance, is one the check refuses with the very same error. So of the starts
  that come to one of these ends the check passes exactly those that run, and a catalogue it passes is
  never refused at those two points. A start may fail for a reason of its own (flags, keys, network,
  the ceilings of approvals) where the check passes.
\<close>

theorem check_agrees_with_start:
  fixes B :: "('d, 'p, 's) build" and W :: world
  assumes "describes co cfg" "key \<noteq> []"
  defines "verdict \<equiv> runCheck (bl_Env B) (bl_Validator B) (bl_CatLib B) key (wo_Reading W) co"
  shows "(\<forall>r l. snd (Serve B W cfg) = Ran r l \<longrightarrow> verdict = None) \<and>
     (\<forall>e. snd (Serve B W cfg) = NotStarted (CatalogueErr e) \<longrightarrow> verdict = Some (WouldNotLoad e)) \<and>
     (\<forall>e. snd (Serve B W cfg) = NotStarted (Unservable e) \<longrightarrow> verdict = Some (WouldNotMount e)) \<and>
     ((\<exists>r l. snd (Serve B W cfg) = Ran r l) \<or> (\<exists>e. snd (Serve B W cfg) = NotStarted (CatalogueErr e)) \<or>
      (\<exists>e. snd (Serve B W cfg) = NotStarted (Unservable e)) \<longrightarrow>
      (verdict = None \<longleftrightarrow> (\<exists>r l. snd (Serve B W cfg) = Ran r l)))"
proof -
  have co: "co_catalogue co \<noteq> []" "co_maxTools co = cf_MaxTools cfg" using assms(1) by (simp_all add: describes_def)
  note V = verdict_def[unfolded runCheck_eq[OF co(1)] co(2)]
  have mount: "verdict = map_option WouldNotMount x"
    if "snd (Serve B W cfg) = NotStarted (Unservable e) \<and> x = Some e \<or> snd (Serve B W cfg) = Ran r l \<and> x = None" for x e r l
    using that
  proof (rule Serve_prepared)
    fix k1 g grants batched k store
    assume b: "readHashKey (wo_File W) (cf_HashKeyFile cfg) = Inr k1"
      "store_Reload (bl_CatLib B) (wo_Reading W) (NewStore 0 0 (cf_MaxTools cfg)) = (Inr g, store)"
      "grantVerifier True (Some (snd g)) cfg (wo_GrantJS W) (wo_Bucket W) = Inr grants"
      "snd (records cfg (wo_JS W) (wo_AuditStream W)) = Inr (batched, k)"
      "Check (bl_Env B) (bl_Validator B) (boot_handler B k1 batched k grants) g = x"
    show ?thesis
      using same_caps_Check[OF described_caps[OF assms(1) b(1) assms(2) b(3,4)], of "bl_Env B" "bl_Validator B" B g] b(2,5)
      by (simp add: V)
  qed
  show ?thesis
    using mount[of _ "Some _"] mount[of _ None] Serve_CatalogueErr[of B W cfg] by (auto simp: V)
qed

section \<open>A deployment, checked\<close>

definition checked_deployment :: config where
  "checked_deployment = toy_deployment\<lparr>cf_AuditRetention := 5\<rparr>"

definition checked_opts :: check_opts where
  "checked_opts = \<lparr>co_catalogue = ''tools.pb'', co_maxTools = 0, co_withGrants = True, co_withFGA = False,
     co_withNotifier = False, co_auditRetention = 5\<rparr>"

lemma checked_started:
  "case snd (Serve toy_build toy_world checked_deployment) of Ran r e \<Rightarrow> True | _ \<Rightarrow> False"
  by code_simp

lemma unchecked_refused:
  "case runCheck sample_env toy_validator toy_catlib ''key'' (toy_reading ''artifact'' 7) (checked_opts\<lparr>co_withGrants := False\<rparr>) of
     Some (WouldNotMount (MountErr _ (Ungoverned _ [MissGrantVerifier]))) \<Rightarrow> True | _ \<Rightarrow> False"
  by code_simp

lemma check_agrees_with_start_witness:
  "runCheck sample_env toy_validator toy_catlib ''key'' (toy_reading ''artifact'' 7) checked_opts = None"
proof -
  obtain r l where r: "snd (Serve toy_build toy_world checked_deployment) = Ran r l"
    using checked_started by (auto split: ending.splits)
  have d: "describes checked_opts checked_deployment"
    by (simp add: describes_def checked_opts_def checked_deployment_def toy_deployment_def)
  have b: "bl_Env toy_build = sample_env" "bl_Validator toy_build = toy_validator" "bl_CatLib toy_build = toy_catlib"
      "wo_Reading toy_world = toy_reading ''artifact'' 7"
    by (simp_all add: toy_build_def toy_world_def)
  show ?thesis using check_agrees_with_start[OF d, of "''key''" toy_build toy_world] r by (simp add: b)
qed

end
