(* ===== verification/Conformance.thy ===== *)
theory Conformance
  imports Grants Catalogue
begin

text \<open>
  \<open>internal/conformance/suite.go\<close> and \<open>run.go\<close>: the harness that holds a token minter to this
  verifier. A suite is a table of cases; each asks the minter for a token or an approval and says what
  must come of it. The minter is a parameter (\<open>minter\<close>; the two of \<open>form_minter.go\<close> and \<open>run.go\<close> are
  theory \<open>Minters\<close>), as are the grant library's digest and path syntax and the JSON decoders. A map of
  strings is an association list. The texts of the verdicts are not modelled, only which they are.
\<close>

section \<open>A suite\<close>

type_synonym smap = "(string \<times> string) list"

record expect =
  xp_Subject :: string
  xp_Actor :: string
  xp_Kind :: string
  xp_Clearance :: string
  xp_Compartments :: "string list"
  xp_Verbs :: "string list"
  xp_ToolSets :: "string list option"
  xp_Dropped :: "string list"
  xp_Execution :: string
  xp_Tenant :: string
  xp_Chain :: "string list"

record approval_request =
  aq_Approver :: string
  aq_ApproverTenant :: string
  aq_ApproverClearance :: string
  aq_ApproverCompartments :: "string list"
  aq_ApproverActor :: string
  aq_Tool :: string
  aq_Subject :: string
  aq_Material :: smap
  aq_OmitClientAssertion :: bool

record grant_case =
  gt_Approver :: string
  gt_ApproverTenant :: string
  gt_ApproverClearance :: string
  gt_ApproverCompartments :: "string list"
  gt_Tool :: string
  gt_Subject :: string
  gt_Material :: smap
  gt_ToolApproverMinClearance :: string
  gt_ToolApproverCompartments :: "string list"
  gt_ToolMaxGrantAgeSeconds :: int
  gt_ExpectApprover :: string

record grant_error_case =
  ge_Approver :: string
  ge_ApproverTenant :: string
  ge_ApproverClearance :: string
  ge_ApproverCompartments :: "string list"
  ge_ApproverActor :: string
  ge_Tool :: string
  ge_Subject :: string
  ge_Material :: smap
  ge_OmitClientAssertion :: bool

record suite_case =
  ca_Name :: string
  ca_Mint :: smap
  ca_Expect :: "expect option"
  ca_MintError :: bool
  ca_Grant :: "grant_case option"
  ca_GrantError :: "grant_error_case option"

record suite =
  su_Issuer :: string
  su_Audience :: string
  su_Compartments :: "string list"
  su_Cases :: "suite_case list"

definition grant_Request :: "grant_case \<Rightarrow> approval_request" where
  "grant_Request g =
     \<lparr>aq_Approver = gt_Approver g, aq_ApproverTenant = gt_ApproverTenant g,
      aq_ApproverClearance = gt_ApproverClearance g, aq_ApproverCompartments = gt_ApproverCompartments g,
      aq_ApproverActor = [], aq_Tool = gt_Tool g, aq_Subject = gt_Subject g, aq_Material = gt_Material g,
      aq_OmitClientAssertion = False\<rparr>"

definition grant_error_Request :: "grant_error_case \<Rightarrow> approval_request" where
  "grant_error_Request g =
     \<lparr>aq_Approver = ge_Approver g, aq_ApproverTenant = ge_ApproverTenant g,
      aq_ApproverClearance = ge_ApproverClearance g, aq_ApproverCompartments = ge_ApproverCompartments g,
      aq_ApproverActor = ge_ApproverActor g, aq_Tool = ge_Tool g, aq_Subject = ge_Subject g,
      aq_Material = ge_Material g, aq_OmitClientAssertion = ge_OmitClientAssertion g\<rparr>"

section \<open>Loading it\<close>

text \<open>\<open>ClearanceValue\<close>: the error carries the name as it was written.\<close>

definition ClearanceValue :: "string \<Rightarrow> string + clearance" where
  "ClearanceValue name =
     (let u = to_upper (trim_space name);
          spelled = (if u \<noteq> [] \<and> \<not> has_prefix u ''CLEARANCE_'' then ''CLEARANCE_'' @ u else u)
      in case map_of clearance_value spelled of
           None \<Rightarrow> Inl name
         | Some v \<Rightarrow> if v = CLEARANCE_UNSPECIFIED then Inl name else Inr v)"

datatype chain_fault = NoTenant | NoChain | NotTheSubject | ActorButNoHop | NotTheActor

datatype grant_fault =
  MissingField string | NoSuchClearance string string | NoAgeCeiling int | BadPath go_err

datatype suite_err =
    SuiteUnread go_err | SuiteUndecoded go_err | NoIssuer | NoAudience | NoCases | NoCaseName nat
  | AssertsThings string nat | GrantFault string grant_fault | GrantErrorFault string grant_fault
  | AsksNothing string | ExpectsNoClearance string | ExpectsNoSubject string
  | UndeclaredCompartment string string | DeclaredDropped string string | ChainFault string chain_fault

definition validateTenantAndChain :: "expect \<Rightarrow> chain_fault option" where
  "validateTenantAndChain e =
     (if xp_Tenant e = [] then Some NoTenant
      else if xp_Chain e = [] then Some NoChain
      else if hd (xp_Chain e) \<noteq> xp_Subject e then Some NotTheSubject
      else if length (xp_Chain e) = 1 \<and> xp_Actor e \<noteq> [] then Some ActorButNoHop
      else if length (xp_Chain e) > 1 \<and> last (xp_Chain e) \<noteq> xp_Actor e then Some NotTheActor
      else None)"

fun first_fault :: "('a \<Rightarrow> 'e option) \<Rightarrow> 'a list \<Rightarrow> 'e option" where
  "first_fault f [] = None"
| "first_fault f (x # xs) = (case f x of None \<Rightarrow> first_fault f xs | Some e \<Rightarrow> Some e)"

fun missing_field :: "string \<times> string \<Rightarrow> grant_fault option" where
  "missing_field (field, value) = (if value = [] then Some (MissingField field) else None)"

fun bad_clearance :: "string \<times> string \<Rightarrow> grant_fault option" where
  "bad_clearance (field, value) =
     (case ClearanceValue value of Inl n \<Rightarrow> Some (NoSuchClearance field n) | Inr v \<Rightarrow> None)"

definition validateGrantError :: "grant_error_case \<Rightarrow> grant_fault option" where
  "validateGrantError g =
     (case first_fault missing_field
             [(''tool'', ge_Tool g), (''subject'', ge_Subject g), (''approver'', ge_Approver g)] of
        Some e \<Rightarrow> Some e
      | None \<Rightarrow> bad_clearance (''approverClearance'', ge_ApproverClearance g))"

definition validateGrant :: "(string \<Rightarrow> go_err option) \<Rightarrow> grant_case \<Rightarrow> grant_fault option" where
  "validateGrant validPath g =
     (case first_fault missing_field
             [(''tool'', gt_Tool g), (''subject'', gt_Subject g), (''approver'', gt_Approver g),
              (''expectApprover'', gt_ExpectApprover g)] of
        Some e \<Rightarrow> Some e
      | None \<Rightarrow>
     (case first_fault bad_clearance
             [(''approverClearance'', gt_ApproverClearance g),
              (''toolApproverMinClearance'', gt_ToolApproverMinClearance g)] of
        Some e \<Rightarrow> Some e
      | None \<Rightarrow>
          if gt_ToolMaxGrantAgeSeconds g \<le> 0 then Some (NoAgeCeiling (gt_ToolMaxGrantAgeSeconds g))
          else first_fault (\<lambda>(p, v). map_option BadPath (validPath p)) (gt_Material g)))"

definition asserted :: "suite_case \<Rightarrow> nat" where
  "asserted c = of_bool (ca_Expect c \<noteq> None) + of_bool (ca_MintError c) + of_bool (ca_Grant c \<noteq> None) +
     of_bool (ca_GrantError c \<noteq> None)"

definition check_expect :: "suite \<Rightarrow> string \<Rightarrow> expect \<Rightarrow> suite_err option" where
  "check_expect s name e =
     (if xp_Clearance e = [] then Some (ExpectsNoClearance name)
      else if xp_Subject e = [] then Some (ExpectsNoSubject name)
      else (case List.find (\<lambda>n. \<not> contains_string (su_Compartments s) n) (xp_Compartments e) of
        Some n \<Rightarrow> Some (UndeclaredCompartment name n)
      | None \<Rightarrow>
          (case List.find (contains_string (su_Compartments s)) (xp_Dropped e) of
             Some n \<Rightarrow> Some (DeclaredDropped name n)
           | None \<Rightarrow> map_option (ChainFault name) (validateTenantAndChain e))))"

text \<open>One turn of the loop over the cases.\<close>

definition check_case :: "(string \<Rightarrow> go_err option) \<Rightarrow> suite \<Rightarrow> nat \<Rightarrow> suite_case \<Rightarrow> suite_err option" where
  "check_case validPath s i c =
     (if ca_Name c = [] then Some (NoCaseName i)
      else if asserted c \<noteq> 1 then Some (AssertsThings (ca_Name c) (asserted c))
      else (case ca_Grant c of
        Some g \<Rightarrow> map_option (GrantFault (ca_Name c)) (validateGrant validPath g)
      | None \<Rightarrow>
     (case ca_GrantError c of
        Some g \<Rightarrow> map_option (GrantErrorFault (ca_Name c)) (validateGrantError g)
      | None \<Rightarrow>
          if ca_Mint c = [] then Some (AsksNothing (ca_Name c))
          else (case ca_Expect c of None \<Rightarrow> None | Some e \<Rightarrow> check_expect s (ca_Name c) e))))"

fun check_cases :: "(string \<Rightarrow> go_err option) \<Rightarrow> suite \<Rightarrow> nat \<Rightarrow> suite_case list \<Rightarrow> suite_err option" where
  "check_cases validPath s i [] = None"
| "check_cases validPath s i (c # cs) =
     (case check_case validPath s i c of None \<Rightarrow> check_cases validPath s (i + 1) cs | Some e \<Rightarrow> Some e)"

definition LoadSuite ::
  "(string \<Rightarrow> go_err option) \<Rightarrow> (string \<Rightarrow> go_err + suite) \<Rightarrow> go_err + string \<Rightarrow> suite_err + suite" where
  "LoadSuite validPath decode file =
     (case file of
        Inl e \<Rightarrow> Inl (SuiteUnread e)
      | Inr b \<Rightarrow>
     (case decode b of
        Inl e \<Rightarrow> Inl (SuiteUndecoded e)
      | Inr s \<Rightarrow>
          if su_Issuer s = [] then Inl NoIssuer
          else if su_Audience s = [] then Inl NoAudience
          else if su_Cases s = [] then Inl NoCases
          else (case check_cases validPath s 0 (su_Cases s) of Some e \<Rightarrow> Inl e | None \<Rightarrow> Inr s)))"

section \<open>A run\<close>

text \<open>
  A minter answers the n-th case of the run; one that cannot approve has no \<open>mi_Approve\<close>. \<open>Refusal\<close> is
  \<open>*RefusalError\<close>, and every other error is one of a minter that did not answer.
\<close>

datatype mint_err = Refusal int string | NotAnswered go_err

record minter =
  mi_Token :: "nat \<Rightarrow> smap \<Rightarrow> mint_err + string"
  mi_Approve :: "(nat \<Rightarrow> approval_request \<Rightarrow> mint_err + string) option"

text \<open>What the libraries are, and what one case meets: its fetch of the key set, and the clock.\<close>

record 'k harness =
  hs_NewRegistry :: "decl list \<Rightarrow> string + registry"
  hs_Jose :: "'k jose"
  hs_Grants :: grant_pkg
  hs_Digest :: "smap \<Rightarrow> string"
  hs_Body :: "string \<Rightarrow> go_err + (string \<times> string)"

record moment =
  mo_net :: fetched
  mo_ck :: "nat \<Rightarrow> int"
  mo_now :: int

datatype field =
  FSubject | FActor | FExecution | FTenant | FChain | FKind | FClearance | FCompartments | FVerbs
  | FToolSets | FDropped

datatype case_err =
    Granted | SaidNothing go_err | MintFailed mint_err | VerifyFailed verify_err | Disagrees "field list"
  | CannotApprove | BadToolClearance string | GrantNotAccepted go_err | GrantNotAToken go_err
  | GrantBodyNotJSON go_err | WrongDigest | WrongApprover | GrantMinted | NotTheRefusal int | NotOpaque string

section \<open>Comparing a principal\<close>

definition chainSubjects :: "chain_entry list \<Rightarrow> string list" where
  "chainSubjects ch = map ce_Subject ch"

text \<open>\<open>String()\<close> of a generated enum: its name, or its number.\<close>

definition enum_name :: "(string \<times> int) list \<Rightarrow> int \<Rightarrow> string" where
  "enum_name tab v =
     (case List.find (\<lambda>(n, k). k = v) tab of
        Some (n, k) \<Rightarrow> n
      | None \<Rightarrow> if v < 0 then ''-'' @ dec (nat (- v)) else dec (nat v))"

definition diffSets :: "string list \<Rightarrow> string list \<Rightarrow> bool" where
  "diffSets got want = (sort got \<noteq> sort want)"

definition diffToolSets :: "string list option \<Rightarrow> string list option \<Rightarrow> bool" where
  "diffToolSets got want =
     (case want of
        None \<Rightarrow> got \<noteq> None
      | Some w \<Rightarrow>
          if w = [] then (case got of None \<Rightarrow> True | Some g \<Rightarrow> g \<noteq> [])
          else (case got of None \<Rightarrow> True | Some g \<Rightarrow> diffSets g w))"

definition verbNames :: "verb_set \<Rightarrow> string list" where
  "verbNames vs = sort (map fst (filter (\<lambda>(n, v). v \<noteq> VERB_UNSPECIFIED \<and> Has vs v) verb_value))"

definition differs :: "bool \<Rightarrow> field \<Rightarrow> field list" where
  "differs b f = (if b then [f] else [])"

definition compare_case :: "expect \<Rightarrow> principal \<Rightarrow> string list \<Rightarrow> registry \<Rightarrow> field list" where
  "compare_case e p dropped reg =
     differs (p_Subject p \<noteq> xp_Subject e) FSubject @
     differs (p_Actor p \<noteq> xp_Actor e) FActor @
     differs (p_Execution p \<noteq> xp_Execution e) FExecution @
     differs (p_Tenant p \<noteq> xp_Tenant e) FTenant @
     differs (chainSubjects (p_Chain p) \<noteq> xp_Chain e) FChain @
     differs (xp_Kind e \<noteq> [] \<and> enum_name kind_value (p_Kind p) \<noteq> xp_Kind e) FKind @
     differs (enum_name clearance_value (p_Clearance p) \<noteq> xp_Clearance e) FClearance @
     differs (diffSets (rg_Names reg (p_Compartments p)) (xp_Compartments e)) FCompartments @
     differs (diffSets (verbNames (p_Verbs p)) (xp_Verbs e)) FVerbs @
     differs (diffToolSets (p_ToolSets p) (xp_ToolSets e)) FToolSets @
     differs (diffSets dropped (xp_Dropped e)) FDropped"

section \<open>Running a case\<close>

text \<open>
  The cache of one grant case, made for it: every identifier it saw, for the life of the process. It is
  written with the keys of \<open>Replay\<close>; of a cache asked once, that changes nothing.
\<close>

definition memSpent :: "string list kv" where
  "memSpent = \<lparr>kv_Create = \<lambda>seen now k. if k \<in> set seen then (KvExists, seen) else (KvOk, k # seen),
     kv_Live = \<lambda>seen now k. k \<in> set seen\<rparr>"

definition memRetention :: int where "memRetention = 24 * 3600 * second_ns"

definition grant_tool :: "grant_case \<Rightarrow> clearance \<Rightarrow> tooldef" where
  "grant_tool g minClearance =
     zero_tool\<lparr>t_FQN := gt_Tool g, t_ApprovalMode := MODE_GRANT, t_ApproverMinClearance := minClearance,
       t_ApproverCompartments := gt_ToolApproverCompartments g,
       t_MaxGrantAge := wrap64 (gt_ToolMaxGrantAgeSeconds g * second_ns)\<rparr>"

definition grant_checker :: "suite \<Rightarrow> gverifier" where
  "grant_checker s = \<lparr>gf_Keys = True, gf_Issuers = [su_Issuer s], gf_Audience = su_Audience s,
     gf_Spent = True, gf_Skew = 0\<rparr>"

definition subject_only :: "string \<Rightarrow> principal" where
  "subject_only sub = \<lparr>p_Subject = sub, p_Actor = [], p_Kind = 0, p_Chain = [], p_Tenant = [],
     p_Clearance = 0, p_Compartments = 0, p_Verbs = 0, p_TokenID = [], p_Execution = [], p_ToolSets = None\<rparr>"

definition grantBody :: "'k harness \<Rightarrow> string \<Rightarrow> case_err + (string \<times> string)" where
  "grantBody H raw =
     (case jo_ParseSigned (hs_Jose H) raw of
        Inl e \<Rightarrow> Inl (GrantNotAToken e)
      | Inr sg \<Rightarrow>
          (case hs_Body H (sg_unsafe sg) of Inl e \<Rightarrow> Inl (GrantBodyNotJSON e) | Inr b \<Rightarrow> Inr b))"

definition runGrantCase ::
  "'k harness \<Rightarrow> minter \<Rightarrow> suite \<Rightarrow> moment \<Rightarrow> nat \<Rightarrow> grant_case \<Rightarrow> case_err option" where
  "runGrantCase H M s mo i g =
     (case mi_Approve M of
        None \<Rightarrow> Some CannotApprove
      | Some approve \<Rightarrow>
     (case approve i (grant_Request g) of
        Inl e \<Rightarrow> Some (MintFailed e)
      | Inr raw \<Rightarrow>
     (case ClearanceValue (gt_ToolApproverMinClearance g) of
        Inl n \<Rightarrow> Some (BadToolClearance n)
      | Inr minClearance \<Rightarrow>
     (case fst (VerifyGrant (hs_Jose H) (hs_Grants H) memSpent (Some (grant_checker s)) (mo_net mo) (mo_ck mo)
             (mo_now mo) raw (Some (subject_only (gt_Subject g))) (grant_tool g minClearance) None
             \<lparr>gs_keys = NewKeySet 0 0, gs_bucket = [], gs_task = []\<rparr>) of
        Some e \<Rightarrow> Some (GrantNotAccepted e)
      | None \<Rightarrow>
     (case grantBody H raw of
        Inl e \<Rightarrow> Some e
      | Inr (material, approver) \<Rightarrow>
          if material \<noteq> hs_Digest H (gt_Material g) then Some WrongDigest
          else if approver \<noteq> gt_ExpectApprover g then Some WrongApprover
          else None)))))"

definition isOpaqueDenial :: "'k harness \<Rightarrow> string \<Rightarrow> bool" where
  "isOpaqueDenial H body =
     (case jo_object (hs_Jose H) body of
        Inl e \<Rightarrow> False
      | Inr m \<Rightarrow> length m = 1 \<and> map_of m ''error'' = Some (JStr ''access_denied''))"

definition runGrantErrorCase :: "'k harness \<Rightarrow> minter \<Rightarrow> nat \<Rightarrow> grant_error_case \<Rightarrow> case_err option" where
  "runGrantErrorCase H M i g =
     (case mi_Approve M of
        None \<Rightarrow> Some CannotApprove
      | Some approve \<Rightarrow>
     (case approve i (grant_error_Request g) of
        Inr raw \<Rightarrow> Some GrantMinted
      | Inl (NotAnswered e) \<Rightarrow> Some (SaidNothing e)
      | Inl (Refusal status body) \<Rightarrow>
          if status \<noteq> 400 then Some (NotTheRefusal status)
          else if \<not> isOpaqueDenial H body then Some (NotOpaque body)
          else None))"

text \<open>
  A case of a suite that was not loaded may assert nothing; comparing with it dereferences nil, and the
  run panics: \<open>None\<close>.
\<close>

definition runCase ::
  "'k harness \<Rightarrow> minter \<Rightarrow> verifier \<Rightarrow> registry \<Rightarrow> suite \<Rightarrow> moment \<Rightarrow> nat \<Rightarrow> suite_case \<Rightarrow> 'k key_store \<Rightarrow>
     (case_err option \<times> 'k key_store) option" where
  "runCase H M v reg s mo i c ks =
     (case ca_Grant c of
        Some g \<Rightarrow> Some (runGrantCase H M s mo i g, ks)
      | None \<Rightarrow>
     (case ca_GrantError c of
        Some g \<Rightarrow> Some (runGrantErrorCase H M i g, ks)
      | None \<Rightarrow>
     (case (mi_Token M i (ca_Mint c), ca_MintError c) of
        (Inr tok, True) \<Rightarrow> Some (Some Granted, ks)
      | (Inl (NotAnswered e), True) \<Rightarrow> Some (Some (SaidNothing e), ks)
      | (Inl (Refusal status body), True) \<Rightarrow> Some (None, ks)
      | (Inl e, False) \<Rightarrow> Some (Some (MintFailed e), ks)
      | (Inr tok, False) \<Rightarrow>
          (case Verify (hs_Jose H) v None (\<lambda>j. mo_net mo) (mo_ck mo) (mo_now mo) ks tok of
             (Inl e, ks') \<Rightarrow> Some (Some (VerifyFailed e), ks')
           | (Inr (p, dropped), ks') \<Rightarrow>
               (case ca_Expect c of
                  None \<Rightarrow> None
                | Some e \<Rightarrow>
                    (let bad = compare_case e p dropped reg
                     in Some (if bad = [] then None else Some (Disagrees bad), ks')))))))"

fun runCases ::
  "'k harness \<Rightarrow> minter \<Rightarrow> verifier \<Rightarrow> registry \<Rightarrow> suite \<Rightarrow> (nat \<Rightarrow> moment) \<Rightarrow> nat \<Rightarrow> suite_case list \<Rightarrow>
     'k key_store \<Rightarrow> (string \<times> case_err option) list option" where
  "runCases H M v reg s ms i [] ks = Some []"
| "runCases H M v reg s ms i (c # cs) ks =
     (case runCase H M v reg s (ms i) i c ks of
        None \<Rightarrow> None
      | Some (r, ks') \<Rightarrow> map_option ((#) (ca_Name c, r)) (runCases H M v reg s ms (i + 1) cs ks'))"

datatype run_err = BadRegistry string | RunPanics

definition run_config :: "suite \<Rightarrow> registry \<Rightarrow> verify_config" where
  "run_config s reg = \<lparr>vc_Trusted = [], vc_KeySet = Some 0, vc_Issuers = [su_Issuer s],
     vc_Audience = su_Audience s, vc_Compartments = Some reg, vc_CompartmentSource = None, vc_Skew = 0\<rparr>"

definition Run ::
  "'k harness \<Rightarrow> (nat \<Rightarrow> moment) \<Rightarrow> minter \<Rightarrow> suite \<Rightarrow> run_err + (string \<times> case_err option) list" where
  "Run H ms M s =
     (case hs_NewRegistry H (map (\<lambda>n. \<lparr>dc_Name = n, dc_Title = []\<rparr>) (su_Compartments s)) of
        Inl e \<Rightarrow> Inl (BadRegistry e)
      | Inr reg \<Rightarrow>
          (case runCases H M (NewVerifier (run_config s reg)) reg s ms 0 (su_Cases s) (\<lambda>i. NewKeySet 0 0) of
             None \<Rightarrow> Inl RunPanics
           | Some rs \<Rightarrow> Inr rs))"

section \<open>What a comparison says\<close>

text \<open>The principal an expectation describes, in full.\<close>

definition describes_principal :: "registry \<Rightarrow> expect \<Rightarrow> principal \<Rightarrow> string list \<Rightarrow> bool" where
  "describes_principal reg e p dropped \<longleftrightarrow>
     p_Subject p = xp_Subject e \<and> p_Actor p = xp_Actor e \<and> p_Execution p = xp_Execution e \<and>
     p_Tenant p = xp_Tenant e \<and> map ce_Subject (p_Chain p) = xp_Chain e \<and>
     (xp_Kind e = [] \<or> enum_name kind_value (p_Kind p) = xp_Kind e) \<and>
     enum_name clearance_value (p_Clearance p) = xp_Clearance e \<and>
     mset (rg_Names reg (p_Compartments p)) = mset (xp_Compartments e) \<and>
     mset (verbNames (p_Verbs p)) = mset (xp_Verbs e) \<and>
     rel_option (\<lambda>g w. mset g = mset w) (p_ToolSets p) (xp_ToolSets e) \<and>
     mset dropped = mset (xp_Dropped e)"

lemma sort_eq_mset: "sort xs = sort ys \<longleftrightarrow> mset xs = mset (ys :: 'a::linorder list)"
  by (metis mset_sort properties_for_sort sorted_sort)

lemma diffSets_mset: "diffSets got want \<longleftrightarrow> mset got \<noteq> mset want"
  by (simp add: diffSets_def sort_eq_mset)

lemma diffToolSets_rel: "diffToolSets got want \<longleftrightarrow> \<not> rel_option (\<lambda>g w. mset g = mset w) got want"
  by (cases got; cases want) (auto simp: diffToolSets_def diffSets_mset)

lemma differs_Nil [simp]: "differs b f = [] \<longleftrightarrow> \<not> b"
  by (simp add: differs_def)

lemma compare_exact: "compare_case e p dropped reg = [] \<longleftrightarrow> describes_principal reg e p dropped"
  unfolding compare_case_def describes_principal_def
  by (simp add: diffSets_mset diffToolSets_rel chainSubjects_def)

text \<open>A verb is named exactly when it is held: no verb the enum has is invisible to a suite.\<close>

lemma verbNames_exact: "n \<in> set (verbNames vs) \<longleftrightarrow> (\<exists>v. (n, v) \<in> set verb_value \<and> Has vs v)"
proof -
  have z: "v \<noteq> 0 \<and> Has vs v \<longleftrightarrow> Has vs v" for v by (auto simp: Has_def)
  have "set (verbNames vs) = {n. \<exists>v. (n, v) \<in> set verb_value \<and> Has vs v}" (is "_ = ?R")
    unfolding verbNames_def set_sort set_map set_filter z by force
  then show ?thesis by blast
qed

section \<open>What loading promises\<close>

lemma ClearanceValue_real: "ClearanceValue n = Inr v \<Longrightarrow> v \<in> {10, 20, 30, 40}"
  by (auto simp: ClearanceValue_def Let_def clearance_value_def split: option.splits if_splits)

lemma check_cases_nth:
  "check_cases vp s i cs = None \<Longrightarrow> k < length cs \<Longrightarrow> check_case vp s (i + k) (cs ! k) = None"
proof (induction vp s i cs arbitrary: k rule: check_cases.induct)
  case (2 vp s i c cs)
  then show ?case by (cases k) (auto split: option.splits)
qed simp

lemma LoadSuite_Inr:
  assumes "LoadSuite vp decode file = Inr s"
  shows "su_Issuer s \<noteq> [] \<and> su_Audience s \<noteq> [] \<and> su_Cases s \<noteq> [] \<and>
     (\<forall>i < length (su_Cases s). check_case vp s i (su_Cases s ! i) = None)"
  using assms check_cases_nth[of vp s 0 "su_Cases s"]
  by (auto simp: LoadSuite_def split: sum.splits option.splits if_splits)

lemma check_case_one: "check_case vp s i c = None \<Longrightarrow> asserted c = 1"
  by (auto simp: check_case_def split: if_splits)

lemma check_case_expect:
  assumes "check_case vp s i c = None" "ca_Expect c = Some e"
  shows "xp_Subject e \<noteq> [] \<and> xp_Tenant e \<noteq> [] \<and> xp_Chain e \<noteq> [] \<and> ca_Mint c \<noteq> []"
proof -
  have "ca_Grant c = None" "ca_GrantError c = None"
    using check_case_one[OF assms(1)] assms(2) by (auto simp: asserted_def of_bool_def split: if_splits)
  then show ?thesis using assms
    by (auto simp: check_case_def check_expect_def validateTenantAndChain_def split: if_splits option.splits)
qed

section \<open>What a run says\<close>

lemma runCases_nth:
  assumes "runCases H M v reg s ms i cs ks = Some rs"
  shows "map fst rs = map ca_Name cs \<and>
     (\<forall>k < length cs. \<exists>ks1 ks2. runCase H M v reg s (ms (i + k)) (i + k) (cs ! k) ks1 = Some (snd (rs ! k), ks2))"
  using assms
proof (induction H M v reg s ms i cs ks arbitrary: rs rule: runCases.induct)
  case (2 H M v reg s ms i c cs ks)
  obtain r ks' rest where r: "runCase H M v reg s (ms i) i c ks = Some (r, ks')"
      "runCases H M v reg s ms (i + 1) cs ks' = Some rest" "rs = (ca_Name c, r) # rest"
    using 2(2) by (auto split: option.splits)
  have ih: "map fst rest = map ca_Name cs" "k < length cs \<Longrightarrow> \<exists>ks1 ks2. runCase H M v reg s (ms (i + 1 + k))
        (i + 1 + k) (cs ! k) ks1 = Some (snd (rest ! k), ks2)" for k
    using 2(1)[OF r(1) refl r(2)] by auto
  have "\<exists>ks1 ks2. runCase H M v reg s (ms (i + k)) (i + k) ((c # cs) ! k) ks1 = Some (snd (rs ! k), ks2)"
    if "k < length (c # cs)" for k
    using that ih(2)[of "k - 1"] r(1,3) by (cases k) auto
  then show ?case using ih(1) r(3) by simp
qed simp

lemma runCase_panics:
  assumes "runCase H M v reg s mo i c ks = None"
  shows "ca_Grant c = None \<and> ca_GrantError c = None \<and> \<not> ca_MintError c \<and> ca_Expect c = None"
  using assms unfolding runCase_def
  by (auto simp: Let_def split: option.splits sum.splits mint_err.splits bool.splits prod.splits)

lemma runCases_panics:
  "runCases H M v reg s ms i cs ks = None \<Longrightarrow> \<exists>c \<in> set cs. asserted c = 0"
proof (induction H M v reg s ms i cs ks rule: runCases.induct)
  case (2 H M v reg s ms i c cs ks)
  show ?case
  proof (cases "runCase H M v reg s (ms i) i c ks")
    case None
    then show ?thesis using runCase_panics[OF None] by (auto simp: asserted_def)
  next
    case (Some x)
    then show ?thesis using 2 by (cases x) auto
  qed
qed simp

text \<open>Each kind of case, passed.\<close>

lemma passed_expect:
  assumes "runCase H M v reg s mo i c ks = Some (None, ks')" "ca_Expect c = Some e" "asserted c = 1"
  shows "\<exists>tok p dropped. mi_Token M i (ca_Mint c) = Inr tok \<and>
     Verify (hs_Jose H) v None (\<lambda>j. mo_net mo) (mo_ck mo) (mo_now mo) ks tok = (Inr (p, dropped), ks') \<and>
     describes_principal reg e p dropped"
proof -
  have n: "ca_Grant c = None" "ca_GrantError c = None" "\<not> ca_MintError c"
    using assms(2,3) by (auto simp: asserted_def of_bool_def split: if_splits)
  show ?thesis
  proof (cases "mi_Token M i (ca_Mint c)")
    case (Inl x)
    then show ?thesis using assms(1) n by (cases x) (simp_all add: runCase_def)
  next
    case (Inr tok)
    then show ?thesis using assms(1,2) n
      by (auto simp: runCase_def Let_def compare_exact split: prod.splits sum.splits if_splits)
  qed
qed

lemma passed_mintError:
  assumes "runCase H M v reg s mo i c ks = Some (None, ks')" "ca_MintError c" "asserted c = 1"
  shows "\<exists>status body. mi_Token M i (ca_Mint c) = Inl (Refusal status body)"
proof -
  have "ca_Grant c = None" "ca_GrantError c = None"
    using assms(2,3) by (auto simp: asserted_def of_bool_def split: if_splits)
  then show ?thesis using assms(1,2)
    by (cases "mi_Token M i (ca_Mint c)") (auto simp: runCase_def split: mint_err.splits)
qed

lemma passed_grantError:
  assumes "runGrantErrorCase H M i g = None"
  shows "\<exists>approve body. mi_Approve M = Some approve \<and>
     approve i (grant_error_Request g) = Inl (Refusal 400 body) \<and>
     jo_object (hs_Jose H) body = Inr [(''error'', JStr ''access_denied'')]"
proof -
  have one: "length m = 1 \<Longrightarrow> map_of m k = Some x \<Longrightarrow> m = [(k, x)]" for m :: jobj and k x
    by (cases m) (auto split: if_splits)
  show ?thesis using assms one
    by (auto simp: runGrantErrorCase_def isOpaqueDenial_def split: option.splits sum.splits mint_err.splits if_splits)
qed

text \<open>A signed token carries the payload it shows: the library verifies the bytes it was sent.\<close>

definition payload_as_sent :: "'k jose \<Rightarrow> bool" where
  "payload_as_sent J \<longleftrightarrow>
     (\<forall>raw sg k pl. jo_ParseSigned J raw = Inr sg \<longrightarrow> sg_Verify sg k = Inr pl \<longrightarrow> pl = sg_unsafe sg)"

lemma VerifyGrant_passed:
  assumes "fst (VerifyGrant J L K (Some v) net ck now raw po t reqo st) = None" "t_ApprovalMode t = MODE_GRANT"
  shows "\<exists>sg kid key pl cl. jo_ParseSigned J raw = Inr sg \<and> sg_kids sg = [kid] \<and>
     fst (Key (jo_keys J) net ck (gs_keys st) kid) = Inr key \<and> sg_Verify sg key = Inr pl \<and>
     gp_ParseClaims L pl = Inr cl \<and> grant_good L v cl po t reqo now"
proof -
  obtain st' where "VerifyGrant J L K (Some v) net ck now raw po t reqo st = (None, st')"
    using assms(1) by (cases "VerifyGrant J L K (Some v) net ck now raw po t reqo st") auto
  then have "verify_grant J L K (Some v) net ck now raw po t reqo st = (None, st')"
    by (auto simp: VerifyGrant_def classify_grant_def split: prod.splits option.splits if_splits)
  then show ?thesis using assms(2)
  proof (cases rule: verify_grant_cases)
    case (spent v' c ks' b')
    from spent(4) obtain sg kid where sg: "jo_ParseSigned J raw = Inr sg" "sg_kids sg = [kid]" "kid \<noteq> []"
      by (auto simp: parse_grant_def length_Suc_conv split: sum.splits if_splits)
    obtain kr k' f where k: "Key (jo_keys J) net ck (gs_keys st) kid = (kr, k', f)" by (metis surj_pair)
    from spent(4) sg k obtain key pl where "kr = Inr key" "sg_Verify sg key = Inr pl" "gp_ParseClaims L pl = Inr c"
      by (auto simp: parse_grant_def split: sum.splits if_splits)
    then show ?thesis using spent(2,5) sg k by auto
  qed simp_all
qed

lemma passed_grant:
  assumes "runGrantCase H M s mo i g = None" "payload_as_sent (hs_Jose H)"
  shows "\<exists>approve raw sg kid key pl cl level. mi_Approve M = Some approve \<and> approve i (grant_Request g) = Inr raw \<and>
     ClearanceValue (gt_ToolApproverMinClearance g) = Inr level \<and> CLEARANCE_PUBLIC \<le> level \<and>
     jo_ParseSigned (hs_Jose H) raw = Inr sg \<and> sg_kids sg = [kid] \<and>
     fst (Key (jo_keys (hs_Jose H)) (mo_net mo) (mo_ck mo) (NewKeySet 0 0) kid) = Inr key \<and>
     sg_Verify sg key = Inr pl \<and> gp_ParseClaims (hs_Grants H) pl = Inr cl \<and>
     grant_good (hs_Grants H) (grant_checker s) cl (Some (subject_only (gt_Subject g))) (grant_tool g level) None (mo_now mo) \<and>
     hs_Body H pl = Inr (hs_Digest H (gt_Material g), gt_ExpectApprover g)"
proof -
  obtain approve raw level material approver where r: "mi_Approve M = Some approve"
      "approve i (grant_Request g) = Inr raw" "ClearanceValue (gt_ToolApproverMinClearance g) = Inr level"
      "fst (VerifyGrant (hs_Jose H) (hs_Grants H) memSpent (Some (grant_checker s)) (mo_net mo) (mo_ck mo)
          (mo_now mo) raw (Some (subject_only (gt_Subject g))) (grant_tool g level) None
          \<lparr>gs_keys = NewKeySet 0 0, gs_bucket = [], gs_task = []\<rparr>) = None"
      "grantBody H raw = Inr (material, approver)" "material = hs_Digest H (gt_Material g)" "approver = gt_ExpectApprover g"
    using assms(1) unfolding runGrantCase_def by (auto split: option.splits sum.splits prod.splits if_splits)
  have "t_ApprovalMode (grant_tool g level) = MODE_GRANT" by (simp add: grant_tool_def)
  from VerifyGrant_passed[OF r(4) this] obtain sg kid key pl cl where p: "jo_ParseSigned (hs_Jose H) raw = Inr sg"
      "sg_kids sg = [kid]" "fst (Key (jo_keys (hs_Jose H)) (mo_net mo) (mo_ck mo) (NewKeySet 0 0) kid) = Inr key"
      "sg_Verify sg key = Inr pl" "gp_ParseClaims (hs_Grants H) pl = Inr cl"
      "grant_good (hs_Grants H) (grant_checker s) cl (Some (subject_only (gt_Subject g))) (grant_tool g level) None (mo_now mo)"
    by auto
  have "pl = sg_unsafe sg" using assms(2) p(1,4) unfolding payload_as_sent_def by blast
  then have "hs_Body H pl = Inr (hs_Digest H (gt_Material g), gt_ExpectApprover g)"
    using r(5-7) p(1) by (auto simp: grantBody_def split: sum.splits)
  moreover have "CLEARANCE_PUBLIC \<le> level" using ClearanceValue_real[OF r(3)] by auto
  ultimately show ?thesis using r p by blast
qed

text \<open>How the minter answered a case, and what came of it: one conjunct per kind of case.\<close>

definition case_answered ::
  "'k harness \<Rightarrow> registry \<Rightarrow> suite \<Rightarrow> minter \<Rightarrow> moment \<Rightarrow> nat \<Rightarrow> suite_case \<Rightarrow> bool" where
  "case_answered H reg s M mo i c \<longleftrightarrow>
     asserted c = 1 \<and>
     (\<forall>e. ca_Expect c = Some e \<longrightarrow> (\<exists>tok p dropped ks ks'. mi_Token M i (ca_Mint c) = Inr tok \<and>
        Verify (hs_Jose H) (NewVerifier (run_config s reg)) None (\<lambda>j. mo_net mo) (mo_ck mo) (mo_now mo) ks tok =
          (Inr (p, dropped), ks') \<and>
        describes_principal reg e p dropped)) \<and>
     (ca_MintError c \<longrightarrow> (\<exists>status body. mi_Token M i (ca_Mint c) = Inl (Refusal status body))) \<and>
     (\<forall>g. ca_Grant c = Some g \<longrightarrow> (\<exists>approve raw sg kid key pl cl level.
        mi_Approve M = Some approve \<and> approve i (grant_Request g) = Inr raw \<and>
        ClearanceValue (gt_ToolApproverMinClearance g) = Inr level \<and> CLEARANCE_PUBLIC \<le> level \<and>
        jo_ParseSigned (hs_Jose H) raw = Inr sg \<and> sg_kids sg = [kid] \<and>
        fst (Key (jo_keys (hs_Jose H)) (mo_net mo) (mo_ck mo) (NewKeySet 0 0) kid) = Inr key \<and>
        sg_Verify sg key = Inr pl \<and> gp_ParseClaims (hs_Grants H) pl = Inr cl \<and>
        grant_good (hs_Grants H) (grant_checker s) cl (Some (subject_only (gt_Subject g)))
          (grant_tool g level) None (mo_now mo) \<and>
        hs_Body H pl = Inr (hs_Digest H (gt_Material g), gt_ExpectApprover g))) \<and>
     (\<forall>g. ca_GrantError c = Some g \<longrightarrow> (\<exists>approve body. mi_Approve M = Some approve \<and>
        approve i (grant_error_Request g) = Inl (Refusal 400 body) \<and>
        jo_object (hs_Jose H) body = Inr [(''error'', JStr ''access_denied'')]))"

lemma passed_case:
  assumes "runCase H M (NewVerifier (run_config s reg)) reg s mo i c ks = Some (None, ks')" "asserted c = 1"
    and "payload_as_sent (hs_Jose H)"
  shows "case_answered H reg s M mo i c"
proof -
  have g: "runGrantCase H M s mo i g = None" if "ca_Grant c = Some g" for g
    using assms(1) that by (simp add: runCase_def)
  have ge: "runGrantErrorCase H M i g = None" if "ca_GrantError c = Some g" for g
  proof -
    have "ca_Grant c = None" using assms(2) that by (auto simp: asserted_def of_bool_def split: if_splits)
    then show ?thesis using assms(1) that by (simp add: runCase_def)
  qed
  show ?thesis unfolding case_answered_def
  proof (intro conjI allI impI)
    fix e assume "ca_Expect c = Some e"
    from passed_expect[OF assms(1) this assms(2)]
    show "\<exists>tok p dropped ks ks'. mi_Token M i (ca_Mint c) = Inr tok \<and>
        Verify (hs_Jose H) (NewVerifier (run_config s reg)) None (\<lambda>j. mo_net mo) (mo_ck mo) (mo_now mo) ks tok =
          (Inr (p, dropped), ks') \<and> describes_principal reg e p dropped" by blast
  qed (use assms(2) passed_mintError[OF assms(1) _ assms(2)] in simp,
       use assms(2) passed_mintError[OF assms(1) _ assms(2)] in simp,
       rule passed_grant[OF g assms(3)], assumption, rule passed_grantError[OF ge], assumption)
qed

text \<open>
  C28: A suite that reports success has been checked. A suite that loads has cases, each asserting exactly
  one thing, its run never panics and has one verdict per case, in order; and every verdict that is good
  was answered by the minter as the case asks. An expected principal was folded from a token this verifier
  authenticated, and agrees with the case in every field; a refusal was a refusal, and at the approval
  endpoint the one opaque denial; an approval was signed by a published key, passed every check of this
  daemon under the seniority the case names, and binds the digest of the very values presented and the
  approver expected. A minter that answers nothing passes nothing.
\<close>

theorem success_is_checked:
  assumes "LoadSuite validPath decode file = Inr s" "payload_as_sent (hs_Jose H)"
    and "hs_NewRegistry H (map (\<lambda>n. \<lparr>dc_Name = n, dc_Title = []\<rparr>) (su_Compartments s)) = Inr reg"
  shows "su_Cases s \<noteq> [] \<and>
    (\<exists>rs. Run H ms M s = Inr rs \<and> map fst rs = map ca_Name (su_Cases s) \<and>
      (\<forall>i < length rs. asserted (su_Cases s ! i) = 1 \<and>
         (snd (rs ! i) = None \<longrightarrow> case_answered H reg s M (ms i) i (su_Cases s ! i))))"
proof -
  note load = LoadSuite_Inr[OF assms(1)]
  let ?v = "NewVerifier (run_config s reg)"
  have one: "asserted c = 1" if "c \<in> set (su_Cases s)" for c
    using that load check_case_one by (metis in_set_conv_nth)
  obtain rs where rs: "runCases H M ?v reg s ms 0 (su_Cases s) (\<lambda>i. NewKeySet 0 0) = Some rs"
    using runCases_panics[of H M ?v reg s ms 0 "su_Cases s" "\<lambda>i. NewKeySet 0 0"] one
    by (cases "runCases H M ?v reg s ms 0 (su_Cases s) (\<lambda>i. NewKeySet 0 0)") fastforce+
  have run: "Run H ms M s = Inr rs" using assms(3) rs by (simp add: Run_def)
  note R = runCases_nth[OF rs]
  have len: "length rs = length (su_Cases s)" using R map_eq_imp_length_eq by blast
  have "case_answered H reg s M (ms i) i (su_Cases s ! i)" if i: "i < length rs" and ok: "snd (rs ! i) = None" for i
  proof -
    have "\<exists>ks ks'. runCase H M ?v reg s (ms (0 + i)) (0 + i) (su_Cases s ! i) ks = Some (snd (rs ! i), ks')"
      using R i len by metis
    then obtain ks ks' where "runCase H M ?v reg s (ms i) i (su_Cases s ! i) ks = Some (None, ks')"
      using ok by auto
    then show ?thesis using passed_case one assms(2) i len by (metis nth_mem)
  qed
  then show ?thesis using load run R one len by (intro conjI exI[of _ rs]) auto
qed

section \<open>Bounds a suite can reach\<close>

text \<open>
  A case's ceiling is seconds times \<open>time.Second\<close> at 64 bits: 2 to the 55 seconds, which is positive and
  loads, is a tool with no ceiling at all.
\<close>

lemma huge_ceiling_is_none:
  assumes "gt_ToolMaxGrantAgeSeconds g = 2 ^ 55"
  shows "t_MaxGrantAge (grant_tool g l) = 0"
  by (simp add: grant_tool_def assms wrap64_def second_ns_def)

text \<open>The harness's cache says it keeps a day, and a suite may declare a longer ceiling.\<close>

lemma suite_outlives_cache:
  assumes "gt_ToolMaxGrantAgeSeconds g = 90000"
  shows "CheckRetention (Some memRetention) (t_MaxGrantAge (grant_tool g l)) \<noteq> None"
  by (simp add: grant_tool_def assms wrap64_def second_ns_def CheckRetention_def memRetention_def)

section \<open>A suite, run\<close>

definition toy_case :: suite_case where
  "toy_case = \<lparr>ca_Name = ''ada via bot'', ca_Mint = [(''user'', ''ada'')],
     ca_Expect = Some \<lparr>xp_Subject = ''ada'', xp_Actor = ''bot'', xp_Kind = [], xp_Clearance = ''CLEARANCE_PUBLIC'',
        xp_Compartments = [''finance''], xp_Verbs = [''VERB_READ''], xp_ToolSets = Some [''books''],
        xp_Dropped = [''nope''], xp_Execution = [], xp_Tenant = ''t'', xp_Chain = [''ada'', ''bot'']\<rparr>,
     ca_MintError = False, ca_Grant = None, ca_GrantError = None\<rparr>"

definition toy_refusal :: suite_case where
  "toy_refusal = \<lparr>ca_Name = ''eve may not'', ca_Mint = [(''user'', ''eve'')], ca_Expect = None,
     ca_MintError = True, ca_Grant = None, ca_GrantError = None\<rparr>"

definition toy_denial :: suite_case where
  "toy_denial = \<lparr>ca_Name = ''no assertion'', ca_Mint = [], ca_Expect = None, ca_MintError = False,
     ca_Grant = None, ca_GrantError = Some \<lparr>ge_Approver = ''eve'', ge_ApproverTenant = [],
        ge_ApproverClearance = ''restricted'', ge_ApproverCompartments = [], ge_ApproverActor = [],
        ge_Tool = ''books.close'', ge_Subject = ''ada'', ge_Material = [], ge_OmitClientAssertion = True\<rparr>\<rparr>"

definition toy_wanted :: grant_case where
  "toy_wanted = \<lparr>gt_Approver = ''boss'', gt_ApproverTenant = [], gt_ApproverClearance = ''internal'',
     gt_ApproverCompartments = [], gt_Tool = ''books.close'', gt_Subject = gr_Subject toy_grant, gt_Material = [],
     gt_ToolApproverMinClearance = ''internal'', gt_ToolApproverCompartments = [],
     gt_ToolMaxGrantAgeSeconds = 900, gt_ExpectApprover = ''user:boss''\<rparr>"

definition toy_approval :: suite_case where
  "toy_approval = \<lparr>ca_Name = ''approved'', ca_Mint = [], ca_Expect = None, ca_MintError = False,
     ca_Grant = Some toy_wanted, ca_GrantError = None\<rparr>"

definition toy_suite :: suite where
  "toy_suite = \<lparr>su_Issuer = ''https://sts'', su_Audience = ''garmd'', su_Compartments = [''finance'', ''hr''],
     su_Cases = [toy_refusal, toy_denial, toy_approval]\<rparr>"

definition toy_minter :: minter where
  "toy_minter = \<lparr>mi_Token = (\<lambda>i ps. if map_of ps ''user'' = Some ''ada'' then Inr ''tok'' else Inl (Refusal 400 ''denied'')),
     mi_Approve = Some (\<lambda>i q. if aq_OmitClientAssertion q then Inl (Refusal 400 ''denied'') else Inr ''tok'')\<rparr>"

definition toy_denier :: "nat jose" where
  "toy_denier = toy_jose\<lparr>jo_object := \<lambda>b. if b = ''denied'' then Inr [(''error'', JStr ''access_denied'')] else Inr sample_body\<rparr>"

definition toy_harness :: "nat harness" where
  "toy_harness = \<lparr>hs_NewRegistry = \<lambda>ds. Inr sample_registry, hs_Jose = toy_denier,
     hs_Grants = toy_pkg, hs_Digest = \<lambda>m. ''sha256:0'', hs_Body = \<lambda>b. Inr (''sha256:0'', ''user:boss'')\<rparr>"

definition toy_moment :: moment where
  "toy_moment = \<lparr>mo_net = Body ''keys'', mo_ck = toy_clock 500, mo_now = 1100\<rparr>"

lemma toy_suite_loads: "LoadSuite (\<lambda>p. None) (\<lambda>b. Inr toy_suite) (Inr ''suite'') = Inr toy_suite"
  by code_simp

lemma toy_payload: "payload_as_sent (hs_Jose toy_harness)"
  by (auto simp: payload_as_sent_def toy_harness_def toy_denier_def toy_jose_def split: if_splits)

lemma toy_harness_sel:
  "hs_Jose toy_harness = toy_denier" "hs_Grants toy_harness = toy_pkg" "hs_Digest toy_harness m = ''sha256:0''"
  "hs_Body toy_harness b = Inr (''sha256:0'', ''user:boss'')" "hs_NewRegistry toy_harness ds = Inr sample_registry"
  by (simp_all add: toy_harness_def)

lemma toy_accepted:
  "fst (VerifyGrant toy_denier toy_pkg memSpent (Some (grant_checker toy_suite)) (Body ''keys'')
     (toy_clock 500) 1100 ''tok'' (Some (subject_only (gt_Subject toy_wanted)))
     (grant_tool toy_wanted CLEARANCE_INTERNAL) None
     \<lparr>gs_keys = NewKeySet 0 0, gs_bucket = [], gs_task = []\<rparr>) = None"
proof -
  have j: "jo_ParseSigned toy_denier = jo_ParseSigned toy_jose" "jo_keys toy_denier = toy_decode"
    by (simp_all add: toy_denier_def toy_jose_def)
  have "\<exists>ks. parse_grant toy_denier toy_pkg (Body ''keys'') (toy_clock 500) (NewKeySet 0 0) ''tok'' = (Inr toy_grant, ks)"
    unfolding parse_grant_def j by (simp add: toy_jose_def toy_lookup toy_pkg_def)
  then obtain ks where p: "parse_grant toy_denier toy_pkg (Body ''keys'') (toy_clock 500) (NewKeySet 0 0) ''tok'' =
      (Inr toy_grant, ks)" ..
  have sp: "Spend memSpent [] 1100 ''j1'' = (None, [''j1''])" by code_simp
  have sh: "checkShape toy_pkg (grant_checker toy_suite) toy_grant (Some (subject_only (gt_Subject toy_wanted)))
      (grant_tool toy_wanted CLEARANCE_INTERNAL) 1100 = None" by code_simp
  have t: "t_ApprovalMode (grant_tool g l) = MODE_GRANT" "t_MaterialFields (grant_tool g l) = []" for g l
    by (simp_all add: grant_tool_def zero_tool_def)
  have "configured (Some (grant_checker toy_suite))" by (simp add: configured_def grant_checker_def toy_suite_def)
  moreover have "gr_ID toy_grant = ''j1''" by (simp add: toy_grant_def)
  ultimately show ?thesis
    by (simp add: VerifyGrant_def verify_grant_def t p sh checkMaterial_def sp spend_grant_def classify_grant_def Let_def)
qed

lemma toy_suite_run: "Run toy_harness (\<lambda>i. toy_moment) toy_minter toy_suite =
    Inr [(''eve may not'', None), (''no assertion'', None), (''approved'', None)]"
proof -
  have c: "ClearanceValue (gt_ToolApproverMinClearance toy_wanted) = Inr CLEARANCE_INTERNAL" by code_simp
  have m: "mo_net toy_moment = Body ''keys''" "mo_ck toy_moment = toy_clock 500" "mo_now toy_moment = 1100"
    by (simp_all add: toy_moment_def)
  have a: "mi_Approve toy_minter = Some (\<lambda>i q. if aq_OmitClientAssertion q then Inl (Refusal 400 ''denied'') else Inr ''tok'')"
    by (simp add: toy_minter_def)
  have b: "grantBody toy_harness ''tok'' = Inr (''sha256:0'', ''user:boss'')"
    by (simp add: grantBody_def toy_harness_sel toy_denier_def toy_jose_def)
  have w: "gt_ExpectApprover toy_wanted = ''user:boss''" "\<not> aq_OmitClientAssertion (grant_Request toy_wanted)"
    by (simp_all add: toy_wanted_def grant_Request_def)
  have "runGrantCase toy_harness toy_minter toy_suite toy_moment i toy_wanted = None" for i
    by (simp add: runGrantCase_def a b c m w toy_harness_sel toy_accepted)
  then have r3: "runCase toy_harness toy_minter v reg toy_suite toy_moment i toy_approval ks = Some (None, ks)" for v reg i ks
    by (simp add: runCase_def toy_approval_def)
  obtain g where g: "ca_GrantError toy_denial = Some g" "ge_OmitClientAssertion g" by (simp add: toy_denial_def)
  have "runGrantErrorCase toy_harness toy_minter i g = None" for i
    using g(2) by (simp add: runGrantErrorCase_def a grant_error_Request_def isOpaqueDenial_def toy_harness_sel toy_denier_def)
  then have r2: "runCase toy_harness toy_minter v reg toy_suite toy_moment i toy_denial ks = Some (None, ks)" for v reg i ks
    using g(1) by (simp add: runCase_def) (simp add: toy_denial_def)
  have r1: "runCase toy_harness toy_minter v reg toy_suite toy_moment i toy_refusal ks = Some (None, ks)" for v reg i ks
    by (simp add: runCase_def toy_refusal_def toy_minter_def)
  have "su_Cases toy_suite = [toy_refusal, toy_denial, toy_approval]" "ca_Name toy_refusal = ''eve may not''"
    "ca_Name toy_denial = ''no assertion''" "ca_Name toy_approval = ''approved''"
    by (simp_all add: toy_suite_def toy_refusal_def toy_denial_def toy_approval_def)
  then show ?thesis by (simp add: Run_def toy_harness_sel r1 r2 r3)
qed

lemma toy_unanswered: "case Run toy_harness (\<lambda>i. toy_moment) (toy_minter\<lparr>mi_Token := \<lambda>i ps. Inl (NotAnswered (Plain ''refused''))\<rparr>)
    (toy_suite\<lparr>su_Cases := [toy_refusal]\<rparr>) of
    Inr [(_, Some (SaidNothing _))] \<Rightarrow> True | _ \<Rightarrow> False"
  by code_simp

lemma success_is_checked_witness:
  "(\<exists>status body. mi_Token toy_minter 0 (ca_Mint toy_refusal) = Inl (Refusal status body)) \<and>
   (\<exists>pl. hs_Body toy_harness pl = Inr (''sha256:0'', ''user:boss''))"
proof -
  have "hs_NewRegistry toy_harness (map (\<lambda>n. \<lparr>dc_Name = n, dc_Title = []\<rparr>) (su_Compartments toy_suite)) = Inr sample_registry"
    by (simp add: toy_harness_sel)
  note W = success_is_checked[OF toy_suite_loads toy_payload this, of "\<lambda>i. toy_moment" toy_minter]
  then have a: "i < 3 \<Longrightarrow> case_answered toy_harness sample_registry toy_suite toy_minter toy_moment i (su_Cases toy_suite ! i)" for i
    unfolding toy_suite_run by (auto simp: nth_Cons split: nat.splits)
  have s: "su_Cases toy_suite ! 0 = toy_refusal" "su_Cases toy_suite ! 2 = toy_approval" by (simp_all add: toy_suite_def)
  have "ca_MintError toy_refusal" by (simp add: toy_refusal_def)
  moreover obtain g where "ca_Grant toy_approval = Some g" "hs_Digest toy_harness (gt_Material g) = ''sha256:0''"
      "gt_ExpectApprover g = ''user:boss''" by (simp add: toy_approval_def toy_harness_sel toy_wanted_def)
  ultimately show ?thesis using a[of 0] a[of 2] s unfolding case_answered_def by fastforce
qed

end
