(* ===== verification/Minters.thy ===== *)
theory Minters
  imports Conformance "HOL-Library.AList"
begin

text \<open>
  The two minters a suite is run against: \<open>HTTPMinter\<close> of \<open>internal/conformance/run.go\<close>, and
  \<open>FormMinter\<close> of \<open>form_minter.go\<close>, which drives a token service and asks an upstream identity provider
  for the tokens it presents there. HTTP is a parameter: one request, one answer; a query or a form is an
  association list before its encoding. So are the signer of an assertion, randomness, the decoders
  of the two response envelopes and those of a key file.
\<close>

section \<open>HTTP\<close>

datatype request_body =
    NoBody | FormBody smap | ApproveBody string string string smap "string option"

record http_request =
  rq_Post :: bool
  rq_URL :: string
  rq_Query :: smap
  rq_Bearer :: "string option"
  rq_Body :: request_body

datatype http_answer = NoRequest go_err | NotReached go_err | CutShort go_err | Answered int string

definition maxMintBytes :: nat where "maxMintBytes = 2 ^ 20"

text \<open>What one call of a minter meets.\<close>

record mint_world =
  mw_Do :: "http_request \<Rightarrow> http_answer"
  mw_Rand :: "go_err + string"
  mw_Now :: int
  mw_AccessToken :: "string \<Rightarrow> go_err + string"
  mw_Grant :: "string \<Rightarrow> go_err + string"

definition values_of :: "smap \<Rightarrow> smap" where
  "values_of params = fold (\<lambda>(k, v). AList.update k v) params []"

definition form_get :: "smap \<Rightarrow> string \<Rightarrow> string" where
  "form_get form k = (case map_of form k of None \<Rightarrow> [] | Some v \<Rightarrow> v)"

definition endpoint :: "string \<Rightarrow> string \<Rightarrow> string" where
  "endpoint base path = trim_suffix base ''/'' @ path"

text \<open>The response of the service under test: only an answer that is not 200 is a refusal.\<close>

definition service_answer :: "string \<Rightarrow> http_answer \<Rightarrow> mint_err + string" where
  "service_answer unreachable a =
     (case a of
        NoRequest e \<Rightarrow> Inl (NotAnswered e)
      | NotReached e \<Rightarrow> Inl (NotAnswered (Wrapped unreachable [e]))
      | CutShort e \<Rightarrow> Inl (NotAnswered e)
      | Answered status body \<Rightarrow>
          (let b = take maxMintBytes body in
           if status \<noteq> 200 then Inl (Refusal status (trim_space b)) else Inr b))"

section \<open>A minter asked by GET\<close>

definition HTTPMinter_Token :: "string \<Rightarrow> mint_world \<Rightarrow> smap \<Rightarrow> mint_err + string" where
  "HTTPMinter_Token baseURL w params =
     map_sum (\<lambda>e. e) trim_space (service_answer ''minter unreachable''
       (mw_Do w \<lparr>rq_Post = False, rq_URL = endpoint baseURL ''/token'', rq_Query = values_of params,
          rq_Bearer = None, rq_Body = NoBody\<rparr>))"

section \<open>A token service\<close>

record assertion =
  an_iss :: string
  an_sub :: string
  an_aud :: string
  an_jti :: string
  an_iat :: int
  an_exp :: int

record form_minter =
  fm_BaseURL :: string
  fm_ClientID :: string
  fm_Audience :: string
  fm_Sign :: "assertion \<Rightarrow> go_err + string"
  fm_UpstreamURL :: string

definition subjectUserParam :: string where "subjectUserParam = ''subject_user''"
definition subjectTenantParam :: string where "subjectTenantParam = ''subject_tenant''"
definition subjectTokenParam :: string where "subjectTokenParam = ''subject_token''"

definition clientAssertionTypeJWTBearer :: string where
  "clientAssertionTypeJWTBearer = ''urn:ietf:params:oauth:client-assertion-type:jwt-bearer''"

text \<open>\<open>hex.EncodeToString\<close>.\<close>

definition hex_encode :: "string \<Rightarrow> string" where
  "hex_encode bs = concat (map (\<lambda>c. [hexDigit (of_char c div 16), hexDigit (of_char c mod 16)]) bs)"

definition clientAssertion :: "form_minter \<Rightarrow> mint_world \<Rightarrow> go_err + string" where
  "clientAssertion m w =
     (case mw_Rand w of
        Inl e \<Rightarrow> Inl (Wrapped ''conformance: generating a fresh jti'' [e])
      | Inr jti \<Rightarrow>
          fm_Sign m \<lparr>an_iss = fm_ClientID m, an_sub = fm_ClientID m, an_aud = fm_Audience m,
            an_jti = hex_encode jti, an_iat = mw_Now w div second_ns,
            an_exp = (mw_Now w + 60 * second_ns) div second_ns\<rparr>)"

definition fetchUpstreamToken :: "form_minter \<Rightarrow> mint_world \<Rightarrow> smap \<Rightarrow> go_err + string" where
  "fetchUpstreamToken m w q =
     (case mw_Do w \<lparr>rq_Post = False, rq_URL = endpoint (fm_UpstreamURL m) ''/token'', rq_Query = q,
             rq_Bearer = None, rq_Body = NoBody\<rparr> of
        NoRequest e \<Rightarrow> Inl e
      | NotReached e \<Rightarrow> Inl (Wrapped ''upstream IdP unreachable'' [e])
      | CutShort e \<Rightarrow> Inl e
      | Answered status body \<Rightarrow>
          (let b = take maxMintBytes body; tok = trim_space b in
           if status \<noteq> 200 then Inl (Plain ''upstream IdP refused'')
           else if tok = [] then Inl (Plain ''upstream IdP returned an empty token'')
           else Inr tok))"

definition fetchSubjectToken :: "form_minter \<Rightarrow> mint_world \<Rightarrow> string \<Rightarrow> string \<Rightarrow> go_err + string" where
  "fetchSubjectToken m w user tenant =
     fetchUpstreamToken m w ((''sub'', user) # (if tenant \<noteq> [] then [(''tenant'', tenant)] else []))"

text \<open>The form with the subject token in it, when a case asks for one.\<close>

definition subject_form :: "form_minter \<Rightarrow> mint_world \<Rightarrow> smap \<Rightarrow> go_err + smap" where
  "subject_form m w form =
     (let user = form_get form subjectUserParam; tenant = form_get form subjectTenantParam in
      if user = [] then Inr form
      else if fm_UpstreamURL m = []
      then Inl (Plain ''conformance: a case asks for a subject token but FormMinter has no UpstreamURL'')
      else (case fetchSubjectToken m w user tenant of
         Inl e \<Rightarrow> Inl (Wrapped ''conformance: fetching a subject token from the upstream IdP'' [e])
       | Inr tok \<Rightarrow>
           Inr (AList.update subjectTokenParam tok
             (AList.delete subjectTenantParam (AList.delete subjectUserParam form)))))"

definition token_form :: "string \<Rightarrow> smap \<Rightarrow> smap" where
  "token_form a form = AList.update ''client_assertion_type'' clientAssertionTypeJWTBearer
     (AList.update ''client_assertion'' a form)"

definition FormMinter_Token :: "form_minter \<Rightarrow> mint_world \<Rightarrow> smap \<Rightarrow> mint_err + string" where
  "FormMinter_Token m w params =
     (case clientAssertion m w of
        Inl e \<Rightarrow> Inl (NotAnswered e)
      | Inr a \<Rightarrow>
     (case subject_form m w (values_of params) of
        Inl e \<Rightarrow> Inl (NotAnswered e)
      | Inr form \<Rightarrow>
     (case service_answer ''minter unreachable''
             (mw_Do w \<lparr>rq_Post = True, rq_URL = endpoint (fm_BaseURL m) ''/token'', rq_Query = [],
                rq_Bearer = None, rq_Body = FormBody (token_form a form)\<rparr>) of
        Inl e \<Rightarrow> Inl e
      | Inr b \<Rightarrow>
          (case mw_AccessToken w b of
             Inl e \<Rightarrow> Inl (NotAnswered (Wrapped ''conformance: decoding token response'' [e]))
           | Inr tok \<Rightarrow>
               if tok = [] then Inl (NotAnswered (Plain ''conformance: token response has no access_token''))
               else Inr tok))))"

section \<open>Its approval endpoint\<close>

text \<open>\<open>strings.Join\<close> with a comma.\<close>

fun join_comma :: "string list \<Rightarrow> string" where
  "join_comma [] = []"
| "join_comma [x] = x"
| "join_comma (x # y # xs) = x @ '','' @ join_comma (y # xs)"

definition approver_query :: "approval_request \<Rightarrow> smap" where
  "approver_query g =
     (''sub'', aq_Approver g) #
     (if aq_ApproverTenant g \<noteq> [] then [(''tenant'', aq_ApproverTenant g)] else []) @
     (if aq_ApproverClearance g \<noteq> [] then [(''clearance'', aq_ApproverClearance g)] else []) @
     (if aq_ApproverCompartments g \<noteq> []
      then [(''compartments'', join_comma (aq_ApproverCompartments g))] else []) @
     (if aq_ApproverActor g \<noteq> [] then [(''act'', aq_ApproverActor g)] else [])"

definition approve_assertion :: "form_minter \<Rightarrow> mint_world \<Rightarrow> approval_request \<Rightarrow> go_err + string option" where
  "approve_assertion m w g =
     (if aq_OmitClientAssertion g then Inr None
      else (case clientAssertion m w of Inl e \<Rightarrow> Inl e | Inr a \<Rightarrow> Inr (Some a)))"

definition FormMinter_Approve :: "form_minter \<Rightarrow> mint_world \<Rightarrow> approval_request \<Rightarrow> mint_err + string" where
  "FormMinter_Approve m w g =
     (if fm_UpstreamURL m = []
      then Inl (NotAnswered (Plain ''conformance: an approval case needs an approver's token''))
      else (case fetchUpstreamToken m w (approver_query g) of
        Inl e \<Rightarrow> Inl (NotAnswered (Wrapped ''conformance: fetching the approver's token'' [e]))
      | Inr auth \<Rightarrow>
     (case approve_assertion m w g of
        Inl e \<Rightarrow> Inl (NotAnswered e)
      | Inr a \<Rightarrow>
     (case service_answer ''approval endpoint unreachable''
             (mw_Do w \<lparr>rq_Post = True, rq_URL = endpoint (fm_BaseURL m) ''/approve'', rq_Query = [],
                rq_Bearer = Some auth,
                rq_Body = ApproveBody clientAssertionTypeJWTBearer (aq_Tool g) (aq_Subject g) (aq_Material g) a\<rparr>) of
        Inl e \<Rightarrow> Inl e
      | Inr b \<Rightarrow>
          (case mw_Grant w b of
             Inl e \<Rightarrow> Inl (NotAnswered (Wrapped ''conformance: decoding the approval response'' [e]))
           | Inr raw \<Rightarrow>
               if raw = [] then Inl (NotAnswered (Plain ''conformance: approval response has no grant''))
               else Inr raw)))))"

text \<open>The minters, as a run asks them: the n-th case in the n-th world.\<close>

definition http_minter_of :: "string \<Rightarrow> (nat \<Rightarrow> mint_world) \<Rightarrow> minter" where
  "http_minter_of baseURL ws = \<lparr>mi_Token = (\<lambda>i. HTTPMinter_Token baseURL (ws i)), mi_Approve = None\<rparr>"

definition form_minter_of :: "form_minter \<Rightarrow> (nat \<Rightarrow> mint_world) \<Rightarrow> minter" where
  "form_minter_of m ws = \<lparr>mi_Token = (\<lambda>i. FormMinter_Token m (ws i)),
     mi_Approve = Some (\<lambda>i. FormMinter_Approve m (ws i))\<rparr>"

section \<open>The client's key, and what an error quotes\<close>

text \<open>
  The decoders are the library's: PEM to a block, a block as SEC1, a block as PKCS#8, which may hold a key
  of another type (its name).
\<close>

definition ParseECPrivateKeyPEM ::
  "(string \<Rightarrow> string option) \<Rightarrow> (string \<Rightarrow> 'k option) \<Rightarrow> (string \<Rightarrow> go_err + (string + 'k)) \<Rightarrow> string \<Rightarrow> go_err + 'k" where
  "ParseECPrivateKeyPEM pem sec1 pkcs8 body =
     (case pem body of
        None \<Rightarrow> Inl (Plain ''conformance: no PEM block found in client key'')
      | Some block \<Rightarrow>
     (case sec1 block of
        Some k \<Rightarrow> Inr k
      | None \<Rightarrow>
     (case pkcs8 block of
        Inl e \<Rightarrow> Inl (Wrapped ''conformance: parsing client key'' [e])
      | Inr (Inl other) \<Rightarrow> Inl (Plain (''conformance: client key is a '' @ other @ '', not an EC private key''))
      | Inr (Inr k) \<Rightarrow> Inr k)))"

definition truncateBody :: "string \<Rightarrow> string" where
  "truncateBody b = (let s = trim_space b in if length s \<le> 500 then s else take 500 s @ ''... (truncated)'')"

text \<open>A key comes only out of one of the two encodings; a quoted body is whole, or marked as cut.\<close>

lemma ParseECPrivateKeyPEM_Inr:
  "ParseECPrivateKeyPEM pem sec1 pkcs8 body = Inr k \<longleftrightarrow>
     (\<exists>block. pem body = Some block \<and> (sec1 block = Some k \<or> sec1 block = None \<and> pkcs8 block = Inr (Inr k)))"
  by (auto simp: ParseECPrivateKeyPEM_def split: option.splits sum.splits)

lemma truncateBody_bounded:
  "length (truncateBody b) \<le> 515"
  "truncateBody b = trim_space b \<or> drop 500 (truncateBody b) = ''... (truncated)''"
  by (simp_all add: truncateBody_def Let_def)

section \<open>Whose refusal it is\<close>

lemma service_refusal:
  "service_answer u a = Inl (Refusal st b) \<longleftrightarrow>
     (\<exists>body. a = Answered st body \<and> st \<noteq> 200 \<and> b = trim_space (take maxMintBytes body))"
  by (cases a) (auto simp: service_answer_def Let_def)

lemma service_refused: "st \<noteq> 200 \<Longrightarrow> service_answer u (Answered st body) = Inl (Refusal st (trim_space (take maxMintBytes body)))"
  by (simp add: service_answer_def Let_def)

lemma Token_refusal:
  "FormMinter_Token m w params = Inl (Refusal st b) \<longleftrightarrow>
     (\<exists>a form body. clientAssertion m w = Inr a \<and> subject_form m w (values_of params) = Inr form \<and>
        mw_Do w \<lparr>rq_Post = True, rq_URL = endpoint (fm_BaseURL m) ''/token'', rq_Query = [],
          rq_Bearer = None, rq_Body = FormBody (token_form a form)\<rparr> = Answered st body \<and>
        st \<noteq> 200 \<and> b = trim_space (take maxMintBytes body))"
  unfolding FormMinter_Token_def
  by (auto simp: service_refusal service_refused split: sum.splits)

lemma Approve_refusal:
  "FormMinter_Approve m w g = Inl (Refusal st b) \<longleftrightarrow>
     (\<exists>auth a body. fm_UpstreamURL m \<noteq> [] \<and> fetchUpstreamToken m w (approver_query g) = Inr auth \<and>
        approve_assertion m w g = Inr a \<and>
        mw_Do w \<lparr>rq_Post = True, rq_URL = endpoint (fm_BaseURL m) ''/approve'', rq_Query = [],
          rq_Bearer = Some auth,
          rq_Body = ApproveBody clientAssertionTypeJWTBearer (aq_Tool g) (aq_Subject g) (aq_Material g) a\<rparr> =
          Answered st body \<and> st \<noteq> 200 \<and> b = trim_space (take maxMintBytes body))"
  unfolding FormMinter_Approve_def
  by (auto simp: service_refusal service_refused split: sum.splits)

lemma fetched_token: "fetchUpstreamToken m w q = Inr tok \<Longrightarrow> tok \<noteq> []"
  by (auto simp: fetchUpstreamToken_def Let_def split: http_answer.splits if_splits)

lemma approve_assertion_omitted:
  "approve_assertion m w g = Inr a \<Longrightarrow> a = None \<longleftrightarrow> aq_OmitClientAssertion g"
  by (auto simp: approve_assertion_def split: if_splits sum.splits)

text \<open>What the service is sent: the assertion is this call's own, and a token asked for was fetched.\<close>

lemma token_form_own:
  "map_of (token_form a form) ''client_assertion'' = Some a \<and>
   map_of (token_form a form) ''client_assertion_type'' = Some clientAssertionTypeJWTBearer"
  by (simp add: token_form_def update_conv)

lemma subject_form_token:
  assumes "subject_form m w form = Inr form'" "form_get form subjectUserParam \<noteq> []"
  shows "\<exists>tok. fm_UpstreamURL m \<noteq> [] \<and> tok \<noteq> [] \<and>
     fetchSubjectToken m w (form_get form subjectUserParam) (form_get form subjectTenantParam) = Inr tok \<and>
     map_of form' subjectTokenParam = Some tok \<and>
     map_of form' subjectUserParam = None \<and> map_of form' subjectTenantParam = None"
proof -
  have ks: "subjectUserParam \<noteq> subjectTokenParam" "subjectTenantParam \<noteq> subjectTokenParam"
    by (simp_all add: subjectUserParam_def subjectTenantParam_def subjectTokenParam_def)
  obtain tok where t: "fetchSubjectToken m w (form_get form subjectUserParam) (form_get form subjectTenantParam) = Inr tok"
      "fm_UpstreamURL m \<noteq> []" "form' = AList.update subjectTokenParam tok
         (AList.delete subjectTenantParam (AList.delete subjectUserParam form))"
    using assms by (auto simp: subject_form_def Let_def split: if_splits sum.splits)
  moreover have "tok \<noteq> []" using t(1) fetched_token by (auto simp: fetchSubjectToken_def)
  ultimately show ?thesis using ks by (auto simp: update_conv delete_conv)
qed

text \<open>The POST behind a refusal of each endpoint, with what it carried.\<close>

lemma refused_token:
  assumes "FormMinter_Token m w params = Inl (Refusal st b)"
  shows "\<exists>a form body.
     mw_Do w \<lparr>rq_Post = True, rq_URL = endpoint (fm_BaseURL m) ''/token'', rq_Query = [],
       rq_Bearer = None, rq_Body = FormBody form\<rparr> = Answered st body \<and> st \<noteq> 200 \<and>
     clientAssertion m w = Inr a \<and> map_of form ''client_assertion'' = Some a \<and>
     (form_get (values_of params) subjectUserParam \<noteq> [] \<longrightarrow>
        map_of form subjectUserParam = None \<and>
        (\<exists>tok. tok \<noteq> [] \<and> map_of form subjectTokenParam = Some tok \<and>
           fetchSubjectToken m w (form_get (values_of params) subjectUserParam)
             (form_get (values_of params) subjectTenantParam) = Inr tok))"
proof -
  obtain a form body where t: "clientAssertion m w = Inr a" "subject_form m w (values_of params) = Inr form" "st \<noteq> 200"
      "mw_Do w \<lparr>rq_Post = True, rq_URL = endpoint (fm_BaseURL m) ''/token'', rq_Query = [],
        rq_Bearer = None, rq_Body = FormBody (token_form a form)\<rparr> = Answered st body"
    using assms Token_refusal by blast
  have "map_of (token_form a form) k = map_of form k" if "k \<in> {subjectUserParam, subjectTokenParam}" for k
    using that by (auto simp: token_form_def update_conv subjectUserParam_def subjectTokenParam_def)
  then show ?thesis using t token_form_own subject_form_token[OF t(2)]
    by (intro exI[of _ a] exI[of _ "token_form a form"] exI[of _ body]) auto
qed

lemma refused_approval:
  assumes "FormMinter_Approve m w g = Inl (Refusal st b)"
  shows "\<exists>auth a body.
     mw_Do w \<lparr>rq_Post = True, rq_URL = endpoint (fm_BaseURL m) ''/approve'', rq_Query = [],
       rq_Bearer = Some auth,
       rq_Body = ApproveBody clientAssertionTypeJWTBearer (aq_Tool g) (aq_Subject g) (aq_Material g) a\<rparr> =
       Answered st body \<and>
     fetchUpstreamToken m w (approver_query g) = Inr auth \<and> auth \<noteq> [] \<and>
     (a = None \<longleftrightarrow> aq_OmitClientAssertion g) \<and> b = trim_space (take maxMintBytes body)"
proof -
  obtain auth a body where t: "fetchUpstreamToken m w (approver_query g) = Inr auth" "approve_assertion m w g = Inr a"
      "mw_Do w \<lparr>rq_Post = True, rq_URL = endpoint (fm_BaseURL m) ''/approve'', rq_Query = [], rq_Bearer = Some auth,
        rq_Body = ApproveBody clientAssertionTypeJWTBearer (aq_Tool g) (aq_Subject g) (aq_Material g) a\<rparr> =
        Answered st body" "b = trim_space (take maxMintBytes body)"
    using assms unfolding Approve_refusal by blast
  then show ?thesis using fetched_token[OF t(1)] approve_assertion_omitted[OF t(2)] by blast
qed

text \<open>
  C19: A refusal that satisfies a suite is the tested service's own. Run against the token service, a case
  that asserts a refusal is passed only because the service itself answered the POST at its own endpoint
  with something other than 200: with this call's own assertion, and with a subject token really fetched
  when the case asks for one. An approval refusal is the service's 400, to the approver's fetched token,
  with no assertion exactly when the case omits it. No failure of the upstream provider, of the network,
  of signing or of reading passes for one.
\<close>

theorem refusal_is_the_services:
  assumes "case_answered H reg s (form_minter_of m ws) mo i c"
  shows "(ca_MintError c \<longrightarrow> (\<exists>a form status body.
            mw_Do (ws i) \<lparr>rq_Post = True, rq_URL = endpoint (fm_BaseURL m) ''/token'', rq_Query = [],
              rq_Bearer = None, rq_Body = FormBody form\<rparr> = Answered status body \<and> status \<noteq> 200 \<and>
            clientAssertion m (ws i) = Inr a \<and> map_of form ''client_assertion'' = Some a \<and>
            (form_get (values_of (ca_Mint c)) subjectUserParam \<noteq> [] \<longrightarrow>
               map_of form subjectUserParam = None \<and>
               (\<exists>tok. tok \<noteq> [] \<and> map_of form subjectTokenParam = Some tok \<and>
                  fetchSubjectToken m (ws i) (form_get (values_of (ca_Mint c)) subjectUserParam)
                    (form_get (values_of (ca_Mint c)) subjectTenantParam) = Inr tok)))) \<and>
     (\<forall>g. ca_GrantError c = Some g \<longrightarrow> (\<exists>auth a body.
            mw_Do (ws i) \<lparr>rq_Post = True, rq_URL = endpoint (fm_BaseURL m) ''/approve'', rq_Query = [],
              rq_Bearer = Some auth,
              rq_Body = ApproveBody clientAssertionTypeJWTBearer (ge_Tool g) (ge_Subject g) (ge_Material g) a\<rparr> =
              Answered 400 body \<and>
            fetchUpstreamToken m (ws i) (approver_query (grant_error_Request g)) = Inr auth \<and> auth \<noteq> [] \<and>
            (a = None \<longleftrightarrow> ge_OmitClientAssertion g) \<and>
            jo_object (hs_Jose H) (trim_space (take maxMintBytes body)) =
              Inr [(''error'', JStr ''access_denied'')]))"
    (is "(_ \<longrightarrow> ?token) \<and> (\<forall>g. _ g \<longrightarrow> ?approval g)")
proof (intro conjI impI allI)
  assume "ca_MintError c"
  then obtain st b where "FormMinter_Token m (ws i) (ca_Mint c) = Inl (Refusal st b)"
    using assms by (auto simp: case_answered_def form_minter_of_def)
  from refused_token[OF this] show "?token" by blast
next
  fix g assume "ca_GrantError c = Some g"
  then obtain b where b: "FormMinter_Approve m (ws i) (grant_error_Request g) = Inl (Refusal 400 b)"
      "jo_object (hs_Jose H) b = Inr [(''error'', JStr ''access_denied'')]"
    using assms by (auto simp: case_answered_def form_minter_of_def)
  from refused_approval[OF b(1)] b(2) show "?approval g" by (simp add: grant_error_Request_def) blast
qed

text \<open>A minter without an approval endpoint passes no case that needs one, and is not skipped.\<close>

lemma token_only_minter:
  assumes "ca_Grant c = Some g \<or> ca_GrantError c = Some ge"
  shows "\<not> case_answered H reg s (http_minter_of base ws) mo i c"
  using assms by (auto simp: case_answered_def http_minter_of_def)

section \<open>A service, asked\<close>

definition toy_form :: form_minter where
  "toy_form = \<lparr>fm_BaseURL = ''http://sts/'', fm_ClientID = ''ci'', fm_Audience = ''sts'',
     fm_Sign = \<lambda>an. Inr (''signed '' @ an_jti an), fm_UpstreamURL = ''http://idp''\<rparr>"

definition toy_mint_world :: mint_world where
  "toy_mint_world = \<lparr>mw_Do = (\<lambda>q. if rq_Post q then Answered 400 '' denied '' else Answered 200 ''upstream''),
     mw_Rand = Inr ''A'', mw_Now = 5, mw_AccessToken = Inr, mw_Grant = Inr\<rparr>"

lemma toy_endpoint: "endpoint (fm_BaseURL toy_form) ''/token'' = ''http://sts/token''"
  by code_simp

lemma refusal_is_the_services_witness:
  "\<exists>auth. fetchUpstreamToken toy_form toy_mint_world
     (approver_query (grant_error_Request (the (ca_GrantError toy_denial)))) = Inr auth \<and> auth \<noteq> []"
proof -
  let ?M = "form_minter_of toy_form (\<lambda>i. toy_mint_world)"
  obtain g where g: "ca_GrantError toy_denial = Some g" "ge_OmitClientAssertion g" by (simp add: toy_denial_def)
  have tr: "trim_space ''upstream'' = ''upstream''" "trim_space '' denied '' = ''denied''" by code_simp+
  have "FormMinter_Approve toy_form toy_mint_world (grant_error_Request g) = Inl (Refusal 400 ''denied'')"
    using g(2)
    by (simp add: FormMinter_Approve_def fetchUpstreamToken_def toy_form_def toy_mint_world_def maxMintBytes_def
        approve_assertion_def grant_error_Request_def service_answer_def tr)
  then have "runGrantErrorCase toy_harness ?M 1 g = None"
    by (simp add: runGrantErrorCase_def form_minter_of_def isOpaqueDenial_def toy_harness_sel toy_denier_def)
  then have "runCase toy_harness ?M (NewVerifier (run_config toy_suite sample_registry)) sample_registry toy_suite
      toy_moment 1 toy_denial (\<lambda>i. NewKeySet 0 0) = Some (None, \<lambda>i. NewKeySet 0 0)"
    using g(1) by (simp add: runCase_def) (simp add: toy_denial_def)
  from passed_case[OF this _ toy_payload] have "case_answered toy_harness sample_registry toy_suite ?M toy_moment 1 toy_denial"
    by (simp add: asserted_def toy_denial_def)
  from refusal_is_the_services[OF this] g(1) show ?thesis by auto
qed

end
