(* ===== verification/Hop.thy ===== *)
theory Hop
  imports ServeProps Transport Replay
begin

text \<open>
  The hop: \<open>internal/transport/nats/nats.go\<close> as the invoker of the HTTP surface. \<open>Transport\<close> models one
  call over the bus (\<open>nats_Invoke\<close>); here it is put behind the seam \<open>hd_Invoke\<close> the surface calls, with
  the rest of the adapter (\<open>New\<close>, \<open>newCallID\<close>, the timings of a round, \<open>Watch\<close>), and what a caller sees
  of a hop that failed is followed from the bus to the wire.
\<close>

section \<open>The adapter\<close>

text \<open>Durations are nanoseconds. A zero or negative setting falls back where it is used.\<close>

definition millisecond :: int where "millisecond = 1000000"

record nats_transport =
  nt_DiscoverWait :: int
  nt_DiscoverStall :: int
  nt_DiscoverConcurrency :: int

definition New :: nats_transport where
  "New = \<lparr>nt_DiscoverWait = 2000 * millisecond, nt_DiscoverStall = 100 * millisecond,
          nt_DiscoverConcurrency = 8\<rparr>"

text \<open>\<open>left\<close> is what is left until the caller's deadline, when it has one.\<close>

definition round_ceiling :: "nats_transport \<Rightarrow> int option \<Rightarrow> int" where
  "round_ceiling T left =
     (let wait = (if nt_DiscoverWait T \<le> 0 then 2000 * millisecond else nt_DiscoverWait T)
      in case left of
           None \<Rightarrow> wait
         | Some d \<Rightarrow> if d < wait then d else wait)"

definition round_limit :: "nats_transport \<Rightarrow> int" where
  "round_limit T = (if nt_DiscoverConcurrency T \<le> 0 then 8 else nt_DiscoverConcurrency T)"

definition round_stall :: "nats_transport \<Rightarrow> int" where
  "round_stall T = (if nt_DiscoverStall T \<le> 0 then 100 * millisecond else nt_DiscoverStall T)"

datatype event_kind = Added | Removed

record watch_event =
  we_Kind :: event_kind
  we_Service :: service
  we_Err :: "go_err option"

definition Watch :: "go_err + watch_event list" where
  "Watch = Inl (Plain ''watch is not implemented; poll Services instead'')"

text \<open>The random bytes, when there are any, and the clock.\<close>

definition call_hex :: "bytes \<Rightarrow> string" where
  "call_hex bs = concat (map (\<lambda>b. [hexDigit (unat b div 16), hexDigit (unat b mod 16)]) bs)"

definition newCallID :: "bytes option \<Rightarrow> nat \<Rightarrow> string" where
  "newCallID r unix_nano =
     (case r of
        None \<Rightarrow> ''call_'' @ dec unix_nano
      | Some bs \<Rightarrow> ''call_'' @ call_hex bs)"

text \<open>The text of the typed error; the model keeps its code and message.\<close>

definition coded_text :: "string \<Rightarrow> string \<Rightarrow> string \<Rightarrow> string" where
  "coded_text procedure code msg = procedure @ '' returned '' @ code @ '': '' @ msg"

text \<open>
  The adapter behind the seam: the context the chain built is the one on the Go context, the deadline
  and the random bytes are read when the call is made.
\<close>

definition nats_invoker ::
  "bus \<Rightarrow> (hist \<Rightarrow> int option) \<Rightarrow> (hist \<Rightarrow> bytes option \<times> nat) \<Rightarrow> invoker" where
  "nats_invoker B deadline rnd = (\<lambda>hist ic procedure req d.
     Returns (nats_Invoke B hist
       \<lparr>wc_deadline = deadline hist, wc_context = Some ic,
        wc_new_id = (case rnd hist of (r, t) \<Rightarrow> newCallID r t)\<rparr> procedure req d))"

section \<open>What a hop asserts\<close>

lemma newCallID_nonempty [simp]: "newCallID r t \<noteq> []"
  by (simp add: newCallID_def split: option.split)

text \<open>The header a tool reads always names the call, and is the chain's own context when that does.\<close>

lemma invocationFor_named:
  "wc_new_id w \<noteq> [] \<Longrightarrow> ic_CallId (fst (invocationFor w)) \<noteq> []"
  by (simp add: invocationFor_def Let_def)

lemma invocationFor_chain:
  "wc_context w = Some ic \<Longrightarrow> ic_CallId ic \<noteq> [] \<Longrightarrow> invocationFor w = (ic, wc_deadline w)"
  by (simp add: invocationFor_def)

lemma round_ceiling_bounds:
  "round_ceiling T (Some d) \<le> d" "0 < round_ceiling T None" "0 < round_limit T" "0 < round_stall T"
  by (simp_all add: round_ceiling_def round_limit_def round_stall_def millisecond_def Let_def)

section \<open>How a hop can end\<close>

datatype hop_end = HopAnswered pmsg | HopUnreachable | HopRefused string string | HopFailed go_err

text \<open>
  What the bus said, read off the broker's reply alone. A hop that failed any other way is its error:
  the adapter's words for where it failed around the library's own, or the tool's code and message
  when the code is none the chain knows.
\<close>

definition reply_end :: "bus \<Rightarrow> string \<Rightarrow> md option \<Rightarrow> bus_reply \<Rightarrow> hop_end" where
  "reply_end B procedure out r =
     (case r of
        NobodyListening \<Rightarrow> HopUnreachable
      | BusErr e \<Rightarrow> HopFailed (Wrapped (''calling '' @ procedure) [Plain e])
      | BusReply code msg data \<Rightarrow>
          if code \<noteq> []
          then (if code \<in> fst ` set toolRefusals then HopRefused code msg else HopFailed (CodedError code msg))
          else (case bu_Unmarshal B out data of
             Inl e \<Rightarrow> HopFailed
               (Wrapped (procedure @ '' replied with something that is not its declared response'') [Plain e])
           | Inr resp \<Rightarrow> HopAnswered resp))"

definition hop_end_of ::
  "bus \<Rightarrow> hist \<Rightarrow> invocation_context \<times> int option \<Rightarrow> string \<Rightarrow> pmsg \<Rightarrow> md option \<Rightarrow> hop_end" where
  "hop_end_of B hist sent procedure req out =
     (case bu_Marshal B req of
        Inl e \<Rightarrow> HopFailed (Wrapped (''marshalling the request for '' @ procedure) [Plain e])
      | Inr body \<Rightarrow>
          (case bu_Encode B (fst sent) (snd sent) of
             Inl e \<Rightarrow> HopFailed (Wrapped (''encoding the invocation context for '' @ procedure) [Plain e])
           | Inr encoded \<Rightarrow>
               reply_end B procedure out (bu_Request B hist (bu_Subject B procedure) encoded body)))"

text \<open>An error that is nothing the chain or the surface has a case for.\<close>

definition opaque_err :: "go_err \<Rightarrow> bool" where
  "opaque_err e \<longleftrightarrow> toolRefusalOf e = None \<and> as_refusal e = None \<and> as_validation e = None \<and>
     as_connect e = None \<and> (\<forall>s. \<not> err_is e s)"

lemma as_Wrapped_Plain [simp]:
  "as_refusal (Wrapped t [Plain e]) = None" "as_validation (Wrapped t [Plain e]) = None"
  "as_connect (Wrapped t [Plain e]) = None" "as_coded (Wrapped t [Plain e]) = None"
  "as_coded (Wrapped t [Sentinel s]) = None" "as_refusal (Wrapped t [Sentinel s]) = None"
  "as_validation (Wrapped t [Sentinel s]) = None" "as_connect (CodedError c m) = None"
  "as_validation (CodedError c m) = None"
  by (simp_all add: as_refusal_def as_validation_def as_connect_def as_coded_def)

lemma opaque_Plain [simp]: "opaque_err (Wrapped t [Plain e])"
  by (simp add: opaque_err_def toolRefusalOf_def)

lemma opaque_coded: "code \<notin> fst ` set toolRefusals \<Longrightarrow> opaque_err (CodedError code msg)"
proof -
  assume "code \<notin> fst ` set toolRefusals"
  then have "map_of toolRefusals code = None" by (simp add: map_of_eq_None_iff)
  then show ?thesis by (simp add: opaque_err_def toolRefusalOf_def)
qed

lemma refusal_coded: "code \<in> fst ` set toolRefusals \<Longrightarrow> toolRefusalOf (CodedError code msg) = Some (code, msg)"
  by (auto simp: toolRefusalOf_def map_of_eq_None_iff split: option.split)

lemma nats_Invoke_end:
  "case hop_end_of B hist (invocationFor w) procedure req out of
     HopAnswered resp \<Rightarrow> nats_Invoke B hist w procedure req out = Inr resp
   | HopUnreachable \<Rightarrow>
       nats_Invoke B hist w procedure req out = Inl (Wrapped procedure [Sentinel SUnreachable])
   | HopRefused code msg \<Rightarrow> code \<in> fst ` set toolRefusals \<and>
       nats_Invoke B hist w procedure req out = Inl (CodedError code msg)
   | HopFailed e \<Rightarrow> nats_Invoke B hist w procedure req out = Inl e \<and> opaque_err e"
  by (auto simp: hop_end_of_def reply_end_def nats_Invoke_def opaque_coded
      split: sum.split bus_reply.split)

section \<open>A failed hop inside the chain\<close>

text \<open>The error the chain refuses with, and how the row reads, when the resolver answered an error.\<close>

definition hop_refusal :: "go_err \<Rightarrow> go_err" where
  "hop_refusal e = (case toolRefusalOf e of Some (code, msg) \<Rightarrow> ToolRefusal code | None \<Rightarrow> e)"

definition hop_row :: "go_err \<Rightarrow> event \<Rightarrow> event" where
  "hop_row e ev =
     (case toolRefusalOf e of
        Some (code, msg) \<Rightarrow> ev\<lparr>ev_Outcome := OutcomeDenied, ev_ErrorKind := ErrorKindToolRefused,
                              ev_ErrorDetail := DToolRefused code msg\<rparr>
      | None \<Rightarrow> error_because (DErr e) ev)"

lemma hop_row_ID [simp]: "ev_ID (hop_row e ev) = ev_ID ev"
  by (simp add: hop_row_def error_because_def split: option.split)

lemma resolveStep_failed:
  assumes "f (s_hist s) (invocationContext E x p (s_hist s) (ev_ID (s_ev s))) req = Returns (RErr e)"
  shows "resolveStep E x p procedure req (Some f) s =
     (Fail (hop_refusal e), s\<lparr>s_hist := EResolve procedure req
        (invocationContext E x p (s_hist s) (ev_ID (s_ev s))) # s_hist s, s_ev := hop_row e (s_ev s)\<rparr>)"
  using assms
  by (simp add: resolveStep_def resolve_def step_defs hop_refusal_def hop_row_def split: option.split)

lemma body_front:
  assumes "chain_body E R x po procedure reqo fn (start E c h po procedure) = (r, s')"
    and "\<not> quiet h (s_hist s')"
  obtains p req s1 where "po = Some p"
    "chain_front E R x p procedure reqo (start E c h (Some p) procedure) = (Ok req, s1)"
    "quiet h (s_hist s1)" "ev_ID (s_ev s1) = en_NewEventID E h"
    "sbind (resolveStep E x p procedure req fn) (\<lambda>a. sbind (chain_back E x p a) mark_ok) s1 = (r, s')"
proof (cases po)
  case None
  then show thesis using assms by (auto simp: chain_body_def srefuse_def)
next
  case (Some p)
  obtain r1 s1 where b: "chain_front E R x p procedure reqo (start E c h (Some p) procedure) = (r1, s1)"
    by (metis surj_pair)
  have q: "quiet h (s_hist s1)" using quiet_front[OF front.effects[OF b]] by simp
  show thesis
  proof (cases r1)
    case (Ok req)
    note F = front_Ok[OF b[unfolded Ok], simplified]
    have "sbind (resolveStep E x p procedure req fn) (\<lambda>a. sbind (chain_back E x p a) mark_ok) s1 = (r, s')"
      using assms(1) b Ok Some by (simp add: chain_body_def sbind_def)
    then show thesis using that[OF Some b[unfolded Ok] q] F by simp
  qed (use assms b Some q in \<open>simp_all add: chain_body_def sbind_def\<close>)
qed

text \<open>
  The resolver ran and answered an error: the chain refuses with what that error comes to, and the one
  row written after the run says which it was. Only the sink of the closing audit record can replace
  the answer, by panicking.
\<close>

lemma invoke_hop_failed:
  assumes "o_hist (invoke E R c h x po procedure reqo (Some f)) = es @ h" "EResolve pr m ic \<in> set es"
  obtains post pre where "es = post @ EResolve procedure m ic # pre" "pr = procedure"
    "ic_CallId ic = en_NewEventID E h"
    "\<And>e. f (pre @ h) ic m = Returns (RErr e) \<Longrightarrow>
       \<exists>ev0. ev_ID ev0 = en_NewEventID E h \<and> ERecord (hop_row e ev0) \<in> set post \<and>
         filter is_row es = [ERecord (hop_row e ev0)] \<and>
         o_eventID (invoke E R c h x po procedure reqo (Some f)) =
           (if x_EventID x then Some (en_NewEventID E h) else None) \<and>
         ((\<forall>a g ev. c_audit c = Some a \<longrightarrow> (\<forall>z. as_Write a g ev \<noteq> Panics z)) \<longrightarrow>
           o_answer (invoke E R c h x po procedure reqo (Some f)) = Refused (hop_refusal e))"
proof -
  obtain r s where body: "chain_body E R x po procedure reqo (Some f) (start E c h po procedure) = (r, s)"
    by (metis surj_pair)
  have inv: "invoke E R c h x po procedure reqo (Some f) = finish x r s" using body by (simp add: invoke_def)
  obtain ans ev q where fin: "settle r (s_ev s) = (ans, ev)"
    "auditOutcome (s_core s) (s_tool s) ev (recordRow (s_core s) ev (s_hist s)) = (q, es @ h)"
    "grown after_row (ERecord ev # s_hist s) (es @ h)"
    "o_answer (finish x r s) = (case q of Some z \<Rightarrow> Repanicked z | None \<Rightarrow> ans)"
    "o_eventID (finish x r s) = (if x_EventID x then Some (ev_ID ev) else None)"
    using assms(1) inv by (cases rule: finish_cases[of r s x]) auto
  have "\<exists>e \<in> set es. is_resolve e" by (rule bexI[OF _ assms(2)]) simp
  then have "\<not> quiet h (es @ h)" by (simp add: grown_def)
  then have loud: "\<not> quiet h (s_hist s)" using quiet_row[OF fin(3)] grown_trans by blast
  have au: "c_audit (s_core s) = c_audit c"
    using body_law[OF body] bare_audit[of "s_core s" c] by (simp add: framed_def)
  have rows: "filter is_row es = [ERecord ev]"
    using grown_filter[OF _ fin(3)] body_law[OF body] by (auto simp: framed_def)
  from body loud show thesis
  proof (cases rule: body_front)
    case (1 p req s1)
    let ?ic = "invocationContext E x p (s_hist s1) (en_NewEventID E h)"
    let ?z = "EResolve procedure req ?ic"
    have "quiet (?z # s_hist s1) (s_hist s)"
      using resolved_quiet[OF 1(5)] loud 1(3,4) grown_trans by fastforce
    then have "quiet (?z # s_hist s1) (es @ h)" using quiet_row[OF fin(3)] grown_trans by blast
    from split_at_unique[OF 1(3) this] obtain post pre where
      sp: "es = post @ ?z # pre" "s_hist s1 = pre @ h" "\<forall>a \<in> set (post @ pre). \<not> is_resolve a" by auto
    have "EResolve pr m ic \<notin> set (post @ pre)" using sp(3) by fastforce
    then have z: "pr = procedure" "m = req" "ic = ?ic" using assms(2) sp(1) by simp_all
    show thesis
    proof (rule that[of post pre])
      show "es = post @ EResolve procedure m ic # pre" "pr = procedure" using sp(1) z by simp_all
      show "ic_CallId ic = en_NewEventID E h" by (simp add: z(3) invocationContext_def Let_def)
      fix e assume "f (pre @ h) ic m = Returns (RErr e)"
      then have "f (s_hist s1) (invocationContext E x p (s_hist s1) (ev_ID (s_ev s1))) req = Returns (RErr e)"
        using sp(2) z 1(4) by simp
      note R = resolveStep_failed[of f, OF this, of procedure]
      have end1: "r = Fail (hop_refusal e)" "s_ev s = hop_row e (s_ev s1)" "s_hist s = ?z # s_hist s1"
        using 1(5) unfolding sbind_def R by (auto simp: 1(4))
      then have row: "ans = Refused (hop_refusal e)" "ev = hop_row e (s_ev s1)"
        using fin(1) by (simp_all add: settle_def)
      obtain post' where "es @ h = post' @ ERecord ev # s_hist s" using fin(3) by (auto simp: grown_def)
      then have "post = post' @ [ERecord ev]" using sp(1,2) end1(3) by simp
      moreover have "q = None" if free: "\<forall>a g ev. c_audit c = Some a \<longrightarrow> (\<forall>z. as_Write a g ev \<noteq> Panics z)"
      proof (cases q)
        case (Some z)
        then obtain a where "c_audit c = Some a"
            "as_Write a (recordRow (s_core s) ev (s_hist s)) ev = Panics z"
          using auditOutcome_panics[of "s_core s" "s_tool s" ev "recordRow (s_core s) ev (s_hist s)" z "es @ h"]
            fin(2) au by auto
        then show ?thesis using free by blast
      qed
      ultimately show "\<exists>ev0. ev_ID ev0 = en_NewEventID E h \<and> ERecord (hop_row e ev0) \<in> set post \<and>
         filter is_row es = [ERecord (hop_row e ev0)] \<and>
         o_eventID (invoke E R c h x po procedure reqo (Some f)) =
           (if x_EventID x then Some (en_NewEventID E h) else None) \<and>
         ((\<forall>a g ev. c_audit c = Some a \<longrightarrow> (\<forall>z. as_Write a g ev \<noteq> Panics z)) \<longrightarrow>
           o_answer (invoke E R c h x po procedure reqo (Some f)) = Refused (hop_refusal e))"
        using row 1(4) fin(4,5) inv rows by (intro exI[of _ "s_ev s1"]) auto
    qed
  qed
qed

section \<open>From the bus to the wire\<close>

text \<open>What the caller of a tool is told of a hop that did not answer: by the kind of its end alone.\<close>

definition told :: "surface \<Rightarrow> string option \<Rightarrow> tooldef \<Rightarrow> hop_end \<Rightarrow> response option" where
  "told F eid d e =
     (case e of
        HopAnswered resp \<Rightarrow> None
      | HopUnreachable \<Rightarrow>
          Some (writeErr eid 503 ''unavailable'' (t_FQN d @ '' is declared but no service is serving it''))
      | HopRefused code msg \<Rightarrow> Some (writeToolRefused eid code)
      | HopFailed e \<Rightarrow> Some (writeErr eid 500 (sf_CodeName F CodeInternal) ''internal error''))"

text \<open>And what the ledger keeps of it: the tool's code and words, or the error itself.\<close>

definition ledgered :: "string \<Rightarrow> hop_end \<Rightarrow> event \<Rightarrow> bool" where
  "ledgered procedure e ev =
     (case e of
        HopAnswered resp \<Rightarrow> True
      | HopUnreachable \<Rightarrow> ev_Outcome ev = OutcomeError \<and>
          ev_ErrorDetail ev = DErr (Wrapped procedure [Sentinel SUnreachable])
      | HopRefused code msg \<Rightarrow> ev_Outcome ev = OutcomeDenied \<and> ev_ErrorKind ev = ErrorKindToolRefused \<and>
          ev_ErrorDetail ev = DToolRefused code msg
      | HopFailed err \<Rightarrow> ev_Outcome ev = OutcomeError \<and> ev_ErrorDetail ev = DErr err)"

lemma answer_opaque:
  assumes "codeOf_spec (sf_CodeOf F)" "opaque_err e"
  shows "fst (writeChainErr F eid d e) = writeErr eid 500 (sf_CodeName F CodeInternal) ''internal error''"
proof -
  have "codeFor e = None" using assms(2) by (simp add: codeFor_def opaque_err_def)
  then have "codeToAnswerWith F e = CodeInternal"
    using assms by (simp add: codeToAnswerWith_def CodeOf_def asConnectError_def codeOf_spec_def opaque_err_def)
  from refuse_wire_code[OF assms(1) this] show ?thesis
    using assms(2) by (simp add: writeChainErr_def opaque_err_def static_message_def staticMessages_def)
qed

lemma hop_end_told:
  assumes "codeOf_spec (sf_CodeOf F)"
    and "nats_Invoke B hist w procedure req out = Inl e"
  shows "told F eid d (hop_end_of B hist (invocationFor w) procedure req out) =
       Some (fst (writeChainErr F eid d (hop_refusal e)))"
    and "ledgered procedure (hop_end_of B hist (invocationFor w) procedure req out) (hop_row e ev)"
proof -
  let ?fate = "hop_end_of B hist (invocationFor w) procedure req out"
  note N = nats_Invoke_end[of B hist w procedure req out]
  have "told F eid d ?fate = Some (fst (writeChainErr F eid d (hop_refusal e))) \<and> ledgered procedure ?fate (hop_row e ev)"
  proof (cases ?fate)
    case HopUnreachable
    then have "e = Wrapped procedure [Sentinel SUnreachable]" using N assms(2) by simp
    then show ?thesis
      by (simp add: told_def ledgered_def HopUnreachable writeChainErr_def hop_refusal_def hop_row_def
          toolRefusalOf_def error_because_def)
  next
    case (HopRefused code msg)
    then have "toolRefusalOf e = Some (code, msg)" using N assms(2) refusal_coded by auto
    then show ?thesis
      by (simp add: told_def ledgered_def HopRefused writeChainErr_def hop_refusal_def hop_row_def as_validation_def)
  next
    case (HopFailed err)
    then have e: "err = e" "opaque_err e" using N assms(2) by auto
    then have "toolRefusalOf e = None" by (simp add: opaque_err_def)
    with e show ?thesis
      using answer_opaque[OF assms(1)]
      by (auto simp: told_def ledgered_def HopFailed hop_refusal_def hop_row_def error_because_def)
  next
    case (HopAnswered resp)
    then show ?thesis using N assms(2) by simp
  qed
  then show "told F eid d ?fate = Some (fst (writeChainErr F eid d (hop_refusal e)))"
    "ledgered procedure ?fate (hop_row e ev)" by blast+
qed

text \<open>A request that made a tool run is one run of the chain, with the tool's own hop as the resolver.\<close>

lemma surface_handler: "surface_ok E h \<Longrightarrow> handler_ok E h"
  by (simp add: surface_ok_def)

lemma served_call:
  assumes "handler_ok E h" "one_gen h g" "EResolve procedure m ic \<in> set es"
    and "sd_Hist (ServeHTTP F E v K who rc (Some g) h hist q) = es @ hist"
  obtains pl h1 p d req js where "plane_for E h g pl"
    "planeFor E v h g = (Inr pl, h1)" "principal_of who (pl_reg pl) q = Inr p"
    "lookup_route (ct_Defs (snd g)) (hq_Path q) = Some d" "t_FullMethod d = hq_Path q"
    "ServeHTTP F E v K who rc (Some g) h hist q = call_tool F (gen_env E (snd g)) K h1 hist pl p d q js req"
    "Invoke (gen_env E (snd g)) K (pl_core pl) hist (request_ctx q) (Some p) (hq_Path q) (Some req) =
       invoke (gen_env E (snd g)) K (pl_core pl) hist (request_ctx q) (Some p) (hq_Path q) (Some req)
         (Some (hop_resolver h d))"
proof (cases rule: ServeHTTP_cases[of q F E v K who rc "Some g" h hist])
  case (stranger g' pl h1 cause e hist' eid)
  have "\<forall>a \<in> set es. closing_effect a \<or> is_row a"
    using Unauthenticated_row(3)[OF stranger(5)] stranger(6) assms(4) by (auto simp: request_ctx_def)
  then show ?thesis using assms(3) by auto
next
  case (known g' pl h1 p)
  have g: "g' = g" using known(2) by simp
  have pl: "plane_for E h g pl" using planeFor_ok[OF assms(1,2)] known(3) g by blast
  have pf: "planeFor E v h g = (Inr pl, h1)" using known(3) g by simp
  show ?thesis
  proof (cases rule: route_cases[of q F "gen_env E (snd g)" pl p K rc h1 hist g])
    case (call d raw i req)
    have d: "d \<in> set (ct_Defs (snd g))" "t_FullMethod d = hq_Path q" using lookup_route_iff[OF call(2)] by auto
    then have "resolverFor (pl_core pl) (hq_Path q) = Some (hop_resolver h d)"
      using pl unfolding plane_for_def by metis
    then show ?thesis
      by (intro that[OF pl pf known(4) call(2) d(2)]) (use known(5) call(7) g in \<open>simp_all add: Invoke_def\<close>)
  qed (use assms(3,4) known(5) g in auto)
qed (use assms(3,4) in auto)

text \<open>
  C21: A tool's failure reaches the caller as its kind and the ledger as its words. When the adapter is the
  hop, the audit sink does not panic and a request made a tool run, the call went out once, under the
  id of the ledger row and with the chain's own context; and unless the service answered, the caller is
  told only which of three things happened (nothing is serving the tool, the tool refused with a known
  code, the hop failed), each in a fixed sentence that depends on neither the message, the payload nor
  the error, while the one row of the call holds the tool's code and message when it refused with a
  known code, and otherwise the very error the hop ended with: where it failed and the library's words,
  or the unknown code and its message.
\<close>

theorem hop_failure_is_classified:
  assumes "surface_ok E h" "one_gen h g" "codeOf_spec (sf_CodeOf F)"
    and "hd_Invoke h = nats_invoker B deadline rnd" "en_NewEventID E hist \<noteq> []"
    and "\<forall>a g ev z. hd_Audit h = Some a \<longrightarrow> as_Write a g ev \<noteq> Panics z"
    and "sd_Hist (ServeHTTP F E v K who rc (Some g) h hist q) = es @ hist"
    and "EResolve procedure m ic \<in> set es"
  shows "\<exists>post pre d. es = post @ EResolve procedure m ic # pre \<and>
     lookup_route (ct_Defs (snd g)) procedure = Some d \<and> ic_CallId ic = en_NewEventID E hist \<and>
     (let ended = hop_end_of B (pre @ hist) (ic, deadline (pre @ hist)) procedure m (t_Output d);
          eid = Some (en_NewEventID E hist)
      in \<forall>resp. told F eid d ended = Some resp \<longrightarrow>
           sd_Answer (ServeHTTP F E v K who rc (Some g) h hist q) = Written resp \<and>
           (\<exists>ev. filter is_row es = [ERecord ev] \<and> ERecord ev \<in> set post \<and>
                 ev_ID ev = en_NewEventID E hist \<and> ledgered procedure ended ev))"
proof -
  let ?S = "ServeHTTP F E v K who rc (Some g) h hist q" and ?id = "en_NewEventID E hist"
  obtain pl h1 p d req js where call: "plane_for E h g pl"
    "lookup_route (ct_Defs (snd g)) (hq_Path q) = Some d" "t_FullMethod d = hq_Path q"
    "?S = call_tool F (gen_env E (snd g)) K h1 hist pl p d q js req"
    "Invoke (gen_env E (snd g)) K (pl_core pl) hist (request_ctx q) (Some p) (hq_Path q) (Some req) =
       invoke (gen_env E (snd g)) K (pl_core pl) hist (request_ctx q) (Some p) (hq_Path q) (Some req)
         (Some (hop_resolver h d))"
    by (rule served_call[OF surface_handler[OF assms(1)] assms(2,8,7)])
  let ?run = "invoke (gen_env E (snd g)) K (pl_core pl) hist (request_ctx q) (Some p) (hq_Path q)
        (Some req) (Some (hop_resolver h d))"
  have "o_hist ?run = es @ hist" using assms(7) call(3,4,5) by (simp add: call_tool_sel)
  then show ?thesis using assms(8)
  proof (cases rule: invoke_hop_failed)
    case (1 post pre)
    have id: "ic_CallId ic = ?id" using 1(3) by simp
    let ?w = "\<lparr>wc_deadline = deadline (pre @ hist), wc_context = Some ic,
        wc_new_id = (case rnd (pre @ hist) of (r, t) \<Rightarrow> newCallID r t)\<rparr>"
    let ?fate = "hop_end_of B (pre @ hist) (ic, deadline (pre @ hist)) procedure m (t_Output d)"
    have sent: "invocationFor ?w = (ic, deadline (pre @ hist))"
      using invocationFor_chain[of ?w ic] id assms(5) by simp
    have "sd_Answer ?S = Written resp \<and>
         (\<exists>ev. filter is_row es = [ERecord ev] \<and> ERecord ev \<in> set post \<and> ev_ID ev = ?id \<and>
            ledgered procedure ?fate ev)"
      if told: "told F (Some ?id) d ?fate = Some resp" for resp
    proof -
      obtain e where e: "nats_Invoke B (pre @ hist) ?w procedure m (t_Output d) = Inl e"
        using told nats_Invoke_end[of B "pre @ hist" ?w procedure m "t_Output d"]
        by (auto simp only: sent told_def split: hop_end.splits)
      note T = hop_end_told[OF assms(3) e, unfolded sent]
      have "hop_resolver h d (pre @ hist) ic m = Returns (RErr e)"
        using e by (simp add: hop_resolver_def assms(4) nats_invoker_def 1(2) call(3))
      then obtain ev0 where ev0: "ev_ID ev0 = ?id" "ERecord (hop_row e ev0) \<in> set post"
        "filter is_row es = [ERecord (hop_row e ev0)]" "o_answer ?run = Refused (hop_refusal e)" "o_eventID ?run = Some ?id"
        using 1(4)[of e] assms(6) call(1) by (auto simp: plane_for_def request_ctx_def)
      have "sd_Answer ?S = Written (fst (writeChainErr F (Some ?id) d (hop_refusal e)))"
        unfolding call(4) call_tool_def Let_def using call(3,5) ev0(4,5) assms(5) by (simp add: setEventID_def)
      then show ?thesis using told T(1) T(2)[of ev0] ev0(1,2,3) by (intro conjI exI[of _ "hop_row e ev0"]) auto
    qed
    then show ?thesis using 1(1) call(2) id 1(2) by (auto simp: Let_def)
  qed
qed

section \<open>A tool that refuses, evaluated\<close>

definition toy_bus :: bus where
  "toy_bus =
     \<lparr>bu_Marshal = (\<lambda>m. Inr ''body''), bu_Encode = (\<lambda>ic d. Inr (ic_CallId ic)), bu_Subject = id,
      bu_Request = (\<lambda>hist subject header body. BusReply ''404'' ''row 17 of /etc/passwd'' []),
      bu_Unmarshal = (\<lambda>out data. Inr (Msg 0 []))\<rparr>"

definition bus_handler :: "unit handler" where
  "bus_handler = toy_handler\<lparr>hd_Invoke := nats_invoker toy_bus (\<lambda>hist. None) (\<lambda>hist. (None, 7))\<rparr>"

abbreviation bus_serve :: "unit served" where
  "bus_serve \<equiv> ServeHTTP toy_surface sample_env toy_validator sample_rules toy_who None (Some toy_gen)
     bus_handler [] (toy_request ''/a.S/GetIt'' ''alice'')"

lemma bus_resolves: "list_ex effect_resolves (sd_Hist bus_serve)"
  by code_simp

lemma hop_failure_is_classified_witness:
  "sd_Answer bus_serve = Written (writeToolRefused (Some (en_NewEventID sample_env [])) ''404'')"
proof -
  obtain procedure m ic where r: "EResolve procedure m ic \<in> set (sd_Hist bus_serve)"
    using bus_resolves by (auto simp: list_ex_iff elim: effect_resolves.elims)
  have h: "surface_ok sample_env bus_handler" "one_gen bus_handler toy_gen"
    "hd_Invoke bus_handler = nats_invoker toy_bus (\<lambda>hist. None) (\<lambda>hist. (None, 7))" "hd_Audit bus_handler = None"
    by (simp_all add: surface_ok_def handler_ok_def one_gen_def toy_handler_def bus_handler_def)
  have n: "en_NewEventID sample_env [] \<noteq> []" by (simp add: sample_env_def)
  have "hop_end_of toy_bus g (ic, x) p m out = HopRefused ''404'' ''row 17 of /etc/passwd''" for g x p out
    by (simp add: hop_end_of_def reply_end_def toy_bus_def toolRefusals_def)
  moreover have "\<forall>a g ev z. hd_Audit bus_handler = Some a \<longrightarrow> as_Write a g ev \<noteq> Panics z" by (simp add: h(4))
  ultimately show ?thesis
    using hop_failure_is_classified[OF h(1,2) toy_surface_spec h(3) n _ append_Nil2[symmetric] r]
    by (auto simp: told_def Let_def)
qed

end
