(* ===== verification/Report.thy ===== *)
theory Report
  imports Check ServeProps
begin

text \<open>
  What a process says: the startup report of the root package's \<open>serve.go\<close> (up to the connection, and
  once it listens), \<open>chainBanner\<close> of \<open>grants.go\<close>, the report of \<open>cmd/garmd/check.go\<close>, and the numbers in
  them (\<open>bytesHuman\<close>, \<open>retentionText\<close>, and of the standard library \<open>time.Duration.String\<close>, \<open>%d\<close>, \<open>%-44s\<close>
  and \<open>%.1f\<close>). A report that would panic is \<open>None\<close>.

  Names and messages are byte strings; \<open>%-44s\<close> counts runes, which are bytes in a name of the schema.
\<close>

section \<open>Numbers\<close>

definition nl :: string where "nl = [CHR 0x0A]"

definition int_text :: "int \<Rightarrow> string" where
  "int_text i = (if i < 0 then CHR ''-'' # dec (nat (- i)) else dec (nat i))"

definition pad_right :: "nat \<Rightarrow> string \<Rightarrow> string" where
  "pad_right n s = s @ replicate (n - length s) (CHR '' '')"

text \<open>
  \<open>%.1f\<close> of a quotient of two integers below 2^53, the divisor a power of two: both conversions and the
  division are exact, and the formatter rounds the exact decimal to nearest, ties to even.
\<close>

definition tenths :: "int \<Rightarrow> int \<Rightarrow> int" where
  "tenths n d =
     (let q = 10 * n div d; r = 10 * n mod d
      in if 2 * r > d \<or> (2 * r = d \<and> odd q) then q + 1 else q)"

definition one_decimal :: "int \<Rightarrow> int \<Rightarrow> string" where
  "one_decimal n d = int_text (tenths n d div 10) @ ''.'' @ int_text (tenths n d mod 10)"

text \<open>The loop of \<open>bytesHuman\<close>: \<open>m\<close> shrinks while \<open>div\<close> and \<open>exp\<close> grow.\<close>

function unit_loop :: "int \<Rightarrow> int \<Rightarrow> nat \<Rightarrow> int \<times> nat" where
  "unit_loop m d e = (if m \<ge> 1024 then unit_loop (m div 1024) (d * 1024) (e + 1) else (d, e))"
  by pat_completeness auto
termination
  by (relation "measure (\<lambda>(m, d, e). nat m)") auto

declare unit_loop.simps [simp del]

definition bytesHuman :: "int \<Rightarrow> string option" where
  "bytesHuman n =
     (if n < 1024 then Some (int_text n @ '' B'')
      else (case unit_loop (n div 1024) 1024 0 of
        (d, e) \<Rightarrow>
          if e < length ''KMGT'' then Some (one_decimal n d @ '' '' @ [''KMGT'' ! e] @ ''iB'') else None))"

section \<open>Durations\<close>

fun digits_of :: "nat \<Rightarrow> nat \<Rightarrow> string" where
  "digits_of 0 v = []"
| "digits_of (Suc p) v = digits_of p (v div 10) @ [char_of (48 + v mod 10)]"

text \<open>\<open>fmtFrac\<close>: the last \<open>p\<close> digits without trailing zeros, the point only if one is left.\<close>

definition frac_text :: "nat \<Rightarrow> nat \<Rightarrow> string" where
  "frac_text v p =
     (let ds = rev (dropWhile (\<lambda>c. c = CHR ''0'') (rev (digits_of p v)))
      in if ds = [] then [] else CHR ''.'' # ds)"

definition small_duration :: "nat \<Rightarrow> string" where
  "small_duration u =
     (if u = 0 then ''0s''
      else if u < 1000 then dec u @ ''ns''
      else if u < 1000000 then dec (u div 1000) @ frac_text u 3 @ [CHR 0xC2, CHR 0xB5] @ ''s''
      else dec (u div 1000000) @ frac_text u 6 @ ''ms'')"

definition clock_duration :: "nat \<Rightarrow> string" where
  "clock_duration u =
     (let s = u div 1000000000; m = s div 60; h = m div 60
      in (if h > 0 then dec h @ ''h'' else []) @ (if m > 0 then dec (m mod 60) @ ''m'' else []) @
         dec (s mod 60) @ frac_text u 9 @ ''s'')"

definition duration_text :: "int \<Rightarrow> string" where
  "duration_text d =
     (let u = nat \<bar>d\<bar>
      in (if d < 0 then ''-'' else []) @ (if u < 1000000000 then small_duration u else clock_duration u))"

definition retentionText :: "int \<Rightarrow> string" where
  "retentionText d = (if d = 0 then ''indefinite'' else duration_text d)"

section \<open>Sources\<close>

definition file_String :: "string \<Rightarrow> string" where "file_String path = ''file '' @ path"

definition bytes_Read :: "string \<Rightarrow> go_err + string" where "bytes_Read body = Inr body"

definition bytes_String :: "string \<Rightarrow> string" where
  "bytes_String name = (if name = [] then ''bytes'' else name)"

definition source_String :: "boot_source \<Rightarrow> string" where
  "source_String src = (case src of FromFile path \<Rightarrow> file_String path | FromObject b k \<Rightarrow> s3_String b k)"

section \<open>Up to the connection\<close>

text \<open>
  What the report is told: the version of the build, the producer and compiler of a catalogue that
  names them, the names of verbs, the two streams of the contract, the address connected to.
\<close>

record 'p voice =
  vo_Build :: "string option"
  vo_Provenance :: "'p \<Rightarrow> (string \<times> string) option"
  vo_VerbName :: "verb \<Rightarrow> string"
  vo_LedgerStream :: string
  vo_AuditStream :: string
  vo_Connected :: string

definition Version :: "string option \<Rightarrow> string" where
  "Version build = (case build of None \<Rightarrow> ''dev'' | Some v \<Rightarrow> if v = [] then ''dev'' else v)"

definition int64_of :: "nat \<Rightarrow> int" where "int64_of n = sint (word_of_nat n :: 64 word)"

definition tool_line :: "(verb \<Rightarrow> string) \<Rightarrow> tooldef \<Rightarrow> string" where
  "tool_line verb d = ''  '' @ pad_right 44 (t_FQN d) @ '' '' @ verb (t_Verb d)"

definition shown_as :: "tooldef \<Rightarrow> string" where
  "shown_as d = (if t_ClientName d \<noteq> t_Name d then ''  (callers see '' @ t_ClientName d @ '')'' else [])"

definition catalogue_lines :: "'p voice \<Rightarrow> 'p catalogue \<Rightarrow> string list" where
  "catalogue_lines V c =
     [''garmd '' @ Version (vo_Build V), ''catalogue '' @ ct_Digest c] @
     (case vo_Provenance V (ct_Provenance c) of
        None \<Rightarrow> []
      | Some (producer, compiler) \<Rightarrow> [''  built by '' @ producer @ '' ('' @ compiler @ '')'']) @
     [''  annotation schema v'' @ dec (unat (ct_SchemaVersion c)) @ '', '' @
        dec (length (ct_Compartments c)) @ '' compartment(s), '' @ dec (length (ct_ToolSets c)) @ '' tool set(s)'']"

definition budget_text :: "int \<Rightarrow> string" where
  "budget_text m = (if m > 0 then ''limit '' @ int_text m else ''no limit set'')"

definition size_line :: "int \<Rightarrow> 'p catalogue \<Rightarrow> string option" where
  "size_line budget c =
     (case bytesHuman (int (ct_Bytes c)) of
        None \<Rightarrow> None
      | Some artifact \<Rightarrow>
          (case bytesHuman (int64_of (ct_HeapBytes c)) of
             None \<Rightarrow> None
           | Some held \<Rightarrow>
               Some (''  '' @ artifact @ '', '' @ held @ '' held, '' @ dec (length (ct_Defs c)) @ '' tool(s), '' @
                     budget_text budget)))"

definition boot_report :: "'p voice \<Rightarrow> 'p store \<Rightarrow> 'p catalogue \<Rightarrow> string list option" where
  "boot_report V store c =
     map_option (\<lambda>size. catalogue_lines V c @ [size, dec (length (ct_Defs c)) @ '' tool(s) declared:''] @
         map (\<lambda>d. tool_line (vo_VerbName V) d @ shown_as d) (ct_Defs c))
       (size_line (so_maxTools store) c)"

section \<open>Once it listens\<close>

definition chainBanner :: "bool \<Rightarrow> string \<Rightarrow> string" where
  "chainBanner grantsOn issuer =
     nl @ ''  Every call goes through the chain. Steps 1, 2, 3, 6, 8 and 9 are'' @ nl @ ''  implemented.'' @ nl @
     (if grantsOn
      then ''  Step 5: approvals are verified against '' @ issuer @ '', single-use'' @ nl @
           ''  through the GARM_GRANTS_SPENT bucket.'' @ nl
      else ''  Step 5: grants are NOT verified here. A catalogue declaring a'' @ nl @
           ''  MODE_GRANT tool WILL NOT MOUNT '' @ [CHR 0xE2, CHR 0x80, CHR 0x94] @ '' set --grant-issuer.'' @ nl) @
     ''  Instance authorization (steps 4 and 7) and notify (step 10) are not'' @ nl @
     ''  implemented here, and a catalogue declaring either WILL NOT MOUNT:'' @ nl @
     ''  this process refuses to start rather than serve a tool ungated while'' @ nl @
     ''  its schema says it is supervised. See KNOWN-GAPS.md.'' @ nl @ nl"

definition issuer_line :: "string \<Rightarrow> trusted_issuer \<Rightarrow> string" where
  "issuer_line audience t =
     ''  callers verified against '' @ tr_JWKS t @ '' (issuer '' @ tr_Issuer t @ '', audience '' @ audience @ '')''"

definition ledger_line :: "'p voice \<Rightarrow> config \<Rightarrow> string" where
  "ledger_line V cfg =
     (if cf_LedgerStream cfg then ''  ledger batched to '' @ vo_LedgerStream V @ '', falling back to stdout''
      else ''  ledger to stdout only; a log rotation deletes it'')"

definition catalogue_line :: "config \<Rightarrow> boot_source \<Rightarrow> string" where
  "catalogue_line cfg src =
     (case src of
        FromObject b k \<Rightarrow>
          if cf_CataloguePoll cfg > 0
          then ''  catalogue polled at '' @ source_String src @ '' every '' @ duration_text (cf_CataloguePoll cfg) @
               ''; a generation this deployment cannot govern, or whose approvals would outlive the replay cache, is refused and the current one keeps serving''
          else ''  catalogue read once from '' @ source_String src @ '' and NOT polled (--catalogue-poll '' @
               duration_text (cf_CataloguePoll cfg) @ ''); a changed object is picked up at the next restart''
      | FromFile path \<Rightarrow>
          ''  catalogue read once from '' @ source_String src @
          ''; a file does not change under a running process, and nothing here watches it'')"

definition audit_line :: "'p voice \<Rightarrow> sink option \<Rightarrow> string" where
  "audit_line V k =
     (case k of
        Some s \<Rightarrow> ''  audit stream '' @ vo_AuditStream V @ '', retention asserted as '' @ retentionText (Retention s)
      | None \<Rightarrow> ''  no audit stream; a catalogue declaring an audited tool would not have started'')"

definition listen_report :: "'p voice \<Rightarrow> config \<Rightarrow> 'p running \<Rightarrow> string list \<times> string" where
  "listen_report V cfg r =
     ([''listening on '' @ cf_Listen cfg @ '', routing over '' @ vo_Connected V] @
      map (issuer_line (cf_Audience cfg)) (ru_Trusted r) @
      [ledger_line V cfg, catalogue_line cfg (ru_Source r), audit_line V (ru_Sink r)],
      chainBanner (ru_Grants r \<noteq> None) (cf_GrantIssuer cfg))"

section \<open>The report of a check\<close>

text \<open>The capabilities in the order of the code, joined with commas.\<close>

fun join_comma :: "string \<Rightarrow> string list \<Rightarrow> string" where
  "join_comma s [] = s"
| "join_comma s (h # hs) = join_comma (s @ '', '' @ h) hs"

definition capabilities :: "check_opts \<Rightarrow> string list" where
  "capabilities co =
     (if co_withGrants co then [''grants''] else []) @
     (if co_withFGA co then [''instance authorization''] else []) @
     (if co_withNotifier co then [''notify''] else []) @
     (if co_auditRetention co > 0 then [''an audit sink keeping '' @ duration_text (co_auditRetention co)] else [])"

definition describeCapabilities :: "check_opts \<Rightarrow> string" where
  "describeCapabilities co =
     (case capabilities co of [] \<Rightarrow> ''none of the optional steps'' | s # hs \<Rightarrow> join_comma s hs)"

text \<open>What is printed, beside the error \<open>runCheck\<close> returns.\<close>

definition check_report ::
  "(verb \<Rightarrow> string) \<Rightarrow> env \<Rightarrow> string + (pmsg \<Rightarrow> vresult) \<Rightarrow> ('d, 'p) cat_lib \<Rightarrow> string \<Rightarrow> reading \<Rightarrow> check_opts \<Rightarrow>
     string list" where
  "check_report verb E v L key rd co =
     (if co_catalogue co = [] then []
      else (case store_Reload L rd (NewStore 0 0 (co_maxTools co)) of
        (Inl e, store) \<Rightarrow> []
      | (Inr g, store) \<Rightarrow>
          (let c = snd g in
           [''catalogue '' @ ct_Digest c,
            ''  '' @ dec (length (ct_Defs c)) @ '' tool(s), '' @ dec (length (ct_Compartments c)) @
              '' compartment(s), annotation schema v'' @ dec (unat (ct_SchemaVersion c)),
            ''  against a deployment with: '' @ describeCapabilities co] @
           (case Prepare E v (check_handler key co) g of
              (Some e, h) \<Rightarrow> []
            | (None, h) \<Rightarrow>
                [[], ''would mount '' @ dec (length (ct_Defs c)) @ '' tool(s):''] @
                map (tool_line verb) (ct_Defs c)))))"

text \<open>What is printed last, when the listener was shut down and the calls in flight are over.\<close>

definition stop_report :: "go_err option \<Rightarrow> string list" where
  "stop_report listen = (if listen = None then [''stopped''] else [])"

section \<open>How far the units go\<close>

lemma unit_loop_power:
  assumes "1 \<le> m"
  shows "\<exists>j. unit_loop m d e = (d * 1024 ^ j, e + j) \<and> 1024 ^ j \<le> m \<and> m < 1024 ^ Suc j"
  using assms
proof (induction m d e rule: unit_loop.induct)
  case (1 m d e)
  show ?case
  proof (cases "m \<ge> 1024")
    case False
    then show ?thesis using 1(2) by (intro exI[of _ 0]) (simp add: unit_loop.simps[of m d e])
  next
    case True
    then have "1 \<le> m div 1024" by linarith
    then obtain j where j: "unit_loop (m div 1024) (d * 1024) (e + 1) = (d * 1024 * 1024 ^ j, e + 1 + j)"
        "1024 ^ j \<le> m div 1024" "m div 1024 < 1024 ^ Suc j"
      using 1(1)[OF True] by blast
    have "m = 1024 * (m div 1024) + m mod 1024" "0 \<le> m mod 1024" "m mod 1024 < 1024" by simp_all
    then have "1024 * 1024 ^ j \<le> m" "m < 1024 * 1024 ^ Suc j" using j(2,3) by linarith+
    then show ?thesis using True j(1) by (intro exI[of _ "Suc j"]) (simp add: unit_loop.simps[of m d e] algebra_simps)
  qed
qed

lemma units_of:
  assumes "1024 \<le> n"
  obtains j where "unit_loop (n div 1024) 1024 0 = (1024 ^ Suc j, j)" "1024 ^ Suc j \<le> n" "n < 1024 ^ Suc (Suc j)"
proof -
  have "1 \<le> n div 1024" using assms by linarith
  from unit_loop_power[OF this] obtain j where j: "unit_loop (n div 1024) 1024 0 = (1024 * 1024 ^ j, 0 + j)"
      "1024 ^ j \<le> n div 1024" "n div 1024 < 1024 ^ Suc j" by blast
  have "n = 1024 * (n div 1024) + n mod 1024" "0 \<le> n mod 1024" "n mod 1024 < 1024" by simp_all
  then have "1024 * 1024 ^ j \<le> n" "n < 1024 * 1024 ^ Suc j" using j(2,3) by linarith+
  then show thesis using that[of j] j(1) by simp
qed

lemma unit_count: "1024 ^ Suc j \<le> (n::int) \<Longrightarrow> n < 1024 ^ Suc (Suc j) \<Longrightarrow> j < 4 \<longleftrightarrow> n < 2 ^ 50"
proof
  assume n: "1024 ^ Suc j \<le> n" "n < 1024 ^ Suc (Suc j)"
  show "n < 2 ^ 50" if "j < 4"
  proof -
    have "(1024::int) ^ Suc (Suc j) \<le> 1024 ^ 5" using that by (intro power_increasing) simp_all
    then show ?thesis using n(2) by simp
  qed
  show "j < 4" if "n < 2 ^ 50"
  proof (rule ccontr)
    assume "\<not> j < 4"
    then have "(1024::int) ^ 5 \<le> 1024 ^ Suc j" by (intro power_increasing) simp_all
    then show False using n(1) that by simp
  qed
qed

text \<open>The number printed is the nearest tenth.\<close>

lemma tenths_nearest: "0 < d \<Longrightarrow> 2 * \<bar>10 * n - tenths n d * d\<bar> \<le> d"
proof -
  assume d: "0 < d"
  have q: "10 * n = (10 * n div d) * d + 10 * n mod d" by simp
  have r: "0 \<le> 10 * n mod d" "10 * n mod d < d" using d by simp_all
  show ?thesis
  proof (cases "2 * (10 * n mod d) > d \<or> (2 * (10 * n mod d) = d \<and> odd (10 * n div d))")
    case True
    then have "tenths n d = 10 * n div d + 1" by (simp add: tenths_def)
    then have "10 * n - tenths n d * d = 10 * n mod d - d" using q by (simp add: algebra_simps)
    then have "\<bar>10 * n - tenths n d * d\<bar> = d - 10 * n mod d" using r by simp
    moreover have "d \<le> 2 * (10 * n mod d)" using True by auto
    ultimately show ?thesis by simp
  next
    case False
    then have "tenths n d = 10 * n div d" by (auto simp: tenths_def Let_def)
    then have "10 * n - tenths n d * d = 10 * n mod d" by (simp only: minus_div_mult_eq_mod)
    then have "\<bar>10 * n - tenths n d * d\<bar> = 10 * n mod d" using r by simp
    moreover have "2 * (10 * n mod d) \<le> d" using False by auto
    ultimately show ?thesis by simp
  qed
qed

lemma bytesHuman_unit:
  assumes "1024 \<le> n" "n < 2 ^ 50"
  shows "\<exists>k < 4. bytesHuman n = Some (one_decimal n (1024 ^ Suc k) @ '' '' @ [''KMGT'' ! k] @ ''iB'') \<and>
     1024 ^ Suc k \<le> n \<and> n < 1024 ^ Suc (Suc k) \<and>
     2 * \<bar>10 * n - tenths n (1024 ^ Suc k) * 1024 ^ Suc k\<bar> \<le> 1024 ^ Suc k"
proof -
  obtain j where j: "unit_loop (n div 1024) 1024 0 = (1024 ^ Suc j, j)" "1024 ^ Suc j \<le> n" "n < 1024 ^ Suc (Suc j)"
    by (rule units_of[OF assms(1)])
  have "j < 4" using unit_count[OF j(2,3)] assms(2) by blast
  moreover have "bytesHuman n = Some (one_decimal n (1024 ^ Suc j) @ '' '' @ [''KMGT'' ! j] @ ''iB'')"
    using assms(1) j(1) \<open>j < 4\<close> by (simp add: bytesHuman_def)
  moreover have "2 * \<bar>10 * n - tenths n (1024 ^ Suc j) * 1024 ^ Suc j\<bar> \<le> 1024 ^ Suc j"
    by (rule tenths_nearest) simp
  ultimately show ?thesis using j(2,3) by blast
qed

lemma bytesHuman_None: "bytesHuman n = None \<longleftrightarrow> 2 ^ 50 \<le> n"
proof (cases "n < 1024")
  case True
  then show ?thesis by (simp add: bytesHuman_def)
next
  case False
  then obtain j where j: "unit_loop (n div 1024) 1024 0 = (1024 ^ Suc j, j)" "1024 ^ Suc j \<le> n" "n < 1024 ^ Suc (Suc j)"
    using units_of[of n] by auto
  have "bytesHuman n = None \<longleftrightarrow> \<not> j < 4" using False j(1) by (simp add: bytesHuman_def)
  then show ?thesis using unit_count[OF j(2,3)] by linarith
qed

lemma Load_bytes: "Load L body now = Inr c \<Longrightarrow> int (ct_Bytes c) \<le> MaxBytes"
  by (auto simp: Load_def Let_def split: if_split_asm sum.split_asm option.split_asm prod.split_asm)

lemma loaded_bytes:
  assumes "loaded_by L c"
  shows "int (ct_Bytes c) \<le> MaxBytes"
proof -
  obtain body now where "Load L body now = Inr (c\<lparr>ct_HeapBytes := 0\<rparr>)" using assms by (auto simp: loaded_by_def)
  from Load_bytes[OF this] show ?thesis by simp
qed

text \<open>
  C40: The startup report can be printed. A size is printed as a number from 1 up to 1024 of the largest unit that
  fits, to the nearest tenth, and the units run out (an index past the table, which is a panic) exactly
  from a PiB on; a loaded catalogue is bounded well below that, so printing the report fails only for a
  generation measured to retain a PiB of heap or more.
\<close>

theorem report_never_runs_out_of_units:
  assumes "loaded_by L c"
  shows "(boot_report V store c = None \<longleftrightarrow> 2 ^ 50 \<le> int64_of (ct_HeapBytes c)) \<and>
     (\<forall>n. bytesHuman n = None \<longleftrightarrow> 2 ^ 50 \<le> n) \<and>
     (\<forall>n. 1024 \<le> n \<and> n < 2 ^ 50 \<longrightarrow>
        (\<exists>k < 4. bytesHuman n = Some (one_decimal n (1024 ^ Suc k) @ '' '' @ [''KMGT'' ! k] @ ''iB'') \<and>
           1024 ^ Suc k \<le> n \<and> n < 1024 ^ Suc (Suc k) \<and>
           2 * \<bar>10 * n - tenths n (1024 ^ Suc k) * 1024 ^ Suc k\<bar> \<le> 1024 ^ Suc k))"
proof -
  have "bytesHuman (int (ct_Bytes c)) \<noteq> None"
    using loaded_bytes[OF assms] by (simp add: bytesHuman_None MaxBytes_def)
  then have "boot_report V store c = None \<longleftrightarrow> bytesHuman (int64_of (ct_HeapBytes c)) = None"
    by (auto simp: boot_report_def size_line_def split: option.split)
  then show ?thesis
    by (intro conjI allI impI) (simp_all only: bytesHuman_None bytesHuman_unit simp_thms)
qed

section \<open>What the report says is what runs\<close>

text \<open>
  Of a process that got to its listener: it says the catalogue is polled exactly when a poller runs, that
  there is an audit stream exactly when its sink is built, with the retention that sink asserts, and
  that approvals are verified exactly when a verifier is wired.
\<close>

lemma Serve_polled:
  assumes "snd (Serve B W cfg) = Ran r e"
  shows "ru_Polled r = polled cfg (ru_Source r)"
proof -
  obtain trusted key src g store grants batched sink where
    "assemble B W cfg trusted key src g store grants batched sink = Inr r"
    using assms by (auto simp: Serve_def serve_connected_def split: sum.splits option.splits prod.splits)
  then show ?thesis by (auto simp: assemble_def split: sum.splits option.splits prod.splits)
qed

lemma report_is_true:
  assumes "snd (Serve B W cfg) = Ran r e"
  shows "has_prefix (catalogue_line cfg (ru_Source r)) ''  catalogue polled'' \<longleftrightarrow> ru_Polled r"
    and "has_prefix (audit_line V (ru_Sink r)) ''  audit stream'' \<longleftrightarrow> hd_Audit (po_handler (ru_State r)) \<noteq> None"
    and "snd (listen_report V cfg r) = chainBanner (hd_Grants (po_handler (ru_State r)) \<noteq> None) (cf_GrantIssuer cfg)"
proof -
  obtain key g store reg batched h where s:
    "Prepare (bl_Env B) (bl_Validator B) (boot_handler B key batched (ru_Sink r) (ru_Grants r)) g = (None, h)"
    "ru_State r = fresh_poller store h reg"
    by (rule Serve_Ran[OF assms])
  obtain v where b: "po_handler (ru_State r) = (boot_handler B key batched (ru_Sink r) (ru_Grants r))\<lparr>hd_plane := v\<rparr>"
    using s planeFor_moves[of "bl_Env B" "bl_Validator B" "boot_handler B key batched (ru_Sink r) (ru_Grants r)" g]
    by (auto simp: Prepare_def fresh_poller_def split: sum.splits prod.splits)
  show "has_prefix (catalogue_line cfg (ru_Source r)) ''  catalogue polled'' \<longleftrightarrow> ru_Polled r"
    by (simp add: Serve_polled[OF assms] polled_def catalogue_line_def split: boot_source.split)
  show "has_prefix (audit_line V (ru_Sink r)) ''  audit stream'' \<longleftrightarrow> hd_Audit (po_handler (ru_State r)) \<noteq> None"
    by (simp add: b boot_handler_def audit_line_def split: option.split)
  show "snd (listen_report V cfg r) = chainBanner (hd_Grants (po_handler (ru_State r)) \<noteq> None) (cf_GrantIssuer cfg)"
    by (simp add: b boot_handler_def listen_report_def)
qed

lemma bytesHuman_samples:
  "bytesHuman 1023 = Some ''1023 B''" "bytesHuman 1280 = Some ''1.2 KiB''" "bytesHuman 268435456 = Some ''256.0 MiB''"
  by (simp_all add: bytesHuman_def unit_loop.simps one_decimal_def tenths_def int_text_def dec.simps char_of_def bit_0)

text \<open>The toy catalogue is small, whatever it is measured to hold below a PiB.\<close>

definition toy_voice :: "'p voice" where
  "toy_voice = \<lparr>vo_Build = None, vo_Provenance = \<lambda>p. None, vo_VerbName = \<lambda>v. ''VERB'',
     vo_LedgerStream = ''LEDGER'', vo_AuditStream = ''AUDIT'', vo_Connected = ''nats://localhost''\<rparr>"

lemma report_never_runs_out_of_units_witness:
  "\<exists>c. loaded_by toy_catlib c \<and> boot_report toy_voice (NewStore 0 0 0) c \<noteq> None"
proof -
  obtain c where c: "Load toy_catlib ''artifact'' 7 = Inr c"
    using toy_plane_built by (auto split: sum.splits)
  have l: "loaded_by toy_catlib (c\<lparr>ct_HeapBytes := 0\<rparr>)" using c Load_heap[OF c] by (auto simp: loaded_by_def)
  show ?thesis
    using report_never_runs_out_of_units[OF l, of toy_voice "NewStore 0 0 0"] l
    by (intro exI[of _ "c\<lparr>ct_HeapBytes := 0\<rparr>"]) (simp add: int64_of_def)
qed

lemma digits_of_numeral:
  "digits_of (numeral k) v = digits_of (pred_numeral k) (v div 10) @ [char_of (48 + v mod 10)]"
  by (simp only: numeral_eq_Suc[of k] digits_of.simps)

lemma duration_samples:
  "duration_text 0 = ''0s''" "duration_text 30000000000 = ''30s''" "duration_text 5400000000000 = ''1h30m0s''"
  "duration_text 1500000 = ''1.5ms''" "duration_text (-1200000000) = ''-1.2s''"
  by (simp_all add: duration_text_def clock_duration_def small_duration_def frac_text_def dec.simps digits_of_numeral
      char_of_def bit_0)

end
