(* ===== verification/Command.thy ===== *)
theory Command
  imports Report
begin

text \<open>
  \<open>cmd/garmd/main.go\<close> and the flags of \<open>check.go\<close>: from a command line to what runs, and the exit status.
  Splitting the arguments is cobra's: it is the parameter that says which command was named and which
  flags were given, parsed, in their order, or that the line is not one. Of pflag the model uses what
  it documents: a \<open>StringVar\<close>, \<open>IntVar\<close>, \<open>DurationVar\<close> or \<open>BoolVar\<close> keeps the last value given, a
  \<open>StringArrayVar\<close> all of them in order, and \<open>Changed\<close> holds of a flag that was given at all.
\<close>

section \<open>The flags of serve\<close>

datatype serve_flag =
    GCatalogue string | GCataloguePoll int | GNats string | GListen string | GMaxTools int
  | GJwks string | GIssuer string | GAudience string | GAuditRetention int | GLedgerStream bool
  | GHashKeyFile string | GGrantIssuer string | GGrantJwks string | GGrantAudience string

text \<open>The variables the flags are bound to are the fields of the configuration; \<open>cf_Audit\<close> is \<open>Changed\<close>.\<close>

definition serve_defaults :: "string \<Rightarrow> config" where
  "serve_defaults nats_url =
     \<lparr>cf_Catalogue = [], cf_CataloguePoll = 30 * second_ns, cf_NATS = nats_url, cf_Listen = ''127.0.0.1:7440'',
      cf_MaxTools = 0, cf_JWKSURLs = [], cf_Issuers = [], cf_Audience = ''garm'', cf_HashKeyFile = [],
      cf_GrantIssuer = [], cf_GrantJWKS = [], cf_GrantAudience = [],
      cf_Audit = False, cf_AuditRetention = 0, cf_LedgerStream = False\<rparr>"

fun set_serve :: "serve_flag \<Rightarrow> config \<Rightarrow> config" where
  "set_serve (GCatalogue v) c = c\<lparr>cf_Catalogue := v\<rparr>"
| "set_serve (GCataloguePoll v) c = c\<lparr>cf_CataloguePoll := v\<rparr>"
| "set_serve (GNats v) c = c\<lparr>cf_NATS := v\<rparr>"
| "set_serve (GListen v) c = c\<lparr>cf_Listen := v\<rparr>"
| "set_serve (GMaxTools v) c = c\<lparr>cf_MaxTools := v\<rparr>"
| "set_serve (GJwks v) c = c\<lparr>cf_JWKSURLs := cf_JWKSURLs c @ [v]\<rparr>"
| "set_serve (GIssuer v) c = c\<lparr>cf_Issuers := cf_Issuers c @ [v]\<rparr>"
| "set_serve (GAudience v) c = c\<lparr>cf_Audience := v\<rparr>"
| "set_serve (GAuditRetention v) c = c\<lparr>cf_Audit := True, cf_AuditRetention := v\<rparr>"
| "set_serve (GLedgerStream v) c = c\<lparr>cf_LedgerStream := v\<rparr>"
| "set_serve (GHashKeyFile v) c = c\<lparr>cf_HashKeyFile := v\<rparr>"
| "set_serve (GGrantIssuer v) c = c\<lparr>cf_GrantIssuer := v\<rparr>"
| "set_serve (GGrantJwks v) c = c\<lparr>cf_GrantJWKS := v\<rparr>"
| "set_serve (GGrantAudience v) c = c\<lparr>cf_GrantAudience := v\<rparr>"

definition serve_config :: "string \<Rightarrow> serve_flag list \<Rightarrow> config" where
  "serve_config nats_url flags = fold set_serve flags (serve_defaults nats_url)"

section \<open>The flags of check\<close>

datatype check_flag =
    KCatalogue string | KMaxTools int | KWithGrants bool | KWithFGA bool | KWithNotifier bool | KAuditRetention int

definition check_defaults :: check_opts where
  "check_defaults = \<lparr>co_catalogue = [], co_maxTools = 0, co_withGrants = False, co_withFGA = False,
     co_withNotifier = False, co_auditRetention = 0\<rparr>"

fun set_check :: "check_flag \<Rightarrow> check_opts \<Rightarrow> check_opts" where
  "set_check (KCatalogue v) c = c\<lparr>co_catalogue := v\<rparr>"
| "set_check (KMaxTools v) c = c\<lparr>co_maxTools := v\<rparr>"
| "set_check (KWithGrants v) c = c\<lparr>co_withGrants := v\<rparr>"
| "set_check (KWithFGA v) c = c\<lparr>co_withFGA := v\<rparr>"
| "set_check (KWithNotifier v) c = c\<lparr>co_withNotifier := v\<rparr>"
| "set_check (KAuditRetention v) c = c\<lparr>co_auditRetention := v\<rparr>"

definition check_options :: "check_flag list \<Rightarrow> check_opts" where
  "check_options flags = fold set_check flags check_defaults"

section \<open>The command\<close>

text \<open>What cobra makes of the arguments; the bare command and \<open>--help\<close> print the usage.\<close>

datatype invocation =
  Usage | VersionCmd | ServeCmd "serve_flag list" | CheckCmd "check_flag list" | NotACommand string

datatype 'p outcome =
    Printed string
  | Refused_line string
  | Served "'p ending"
  | Checked "string list" "check_err option"

text \<open>\<open>help\<close> is cobra's text, \<open>key\<close> the thirty-two random bytes of a check.\<close>

definition run_command ::
  "(string list \<Rightarrow> invocation) \<Rightarrow> string \<Rightarrow> string \<Rightarrow> string \<Rightarrow> 'p voice \<Rightarrow> ('d, 'p, 's) build \<Rightarrow> world \<Rightarrow>
     string list \<Rightarrow> 'p outcome" where
  "run_command cobra help nats_url key V B W args =
     (case cobra args of
        Usage \<Rightarrow> Printed help
      | VersionCmd \<Rightarrow> Printed (Version (vo_Build V))
      | NotACommand e \<Rightarrow> Refused_line e
      | ServeCmd flags \<Rightarrow> Served (snd (Serve B W (serve_config nats_url flags)))
      | CheckCmd flags \<Rightarrow>
          (let co = check_options flags
           in Checked
                (check_report (vo_VerbName V) (bl_Env B) (bl_Validator B) (bl_CatLib B) key (wo_Reading W) co)
                (runCheck (bl_Env B) (bl_Validator B) (bl_CatLib B) key (wo_Reading W) co)))"

text \<open>\<open>main\<close>: any error of the command is exit status 1.\<close>

definition exit_status :: "'p outcome \<Rightarrow> int" where
  "exit_status x =
     (case x of
        Printed s \<Rightarrow> 0
      | Refused_line e \<Rightarrow> 1
      | Served (NotStarted e) \<Rightarrow> 1
      | Served (Ran r listen) \<Rightarrow> if listen = None then 0 else 1
      | Checked printed err \<Rightarrow> if err = None then 0 else 1)"

section \<open>What a command line says\<close>

text \<open>The values a flag was given, in order, and the one that counts.\<close>

definition given :: "(serve_flag \<Rightarrow> 'a option) \<Rightarrow> serve_flag list \<Rightarrow> 'a list" where
  "given pick flags = List.map_filter pick flags"

definition last_given :: "(serve_flag \<Rightarrow> 'a option) \<Rightarrow> 'a \<Rightarrow> serve_flag list \<Rightarrow> 'a" where
  "last_given pick dflt flags = (if given pick flags = [] then dflt else last (given pick flags))"

fun pick_catalogue where "pick_catalogue (GCatalogue v) = Some v" | "pick_catalogue _ = None"
fun pick_poll where "pick_poll (GCataloguePoll v) = Some v" | "pick_poll _ = None"
fun pick_max where "pick_max (GMaxTools v) = Some v" | "pick_max _ = None"
fun pick_jwks where "pick_jwks (GJwks v) = Some v" | "pick_jwks _ = None"
fun pick_issuer where "pick_issuer (GIssuer v) = Some v" | "pick_issuer _ = None"
fun pick_audience where "pick_audience (GAudience v) = Some v" | "pick_audience _ = None"
fun pick_retention where "pick_retention (GAuditRetention v) = Some v" | "pick_retention _ = None"
fun pick_key where "pick_key (GHashKeyFile v) = Some v" | "pick_key _ = None"
fun pick_grants where "pick_grants (GGrantIssuer v) = Some v" | "pick_grants _ = None"
fun pick_nats where "pick_nats (GNats v) = Some v" | "pick_nats _ = None"
fun pick_listen where "pick_listen (GListen v) = Some v" | "pick_listen _ = None"
fun pick_grant_jwks where "pick_grant_jwks (GGrantJwks v) = Some v" | "pick_grant_jwks _ = None"
fun pick_grant_audience where "pick_grant_audience (GGrantAudience v) = Some v" | "pick_grant_audience _ = None"
fun pick_ledger where "pick_ledger (GLedgerStream v) = Some v" | "pick_ledger _ = None"

lemma given_snoc [simp]:
  "given pick (xs @ [x]) = given pick xs @ (case pick x of None \<Rightarrow> [] | Some v \<Rightarrow> [v])"
  "given pick [] = []"
  by (simp_all add: given_def map_filter_def split: option.split)

lemma last_given_snoc [simp]:
  "last_given pick dflt (xs @ [x]) = (case pick x of None \<Rightarrow> last_given pick dflt xs | Some v \<Rightarrow> v)"
  "last_given pick dflt [] = dflt"
  by (simp_all add: last_given_def split: option.split)

lemma serve_config_snoc [simp]:
  "serve_config u (xs @ [x]) = set_serve x (serve_config u xs)" "serve_config u [] = serve_defaults u"
  by (simp_all add: serve_config_def)

text \<open>Every setting of the process is the last value of its flag or the default; the two repeatable ones keep all.\<close>

lemma serve_config_fields:
  "serve_config u fs =
     \<lparr>cf_Catalogue = last_given pick_catalogue [] fs, cf_CataloguePoll = last_given pick_poll (30 * second_ns) fs,
      cf_NATS = last_given pick_nats u fs, cf_Listen = last_given pick_listen ''127.0.0.1:7440'' fs,
      cf_MaxTools = last_given pick_max 0 fs, cf_JWKSURLs = given pick_jwks fs, cf_Issuers = given pick_issuer fs,
      cf_Audience = last_given pick_audience ''garm'' fs, cf_HashKeyFile = last_given pick_key [] fs,
      cf_GrantIssuer = last_given pick_grants [] fs, cf_GrantJWKS = last_given pick_grant_jwks [] fs,
      cf_GrantAudience = last_given pick_grant_audience [] fs, cf_Audit = (given pick_retention fs \<noteq> []),
      cf_AuditRetention = last_given pick_retention 0 fs, cf_LedgerStream = last_given pick_ledger False fs\<rparr>"
proof (induction fs rule: rev_induct)
  case Nil
  show ?case by (simp add: serve_defaults_def)
next
  case (snoc x fs)
  show ?case by (cases x) (simp_all add: snoc)
qed

section \<open>What a started process was told\<close>

lemma Serve_no_catalogue: "cf_Catalogue cfg = [] \<Longrightarrow> Serve B W cfg = ([], NotStarted CatalogueRequired)"
  by (simp add: Serve_def load_boot_def)

text \<open>
  A process is what its command line says. If \<open>garmd serve\<close> with some flags got to its listener, it
  was told a catalogue, a key file, and as many issuers as key sets, at least one; the i-th issuer given
  is trusted with the i-th key set given and no other; approvals are verified exactly when the last
  \<open>--grant-issuer\<close> names one; there is an audit sink exactly when \<open>--audit-stream-retention\<close> was given at
  all, even as zero, asserting the last value given; and a poller runs exactly for an object with a
  positive interval.
\<close>

theorem served_as_told:
  fixes B :: "('d, 'p, 's) build"
  assumes "run_command cobra help u key V B W args = Served (Ran r listen)"
  shows "\<exists>fs. cobra args = ServeCmd fs \<and>
     last_given pick_catalogue [] fs \<noteq> [] \<and> last_given pick_key [] fs \<noteq> [] \<and>
     given pick_issuer fs \<noteq> [] \<and> distinct (given pick_issuer fs) \<and>
     ru_Trusted r = map (\<lambda>i. \<lparr>tr_Issuer = given pick_issuer fs ! i, tr_KeySet = Some i, tr_JWKS = given pick_jwks fs ! i\<rparr>)
       [0..<length (given pick_issuer fs)] \<and>
     length (given pick_jwks fs) = length (given pick_issuer fs) \<and>
     (ru_Grants r \<noteq> None \<longleftrightarrow> last_given pick_grants [] fs \<noteq> []) \<and>
     map_option Retention (ru_Sink r) =
       (if given pick_retention fs = [] then None else Some (last (given pick_retention fs))) \<and>
     (ru_Polled r \<longleftrightarrow> (\<exists>b k. ru_Source r = FromObject b k) \<and> last_given pick_poll (30 * second_ns) fs > 0)"
proof -
  obtain fs where fs: "cobra args = ServeCmd fs" "snd (Serve B W (serve_config u fs)) = Ran r listen"
    using assms by (auto simp: run_command_def Let_def split: invocation.splits)
  note F = serve_config_fields[of u fs]
  obtain key batched trusted and g :: "'p gen" where s:
    "trustedIssuers (cf_Issuers (serve_config u fs)) (cf_JWKSURLs (serve_config u fs)) = Inr trusted"
    "readHashKey (wo_File W) (cf_HashKeyFile (serve_config u fs)) = Inr key"
    "grantVerifier True (Some (snd g)) (serve_config u fs) (wo_GrantJS W) (wo_Bucket W) = Inr (ru_Grants r)"
    "snd (records (serve_config u fs) (wo_JS W) (wo_AuditStream W)) = Inr (batched, ru_Sink r)"
    "ru_Trusted r = trusted"
    by (rule Serve_Ran[OF fs(2)], rule that, assumption+)
  note P = issuers_paired[OF s(1)]
  have "given pick_issuer fs \<noteq> []" using s(1) by (auto simp: trustedIssuers_def F split: if_splits)
  moreover have "last_given pick_catalogue [] fs \<noteq> []"
  proof
    assume "last_given pick_catalogue [] fs = []"
    then have "cf_Catalogue (serve_config u fs) = []" by (simp add: F)
    then show False using fs(2) by (simp add: Serve_no_catalogue)
  qed
  moreover have "last_given pick_key [] fs \<noteq> []" using s(2) by (simp add: readHashKey_Inr F)
  moreover have "ru_Trusted r = map (\<lambda>i. \<lparr>tr_Issuer = given pick_issuer fs ! i, tr_KeySet = Some i,
      tr_JWKS = given pick_jwks fs ! i\<rparr>) [0..<length (given pick_issuer fs)]"
    by (intro nth_equalityI) (use P s(5) in \<open>simp_all add: F\<close>)
  moreover have "ru_Grants r \<noteq> None \<longleftrightarrow> last_given pick_grants [] fs \<noteq> []" using grants_on[OF s(3)] by (simp add: F)
  moreover have "map_option Retention (ru_Sink r) =
      (if given pick_retention fs = [] then None else Some (last (given pick_retention fs)))"
    using records_caps[OF s(4)] by (simp add: F last_given_def)
  moreover have "ru_Polled r \<longleftrightarrow> (\<exists>b k. ru_Source r = FromObject b k) \<and> last_given pick_poll (30 * second_ns) fs > 0"
    using Serve_polled[OF fs(2)] by (auto simp: polled_def F split: boot_source.splits)
  ultimately show ?thesis using fs(1) P by (intro exI[of _ fs]) (simp add: F)
qed

text \<open>No flags: a plane that cannot say what it serves or whom it trusts does not start.\<close>

lemma bare_serve_refused:
  "exit_status (Served (snd (Serve B W (serve_config u [])))) = 1"
  by (simp add: exit_status_def Serve_no_catalogue serve_defaults_def)

text \<open>The flags of the toy deployment; a flag given twice counts as its last value.\<close>

definition toy_flags :: "serve_flag list" where
  "toy_flags = [GCatalogue ''s3://b/k'', GListen '':8080'', GJwks ''u'', GIssuer ''https://idp'', GAudience ''other'',
     GAudience ''garmd'', GHashKeyFile ''k'', GGrantIssuer ''https://sts'', GAuditRetention 0, GLedgerStream True]"

lemma toy_flags_config: "serve_config ''n'' toy_flags = toy_deployment"
  by (simp add: serve_config_def toy_flags_def serve_defaults_def toy_deployment_def)

lemma served_as_told_witness:
  "\<exists>r listen. run_command (\<lambda>args. ServeCmd toy_flags) [] ''n'' [] toy_voice toy_build toy_world [] = Served (Ran r listen) \<and>
     map_option Retention (ru_Sink r) = Some 0 \<and> ru_Grants r \<noteq> None \<and> ru_Polled r \<and>
     ru_Trusted r = [\<lparr>tr_Issuer = ''https://idp'', tr_KeySet = Some 0, tr_JWKS = ''u''\<rparr>]"
proof -
  obtain r listen where r: "snd (Serve toy_build toy_world toy_deployment) = Ran r listen" "ru_Polled r"
    using toy_started by (cases "snd (Serve toy_build toy_world toy_deployment)") auto
  have run: "run_command (\<lambda>args. ServeCmd toy_flags) [] ''n'' [] toy_voice toy_build toy_world [] = Served (Ran r listen)"
    by (simp add: run_command_def toy_flags_config r(1))
  have "given pick_issuer toy_flags = [''https://idp'']" "given pick_jwks toy_flags = [''u'']"
    "given pick_retention toy_flags = [0]" "last_given pick_grants [] toy_flags = ''https://sts''"
    by (simp_all add: given_def last_given_def toy_flags_def map_filter_simps)
  then show ?thesis using served_as_told[OF run] run r(2) by (auto simp: upt_rec)
qed

end
