(* ===== verification/Live.thy ===== *)
theory Live
  imports Hop StartupProps Verify
begin

text \<open>
  A process at work: the HTTP surface behind \<open>authn.Middleware\<close>, with the verifier the process was
  started with as its source of principals, and the poller beside it. The state is the poller's (store,
  handler, published taxonomy), the cached key sets of the issuers, the effects so far, and for every
  request in flight the generation it read when it arrived. A request arrives, and is answered later;
  polls and other requests come in between, in any order. Its answer is one step: what it does after it
  has its chain reads nothing a poll changes, and the memo tables and key sets it shares are locked.
\<close>

section \<open>The front door\<close>

text \<open>\<open>Middleware\<close> puts the bearer token on the request's context, when there is one.\<close>

definition Middleware :: "http_request \<Rightarrow> string option" where
  "Middleware q = bearer (hq_Authorization q)"

text \<open>
  What one request observes: what each issuer's endpoint would answer, the clock of the key sets, the
  time of verification. \<open>words\<close> is the text of an authentication error.
\<close>

record door_input =
  di_Net :: "nat \<Rightarrow> fetched"
  di_Clock :: "nat \<Rightarrow> int"
  di_Now :: int

definition identify ::
  "'k jose \<Rightarrow> verifier \<Rightarrow> door_input \<Rightarrow> 'k key_store \<Rightarrow> registry \<Rightarrow> http_request \<Rightarrow>
     (principal_err + principal) \<times> 'k key_store \<times> string list" where
  "identify J v i ks reg q =
     PrincipalFunc J v (WithRegistry None (Some reg)) (di_Net i) (di_Clock i) (di_Now i) ks (Middleware q)"

definition principal_source ::
  "'k jose \<Rightarrow> verifier \<Rightarrow> (principal_err \<Rightarrow> go_err) \<Rightarrow> door_input \<Rightarrow> 'k key_store \<Rightarrow> principals" where
  "principal_source J v words i ks =
     Some (\<lambda>reg q. case fst (identify J v i ks reg q) of Inl e \<Rightarrow> Inl (words e) | Inr p \<Rightarrow> Inr (Some p))"

section \<open>Steps\<close>

record ('p, 'k) live =
  lv_Poller :: "'p poller"
  lv_Keys :: "'k key_store"
  lv_Hist :: hist
  lv_Flight :: "'p gen list"

text \<open>What does not change while a process serves: the libraries, the deployment, the verifier.\<close>

record ('d, 'p, 'k) site =
  si_Surface :: surface
  si_Rules :: rule_pkg
  si_Deployment :: "('d, 'p) deployment"
  si_Jose :: "'k jose"
  si_Verifier :: verifier
  si_Words :: "principal_err \<Rightarrow> go_err"

text \<open>
  The key sets after a request that read the generation \<open>g\<close>: looked at only when a caller had to be
  identified.
\<close>

definition keys_after ::
  "('d, 'p, 'k) site \<Rightarrow> door_input \<Rightarrow> http_request \<Rightarrow> 'p gen \<Rightarrow> ('p, 'k) live \<Rightarrow> 'k key_store" where
  "keys_after S i q g s =
     (if hq_Method q \<noteq> ''POST'' then lv_Keys s
      else (case fst (planeFor (de_Env (si_Deployment S)) (de_Validator (si_Deployment S)) (po_handler (lv_Poller s)) g) of
              Inl e \<Rightarrow> lv_Keys s
            | Inr pl \<Rightarrow> fst (snd (identify (si_Jose S) (si_Verifier S) i (lv_Keys s) (pl_reg pl) q))))"

definition door_serve ::
  "('d, 'p, 'k) site \<Rightarrow> reconciler option \<Rightarrow> door_input \<Rightarrow> http_request \<Rightarrow> 'p gen \<Rightarrow> ('p, 'k) live \<Rightarrow> 'p served" where
  "door_serve S rc i q g s =
     ServeHTTP (si_Surface S) (de_Env (si_Deployment S)) (de_Validator (si_Deployment S)) (si_Rules S)
       (principal_source (si_Jose S) (si_Verifier S) (si_Words S) i (lv_Keys s)) rc
       (Some g) (po_handler (lv_Poller s)) (lv_Hist s) q"

text \<open>The request of a generation is over: one pointer to it less.\<close>

fun landed :: "'p gen \<Rightarrow> 'p gen list \<Rightarrow> 'p gen list" where
  "landed g [] = []"
| "landed g (x # xs) = (if fst x = fst g then xs else x # landed g xs)"

definition door ::
  "('d, 'p, 'k) site \<Rightarrow> reconciler option \<Rightarrow> door_input \<Rightarrow> http_request \<Rightarrow> 'p gen \<Rightarrow> ('p, 'k) live \<Rightarrow>
     http_answer \<times> ('p, 'k) live" where
  "door S rc i q g s =
     (let r = door_serve S rc i q g s
      in (sd_Answer r,
          \<lparr>lv_Poller = (lv_Poller s)\<lparr>po_handler := sd_Handler r\<rparr>, lv_Keys = keys_after S i q g s, lv_Hist = sd_Hist r,
           lv_Flight = landed g (lv_Flight s)\<rparr>))"

text \<open>The clock advances between two loads; nothing else is asked of the order of things.\<close>

inductive live_step :: "('d, 'p, 'k) site \<Rightarrow> ('p, 'k) live \<Rightarrow> ('p, 'k) live \<Rightarrow> bool" for S where
  poll: "(\<And>g. so_current (po_store (lv_Poller s)) = Some g \<Longrightarrow> ct_LoadedAt (snd g) < pi_Swap i) \<Longrightarrow>
     Once (si_Deployment S) i (lv_Poller s) = (out, p') \<Longrightarrow> live_step S s (s\<lparr>lv_Poller := p'\<rparr>)"
| arrive: "so_current (po_store (lv_Poller s)) = Some g \<Longrightarrow> live_step S s (s\<lparr>lv_Flight := g # lv_Flight s\<rparr>)"
| answer: "g \<in> set (lv_Flight s) \<Longrightarrow> door S rc i q g s = (ans, s') \<Longrightarrow> live_step S s s'"

section \<open>The memo tables of the chain in force\<close>

definition kept_ok :: "env \<Rightarrow> 'p handler \<Rightarrow> bool" where
  "kept_ok E h \<longleftrightarrow> (\<forall>q. hd_plane h = Some q \<longrightarrow> schemas_ok (gen_env E (snd (pl_gen q))) (pl_core q))"

lemma planeFor_kept:
  assumes "kept_ok E h" "planeFor E v h g = (r, h')"
  shows "kept_ok E h'"
  using assms(2)
proof (cases rule: planeFor_cases)
  case (built p)
  have "schemas_ok X (pl_core p)" for X by (rule schemas_ok_empty) (rule newPlane_schemas[OF built(1)])
  then show ?thesis
    by (cases rule: publish_cases[of h p]) (use assms(1) built(3) in \<open>auto simp: kept_ok_def\<close>)
qed (use assms(1) in simp_all)

lemma after_swap_handler:
  "po_handler (after_swap D now was etag g p) = snd (Prepare (de_Env D) (de_Validator D) (po_handler p) g)"
  by (simp add: after_swap_def Let_def split: prod.split option.split sum.split)

lemma Prepare_planeFor: "snd (Prepare E v h g) = snd (planeFor E v h g)"
  by (simp add: Prepare_def split: prod.split sum.split)

lemma poll_kept:
  assumes "kept_ok (de_Env D) (po_handler p)" "Once D i p = (out, p')"
  shows "kept_ok (de_Env D) (po_handler p')"
  using assms(2)
proof (cases rule: Once_cases)
  case idle
  then show ?thesis using assms(1) by (simp add: in_service_def)
next
  case (swap etag body g st d repeat)
  have h: "po_handler p' = snd (planeFor (de_Env D) (de_Validator D) (po_handler p) g)"
    unfolding swap(6) after_swap_handler Prepare_planeFor by simp
  obtain r h' where "planeFor (de_Env D) (de_Validator D) (po_handler p) g = (r, h')" by (metis surj_pair)
  then show ?thesis using planeFor_kept[OF assms(1)] h by simp
qed

section \<open>The generations in flight\<close>

text \<open>Each was admitted, and is the current one or one it superseded.\<close>

definition flights_ok :: "('d, 'p) deployment \<Rightarrow> 'p poller \<Rightarrow> 'p gen list \<Rightarrow> bool" where
  "flights_ok D p gs \<longleftrightarrow>
     (\<forall>g' \<in> set gs. fst g' < so_alloc (po_store p) \<and> loaded_by (de_Lib D) (snd g') \<and> admitted D p (snd g') \<and>
        (\<forall>g. so_current (po_store p) = Some g \<longrightarrow>
           g' = g \<or> fst g' \<noteq> fst g \<and> ct_LoadedAt (snd g') < ct_LoadedAt (snd g)))"

lemma landed_subset: "set (landed g gs) \<subseteq> set gs"
  by (induction gs) auto

lemma flights_mono: "flights_ok D p gs \<Longrightarrow> set gs' \<subseteq> set gs \<Longrightarrow> flights_ok D p gs'"
  unfolding flights_ok_def by blast

lemma after_swap_store: "po_store (after_swap D now was etag g p) = po_store p"
  by (simp add: after_swap_def Let_def split: prod.split option.split sum.split)

text \<open>A poll leaves the store as it is or makes a generation current that is new and later than all.\<close>

lemma poll_store:
  assumes "Once D i p = (out, p')"
  shows "po_store p' = po_store p \<or>
     (\<exists>g. so_current (po_store p') = Some g \<and> fst g = so_alloc (po_store p) \<and> ct_LoadedAt (snd g) = pi_Swap i \<and>
        so_alloc (po_store p') = Suc (so_alloc (po_store p)))"
  using assms
proof (cases rule: Once_cases)
  case idle
  then show ?thesis by (simp add: in_service_def)
next
  case (swap etag body g st d repeat)
  have p': "po_store p' = st" unfolding swap(6) after_swap_store by simp
  show ?thesis
  proof (cases rule: store_Reload_cases[of "de_Lib D" "reading_of i body" "po_store p"])
    case (failed e)
    then show ?thesis using swap(5) by simp
  next
    case (same b c prev)
    then show ?thesis using swap(5) p' by simp
  next
    case (swapped b c g' s')
    note sel = swap_in_sel[OF swapped(5)]
    have "ct_LoadedAt c = pi_Swap i" using loaded_digest[OF swapped(2)] by (simp add: reading_of_def)
    then show ?thesis using sel p' swapped(6) swap(5) by simp
  qed
qed

lemma poll_config:
  assumes "poller_ok D p" "Once D i p = (out, p')"
    and "\<And>g. so_current (po_store p) = Some g \<Longrightarrow> ct_LoadedAt (snd g) \<le> pi_Swap i"
  shows "same_config p p'"
proof (cases "out = Swapped")
  case True
  have "Once D i p = (Swapped, p')" using assms(2) True by simp
  then show ?thesis by (rule swap_parts[OF assms(1) _ assms(3)]) assumption+
next
  case False
  have "in_service p' = in_service p" using assms(2) by (cases rule: Once_cases) (use False in auto)
  then show ?thesis by (simp add: in_service_def same_config_def)
qed

lemma poll_flights:
  assumes "poller_ok D p" "flights_ok D p gs" "Once D i p = (out, p')"
    and clock: "\<And>g. so_current (po_store p) = Some g \<Longrightarrow> ct_LoadedAt (snd g) < pi_Swap i"
  shows "flights_ok D p' gs"
proof -
  obtain g0 where g0: "so_current (po_store p) = Some g0" using assms(1) by (auto simp: poller_ok_def in_step_def)
  have "same_config p p'" by (rule poll_config[OF assms(1,3)]) (use clock in \<open>auto intro: less_imp_le\<close>)
  then have a: "admitted D p' c = admitted D p c" for c by (rule admitted_config)
  from poll_store[OF assms(3)] show ?thesis
  proof
    assume "po_store p' = po_store p"
    then show ?thesis using assms(2) by (simp add: flights_ok_def a)
  next
    assume "\<exists>g. so_current (po_store p') = Some g \<and> fst g = so_alloc (po_store p) \<and> ct_LoadedAt (snd g) = pi_Swap i \<and>
        so_alloc (po_store p') = Suc (so_alloc (po_store p))"
    then obtain g where g: "so_current (po_store p') = Some g" "fst g = so_alloc (po_store p)"
      "ct_LoadedAt (snd g) = pi_Swap i" "so_alloc (po_store p') = Suc (so_alloc (po_store p))" by blast
    have "ct_LoadedAt (snd g') < pi_Swap i" if "g' \<in> set gs" for g'
      using assms(2) that clock[OF g0] g0 by (fastforce simp: flights_ok_def)
    then show ?thesis using assms(2) g by (auto simp: flights_ok_def a)
  qed
qed

definition live_ok :: "('d, 'p, 'k) site \<Rightarrow> ('p, 'k) live \<Rightarrow> bool" where
  "live_ok S s \<longleftrightarrow> poller_ok (si_Deployment S) (lv_Poller s) \<and>
     kept_ok (de_Env (si_Deployment S)) (po_handler (lv_Poller s)) \<and>
     flights_ok (si_Deployment S) (lv_Poller s) (lv_Flight s)"

text \<open>The chain in force answers the request, and only its memo tables move.\<close>

lemma live_plane:
  assumes "live_ok S s"
  obtains g pl where "so_current (po_store (lv_Poller s)) = Some g" "hd_plane (po_handler (lv_Poller s)) = Some pl"
    "plane_for (de_Env (si_Deployment S)) (po_handler (lv_Poller s)) g pl" "pl_gen pl = g"
    "po_taxonomy (lv_Poller s) = Some (pl_reg pl)"
    "surface_ok (de_Env (si_Deployment S)) (po_handler (lv_Poller s))" "one_gen (po_handler (lv_Poller s)) g"
    "planeFor (de_Env (si_Deployment S)) (de_Validator (si_Deployment S)) (po_handler (lv_Poller s)) g =
       (Inr pl, po_handler (lv_Poller s))"
    "schemas_ok (gen_env (de_Env (si_Deployment S)) (snd g)) (pl_core pl)"
proof -
  obtain g pl where p: "so_current (po_store (lv_Poller s)) = Some g" "hd_plane (po_handler (lv_Poller s)) = Some pl"
    "plane_for (de_Env (si_Deployment S)) (po_handler (lv_Poller s)) g pl" "po_taxonomy (lv_Poller s) = Some (pl_reg pl)"
    using assms by (auto simp: live_ok_def poller_ok_def in_step_def)
  have g: "pl_gen pl = g" using p(3) by (simp add: plane_for_def)
  then have "schemas_ok (gen_env (de_Env (si_Deployment S)) (snd g)) (pl_core pl)"
    using assms p(2) by (auto simp: live_ok_def kept_ok_def)
  then show thesis
    using that[OF p(1-3) g p(4)] p(2,3) g by (simp add: surface_ok_def handler_ok_def one_gen_def planeFor_def)
qed

lemma served_handler:
  assumes "snd (planeFor E v h g) = h"
  obtains "sd_Handler (ServeHTTP F E v K who rc (Some g) h hist q) = h"
  | pl c where "fst (planeFor E v h g) = Inr pl" "sd_Handler (ServeHTTP F E v K who rc (Some g) h hist q) = keep_core h pl c"
      "bare c = bare (pl_core pl)" "sound (gen_env E (snd g)) (pl_core pl) \<Longrightarrow> sound (gen_env E (snd g)) c"
proof (cases rule: ServeHTTP_cases[of q F E v K who rc "Some g" h hist])
  case (known g' pl h1 p)
  have k: "g' = g" "h1 = h" "fst (planeFor E v h g) = Inr pl" using known(2,3) assms by auto
  note run = known(5)[unfolded k(1,2)]
  show ?thesis
  proof (cases rule: route_cases[of q F "gen_env E (snd g)" pl p K rc h hist g])
    case (listing resp ls c)
    show ?thesis using that(2)[OF k(3), of c] listTools_core[OF listing(2)] run listing(3) by simp
  next
    case (call d raw i req)
    let ?c = "o_core (Invoke (gen_env E (snd g)) K (pl_core pl) hist (request_ctx q) (Some p) (t_FullMethod d) (Some req))"
    have "sd_Handler (ServeHTTP F E v K who rc (Some g) h hist q) = keep_core h pl ?c"
      using run call(7) by (simp add: call_tool_sel)
    then show ?thesis using that(2)[OF k(3), of ?c] by (simp add: Invoke_def invoke_core)
  qed (use that(1) run in simp_all)
qed (use that(1) assms in auto)

text \<open>The chain a request in flight is given, and what giving it leaves of the handler: everything.\<close>

lemma pinned_plane:
  assumes "live_ok S s" "g \<in> set (lv_Flight s)"
  shows "snd (planeFor (de_Env (si_Deployment S)) (de_Validator (si_Deployment S)) (po_handler (lv_Poller s)) g) =
      po_handler (lv_Poller s)"
    and "one_gen (po_handler (lv_Poller s)) g"
    and "loaded_by (de_Lib (si_Deployment S)) (snd g)" "admitted (si_Deployment S) (lv_Poller s) (snd g)"
proof -
  let ?D = "si_Deployment S" and ?p = "lv_Poller s"
  obtain g0 q0 where g0: "so_current (po_store ?p) = Some g0" "hd_plane (po_handler ?p) = Some q0" "pl_gen q0 = g0"
    by (rule live_plane[OF assms(1)]) simp
  have f: "g = g0 \<or> fst g \<noteq> fst g0 \<and> ct_LoadedAt (snd g) < ct_LoadedAt (snd g0)"
    and a: "loaded_by (de_Lib ?D) (snd g)" "admitted ?D ?p (snd g)"
    using assms g0(1) by (auto simp: live_ok_def flights_ok_def)
  have "poller_ok ?D ?p" using assms(1) by (simp add: live_ok_def)
  from request_ok[OF this g0(1) f prod.collapse[symmetric]]
  show "snd (planeFor (de_Env ?D) (de_Validator ?D) (po_handler ?p) g) = po_handler ?p" .
  show "one_gen (po_handler ?p) g" using f g0(2,3) by (auto simp: one_gen_def)
  show "loaded_by (de_Lib ?D) (snd g)" "admitted ?D ?p (snd g)" using a by simp_all
qed

text \<open>Of a generation superseded since, nothing is kept: the handler's chain is the newer one's.\<close>

lemma stale_core:
  assumes "hd_plane h = Some q" "pl_gen q = g0" "pl_gen pl = g" "fst g \<noteq> fst g0"
  shows "keep_core h pl c = h"
  using assms by (auto simp: keep_core_def)

lemma planeFor_gen:
  assumes "fst (planeFor E v h g) = Inr pl" "one_gen h g"
  shows "pl_gen pl = g"
proof -
  obtain h' where "planeFor E v h g = (Inr pl, h')" using assms(1) by (metis prod.collapse)
  then show ?thesis
  proof (cases rule: planeFor_cases)
    case (cached q)
    then show ?thesis using assms(2) by (simp add: one_gen_def)
  next
    case (built q)
    then show ?thesis using newPlane_Inr[OF built(1)] by (simp add: plane_for_def)
  qed simp
qed

lemma answered_handler:
  assumes "live_ok S s" "g \<in> set (lv_Flight s)"
  obtains (same) "sd_Handler (door_serve S rc i q g s) = po_handler (lv_Poller s)"
  | (memo) pl c where "so_current (po_store (lv_Poller s)) = Some g" "hd_plane (po_handler (lv_Poller s)) = Some pl"
      "sd_Handler (door_serve S rc i q g s) = (po_handler (lv_Poller s))\<lparr>hd_plane := Some (pl\<lparr>pl_core := c\<rparr>)\<rparr>"
      "bare c = bare (pl_core pl)"
      "sound (gen_env (de_Env (si_Deployment S)) (snd g)) (pl_core pl) \<Longrightarrow>
        sound (gen_env (de_Env (si_Deployment S)) (snd g)) c"
proof -
  let ?D = "si_Deployment S" and ?h = "po_handler (lv_Poller s)"
  note P = pinned_plane[OF assms]
  obtain g0 q0 where g0: "so_current (po_store (lv_Poller s)) = Some g0" "hd_plane ?h = Some q0" "pl_gen q0 = g0"
    by (rule live_plane[OF assms(1)]) simp
  show thesis
  proof (rule served_handler[OF P(1), of "si_Surface S" "si_Rules S"
        "principal_source (si_Jose S) (si_Verifier S) (si_Words S) i (lv_Keys s)" rc "lv_Hist s" q, folded door_serve_def])
    assume "sd_Handler (door_serve S rc i q g s) = ?h"
    then show thesis by (rule same)
  next
    fix pl c
    assume c: "fst (planeFor (de_Env ?D) (de_Validator ?D) ?h g) = Inr pl"
      "sd_Handler (door_serve S rc i q g s) = keep_core ?h pl c" "bare c = bare (pl_core pl)"
      "sound (gen_env (de_Env ?D) (snd g)) (pl_core pl) \<Longrightarrow> sound (gen_env (de_Env ?D) (snd g)) c"
    have gen: "pl_gen pl = g" by (rule planeFor_gen[OF c(1) P(2)])
    show thesis
    proof (cases "fst g = fst g0")
      case True
      then have "g0 = g" using P(2) g0(2,3) by (auto simp: one_gen_def)
      moreover have "pl = q0" using c(1) True g0(2,3) by (simp add: planeFor_def)
      ultimately show thesis using c g0 memo[of pl c] by (simp add: keep_core_def)
    next
      case False
      then show thesis using same c(2) stale_core[OF g0(2,3) gen] by simp
    qed
  qed
qed

lemma answer_live:
  assumes "live_ok S s" "g \<in> set (lv_Flight s)" "door S rc i q g s = (ans, s')"
  shows "live_ok S s' \<and> (\<exists>x. po_handler (lv_Poller s') = (po_handler (lv_Poller s))\<lparr>hd_plane := x\<rparr>)"
proof -
  let ?D = "si_Deployment S" and ?p = "lv_Poller s"
  let ?E = "de_Env ?D" and ?h = "po_handler ?p"
  obtain g0 pl0 where P: "so_current (po_store ?p) = Some g0" "hd_plane ?h = Some pl0" "plane_for ?E ?h g0 pl0"
    "pl_gen pl0 = g0" "po_taxonomy ?p = Some (pl_reg pl0)" "surface_ok ?E ?h" "one_gen ?h g0"
    "schemas_ok (gen_env ?E (snd g0)) (pl_core pl0)"
    by (rule live_plane[OF assms(1)]) simp
  have s': "lv_Poller s' = ?p\<lparr>po_handler := sd_Handler (door_serve S rc i q g s)\<rparr>" "lv_Flight s' = landed g (lv_Flight s)"
    using assms(3) by (auto simp: door_def Let_def)
  have same: "\<exists>x. ?h = ?h\<lparr>hd_plane := x\<rparr>" by (rule exI[of _ "hd_plane ?h"]) simp
  have rest: "flights_ok ?D p (lv_Flight s) \<Longrightarrow> flights_ok ?D p (landed g (lv_Flight s))" for p
    by (rule flights_mono[OF _ landed_subset])
  from assms(1,2) show ?thesis
  proof (cases rule: answered_handler[of S s g rc i q])
    case same: same
    then show ?thesis using assms(1) s' rest \<open>\<exists>x. ?h = ?h\<lparr>hd_plane := x\<rparr>\<close> by (simp add: live_ok_def)
  next
    case (memo pl c)
    have g: "g = g0" "pl = pl0" using memo(1,2) P(1,2) by simp_all
    have k: "keep_core ?h pl0 c = ?h\<lparr>hd_plane := Some (pl0\<lparr>pl_core := c\<rparr>)\<rparr>" by (simp add: keep_core_def P(2))
    have "surface_ok ?E (keep_core ?h pl0 c)" using keep_sound[OF P(6,3,7,8)] memo(4,5) g by blast
    then have ok: "plane_for ?E ?h g0 (pl0\<lparr>pl_core := c\<rparr>)" "schemas_ok (gen_env ?E (snd g0)) c"
      unfolding k by (simp_all add: surface_ok_def handler_ok_def P(4))
    have h': "lv_Poller s' = ?p\<lparr>po_handler := ?h\<lparr>hd_plane := Some (pl0\<lparr>pl_core := c\<rparr>)\<rparr>\<rparr>" using s' memo(3) g by simp
    have cfg: "same_config ?p (lv_Poller s')" unfolding h' by (simp add: same_config_def)
    note adm = admitted_config[OF cfg]
    have "admitted ?D ?p (snd g0)" using assms(1) P(1) by (auto simp: live_ok_def poller_ok_def in_step_def)
    then have "in_step ?D (lv_Poller s')" using P(1,5) ok(1) adm unfolding h' in_step_def by simp
    moreover have "kept_ok ?E (po_handler (lv_Poller s'))" using ok(2) P(4) unfolding h' kept_ok_def by simp
    moreover have "flights_ok ?D (lv_Poller s') (lv_Flight s)"
      using assms(1) adm unfolding live_ok_def flights_ok_def by (simp add: h')
    ultimately show ?thesis using assms(1) h' s'(2) rest by (auto simp: live_ok_def poller_ok_def remembers_def)
  qed
qed

lemma live_step_ok:
  assumes "live_step S s s'" "live_ok S s"
  shows "live_ok S s' \<and> (\<exists>x. po_handler (lv_Poller s') = (po_handler (lv_Poller s))\<lparr>hd_plane := x\<rparr>)"
  using assms(1)
proof (cases rule: live_step.cases)
  case (poll i out p')
  have p: "poller_ok (si_Deployment S) (lv_Poller s)" "flights_ok (si_Deployment S) (lv_Poller s) (lv_Flight s)"
    using assms(2) by (simp_all add: live_ok_def)
  have at: "ct_LoadedAt (snd g) \<le> pi_Swap i" if "so_current (po_store (lv_Poller s)) = Some g" for g
    using poll(2)[OF that] by simp
  have ok: "poller_ok (si_Deployment S) p'" by (rule poll_ok[OF p(1) poll(3) at])
  have "kept_ok (de_Env (si_Deployment S)) (po_handler p')"
    using poll_kept[OF _ poll(3)] assms(2) by (simp add: live_ok_def)
  moreover have "flights_ok (si_Deployment S) p' (lv_Flight s)" by (rule poll_flights[OF p poll(3,2)])
  moreover have "\<exists>x. po_handler p' = (po_handler (lv_Poller s))\<lparr>hd_plane := x\<rparr>"
    using poll_config[OF p(1) poll(3) at] by (auto simp: same_config_def)
  ultimately show ?thesis using ok poll(1) by (simp add: live_ok_def)
next
  case (arrive g)
  have "in_step (si_Deployment S) (lv_Poller s)" "store_ok (de_Lib (si_Deployment S)) (po_store (lv_Poller s))"
    using assms(2) by (simp_all add: live_ok_def poller_ok_def)
  then have "fst g < so_alloc (po_store (lv_Poller s)) \<and> loaded_by (de_Lib (si_Deployment S)) (snd g) \<and>
      admitted (si_Deployment S) (lv_Poller s) (snd g)"
    using arrive(2) by (auto simp: store_ok_def in_step_def)
  then show ?thesis
    using arrive assms(2) by (auto simp: live_ok_def flights_ok_def intro: exI[of _ "hd_plane (po_handler (lv_Poller s))"])
next
  case (answer g rc i q ans)
  show ?thesis by (rule answer_live[OF assms(2) answer])
qed

lemma live_reach:
  assumes "(live_step S)\<^sup>*\<^sup>* s s'" "live_ok S s"
  shows "live_ok S s'"
  using assms by (induction rule: rtranclp_induct) (auto dest: live_step_ok)

section \<open>The poller's loop\<close>

text \<open>
  \<open>Poller.Run\<close>: a poll at every tick until the context is done, none before the first. What each tick's
  poll meets is its input; the interval is that of the flag, or half a minute.
\<close>

definition tick_every :: "int \<Rightarrow> int" where
  "tick_every interval = (if interval \<le> 0 then 30 * second_ns else interval)"

fun Poller_Run :: "('d, 'p) deployment \<Rightarrow> poll_input list \<Rightarrow> 'p poller \<Rightarrow> 'p poller" where
  "Poller_Run D [] p = p"
| "Poller_Run D (i # rest) p = Poller_Run D rest (snd (Once D i p))"

text \<open>A run of the loop is steps of the process, as long as its clock does not go back.\<close>

fun in_order :: "('d, 'p) deployment \<Rightarrow> poll_input list \<Rightarrow> 'p poller \<Rightarrow> bool" where
  "in_order D [] p = True"
| "in_order D (i # rest) p \<longleftrightarrow>
     (case so_current (po_store p) of None \<Rightarrow> True | Some g \<Rightarrow> ct_LoadedAt (snd g) < pi_Swap i) \<and>
     in_order D rest (snd (Once D i p))"

lemma Run_lives:
  assumes "in_order (si_Deployment S) inputs (lv_Poller s)"
  shows "(live_step S)\<^sup>*\<^sup>* s (s\<lparr>lv_Poller := Poller_Run (si_Deployment S) inputs (lv_Poller s)\<rparr>)"
  using assms
proof (induction inputs arbitrary: s)
  case (Cons i rest)
  let ?s = "s\<lparr>lv_Poller := snd (Once (si_Deployment S) i (lv_Poller s))\<rparr>"
  have "live_step S s ?s"
    using Cons.prems by (intro live_step.poll[OF _ prod.collapse[symmetric]]) simp
  then show ?case using Cons.IH[of ?s] Cons.prems by (simp add: converse_rtranclp_into_rtranclp)
qed simp

section \<open>A started process\<close>

lemma live_wiring:
  assumes "(live_step S)\<^sup>*\<^sup>* s s'" "live_ok S s"
  shows "\<exists>x. po_handler (lv_Poller s') = (po_handler (lv_Poller s))\<lparr>hd_plane := x\<rparr>"
  using assms(1)
proof (induction rule: rtranclp_induct)
  case base
  show ?case by (rule exI[of _ "hd_plane (po_handler (lv_Poller s))"]) simp
next
  case (step y z)
  have "live_ok S y" by (rule live_reach[OF step(1) assms(2)])
  then show ?case using live_step_ok[OF step(2)] step(3) by auto
qed


definition site_of ::
  "surface \<Rightarrow> rule_pkg \<Rightarrow> 'k jose \<Rightarrow> (principal_err \<Rightarrow> go_err) \<Rightarrow> ('d, 'p, 's) build \<Rightarrow> 'p running \<Rightarrow> ('d, 'p, 'k) site" where
  "site_of F K J words B r =
     \<lparr>si_Surface = F, si_Rules = K, si_Deployment = deployment_of B r, si_Jose = J,
      si_Verifier = ru_Verifier r, si_Words = words\<rparr>"

definition boot_live :: "'p running \<Rightarrow> 'k key_store \<Rightarrow> ('p, 'k) live" where
  "boot_live r ks = \<lparr>lv_Poller = ru_State r, lv_Keys = ks, lv_Hist = [], lv_Flight = []\<rparr>"

lemma site_of_sel [simp]:
  "si_Surface (site_of F K J words B r) = F" "si_Rules (site_of F K J words B r) = K"
  "si_Deployment (site_of F K J words B r) = deployment_of B r" "si_Jose (site_of F K J words B r) = J"
  "si_Verifier (site_of F K J words B r) = ru_Verifier r" "si_Words (site_of F K J words B r) = words" "de_Env (deployment_of B r) = bl_Env B"
  by (simp_all add: site_of_def deployment_of_def)

lemma boot_live_ok:
  fixes B :: "('d, 'p, 's) build"
  assumes "snd (Serve B W cfg) = Ran r e"
  shows "live_ok (site_of F K J words B r) (boot_live r ks)"
proof -
  obtain g :: "'p gen" and key batched h store reg where s:
    "Prepare (bl_Env B) (bl_Validator B) (boot_handler B key batched (ru_Sink r) (ru_Grants r)) g = (None, h)"
    "ru_State r = fresh_poller store h reg"
    by (rule Serve_Ran[OF assms], rule that, assumption+)
  have "kept_ok (bl_Env B) (boot_handler B key batched (ru_Sink r) (ru_Grants r))"
    by (simp add: kept_ok_def boot_handler_def)
  moreover obtain x where "planeFor (bl_Env B) (bl_Validator B) (boot_handler B key batched (ru_Sink r) (ru_Grants r)) g = (x, h)"
    using s(1) Prepare_planeFor[of "bl_Env B" "bl_Validator B" "boot_handler B key batched (ru_Sink r) (ru_Grants r)" g]
    by (metis prod.collapse snd_conv)
  ultimately have "kept_ok (bl_Env B) h" by (rule planeFor_kept)
  then show ?thesis
    using started_ok[OF assms] by (simp add: live_ok_def flights_ok_def boot_live_def s(2) fresh_poller_def)
qed

text \<open>
  C10: A process at work stays governed. Take a process that reached its listener, and any polls, arrivals
  and answers since, in any order and however each ended. The catalogue in force loaded and was admitted;
  the chain in force is one built for it, over its taxonomy, with every tool mounted under its own
  declaration and the steps that were wired at boot; the taxonomy published is that chain's; what
  the requests memoised in it (card types, projected schemas) is true; and every request still in flight
  holds an admitted catalogue, the one in force or an older one it superseded.
\<close>

theorem live_process_governed:
  assumes "snd (Serve B W cfg) = Ran r e"
    and "(live_step (site_of F K J words B r))\<^sup>*\<^sup>* (boot_live r ks) s"
  shows "\<exists>g q x. so_current (po_store (lv_Poller s)) = Some g \<and> loaded_by (bl_CatLib B) (snd g) \<and>
     admitted (deployment_of B r) (lv_Poller s) (snd g) \<and>
     hd_plane (po_handler (lv_Poller s)) = Some q \<and> plane_for (bl_Env B) (po_handler (lv_Poller s)) g q \<and>
     po_taxonomy (lv_Poller s) = Some (pl_reg q) \<and> sound (gen_env (bl_Env B) (snd g)) (pl_core q) \<and>
     po_handler (lv_Poller s) = (po_handler (ru_State r))\<lparr>hd_plane := x\<rparr> \<and>
     (\<forall>g' \<in> set (lv_Flight s). admitted (deployment_of B r) (lv_Poller s) (snd g') \<and>
        (g' = g \<or> fst g' \<noteq> fst g \<and> ct_LoadedAt (snd g') < ct_LoadedAt (snd g)))"
proof -
  let ?S = "site_of F K J words B r"
  have ok: "live_ok ?S s" by (rule live_reach[OF assms(2) boot_live_ok[OF assms(1)]])
  obtain x where x: "po_handler (lv_Poller s) = (po_handler (ru_State r))\<lparr>hd_plane := x\<rparr>"
    using live_wiring[OF assms(2) boot_live_ok[OF assms(1)]] by (auto simp: boot_live_def)
  obtain g q where P: "so_current (po_store (lv_Poller s)) = Some g" "hd_plane (po_handler (lv_Poller s)) = Some q"
    "plane_for (bl_Env B) (po_handler (lv_Poller s)) g q" "po_taxonomy (lv_Poller s) = Some (pl_reg q)"
    "schemas_ok (gen_env (bl_Env B) (snd g)) (pl_core q)"
    by (rule live_plane[OF ok]) simp
  have "loaded_by (bl_CatLib B) (snd g)" "admitted (deployment_of B r) (lv_Poller s) (snd g)"
    using ok P(1) by (auto simp: live_ok_def poller_ok_def in_step_def store_ok_def deployment_of_def)
  moreover have "\<forall>g' \<in> set (lv_Flight s). admitted (deployment_of B r) (lv_Poller s) (snd g') \<and>
      (g' = g \<or> fst g' \<noteq> fst g \<and> ct_LoadedAt (snd g') < ct_LoadedAt (snd g))"
    using ok P(1) by (auto simp: live_ok_def flights_ok_def)
  ultimately show ?thesis using x P(1-4) plane_sound[OF P(3,5)] by blast
qed

text \<open>The verifier of the process: the pairs of the command line, its audience, the usual leeway.\<close>

lemma Serve_verifier:
  assumes "snd (Serve B W cfg) = Ran r e"
  shows "vc_Audience (vr_cfg (ru_Verifier r)) = cf_Audience cfg" "vc_Trusted (vr_cfg (ru_Verifier r)) = ru_Trusted r"
    "vc_Skew (vr_cfg (ru_Verifier r)) = DefaultSkew"
    "trustedIssuers (cf_Issuers cfg) (cf_JWKSURLs cfg) = Inr (ru_Trusted r)"
proof -
  obtain trusted key src g store grants batched sink where a:
    "assemble B W cfg trusted key src g store grants batched sink = Inr r"
    using assms by (auto simp: Serve_def serve_connected_def split: sum.splits option.splits prod.splits)
  then have "vc_Audience (vr_cfg (ru_Verifier r)) = cf_Audience cfg \<and> vc_Trusted (vr_cfg (ru_Verifier r)) = ru_Trusted r \<and>
      vc_Skew (vr_cfg (ru_Verifier r)) = DefaultSkew"
    by (auto simp: assemble_def NewVerifier_def fold_pair_def Let_def split: sum.splits option.splits prod.splits)
  then show "vc_Audience (vr_cfg (ru_Verifier r)) = cf_Audience cfg" "vc_Trusted (vr_cfg (ru_Verifier r)) = ru_Trusted r"
    "vc_Skew (vr_cfg (ru_Verifier r)) = DefaultSkew" by blast+
  show "trustedIssuers (cf_Issuers cfg) (cf_JWKSURLs cfg) = Inr (ru_Trusted r)"
    by (rule Serve_Ran[OF assms]) simp
qed

section \<open>Who a tool runs for\<close>

text \<open>
  A token vouches for a principal to this deployment: one signature, by a key that the \<open>n\<close>-th key set
  answers for its key id, over content that names the issuer and the audience, with an expiry not
  passed, whose chain folds to the principal under a taxonomy.
\<close>

definition vouched_by ::
  "'k jose \<Rightarrow> door_input \<Rightarrow> 'k key_store \<Rightarrow> registry \<Rightarrow> string \<Rightarrow> string \<Rightarrow> nat \<Rightarrow> string \<Rightarrow> principal \<Rightarrow> bool" where
  "vouched_by J i ks reg issuer audience n tok p \<longleftrightarrow>
     (\<exists>sg kid key payload raw c dropped.
        jo_ParseSigned J tok = Inr sg \<and> sg_kids sg = [kid] \<and>
        fst (Key (jo_keys J) (di_Net i n) (di_Clock i) (ks n) kid) = Inr key \<and> sg_Verify sg key = Inr payload \<and>
        jo_object J payload = Inr raw \<and> ParseClaims raw = Inr c \<and> cb_Issuer (cl_body c) = issuer \<and>
        audience \<in> set (cb_Audience (cl_body c)) \<and> cb_ExpiresAt (cl_body c) \<noteq> zero_time \<and>
        di_Now i \<le> cb_ExpiresAt (cl_body c) * 10 ^ 9 + DefaultSkew \<and> Fold (Some c) reg = Inr (p, dropped))"

lemma identify_Inr:
  assumes "fst (identify J v i ks reg q) = Inr p"
  obtains tok dropped ks' where "Middleware q = Some tok"
    "Verify J v (Some reg) (di_Net i) (di_Clock i) (di_Now i) ks tok = (Inr (p, dropped), ks')"
  using assms
  by (auto simp: identify_def PrincipalFunc_def WithRegistry_def split: option.splits if_splits prod.splits sum.splits)

lemma trusted_at:
  assumes "trustedIssuers issuers jwks = Inr ts" "t \<in> set ts" "tr_KeySet t = Some n"
  shows "n < length issuers \<and> tr_Issuer t = issuers ! n"
proof -
  note P = issuers_paired[OF assms(1)]
  obtain j where "j < length issuers" "t = ts ! j" using assms(2) P by (metis in_set_conv_nth)
  then show ?thesis using P assms(3) by auto
qed

lemma identify_vouched:
  assumes "fst (identify J v i ks reg q) = Inr p"
    and "trustedIssuers issuers jwks = Inr (vc_Trusted (vr_cfg v))" "vc_Skew (vr_cfg v) = DefaultSkew"
  shows "\<exists>tok n. Middleware q = Some tok \<and> n < length issuers \<and>
     vouched_by J i ks reg (issuers ! n) (vc_Audience (vr_cfg v)) n tok p"
  using assms(1)
proof (rule identify_Inr)
  fix tok dropped ks'
  assume tok: "Middleware q = Some tok"
    and ver: "Verify J v (Some reg) (di_Net i) (di_Clock i) (di_Now i) ks tok = (Inr (p, dropped), ks')"
  from ver show ?thesis
  proof (cases rule: Verify_Inr)
    case (1 reg' sg kid t n key k' f payload)
    have reg: "reg' = reg" using 1(2) by (simp add: compartments_of_def)
    obtain raw c where vc: "jo_object J payload = Inr raw" "ParseClaims raw = Inr c"
      "cb_Issuer (cl_body c) = tr_Issuer t" "checkRegistered v c raw (di_Now i) = None"
      "Fold (Some c) reg' = Inr (p, dropped)"
      by (rule verified_content_Inr[OF 1(11)])
    have n: "n < length issuers \<and> tr_Issuer t = issuers ! n"
      by (rule trusted_at[OF assms(2)]) (use trustedFor_Some[OF 1(6)] 1(7) in auto)
    have "fst (Key (jo_keys J) (di_Net i n) (di_Clock i) (ks n) kid) = Inr key" using 1(8) by simp
    then have "vouched_by J i ks reg (issuers ! n) (vc_Audience (vr_cfg v)) n tok p"
      unfolding vouched_by_def using 1(3,4,10) vc n reg checkRegistered_None[OF vc(4)] assms(3)
      by (intro exI[of _ sg] exI[of _ kid] exI[of _ key] exI[of _ payload] exI[of _ raw] exI[of _ c] exI[of _ dropped]) simp
    then show ?thesis using tok n by blast
  qed
qed

text \<open>
  C2: A tool of a running process runs only for the caller its issuers vouch for, once, and behind every
  gate. Take a process that reached its listener, any history of polls and requests, and a request in
  flight that read the generation \<open>g\<close> when it arrived, however many polls ago. If answering it makes a
  resolver run, it carried a bearer token; the token was signed by a key of the very key
  set that was paired, on the command line, with the issuer the signed content names, for this
  deployment's audience and in time; the caller of the call is the fold of that content under the
  taxonomy of \<open>g\<close> itself; the tool is one of \<open>g\<close>, an admitted catalogue, at the path asked for; and the
  resolver ran once, with the context of that caller, after visibility, request check, validation,
  authorization, approval, availability and audit intent had each passed, in a chain built for \<open>g\<close>.
\<close>

theorem tool_runs_for_vouched_caller:
  assumes "snd (Serve B W cfg) = Ran r e"
    and "(live_step (site_of F K J words B r))\<^sup>*\<^sup>* (boot_live r ks) s"
    and "g \<in> set (lv_Flight s)" "door (site_of F K J words B r) rc i q g s = (ans, s')"
    and "lv_Hist s' = es @ lv_Hist s" "EResolve procedure m ic \<in> set es"
  shows "\<exists>pl d p tok n post pre. loaded_by (bl_CatLib B) (snd g) \<and> admitted (deployment_of B r) (lv_Poller s) (snd g) \<and>
     plane_for (bl_Env B) (po_handler (lv_Poller s)) g pl \<and>
     d \<in> set (ct_Defs (snd g)) \<and> t_FullMethod d = procedure \<and> hq_Path q = procedure \<and>
     Middleware q = Some tok \<and> n < length (cf_Issuers cfg) \<and>
     vouched_by J i (lv_Keys s) (pl_reg pl) (cf_Issuers cfg ! n) (cf_Audience cfg) n tok p \<and>
     es = post @ EResolve procedure m ic # pre \<and> (\<forall>a \<in> set (post @ pre). \<not> is_resolve a) \<and>
     front_gates (gen_env (bl_Env B) (snd g)) (pl_core pl) (request_ctx q) p procedure m
       (en_NewEventID (bl_Env B) (lv_Hist s)) (lv_Hist s) (pre @ lv_Hist s) \<and>
     ic = invocationContext (gen_env (bl_Env B) (snd g)) (request_ctx q) p (pre @ lv_Hist s)
       (en_NewEventID (bl_Env B) (lv_Hist s))"
proof -
  let ?S = "site_of F K J words B r" and ?h = "po_handler (lv_Poller s)" and ?w = "lv_Hist s"
  have ok: "live_ok ?S s" by (rule live_reach[OF assms(2) boot_live_ok[OF assms(1)]])
  note P = pinned_plane[OF ok assms(3), simplified]
  have lib: "de_Lib (deployment_of B r) = bl_CatLib B" by (simp add: deployment_of_def)
  have sf: "surface_ok (bl_Env B) ?h" by (rule live_plane[OF ok]) simp
  let ?who = "principal_source J (ru_Verifier r) words i (lv_Keys s)"
  have hist: "sd_Hist (ServeHTTP F (bl_Env B) (de_Validator (deployment_of B r)) K ?who rc (Some g) ?h ?w q) = es @ ?w"
    using assms(4,5) by (auto simp: door_def door_serve_def Let_def)
  obtain pl h1 p d req js where c: "plane_for (bl_Env B) ?h g pl" "principal_of ?who (pl_reg pl) q = Inr p"
    "lookup_route (ct_Defs (snd g)) (hq_Path q) = Some d" "t_FullMethod d = hq_Path q"
    "ServeHTTP F (bl_Env B) (de_Validator (deployment_of B r)) K ?who rc (Some g) ?h ?w q =
       call_tool F (gen_env (bl_Env B) (snd g)) K h1 ?w pl p d q js req"
    "Invoke (gen_env (bl_Env B) (snd g)) K (pl_core pl) ?w (request_ctx q) (Some p) (hq_Path q) (Some req) =
       invoke (gen_env (bl_Env B) (snd g)) K (pl_core pl) ?w (request_ctx q) (Some p) (hq_Path q) (Some req)
         (Some (hop_resolver ?h d))"
    by (rule served_call[OF surface_handler[OF sf] P(2) assms(6) hist])
  have "fst (identify J (ru_Verifier r) i (lv_Keys s) (pl_reg pl) q) = Inr p"
    using c(2) by (auto simp: principal_of_def principal_source_def split: sum.splits)
  from identify_vouched[OF this, of "cf_Issuers cfg" "cf_JWKSURLs cfg"] Serve_verifier[OF assms(1)]
  obtain tok n where who: "Middleware q = Some tok" "n < length (cf_Issuers cfg)"
    "vouched_by J i (lv_Keys s) (pl_reg pl) (cf_Issuers cfg ! n) (cf_Audience cfg) n tok p" by auto
  have "o_hist (invoke (gen_env (bl_Env B) (snd g)) K (pl_core pl) ?w (request_ctx q) (Some p) (hq_Path q)
      (Some req) (Some (hop_resolver ?h d))) = es @ ?w"
    using hist c(4-6) by (simp add: call_tool_sel)
  then show ?thesis using assms(6)
  proof (cases rule: invoke_resolves)
    case (1 p' post pre ev c' h1' q')
    have d: "d \<in> set (ct_Defs (snd g))" using lookup_route_iff[OF c(3)] by simp
    show ?thesis
      by (rule exI[of _ pl], rule exI[of _ d], rule exI[of _ p], rule exI[of _ tok],
          rule exI[of _ n], rule exI[of _ post], rule exI[of _ pre])
        (use P(3,4) lib c(1) d c(4) who 1 in simp)
  qed
qed

section \<open>A process at work, evaluated\<close>

definition toy_input :: door_input where
  "toy_input = \<lparr>di_Net = \<lambda>i. Body ''keys'', di_Clock = toy_clock 500, di_Now = 1700000000000000000\<rparr>"

definition toy_call :: http_request where
  "toy_call = toy_request ''/a.S/GetIt'' ''Bearer tok''"

definition clerk_body :: jobj where
  "clerk_body =
    [(''iss'', JStr ''https://idp''), (''sub'', JStr ''ada''), (''aud'', JStr ''garmd''), (''exp'', JNum 1700000000 0),
     (''garm'', JObj [(''clearance'', JStr ''CONFIDENTIAL''), (''verbs'', JArr [JStr ''READ'', JStr ''WRITE'']),
        (''kind'', JStr ''user'')])]"

abbreviation toy_site :: "unit running \<Rightarrow> (unit, unit, nat) site" where
  "toy_site r \<equiv> site_of toy_surface sample_rules (toy_jose\<lparr>jo_object := \<lambda>s. Inr clerk_body\<rparr>) (\<lambda>e. Plain ''no'') toy_build r"

text \<open>A request that arrives at a started process, and is answered.\<close>

definition toy_arrived :: "unit running \<Rightarrow> (unit, nat) live" where
  "toy_arrived r = (boot_live r (\<lambda>i. toy_set))\<lparr>lv_Flight := [the (so_current (po_store (ru_State r)))]\<rparr>"

abbreviation toy_answered :: "unit running \<Rightarrow> (unit, nat) live" where
  "toy_answered r \<equiv> snd (door (toy_site r) None toy_input toy_call (the (so_current (po_store (ru_State r)))) (toy_arrived r))"

lemma toy_door:
  "case snd (Serve toy_build toy_world toy_deployment) of NotStarted x \<Rightarrow> False
   | Ran r e \<Rightarrow> list_ex effect_resolves (lv_Hist (toy_answered r))"
  by code_simp

lemma toy_arrives:
  assumes "snd (Serve toy_build toy_world toy_deployment) = Ran r e"
  shows "live_step (toy_site r) (boot_live r (\<lambda>i. toy_set)) (toy_arrived r)"
    "the (so_current (po_store (ru_State r))) \<in> set (lv_Flight (toy_arrived r))"
proof -
  obtain g where "so_current (po_store (ru_State r)) = Some g"
    using started_ok[OF assms] by (auto simp: poller_ok_def in_step_def)
  then show "live_step (toy_site r) (boot_live r (\<lambda>i. toy_set)) (toy_arrived r)"
    using live_step.arrive[of "boot_live r (\<lambda>i. toy_set)" g "toy_site r"] by (simp add: toy_arrived_def boot_live_def)
  show "the (so_current (po_store (ru_State r))) \<in> set (lv_Flight (toy_arrived r))" by (simp add: toy_arrived_def)
qed

lemma live_process_governed_witness:
  "\<exists>r e g. snd (Serve toy_build toy_world toy_deployment) = Ran r e \<and>
     so_current (po_store (lv_Poller (toy_answered r))) = Some g \<and> loaded_by toy_catlib (snd g)"
proof -
  obtain r e where r: "snd (Serve toy_build toy_world toy_deployment) = Ran r e"
    using toy_started by (auto split: ending.splits)
  have "live_step (toy_site r) (toy_arrived r) (toy_answered r)"
    by (rule live_step.answer[OF toy_arrives(2)[OF r] prod.collapse[symmetric]])
  then have "(live_step (toy_site r))\<^sup>*\<^sup>* (boot_live r (\<lambda>i. toy_set)) (toy_answered r)"
    using toy_arrives(1)[OF r] by (rule converse_rtranclp_into_rtranclp[OF _ r_into_rtranclp, rotated])
  from live_process_governed[OF r this] show ?thesis using r by (auto simp: toy_build_def)
qed

lemma tool_runs_for_vouched_caller_witness:
  "\<exists>r e reg p. snd (Serve toy_build toy_world toy_deployment) = Ran r e \<and>
     vouched_by (si_Jose (toy_site r)) toy_input (\<lambda>i. toy_set) reg ''https://idp'' ''garmd'' 0 ''tok'' p"
proof -
  obtain r e where r: "snd (Serve toy_build toy_world toy_deployment) = Ran r e"
    using toy_started by (auto split: ending.splits)
  obtain procedure m ic where "EResolve procedure m ic \<in> set (lv_Hist (toy_answered r))"
    using toy_door r by (auto simp: list_ex_iff elim: effect_resolves.elims)
  note run = tool_runs_for_vouched_caller[OF r r_into_rtranclp[where r = "live_step (toy_site r)", OF toy_arrives(1)[OF r]]
      toy_arrives(2)[OF r] prod.collapse[symmetric] _ this]
  have h: "lv_Hist (toy_answered r) = lv_Hist (toy_answered r) @ lv_Hist (toy_arrived r)"
    by (simp add: toy_arrived_def boot_live_def)
  have "Middleware toy_call = Some ''tok''" by code_simp
  moreover have "cf_Issuers toy_deployment = [''https://idp'']" "cf_Audience toy_deployment = ''garmd''"
    "lv_Keys (toy_arrived r) = (\<lambda>i. toy_set)"
    by (simp_all add: toy_deployment_def toy_arrived_def boot_live_def)
  ultimately show ?thesis using run[OF h] r by auto
qed

end
