(* ===== verification/Slog.thy ===== *)
theory Slog
  imports Recorder
begin

text \<open>
  \<open>internal/record/slog.go\<close> and \<open>memory.go\<close>: the recorder that writes a row as one structured log line
  (the whole ledger of a process started without \<open>--ledger-stream\<close>, and where rows go that the publisher
  cannot send), and the recorder the tests read. The line is the list of attributes given to \<open>LogAttrs\<close>;
  how a handler formats it is the library's.
\<close>

section \<open>The row\<close>

text \<open>
  The fields of \<open>ledger.Event\<close> that the tool plane never sets and the line carries. A nil slice and an
  empty one are told apart where the line does; a float is its 64 bits.
\<close>

record ledger_row = event +
  lr_Feature :: string
  lr_RunID :: string
  lr_CorrelationID :: string
  lr_CausationID :: string
  lr_PromptName :: string
  lr_PromptHash :: string
  lr_Alias :: string
  lr_ResolvedModel :: string
  lr_ModelOverridden :: bool
  lr_InputTokens :: int
  lr_OutputTokens :: int
  lr_CachedTokens :: int
  lr_ReasoningTokens :: int
  lr_CostUSD :: "64 word"
  lr_CostSource :: string
  lr_LatencyMS :: int
  lr_ProviderRequestID :: string
  lr_FallbackUsed :: bool
  lr_PolicyMode :: string
  lr_PolicyViolations :: "string list option"

text \<open>A row of the tool plane: every other field is the zero value.\<close>

definition plane_row :: "event \<Rightarrow> ledger_row" where
  "plane_row ev = event.extend ev
     (ledger_row.fields [] [] [] [] [] [] [] [] False 0 0 0 0 0 [] 0 [] False [] None)"

section \<open>The line\<close>

datatype attr_value =
  AString string | ABool bool | AInt int | AFloat "64 word" | AStrings "string list" | AOutcome outcome | ADetail detail

type_synonym attr = "string \<times> attr_value"

definition violations_attr :: "ledger_row \<Rightarrow> string list" where
  "violations_attr ev = (case lr_PolicyViolations ev of None \<Rightarrow> [] | Some vs \<Rightarrow> vs)"

definition usage_attrs :: "ledger_row \<Rightarrow> attr list" where
  "usage_attrs ev =
     [(''unledgered'', ABool True),
      (''tenant'', AString (ev_Tenant ev)),
      (''app'', AString (ev_App ev)),
      (''feature'', AString (lr_Feature ev)),
      (''run_id'', AString (lr_RunID ev)),
      (''correlation_id'', AString (lr_CorrelationID ev)),
      (''causation_id'', AString (lr_CausationID ev)),
      (''prompt_name'', AString (lr_PromptName ev)),
      (''prompt_hash'', AString (lr_PromptHash ev)),
      (''alias'', AString (lr_Alias ev)),
      (''resolved_model'', AString (lr_ResolvedModel ev)),
      (''model_overridden'', ABool (lr_ModelOverridden ev)),
      (''input_tokens'', AInt (lr_InputTokens ev)),
      (''output_tokens'', AInt (lr_OutputTokens ev)),
      (''cached_tokens'', AInt (lr_CachedTokens ev)),
      (''reasoning_tokens'', AInt (lr_ReasoningTokens ev)),
      (''cost_usd'', AFloat (lr_CostUSD ev)),
      (''cost_source'', AString (lr_CostSource ev)),
      (''latency_ms'', AInt (lr_LatencyMS ev)),
      (''provider_request_id'', AString (lr_ProviderRequestID ev)),
      (''fallback_used'', ABool (lr_FallbackUsed ev)),
      (''outcome'', AOutcome (ev_Outcome ev)),
      (''error_kind'', AString (ev_ErrorKind ev)),
      (''error_detail'', ADetail (ev_ErrorDetail ev)),
      (''policy_mode'', AString (lr_PolicyMode ev)),
      (''policy_violations'', AStrings (violations_attr ev))]"

definition tool_attrs :: "ledger_row \<Rightarrow> attr list" where
  "tool_attrs ev =
     [(''tool'', AString (ev_Tool ev)),
      (''principal_subject'', AString (ev_PrincipalSubject ev)),
      (''principal_actor'', AString (ev_PrincipalActor ev)),
      (''principal_kind'', AString (ev_PrincipalKind ev)),
      (''execution_subject'', AString (ev_ExecutionSubject ev)),
      (''chain_depth'', AInt (int (ev_ChainDepth ev))),
      (''clearance_effective'', AString (ev_ClearanceEffective ev)),
      (''compartments_effective'', AStrings (ev_CompartmentsEffective ev)),
      (''redaction_plan'', AString (ev_RedactionPlan ev)),
      (''redaction_count'', AInt (int (ev_RedactionCount ev))),
      (''disclosed_count'', AInt (int (ev_DisclosedCount ev)))]"

text \<open>One line at level INFO under the message \<open>garm.usage\<close>.\<close>

definition slog_line :: "ledger_row \<Rightarrow> string \<times> attr list" where
  "slog_line ev = (''garm.usage'', usage_attrs ev @ (if ev_Tool ev \<noteq> [] then tool_attrs ev else []))"

definition slog_Record :: "(string \<times> attr list) list \<Rightarrow> event \<Rightarrow> (string \<times> attr list) list" where
  "slog_Record log ev = log @ [slog_line (plane_row ev)]"

text \<open>What a line says, attribute by attribute.\<close>

definition says :: "string \<times> attr list \<Rightarrow> string \<Rightarrow> attr_value option" where
  "says l k = map_of (snd l) k"

lemma plane_row_fields:
  "ev_Tool (plane_row ev) = ev_Tool ev" "usage_attrs (plane_row ev) = usage_attrs (plane_row ev')
     \<longleftrightarrow> ev_Tenant ev = ev_Tenant ev' \<and> ev_App ev = ev_App ev' \<and> ev_Outcome ev = ev_Outcome ev' \<and>
         ev_ErrorKind ev = ev_ErrorKind ev' \<and> ev_ErrorDetail ev = ev_ErrorDetail ev'"
  "tool_attrs (plane_row ev) = tool_attrs (plane_row ev') \<longleftrightarrow>
     ev_Tool ev = ev_Tool ev' \<and> ev_PrincipalSubject ev = ev_PrincipalSubject ev' \<and>
     ev_PrincipalActor ev = ev_PrincipalActor ev' \<and> ev_PrincipalKind ev = ev_PrincipalKind ev' \<and>
     ev_ExecutionSubject ev = ev_ExecutionSubject ev' \<and> ev_ChainDepth ev = ev_ChainDepth ev' \<and>
     ev_ClearanceEffective ev = ev_ClearanceEffective ev' \<and>
     ev_CompartmentsEffective ev = ev_CompartmentsEffective ev' \<and> ev_RedactionPlan ev = ev_RedactionPlan ev' \<and>
     ev_RedactionCount ev = ev_RedactionCount ev' \<and> ev_DisclosedCount ev = ev_DisclosedCount ev'"
  by (auto simp: plane_row_def event.defs ledger_row.defs usage_attrs_def tool_attrs_def violations_attr_def)

text \<open>
  A line is the whole of its row, for the rows of tool calls, but for three fields: two such rows give the
  same line exactly when they agree in everything else. The row's id, its time and its tags are not on it.
\<close>

lemma line_keeps:
  assumes "ev_Tool ev \<noteq> []" "ev_Tool ev' \<noteq> []"
  shows "slog_line (plane_row ev) = slog_line (plane_row ev') \<longleftrightarrow>
     ev = ev'\<lparr>ev_ID := ev_ID ev, ev_Time := ev_Time ev, ev_Tags := ev_Tags ev\<rparr>"
proof -
  have n: "length (usage_attrs a) = 26" for a by (simp add: usage_attrs_def)
  have "slog_line (plane_row ev) = slog_line (plane_row ev') \<longleftrightarrow>
      usage_attrs (plane_row ev) = usage_attrs (plane_row ev') \<and> tool_attrs (plane_row ev) = tool_attrs (plane_row ev')"
    using assms by (simp add: slog_line_def plane_row_fields(1) n)
  also have "\<dots> \<longleftrightarrow> ev = ev'\<lparr>ev_ID := ev_ID ev, ev_Time := ev_Time ev, ev_Tags := ev_Tags ev\<rparr>"
    unfolding plane_row_fields(2,3) by (cases ev; cases ev') auto
  finally show ?thesis .
qed

text \<open>
  So the id the answer carries in \<open>Garm-Event-Id\<close>, and the task an approval named, are on no line: a process
  whose ledger is the log writes the same lines whatever they were.
\<close>

lemma line_names_no_event:
  "slog_Record log (ev\<lparr>ev_ID := i, ev_Tags := ts\<rparr>) = slog_Record log ev"
  by (simp add: slog_Record_def plane_row_def event.defs ledger_row.defs slog_line_def usage_attrs_def tool_attrs_def
      violations_attr_def)

lemma line_never_null: "says (slog_line (plane_row ev)) ''policy_violations'' = Some (AStrings [])"
  "says (slog_line (plane_row ev)) ''unledgered'' = Some (ABool True)"
  by (simp_all add: says_def slog_line_def usage_attrs_def tool_attrs_def plane_row_def event.defs ledger_row.defs
      violations_attr_def)

text \<open>A row without a tool says nothing of a principal.\<close>

lemma listing_line: "ev_Tool ev = [] \<Longrightarrow> says (slog_line (plane_row ev)) ''principal_subject'' = None"
  by (simp add: says_def slog_line_def usage_attrs_def plane_row_def event.defs ledger_row.defs)

section \<open>The recorder of the tests\<close>

text \<open>Each operation holds the mutex throughout, so concurrent calls are a sequence of these.\<close>

definition memory_Record :: "event list \<Rightarrow> event \<Rightarrow> event list" where
  "memory_Record m ev = m @ [ev]"

definition memory_Events :: "event list \<Rightarrow> event list" where
  "memory_Events m = m"

lemma memory_keeps_order: "memory_Events (foldl memory_Record m evs) = memory_Events m @ evs"
  by (induction evs rule: rev_induct) (simp_all add: memory_Record_def memory_Events_def)

end
