(* ===== verification/CallContext.thy ===== *)
theory CallContext
  imports Hop Report Verify
begin

text \<open>
  The Go context of a call: \<open>context.WithValue\<close> under unexported keys, with pointers to destinations the
  chain and the grant verifier write through (\<open>internal/toolplane/eventid.go\<close>, \<open>redactions.go\<close>,
  \<open>binding.go\<close>, \<open>internal/grants/verify.go\<close>, \<open>internal/authn/registry.go\<close>). The rest of the development
  reads a context as the record \<open>gctx\<close>; here the two are shown to agree, for the context the HTTP surface
  builds as well.
\<close>

section \<open>Contexts and the store their pointers lead to\<close>

datatype ctx_key = EventIDKey | RedactionsKey | GrantBindingKey | GrantKey | RegistryKey | InvocationKey

type_synonym addr = nat

datatype ctx_val =
  VDst addr | VToken string | VRegistry registry | VInvocation invocation_context

text \<open>Newest value first; a context is never changed, only extended.\<close>

type_synonym go_ctx = "(ctx_key \<times> ctx_val) list"

definition ctx_Value :: "go_ctx \<Rightarrow> ctx_key \<Rightarrow> ctx_val option" where
  "ctx_Value ctx k = map_of ctx k"

definition ctx_dst :: "go_ctx \<Rightarrow> ctx_key \<Rightarrow> addr option" where
  "ctx_dst ctx k = (case ctx_Value ctx k of Some (VDst a) \<Rightarrow> Some a | _ \<Rightarrow> None)"

datatype cell = CString string | CRedactions "string list" string | CBinding string

type_synonym cells = "addr \<Rightarrow> cell option"

section \<open>The event id\<close>

definition WithEventID :: "go_ctx \<Rightarrow> addr option \<Rightarrow> go_ctx" where
  "WithEventID ctx dst = (case dst of None \<Rightarrow> ctx | Some a \<Rightarrow> (EventIDKey, VDst a) # ctx)"

definition noteEventID :: "go_ctx \<Rightarrow> string \<Rightarrow> cells \<Rightarrow> cells" where
  "noteEventID ctx i st = (case ctx_dst ctx EventIDKey of None \<Rightarrow> st | Some a \<Rightarrow> st(a \<mapsto> CString i))"

section \<open>What was withheld\<close>

text \<open>\<open>new\<close> is the address the runtime allocates, when one is needed.\<close>

definition WithRedactions :: "go_ctx \<Rightarrow> addr \<Rightarrow> cells \<Rightarrow> go_ctx \<times> cells" where
  "WithRedactions ctx new st =
     (case ctx_dst ctx RedactionsKey of
        Some a \<Rightarrow> (ctx, st)
      | None \<Rightarrow> ((RedactionsKey, VDst new) # ctx, st(new \<mapsto> CRedactions [] [])))"

definition RedactionsFrom :: "go_ctx \<Rightarrow> cells \<Rightarrow> string list \<times> string" where
  "RedactionsFrom ctx st =
     (case ctx_dst ctx RedactionsKey of
        None \<Rightarrow> ([], [])
      | Some a \<Rightarrow> (case st a of Some (CRedactions paths h) \<Rightarrow> (paths, h) | _ \<Rightarrow> ([], [])))"

definition setRedactions :: "go_ctx \<Rightarrow> string list \<times> string \<Rightarrow> cells \<Rightarrow> cells" where
  "setRedactions ctx r st =
     (case ctx_dst ctx RedactionsKey of None \<Rightarrow> st | Some a \<Rightarrow> st(a \<mapsto> CRedactions (fst r) (snd r)))"

section \<open>What a grant was bound to, and the grant\<close>

definition withGrantBinding :: "go_ctx \<Rightarrow> addr \<Rightarrow> go_ctx" where
  "withGrantBinding ctx dst = (GrantBindingKey, VDst dst) # ctx"

definition NoteGrantBinding :: "go_ctx \<Rightarrow> string \<Rightarrow> cells \<Rightarrow> cells" where
  "NoteGrantBinding ctx task st =
     (case ctx_dst ctx GrantBindingKey of None \<Rightarrow> st | Some a \<Rightarrow> st(a \<mapsto> CBinding task))"

text \<open>What the tests of other packages read and seed.\<close>

definition WithGrantBindingForTest :: "go_ctx \<Rightarrow> addr option \<Rightarrow> go_ctx" where
  "WithGrantBindingForTest ctx dst = (case dst of None \<Rightarrow> ctx | Some a \<Rightarrow> withGrantBinding ctx a)"

definition WithGrant :: "go_ctx \<Rightarrow> string \<Rightarrow> go_ctx" where
  "WithGrant ctx token = (GrantKey, VToken token) # ctx"

definition grantFrom :: "go_ctx \<Rightarrow> string" where
  "grantFrom ctx = (case ctx_Value ctx GrantKey of Some (VToken s) \<Rightarrow> s | _ \<Rightarrow> [])"

definition GrantFromContextForTest :: "go_ctx \<Rightarrow> string" where
  "GrantFromContextForTest ctx = grantFrom ctx"

section \<open>The taxonomy of the request\<close>

definition pin_registry :: "go_ctx \<Rightarrow> registry option \<Rightarrow> go_ctx" where
  "pin_registry ctx reg = (case reg of None \<Rightarrow> ctx | Some r \<Rightarrow> (RegistryKey, VRegistry r) # ctx)"

definition registryFrom :: "go_ctx \<Rightarrow> registry option" where
  "registryFrom ctx = (case ctx_Value ctx RegistryKey of Some (VRegistry r) \<Rightarrow> Some r | _ \<Rightarrow> None)"

text \<open>The taxonomy a reload replaces, which a request falls back to when none is pinned.\<close>

definition NewSwappable :: "registry option \<Rightarrow> registry option" where
  "NewSwappable reg = set_registry None reg"

definition Swappable_Registry :: "registry option \<Rightarrow> registry option" where
  "Swappable_Registry s = s"

text \<open>Once there is a taxonomy there always is one, and it is the last that was built.\<close>

lemma taxonomy_stays:
  "Swappable_Registry (foldl set_registry (NewSwappable (Some reg)) regs) =
     Some (case List.map_filter id (rev regs) of [] \<Rightarrow> reg | r # rs \<Rightarrow> r)"
  by (induction regs rule: rev_induct)
    (auto simp: Swappable_Registry_def NewSwappable_def set_registry_def map_filter_simps split: option.split)

section \<open>The invocation context and the correlation id\<close>

text \<open>\<open>callctx.NewContext\<close> and \<open>FromContext\<close>: the last one put there.\<close>

definition callctx_New :: "go_ctx \<Rightarrow> invocation_context \<Rightarrow> go_ctx" where
  "callctx_New ctx ic = (InvocationKey, VInvocation ic) # ctx"

definition callctx_From :: "go_ctx \<Rightarrow> invocation_context option" where
  "callctx_From ctx = (case ctx_Value ctx InvocationKey of Some (VInvocation ic) \<Rightarrow> Some ic | _ \<Rightarrow> None)"

text \<open>Eight random bytes, when there are any; the clock otherwise.\<close>

definition newCorrelationID :: "bytes option \<Rightarrow> int \<Rightarrow> string" where
  "newCorrelationID r unix_nano =
     (case r of None \<Rightarrow> ''corr_'' @ int_text unix_nano | Some bs \<Rightarrow> ''corr_'' @ call_hex bs)"

section \<open>The context of a served request\<close>

text \<open>
  \<open>ServeHTTP\<close>: the taxonomy of the plane, a destination for the event id, and the grant when the header
  carried one.
\<close>

definition surface_ctx :: "go_ctx \<Rightarrow> registry \<Rightarrow> addr \<Rightarrow> string \<Rightarrow> go_ctx" where
  "surface_ctx base reg dst grant_header =
     (let ctx = WithEventID (pin_registry base (Some reg)) (Some dst)
      in if grant_header \<noteq> [] then WithGrant ctx grant_header else ctx)"

definition gctx_of :: "go_ctx \<Rightarrow> gctx" where
  "gctx_of ctx = \<lparr>x_EventID = ctx_dst ctx EventIDKey \<noteq> None, x_Redactions = ctx_dst ctx RedactionsKey \<noteq> None,
     x_Invocation = callctx_From ctx, x_Grant = grantFrom ctx\<rparr>"

lemmas ctx_defs = ctx_Value_def ctx_dst_def WithEventID_def withGrantBinding_def WithGrant_def grantFrom_def
  pin_registry_def registryFrom_def callctx_New_def callctx_From_def gctx_of_def

text \<open>Each value is found under its own key, and no other is disturbed.\<close>

lemma gctx_of_extended:
  "gctx_of (WithEventID ctx (Some a)) = (gctx_of ctx)\<lparr>x_EventID := True\<rparr>"
  "gctx_of (fst (WithRedactions ctx new st)) = (gctx_of ctx)\<lparr>x_Redactions := True\<rparr>"
  "gctx_of (withGrantBinding ctx a) = gctx_of ctx"
  "gctx_of (WithGrant ctx tok) = (gctx_of ctx)\<lparr>x_Grant := tok\<rparr>"
  "gctx_of (pin_registry ctx reg) = gctx_of ctx"
  "gctx_of (callctx_New ctx ic) = (gctx_of ctx)\<lparr>x_Invocation := Some ic\<rparr>"
  by (auto simp: ctx_defs WithRedactions_def split: option.splits ctx_val.splits)

text \<open>A nil registry is never pinned: the model of \<open>WithRegistry\<close> on the pinned value alone.\<close>

lemma registry_pinned: "registryFrom (pin_registry ctx reg) = WithRegistry (registryFrom ctx) reg"
  by (simp add: ctx_defs WithRegistry_def split: option.split)

text \<open>
  The context the surface builds over a request that brought no values of these is the one the model's
  requests have: an event-id destination, the grant of the header and nothing else; and the fold of the
  caller's token reads the taxonomy of the plane.
\<close>

lemma surface_ctx_is_request_ctx:
  assumes "\<forall>k v. (k, v) \<notin> set base"
  shows "gctx_of (surface_ctx base reg dst (hq_Grant q)) = request_ctx q"
    "registryFrom (surface_ctx base reg dst (hq_Grant q)) = Some reg"
    "ctx_dst (surface_ctx base reg dst (hq_Grant q)) EventIDKey = Some dst"
proof -
  have "base = []" using assms by (cases base) auto
  then show "gctx_of (surface_ctx base reg dst (hq_Grant q)) = request_ctx q"
    "registryFrom (surface_ctx base reg dst (hq_Grant q)) = Some reg"
    "ctx_dst (surface_ctx base reg dst (hq_Grant q)) EventIDKey = Some dst"
    by (simp_all add: surface_ctx_def Let_def ctx_defs request_ctx_def)
qed

text \<open>
  Through the destinations the chain only writes, one cell each: the surface reads back the id of the row
  the chain made, and nothing else it holds has moved.
\<close>

lemma event_id_comes_back:
  "noteEventID (WithEventID ctx (Some a)) i st = st(a \<mapsto> CString i)"
  "ctx_dst ctx EventIDKey = None \<Longrightarrow> noteEventID ctx i st = st"
  "noteEventID (callctx_New ctx ic) i st = noteEventID ctx i st"
  "noteEventID (WithGrant ctx tok) i st = noteEventID ctx i st"
  by (simp_all add: noteEventID_def ctx_defs)

text \<open>A second seeding keeps the record in place, so nothing noted is lost; without one, nothing is noted.\<close>

lemma redactions_come_back:
  assumes "WithRedactions ctx new st = (ctx', st')"
  shows "RedactionsFrom ctx' (setRedactions ctx' r st') = r"
    "WithRedactions ctx' new' st2 = (ctx', st2)"
  using assms
  by (auto simp: WithRedactions_def RedactionsFrom_def setRedactions_def ctx_dst_def ctx_Value_def
      split: option.splits ctx_val.splits)

lemma unseeded_redactions:
  "ctx_dst ctx RedactionsKey = None \<Longrightarrow> RedactionsFrom ctx (setRedactions ctx r st) = ([], [])"
  by (simp add: RedactionsFrom_def)

text \<open>
  The binding a verifier notes lands in the cell of its own call: an outer call's destination, or the one
  of a concurrent call, is not reached through it.
\<close>

lemma binding_is_the_calls:
  assumes "a \<noteq> b"
  shows "NoteGrantBinding (withGrantBinding ctx a) task st a = Some (CBinding task)"
    "NoteGrantBinding (withGrantBinding ctx a) task st b = st b"
  using assms by (simp_all add: NoteGrantBinding_def ctx_defs)

lemma grant_comes_back: "grantFrom (WithGrant ctx tok) = tok" "grantFrom [] = []"
  by (simp_all add: ctx_defs)

text \<open>An id of the clock and one of random bytes can only agree when the digits do.\<close>

lemma newCorrelationID_eq:
  "newCorrelationID (Some bs) t = newCorrelationID (Some bs') t' \<longleftrightarrow> call_hex bs = call_hex bs'"
  by (simp add: newCorrelationID_def)

end
