(* ===== verification/Spec2Isabelle.thy ===== *)
theory Spec2Isabelle
  imports Catalog Mount CardProps ChainProps Violations Narrow Verify Grants GrantConfig
    AudienceProps CatalogueProps Store Plane ReloadProps
    Transport Reconcile Serve ServeProps Recorder StartupProps
    Check Minters Hop Report Command Live Slog CallContext
begin

text \<open>
  A verification development for garmd, a policy-enforcing proxy between agents and the tools they may
  call. The model is a shallow embedding of the Go packages of the repository: a struct is a record (its
  fields prefixed), an enumeration a datatype, every operation a function named as in the source on
  explicit state, every error a value, the two concurrent parts step relations. File names below are
  relative to the repository's root.

  Parts, and how they interact. A process starts (\<open>serve.go\<close>, theory \<open>Startup\<close>): it pairs issuers with
  key sets and sizes the replay cache (\<open>grants.go\<close>, \<open>issuers.go\<close>, \<open>GrantConfig\<close>), reads the redaction
  key, loads the catalogue (\<open>internal/catalogue\<close>, \<open>Catalogue\<close> and \<open>Store\<close>) from a file or an object,
  asks each issuer what it mints (\<open>internal/authn/metadata.go\<close>, \<open>Startup\<close>), builds the chain of that
  generation (\<open>internal/serve/plane.go\<close>, \<open>Plane\<close>) and listens. A request (\<open>internal/serve/serve.go\<close>,
  \<open>listtools.go\<close>, \<open>Serve\<close>) pins the current generation, is identified (\<open>internal/authn\<close>: \<open>Claims\<close>,
  \<open>Fold\<close>, \<open>Jwks\<close>, \<open>Verify\<close>), and is either a listing (\<open>internal/toolplane/catalog.go\<close>, \<open>schema.go\<close>,
  \<open>Catalog\<close> and \<open>Schema\<close>) or a call through the chain of ten steps (\<open>internal/toolplane/core.go\<close>,
  \<open>Core\<close> and \<open>Chain\<close>): visibility, input policy and validation, instance authorization, the approval
  (\<open>internal/grants\<close>, \<open>internal/replay\<close>: \<open>Grants\<close>, \<open>Replay\<close>), availability, the audit write-ahead
  (\<open>internal/audit/jetstream\<close>, \<open>AuditSink\<close>), the resolver, the post-check, redaction and the walk over
  the cards of the answer (\<open>internal/toolplane/sanitise.go\<close>, \<open>CardReach\<close> and \<open>Cards\<close>), and the deferred row
  (\<open>internal/record/jetstream\<close>, \<open>Recorder\<close>). Beside requests run the poller, which replaces the
  catalogue or refuses to (\<open>internal/reload\<close>, \<open>Reload\<close>), and the reconciler, which refuses to route to a
  service that runs another contract (\<open>internal/serve/reconcile.go\<close>, \<open>Reconcile\<close>), on what discovery
  hears (\<open>internal/transport\<close>, \<open>Transport\<close>). A call the chain lets through crosses to its service
  over NATS (\<open>internal/transport/nats\<close>, \<open>Transport\<close> and \<open>Hop\<close>), and what goes wrong there comes back through the
  same chain. The values the layers hand each other on the Go context (\<open>internal/toolplane/eventid.go\<close>,
  \<open>redactions.go\<close>, \<open>binding.go\<close>, \<open>internal/authn/registry.go\<close>) are \<open>CallContext\<close>. Rows that are not published
  are log lines (\<open>internal/record/slog.go\<close>, \<open>Slog\<close>). The whole process at work, polls and requests through the
  bearer middleware, which arrive and are answered later, in any order, is \<open>Live\<close>. What a process prints is \<open>Report\<close>, its command line
  (\<open>cmd/garmd/main.go\<close>) \<open>Command\<close>, \<open>garmd check\<close> (\<open>cmd/garmd/check.go\<close>) \<open>Check\<close>; the harness that holds token
  minters to this verifier (\<open>internal/conformance\<close>) is \<open>Conformance\<close> and \<open>Minters\<close>.

  State. \<open>core\<close> is the chain of one generation (mounted tools, plans, memo tables, seams); a call threads
  \<open>cst\<close>, its event, its core and the history of effects, newest first. A pointer to a generation is its
  address with the catalogue (\<open>'p gen\<close>), so two loads of one artifact are two generations. \<open>store\<close>,
  \<open>handler\<close>, \<open>poller\<close>, \<open>reconciler\<close>, \<open>keyset\<close> and the batching recorder's state are records with the
  fields of their structs; a mutex is the atomicity of an operation. Code outside the repository is a parameter: the policy
  package, protobuf decoding, the validator and CEL, JOSE, JSON, the wire codecs, the ledger's
  conversions, the key-value bucket, streams, NATS replies, clocks and fresh identifiers. What is relied
  on is a named hypothesis (\<open>allows_order\<close>, \<open>covers_order\<close>, \<open>codeOf_spec\<close>, \<open>kv_spec\<close>,
  \<open>js_spec\<close>, \<open>fair_order\<close>, \<open>faithful\<close>, ...), each met by a concrete instance in a witness. A seam
  (authorization, grants, notification, audit, recorder, resolver) may answer differently each time it
  is asked, and may panic.

  Results. Visibility and authority: narrowing, delegation, the catalogue and the listing show no more
  than each dimension allows (\<open>Narrow\<close>, \<open>Fold\<close>, \<open>Catalog\<close>, \<open>ServeProps\<close>). The chain (\<open>ChainProps\<close>): a resolver
  runs at most once and behind every gate, every path leaves exactly one row, what is answered is the
  sanitised message, in which every label of a card is cleared. Identity and approvals (\<open>Verify\<close>, \<open>Jwks\<close>,
  \<open>Grants\<close>, \<open>GrantConfig\<close>): a principal or an approval is accepted only after every check, and one
  approval authorises one call of a deployment (an issuer's clock that is ahead apart). Generations (\<open>Plane\<close>, \<open>ReloadProps\<close>, \<open>StartupProps\<close>):
  whatever is polled and requested after a start, the catalogue, chain and taxonomy in force are one
  admitted generation's, governed by what the process was started with; polls refine a register.
  Records (\<open>Recorder\<close>, \<open>AuditSink\<close>): no ledger row is lost in any interleaving, and a fail-closed tool
  runs only once its intent is kept. The wire (\<open>ServeProps\<close>), discovery and sweeps (\<open>Transport\<close>, \<open>Reconcile\<close>).
  The hop (\<open>Hop\<close>): every way it can end has its own answer and its own row. The whole process (\<open>Live\<close>):
  after any polls and requests it is still governed, and a resolver runs only for the caller a token of
  its own issuers vouches for. The report says what runs and can always be printed (\<open>Report\<close>); a process is
  what its flags say (\<open>Command\<close>); what a log line keeps of a row (\<open>Slog\<close>).
  \<open>garmd check\<close> answers about the artifact as a start would (\<open>Check\<close>), and a conformance suite that reports success has been
  checked (\<open>Conformance\<close>, \<open>Minters\<close>). Where code and comment part ways the lemma says what the code does.

  Structure. \<open>Prelude\<close> holds the shared vocabulary, \<open>Proto\<close> descriptors and values, \<open>Plugins\<close> the seams.
  Interfaces are locales, interpreted on the model where it provides them: \<open>card_viewer\<close> (what the card
  walk needs of a viewer), \<open>lawful_step\<close> and \<open>memo_step\<close> (what a step of the chain keeps), \<open>narrowing\<close> (a
  way of cutting authority down).

  Bounds. Fuel of the reachability search is the number of descriptors and one more, that of the scan of unread bytes
  their number; both are proved enough. Sixteen is the structural and four the policy bound of a
  delegation chain. Integers are unbounded where the source's cannot overflow, and wrap (\<open>wrap64\<close>, words)
  where they can; durations are nanoseconds. Case folding is ASCII; a date of a token is rounded to a
  float64, truncated to int64 and counted from the year 1 as the library does (\<open>numericDate\<close>), wrapping
  out of range; \<open>int(d.Seconds())\<close> of an approval's ceiling is taken without its rounding; where the
  source sorts unstably, keys are distinct or the statement is about sets. A panic on a card whose
  disclosure is a map (\<open>record_disclosure\<close>) is left out, and an error's text may leave out the values
  the source formats into it.

  Not modelled. Wall-clock deadlines and latency (an operation that times out is one that answers an error),
  data races and two calls interleaved inside the chain (what they share is locked), the texts of the running log and how a handler formats a line of it, the inside of the S3,
  HTTP and NATS clients, splitting a command line, the PEM and X.509 decoders and URL encoding
  (libraries the sources call). Tests and generated code are not part of the program.
\<close>

end
